(* ===== verification/Prelude.thy ===== *)
theory Prelude
  imports Main "HOL-Library.Word" "HOL-Library.AList" "HOL-Library.Code_Target_Nat"
begin

text \<open>
  What the components share.

  Part 1 holds the collections of simplification rules the component proofs rest on and the
  names of the machine types (a Go \<open>byte\<close>, \<open>uint16\<close>, \<open>uint32\<close>, \<open>uint64\<close> is a word of that
  width; a Go string is a list of 8-bit characters).

  Part 2 models the functions of the packages \<open>strings\<close> and \<open>strconv\<close> that the sources call:
  \<open>HasPrefix\<close>, \<open>HasSuffix\<close>, \<open>TrimPrefix\<close>, \<open>TrimSuffix\<close>, \<open>IndexByte\<close>, \<open>LastIndexByte\<close>,
  \<open>ToLower\<close>, \<open>EqualFold\<close> and \<open>TrimSpace\<close> (on ASCII), \<open>Split\<close> and \<open>Join\<close> on a one-byte separator, \<open>Itoa\<close>,
  \<open>Atoi\<close> and \<open>ParseUint\<close>. An index of -1 is \<open>None\<close>. The main fact is that \<open>Atoi\<close> reads back what
  \<open>Itoa\<close> writes.

  Part 3 models the big-endian byte order of \<open>encoding/binary\<close> and proves both round trips.

  Part 4 holds facts on association lists, which model Go maps: the list is one of the orders in
  which Go may iterate over the map, and a statement for every list holds for every order.
\<close>

section \<open>Collections and type names\<close>

named_theorems go_string
  \<comment> \<open>unfolding rules of the string functions\<close>
named_theorems codec
  \<comment> \<open>round-trip equations of encoders and decoders\<close>

type_synonym byte = "8 word"
type_synonym u16 = "16 word"
type_synonym u32 = "32 word"
type_synonym u64 = "64 word"
type_synonym u128 = "128 word"

text \<open>Signed integers are words as well; \<open>sint\<close> reads them. A Go conversion is \<open>ucast\<close> or \<open>scast\<close>.\<close>

type_synonym i32 = "32 word"
type_synonym i64 = "64 word"

unbundle bit_operations_syntax

section \<open>Strings\<close>

definition has_prefix :: "'a list \<Rightarrow> 'a list \<Rightarrow> bool" where
  "has_prefix s p \<longleftrightarrow> take (length p) s = p"

definition has_suffix :: "'a list \<Rightarrow> 'a list \<Rightarrow> bool" where
  "has_suffix s x \<longleftrightarrow> length x \<le> length s \<and> drop (length s - length x) s = x"

definition trim_prefix :: "'a list \<Rightarrow> 'a list \<Rightarrow> 'a list" where
  "trim_prefix s p = (if has_prefix s p then drop (length p) s else s)"

definition trim_suffix :: "'a list \<Rightarrow> 'a list \<Rightarrow> 'a list" where
  "trim_suffix s x = (if has_suffix s x then take (length s - length x) s else s)"

fun index_byte :: "'a \<Rightarrow> 'a list \<Rightarrow> nat option" where
  "index_byte c [] = None"
| "index_byte c (x # xs) = (if x = c then Some 0 else map_option Suc (index_byte c xs))"

definition last_index_byte :: "'a \<Rightarrow> 'a list \<Rightarrow> nat option" where
  "last_index_byte c s = map_option (\<lambda>i. length s - Suc i) (index_byte c (rev s))"

definition char_lower :: "char \<Rightarrow> char" where
  "char_lower c =
     (if 65 \<le> (of_char c :: nat) \<and> (of_char c :: nat) \<le> 90 then char_of (of_char c + 32 :: nat) else c)"

definition to_lower :: "string \<Rightarrow> string" where
  "to_lower s = map char_lower s"

definition equal_fold :: "string \<Rightarrow> string \<Rightarrow> bool" where
  "equal_fold a b \<longleftrightarrow> to_lower a = to_lower b"

text \<open>\<open>TrimSpace\<close> on ASCII: tab, line feed, vertical tab, form feed, carriage return and space.\<close>

definition is_space :: "char \<Rightarrow> bool" where
  "is_space c \<longleftrightarrow> 9 \<le> (of_char c :: nat) \<and> (of_char c :: nat) \<le> 13 \<or> c = CHR '' ''"

definition trim_space :: "string \<Rightarrow> string" where
  "trim_space s = rev (dropWhile is_space (rev (dropWhile is_space s)))"

fun split_byte :: "'a \<Rightarrow> 'a list \<Rightarrow> 'a list list" where
  "split_byte c [] = [[]]"
| "split_byte c (x # xs) =
     (if x = c then [] # split_byte c xs
      else (case split_byte c xs of [] \<Rightarrow> [[x]] | w # ws \<Rightarrow> (x # w) # ws))"

fun join_byte :: "'a \<Rightarrow> 'a list list \<Rightarrow> 'a list" where
  "join_byte c [] = []"
| "join_byte c [w] = w"
| "join_byte c (w # ws) = w @ c # join_byte c ws"

definition digit_char :: "nat \<Rightarrow> char" where
  "digit_char d = char_of (48 + d)"

definition hex_digit :: "nat \<Rightarrow> char" where
  "hex_digit n = (if n < 10 then char_of (48 + n) else char_of (87 + n))"

definition is_digit :: "char \<Rightarrow> bool" where
  "is_digit c \<longleftrightarrow> 48 \<le> (of_char c :: nat) \<and> (of_char c :: nat) \<le> 57"

definition digit_val :: "char \<Rightarrow> nat" where
  "digit_val c = of_char c - 48"

fun itoa :: "nat \<Rightarrow> string" where
  "itoa n = (if n < 10 then [digit_char n] else itoa (n div 10) @ [digit_char (n mod 10)])"

declare itoa.simps [simp del]

definition digits_val :: "string \<Rightarrow> nat" where
  "digits_val s = foldl (\<lambda>acc c. acc * 10 + digit_val c) 0 s"

text \<open>
  \<open>strconv.Atoi\<close>: an optional sign, then one or more decimal digits, within the range of a 64-bit
  \<open>int\<close>; everything else is an error.
\<close>

definition atoi :: "string \<Rightarrow> int option" where
  "atoi s =
     (let neg = (s \<noteq> [] \<and> hd s = CHR ''-'');
          ds = (if s \<noteq> [] \<and> (hd s = CHR ''-'' \<or> hd s = CHR ''+'') then tl s else s);
          v = int (digits_val ds)
      in if ds = [] \<or> \<not> list_all is_digit ds then None
         else if neg then (if v \<le> 2 ^ 63 then Some (- v) else None)
         else (if v < 2 ^ 63 then Some v else None))"

text \<open>\<open>strconv.ParseUint(s, 10, bits)\<close>: decimal digits only, below \<open>2 ^ bits\<close>.\<close>

definition parse_uint :: "nat \<Rightarrow> string \<Rightarrow> nat option" where
  "parse_uint bits s =
     (if s = [] \<or> \<not> list_all is_digit s then None
      else if digits_val s < 2 ^ bits then Some (digits_val s) else None)"

subsection \<open>Prefixes and suffixes\<close>

lemma has_prefix_iff: "has_prefix s p \<longleftrightarrow> (\<exists>r. s = p @ r)"
  unfolding has_prefix_def by (metis append_eq_conv_conj append_take_drop_id)

lemma has_suffix_iff: "has_suffix s x \<longleftrightarrow> (\<exists>r. s = r @ x)"
proof
  assume "has_suffix s x"
  then have "s = take (length s - length x) s @ x"
    unfolding has_suffix_def by (metis append_take_drop_id)
  then show "\<exists>r. s = r @ x" ..
qed (auto simp: has_suffix_def)

lemma has_prefix_refl [simp]: "has_prefix s s"
  by (simp add: has_prefix_def)

lemma has_prefix_Nil [simp]: "has_prefix s []"
  by (simp add: has_prefix_def)

lemma has_prefix_append [simp]: "has_prefix (p @ r) p"
  by (simp add: has_prefix_def)

lemma has_suffix_append [simp]: "has_suffix (r @ x) x"
  by (simp add: has_suffix_def)

lemma trim_prefix_append [simp]: "trim_prefix (p @ r) p = r"
  by (simp add: trim_prefix_def)

lemma trim_suffix_append [simp]: "trim_suffix (r @ x) x = r"
  by (simp add: trim_suffix_def)

text \<open>Two prefixes of one string are comparable.\<close>

lemma has_prefix_comparable:
  assumes "has_prefix s p" and "has_prefix s q"
  shows "has_prefix p q \<or> has_prefix q p"
proof -
  from assms obtain r t where "s = p @ r" and "s = q @ t"
    unfolding has_prefix_iff by blast
  then have "p @ r = q @ t" by simp
  then show ?thesis
    by (auto simp: append_eq_append_conv2 has_prefix_iff)
qed

lemma has_prefix_trans: "has_prefix s p \<Longrightarrow> has_prefix p q \<Longrightarrow> has_prefix s q"
  by (auto simp: has_prefix_iff)

subsection \<open>Searching for a byte\<close>

lemma index_byte_None [simp]: "index_byte c s = None \<longleftrightarrow> c \<notin> set s"
  by (induction s) auto

lemma index_byte_append: "c \<notin> set a \<Longrightarrow> index_byte c (a @ c # b) = Some (length a)"
  by (induction a) auto

lemma index_byte_Some:
  "index_byte c s = Some i \<Longrightarrow> i < length s \<and> s ! i = c \<and> c \<notin> set (take i s)"
  by (induction s arbitrary: i) (auto split: if_splits)

lemma index_byte_Some_split:
  assumes "index_byte c s = Some i"
  shows "s = take i s @ c # drop (Suc i) s"
  using index_byte_Some [OF assms] by (metis id_take_nth_drop)

lemma last_index_byte_append: "c \<notin> set b \<Longrightarrow> last_index_byte c (a @ c # b) = Some (length a)"
  by (simp add: last_index_byte_def index_byte_append)

lemma last_index_byte_None [simp]: "last_index_byte c s = None \<longleftrightarrow> c \<notin> set s"
  by (simp add: last_index_byte_def)

subsection \<open>Splitting and joining\<close>

lemma split_byte_not_Nil [simp]: "split_byte c s \<noteq> []"
  by (induction s) (auto split: list.splits)

lemma split_byte_append:
  "c \<notin> set w \<Longrightarrow> split_byte c (w @ c # s) = w # split_byte c s"
  by (induction w) auto

lemma split_byte_single: "c \<notin> set w \<Longrightarrow> split_byte c w = [w]"
  by (induction w) auto

lemma split_join_byte [codec]:
  assumes "ws \<noteq> []" and "\<forall>w \<in> set ws. c \<notin> set w"
  shows "split_byte c (join_byte c ws) = ws"
  using assms
  by (induction c ws rule: join_byte.induct) (auto simp: split_byte_append split_byte_single)

lemma join_split_byte [codec]: "join_byte c (split_byte c s) = s"
proof (induction s)
  case (Cons x xs)
  show ?case
  proof (cases "split_byte c xs")
    case (Cons w ws)
    with Cons.IH show ?thesis by (cases ws) auto
  qed simp
qed simp

lemma split_byte_parts: "w \<in> set (split_byte c s) \<Longrightarrow> c \<notin> set w"
  by (induction s arbitrary: w) (auto split: list.splits if_splits)

subsection \<open>Decimal numbers\<close>

lemma digit_val_char [simp]: "d < 10 \<Longrightarrow> digit_val (digit_char d) = d"
  by (simp add: digit_val_def digit_char_def)

lemma is_digit_char [simp]: "d < 10 \<Longrightarrow> is_digit (digit_char d)"
  by (simp add: is_digit_def digit_char_def)

lemma digits_val_snoc [simp]: "digits_val (s @ [c]) = digits_val s * 10 + digit_val c"
  by (simp add: digits_val_def)

lemma itoa_not_Nil [simp]: "itoa n \<noteq> []"
  by (subst itoa.simps) simp

lemma itoa_digits [simp]: "list_all is_digit (itoa n)"
proof (induction n rule: itoa.induct)
  case (1 n)
  then show ?case by (subst itoa.simps) simp
qed

lemma digits_val_itoa [codec, simp]: "digits_val (itoa n) = n"
proof (induction n rule: itoa.induct)
  case (1 n)
  show ?case
  proof (cases "n < 10")
    case True
    then show ?thesis by (subst itoa.simps) (simp add: digits_val_def)
  next
    case False
    with 1 have "digits_val (itoa (n div 10)) = n div 10" by simp
    with False show ?thesis by (subst itoa.simps) simp
  qed
qed

lemma itoa_inject [simp]: "itoa m = itoa n \<longleftrightarrow> m = n"
  by (metis digits_val_itoa)

lemma is_digit_not_sign: "is_digit c \<Longrightarrow> c \<noteq> CHR ''-'' \<and> c \<noteq> CHR ''+'' \<and> c \<noteq> CHR ''/'' \<and> c \<noteq> CHR '':''"
  by (auto simp: is_digit_def)

lemma itoa_chars: "c \<in> set (itoa n) \<Longrightarrow> is_digit c"
  using itoa_digits [of n] by (simp add: list_all_iff)

lemma itoa_no_sep [simp]:
  "CHR ''/'' \<notin> set (itoa n)" "CHR '':'' \<notin> set (itoa n)"
  using itoa_chars is_digit_not_sign by blast+

lemma itoa_hd_digit: "is_digit (hd (itoa n))"
  using itoa_chars [of "hd (itoa n)" n] by simp

lemma atoi_itoa [codec]: "n < 2 ^ 63 \<Longrightarrow> atoi (itoa n) = Some (int n)"
  using itoa_hd_digit [of n] is_digit_not_sign [of "hd (itoa n)"]
  by (auto simp: atoi_def Let_def)

lemma parse_uint_itoa [codec]: "n < 2 ^ b \<Longrightarrow> parse_uint b (itoa n) = Some n"
  by (simp add: parse_uint_def)

lemma parse_uint_bound: "parse_uint b s = Some n \<Longrightarrow> n < 2 ^ b"
  by (auto simp: parse_uint_def split: if_splits)

section \<open>Big-endian bytes\<close>

definition be_bytes :: "nat \<Rightarrow> 'a::len word \<Rightarrow> byte list" where
  "be_bytes n w = map (\<lambda>i. ucast (drop_bit (8 * i) w)) (rev [0..<n])"

definition be_word :: "byte list \<Rightarrow> 'a::len word" where
  "be_word bs = foldl (\<lambda>acc b. push_bit 8 acc OR ucast b) 0 bs"

lemma length_be_bytes [simp]: "length (be_bytes n w) = n"
  by (simp add: be_bytes_def)

lemma be_bytes_nth: "i < n \<Longrightarrow> be_bytes n w ! i = ucast (drop_bit (8 * (n - Suc i)) w)"
  by (simp add: be_bytes_def rev_nth)

lemma be_word_snoc: "be_word (bs @ [b]) = push_bit 8 (be_word bs) OR ucast b"
  by (simp add: be_word_def)

lemma bit_be_word:
  "bit (be_word bs :: 'a::len word) i \<longleftrightarrow>
     i < LENGTH('a) \<and> i div 8 < length bs \<and> bit (bs ! (length bs - Suc (i div 8))) (i mod 8)"
proof (induction bs arbitrary: i rule: rev_induct)
  case Nil
  then show ?case by (simp add: be_word_def)
next
  case (snoc b bs)
  show ?case
  proof (cases "i < 8")
    case True
    then show ?thesis
      by (auto simp: be_word_snoc bit_or_iff bit_push_bit_iff bit_ucast_iff nth_append)
  next
    case False
    then have d: "i div 8 = Suc ((i - 8) div 8)" and m: "i mod 8 = (i - 8) mod 8"
      by (simp_all add: le_div_geq le_mod_geq)
    have "\<not> bit b i"
      using False bit_imp_le_length [of b i] by auto
    then show ?thesis
      using False snoc.IH [of "i - 8"] d m
      by (auto simp: be_word_snoc bit_or_iff bit_push_bit_iff bit_ucast_iff nth_append)
  qed
qed

lemma be_word_be_bytes [codec]:
  fixes w :: "'a::len word"
  assumes "LENGTH('a) = 8 * n"
  shows "be_word (be_bytes n w) = w"
proof (rule bit_word_eqI)
  fix i assume "i < LENGTH('a)"
  with assms have "i div 8 < n" by simp
  then show "bit (be_word (be_bytes n w) :: 'a word) i \<longleftrightarrow> bit w i"
    using \<open>i < LENGTH('a)\<close>
    by (simp add: bit_be_word be_bytes_nth bit_ucast_iff bit_drop_bit_eq)
qed

lemma be_word_be_bytes_take: "be_word (be_bytes n w) = take_bit (8 * n) (w :: 'a::len word)"
proof (rule bit_word_eqI)
  fix i assume "i < LENGTH('a)"
  then show "bit (be_word (be_bytes n w) :: 'a word) i \<longleftrightarrow> bit (take_bit (8 * n) w) i"
    by (auto simp: bit_be_word be_bytes_nth bit_ucast_iff bit_drop_bit_eq bit_take_bit_iff)
qed

lemma take_be_bytes: "k \<le> n \<Longrightarrow> take k (be_bytes n w) = be_bytes k (drop_bit (8 * (n - k)) w)"
  by (rule nth_equalityI) (auto simp: be_bytes_nth algebra_simps)

lemma be_bytes_be_word [codec]:
  assumes "length bs = n" and "LENGTH('a::len) = 8 * n"
  shows "be_bytes n (be_word bs :: 'a word) = bs"
proof (rule nth_equalityI)
  show "length (be_bytes n (be_word bs :: 'a word)) = length bs" using assms by simp
next
  fix i assume "i < length (be_bytes n (be_word bs :: 'a word))"
  then have i: "i < n" by simp
  show "be_bytes n (be_word bs :: 'a word) ! i = bs ! i"
  proof (rule bit_word_eqI)
    fix j assume j: "j < LENGTH(8)"
    have "(8 * (n - Suc i) + j) div 8 = n - Suc i" and "(8 * (n - Suc i) + j) mod 8 = j"
      using j by simp_all
    moreover have "8 * (n - Suc i) + j < 8 * n"
      using i j by simp
    ultimately show "bit (be_bytes n (be_word bs :: 'a word) ! i) j = bit (bs ! i) j"
      using i j assms
      by (simp add: be_bytes_nth bit_ucast_iff bit_drop_bit_eq bit_be_word)
  qed
qed

section \<open>Small numbers as words\<close>

lemma unat_of_nat_small: "n < 2 ^ LENGTH('a) \<Longrightarrow> unat (of_nat n :: 'a::len word) = n"
  by (simp add: unsigned_of_nat take_bit_nat_eq_self)

lemma of_nat_small_inject:
  "m < 2 ^ LENGTH('a) \<Longrightarrow> n < 2 ^ LENGTH('a) \<Longrightarrow> (of_nat m :: 'a::len word) = of_nat n \<longleftrightarrow> m = n"
  by (metis unat_of_nat_small)

section \<open>Association lists\<close>

lemma map_of_update [simp]: "map_of (AList.update k v m) = (map_of m)(k \<mapsto> v)"
  by (rule update_conv')

lemma map_of_delete [simp]: "map_of (AList.delete k m) = (map_of m)(k := None)"
  by (rule delete_conv')

lemma update_fresh: "k \<notin> fst ` set m \<Longrightarrow> AList.update k v m = m @ [(k, v)]"
  by (induction m) auto

lemma map_of_filter_distinct:
  "distinct (map fst m) \<Longrightarrow>
     map_of (filter (\<lambda>(k, v). P k v) m) k = (case map_of m k of None \<Rightarrow> None | Some v \<Rightarrow> if P k v then Some v else None)"
  by (induction m) (auto split: option.splits dest: map_of_SomeD simp: rev_image_eqI)

lemma distinct_keys_filter: "distinct (map fst m) \<Longrightarrow> distinct (map fst (filter P m))"
  by (induction m) auto

end
