(* ===== verification/Netip.thy ===== *)
theory Netip
  imports Prelude
begin

text \<open>
  The part of Go's package \<open>net/netip\<close> that the sources use: addresses, address and port pairs and
  prefixes, with the standard library's own case distinctions (the zero \<open>Addr\<close>, IPv4, IPv6 and the
  IPv4-mapped form of IPv6; a prefix whose length is out of range has \<open>Bits\<close> -1 and is invalid).
  IPv6 zones are not modelled: no operation below creates an address with one.

  The order of \<open>Addr.Less\<close> makes the addresses a linear order, so the library's sorting applies to
  them. The last section shows how prefixes relate: two with a common address overlap, and
  of two that overlap one contains the other's address.
\<close>

section \<open>Addresses\<close>

datatype addr = NoAddr | Addr4 u32 | Addr6 u128

fun is_valid :: "addr \<Rightarrow> bool" where
  "is_valid NoAddr = False"
| "is_valid (Addr4 w) = True"
| "is_valid (Addr6 w) = True"

fun is4 :: "addr \<Rightarrow> bool" where
  "is4 (Addr4 w) = True"
| "is4 a = False"

fun is6 :: "addr \<Rightarrow> bool" where
  "is6 (Addr6 w) = True"
| "is6 a = False"

fun is4in6 :: "addr \<Rightarrow> bool" where
  "is4in6 (Addr6 w) = (drop_bit 32 w = 0xffff)"
| "is4in6 a = False"

fun unmap :: "addr \<Rightarrow> addr" where
  "unmap (Addr6 w) = (if drop_bit 32 w = 0xffff then Addr4 (ucast w) else Addr6 w)"
| "unmap a = a"

definition map4 :: "u32 \<Rightarrow> u128" where
  "map4 w = word_cat (0xffff :: u64) w"

text \<open>\<open>AddrFrom16(a.As16())\<close>: the zero address gives \<open>::\<close>.\<close>

fun as16 :: "addr \<Rightarrow> u128" where
  "as16 NoAddr = 0"
| "as16 (Addr4 w) = map4 w"
| "as16 (Addr6 w) = w"

fun bit_len :: "addr \<Rightarrow> nat" where
  "bit_len NoAddr = 0"
| "bit_len (Addr4 w) = 32"
| "bit_len (Addr6 w) = 128"

fun as_slice :: "addr \<Rightarrow> byte list" where
  "as_slice NoAddr = []"
| "as_slice (Addr4 w) = be_bytes 4 w"
| "as_slice (Addr6 w) = be_bytes 16 w"

definition addr_from_slice :: "byte list \<Rightarrow> addr option" where
  "addr_from_slice bs =
     (if length bs = 4 then Some (Addr4 (be_word bs))
      else if length bs = 16 then Some (Addr6 (be_word bs))
      else None)"

lemma length_as_slice [simp]: "length (as_slice a) = bit_len a div 8"
  by (cases a) auto

lemma addr_from_slice_as_slice [codec]:
  "is_valid a \<Longrightarrow> addr_from_slice (as_slice a) = Some a"
  by (cases a) (auto simp: addr_from_slice_def be_word_be_bytes)

lemma bit_ffff: "bit (0xffff :: 'a::len word) n \<longleftrightarrow> n < 16 \<and> n < LENGTH('a)"
proof -
  have "(0xffff :: 'a word) = mask 16" by (simp add: mask_eq_exp_minus_1)
  then show ?thesis by (simp only: bit_mask_iff) (auto simp: min_def)
qed

lemma drop_bit_map4 [simp]: "drop_bit 32 (map4 w) = 0xffff"
proof (rule bit_word_eqI)
  fix n :: nat
  show "bit (drop_bit 32 (map4 w)) n = bit (0xffff :: u128) n"
    unfolding map4_def bit_drop_bit_eq o_def bit_word_cat_iff bit_ffff by auto
qed

lemma ucast_map4 [simp]: "(ucast (map4 w) :: u32) = w"
  by (rule bit_word_eqI) (auto simp: map4_def bit_ucast_iff bit_word_cat_iff)

lemma map4_ucast:
  assumes "drop_bit 32 w = 0xffff"
  shows "map4 (ucast w) = w"
proof (rule bit_word_eqI)
  fix n assume n: "n < LENGTH(128)"
  show "bit (map4 (ucast w)) n = bit w n"
  proof (cases "n < 32")
    case True
    with n show ?thesis by (simp add: map4_def bit_word_cat_iff bit_ucast_iff)
  next
    case False
    then have "bit w n = bit (drop_bit 32 w) (n - 32)" by (simp add: bit_drop_bit_eq)
    also have "\<dots> = (n - 32 < 16)" using n unfolding assms bit_ffff by auto
    finally show ?thesis
      using False n unfolding map4_def bit_word_cat_iff bit_ffff by auto
  qed
qed

lemma unmap_as16 [simp]: "is_valid a \<Longrightarrow> unmap (Addr6 (as16 a)) = unmap a"
  by (cases a) auto

lemma is_valid_unmap [simp]: "is_valid (unmap a) = is_valid a"
  by (cases a) auto

lemma unmap_idem [simp]: "unmap (unmap a) = unmap a"
  by (cases a) auto

lemma unmap_not_4in6 [simp]: "\<not> is4in6 (unmap a)"
  by (cases a) auto

lemma unmap_id: "\<not> is4in6 a \<Longrightarrow> unmap a = a"
  by (cases a) auto

lemma is4_unmap: "is4 (unmap a) \<longleftrightarrow> is4 a \<or> is4in6 a"
  by (cases a) auto

record addr_port =
  ap_addr :: addr
  ap_port :: u16

section \<open>The order of addresses\<close>

text \<open>\<open>Addr.Less\<close> compares the bit lengths first and then the values.\<close>

fun addr_less :: "addr \<Rightarrow> addr \<Rightarrow> bool" where
  "addr_less (Addr4 a) (Addr4 b) = (a < b)"
| "addr_less (Addr6 a) (Addr6 b) = (a < b)"
| "addr_less a b = (bit_len a < bit_len b)"

instantiation addr :: linorder
begin

definition less_addr :: "addr \<Rightarrow> addr \<Rightarrow> bool" where
  "less_addr a b = addr_less a b"

definition less_eq_addr :: "addr \<Rightarrow> addr \<Rightarrow> bool" where
  "less_eq_addr a b = (addr_less a b \<or> a = b)"

instance
proof
  fix x y z :: addr
  show "x < y \<longleftrightarrow> x \<le> y \<and> \<not> y \<le> x"
    by (cases x; cases y) (auto simp: less_addr_def less_eq_addr_def)
  show "x \<le> x"
    by (simp add: less_eq_addr_def)
  show "x \<le> y \<Longrightarrow> y \<le> z \<Longrightarrow> x \<le> z"
    by (cases x; cases y; cases z) (auto simp: less_eq_addr_def)
  show "x \<le> y \<Longrightarrow> y \<le> x \<Longrightarrow> x = y"
    by (cases x; cases y) (auto simp: less_eq_addr_def)
  show "x \<le> y \<or> y \<le> x"
    by (cases x; cases y) (auto simp: less_eq_addr_def)
qed

end

section \<open>Prefixes\<close>

record prefix =
  paddr :: addr
  pbits :: int

definition no_prefix :: prefix where
  "no_prefix = \<lparr>paddr = NoAddr, pbits = -1\<rparr>"

definition prefix_from :: "addr \<Rightarrow> int \<Rightarrow> prefix" where
  "prefix_from a b =
     (if is_valid a \<and> 0 \<le> b \<and> b \<le> int (bit_len a) then \<lparr>paddr = a, pbits = b\<rparr>
      else \<lparr>paddr = a, pbits = -1\<rparr>)"

definition prefix_valid :: "prefix \<Rightarrow> bool" where
  "prefix_valid p \<longleftrightarrow> 0 \<le> pbits p"

text \<open>The prefixes the package can construct: \<open>Bits\<close> is in range, or -1.\<close>

definition prefix_wf :: "prefix \<Rightarrow> bool" where
  "prefix_wf p \<longleftrightarrow>
     pbits p = -1 \<or> is_valid (paddr p) \<and> 0 \<le> pbits p \<and> pbits p \<le> int (bit_len (paddr p))"

fun mask_addr :: "nat \<Rightarrow> addr \<Rightarrow> addr" where
  "mask_addr b NoAddr = NoAddr"
| "mask_addr b (Addr4 w) = Addr4 (push_bit (32 - b) (drop_bit (32 - b) w))"
| "mask_addr b (Addr6 w) = Addr6 (push_bit (128 - b) (drop_bit (128 - b) w))"

text \<open>\<open>Addr.Prefix\<close>: \<open>None\<close> is its error.\<close>

definition addr_prefix :: "addr \<Rightarrow> int \<Rightarrow> prefix option" where
  "addr_prefix a b =
     (if b < 0 then None
      else if a = NoAddr then Some no_prefix
      else if int (bit_len a) < b then None
      else Some (prefix_from (mask_addr (nat b) a) b))"

definition masked :: "prefix \<Rightarrow> prefix" where
  "masked p = (case addr_prefix (paddr p) (pbits p) of None \<Rightarrow> no_prefix | Some q \<Rightarrow> q)"

fun same_top :: "nat \<Rightarrow> addr \<Rightarrow> addr \<Rightarrow> bool" where
  "same_top b (Addr4 x) (Addr4 y) = (drop_bit (32 - b) x = drop_bit (32 - b) y)"
| "same_top b (Addr6 x) (Addr6 y) = (drop_bit (128 - b) x = drop_bit (128 - b) y)"
| "same_top b _ _ = False"

definition contains :: "prefix \<Rightarrow> addr \<Rightarrow> bool" where
  "contains p a \<longleftrightarrow> prefix_valid p \<and> same_top (nat (pbits p)) (paddr p) a"

text \<open>\<open>Prefix.Overlaps\<close>: the common prefix length decides; length 0 overlaps everything.\<close>

definition overlaps :: "prefix \<Rightarrow> prefix \<Rightarrow> bool" where
  "overlaps p q \<longleftrightarrow>
     prefix_valid p \<and> prefix_valid q \<and>
     (p = q \<or>
      is4 (paddr p) = is4 (paddr q) \<and>
      (min (pbits p) (pbits q) = 0 \<or>
       same_top (nat (min (pbits p) (pbits q))) (paddr p) (paddr q)))"

lemma bit_len_mask [simp]: "bit_len (mask_addr b a) = bit_len a"
  by (cases a) auto

lemma is_valid_mask [simp]: "is_valid (mask_addr b a) = is_valid a"
  by (cases a) auto

lemma is4_mask [simp]: "is4 (mask_addr b a) = is4 a"
  by (cases a) auto

lemma push_drop_eq_iff:
  fixes x y :: "'a::len word"
  shows "push_bit n (drop_bit n x) = push_bit n (drop_bit n y) \<longleftrightarrow> drop_bit n x = drop_bit n y"
proof
  assume eq: "push_bit n (drop_bit n x) = push_bit n (drop_bit n y)"
  show "drop_bit n x = drop_bit n y"
  proof (rule bit_word_eqI)
    fix i assume "i < LENGTH('a)"
    have "bit (push_bit n (drop_bit n x)) (n + i) = bit (push_bit n (drop_bit n y)) (n + i)"
      by (simp only: eq)
    then show "bit (drop_bit n x) i = bit (drop_bit n y) i"
      using bit_imp_le_length [of x "n + i"] bit_imp_le_length [of y "n + i"]
      by (auto simp: bit_push_bit_iff bit_drop_bit_eq)
  qed
qed simp

lemma mask_addr_eq_iff: "is_valid a \<Longrightarrow> mask_addr n a = mask_addr n b \<longleftrightarrow> same_top n a b"
  by (cases a; cases b) (auto simp: push_drop_eq_iff)

lemma same_top_refl [simp]: "same_top b a a \<longleftrightarrow> is_valid a"
  by (cases a) auto

lemma same_top_sym: "same_top b x y \<longleftrightarrow> same_top b y x"
  by (cases x; cases y) auto

lemma same_top_trans: "same_top b x y \<Longrightarrow> same_top b y z \<Longrightarrow> same_top b x z"
  by (cases x; cases y; cases z) auto

lemma same_top_bit_len: "same_top b x y \<Longrightarrow> bit_len x = bit_len y \<and> is_valid x \<and> is_valid y"
  by (cases x; cases y) auto

lemma drop_bit_mono_eq:
  fixes x y :: "'a::len word"
  assumes "drop_bit m x = drop_bit m y" and "m \<le> n"
  shows "drop_bit n x = drop_bit n y"
proof -
  have "drop_bit n z = drop_bit (n - m) (drop_bit m z)" for z :: "'a word"
    using assms(2) by simp
  then show ?thesis using assms(1) by metis
qed

lemma same_top_mono: "same_top b x y \<Longrightarrow> c \<le> b \<Longrightarrow> same_top c x y"
  by (cases x; cases y) (auto intro: drop_bit_mono_eq diff_le_mono2)

lemma same_top_mask: "same_top b (mask_addr b a) a \<longleftrightarrow> is_valid a"
proof (cases a)
  case (Addr4 w)
  have "drop_bit (32 - b) (push_bit (32 - b) (drop_bit (32 - b) w)) = drop_bit (32 - b) w"
    by (rule bit_word_eqI)
      (auto simp: bit_drop_bit_eq bit_push_bit_iff dest: bit_imp_le_length)
  then show ?thesis by (simp add: Addr4)
next
  case (Addr6 w)
  have "drop_bit (128 - b) (push_bit (128 - b) (drop_bit (128 - b) w)) = drop_bit (128 - b) w"
    by (rule bit_word_eqI)
      (auto simp: bit_drop_bit_eq bit_push_bit_iff dest: bit_imp_le_length)
  then show ?thesis by (simp add: Addr6)
qed simp

lemma contains_self: "prefix_wf p \<Longrightarrow> prefix_valid p \<Longrightarrow> contains p (paddr p)"
  by (auto simp: contains_def prefix_wf_def prefix_valid_def)

lemma prefix_wf_from [simp]: "prefix_wf (prefix_from a b)"
  by (auto simp: prefix_wf_def prefix_from_def)

text \<open>
  \<open>Overlaps\<close> decides whether the address sets of two prefixes meet: prefixes with a common address
  overlap, and of two prefixes that agree up to the shorter length one contains the other's address.
\<close>

lemma overlaps_if_common:
  assumes "contains p a" and "contains q a" and "prefix_wf p" and "prefix_wf q"
  shows "overlaps p q"
proof -
  from assms have p: "same_top (nat (pbits p)) (paddr p) a"
    and q: "same_top (nat (pbits q)) a (paddr q)"
    and v: "prefix_valid p" "prefix_valid q"
    by (auto simp: contains_def same_top_sym)
  let ?m = "nat (min (pbits p) (pbits q))"
  have "same_top ?m (paddr p) a" and "same_top ?m a (paddr q)"
    using p q by (auto elim!: same_top_mono)
  then have "same_top ?m (paddr p) (paddr q)" by (rule same_top_trans)
  moreover from this have "is4 (paddr p) = is4 (paddr q)"
    by (cases "paddr p"; cases "paddr q") auto
  ultimately show ?thesis using v by (simp add: overlaps_def)
qed

lemma contains_of_overlap:
  assumes "same_top (nat (min (pbits p) (pbits q))) (paddr p) (paddr q)"
    and "prefix_valid p" and "prefix_valid q"
  shows "contains p (paddr q) \<or> contains q (paddr p)"
  using assms by (auto simp: contains_def min_def same_top_sym split: if_splits)

end
