(* ===== verification/Ports.thy ===== *)
theory Ports
  imports Prelude
begin

text \<open>
  The port and protocol notation of \<^verbatim>\<open>pkg/types\<close>: \<open>Proto\<close> (a byte holding the IP protocol number),
  \<open>PortAndProto\<close>, \<open>PortIdentifier\<close> (\<^verbatim>\<open>name-or-number[/protocol]\<close>) and \<open>PortMapping\<close>
  (\<^verbatim>\<open>from:to[/protocol]\<close>). A Go pair of a value and an error is a sum, \<open>Inl\<close> the error, except where a
  caller reads the value in spite of the error (\<open>FromAndTo\<close>): there the error is an extra component.

  \<open>validation.IsDNS1035Label\<close> is code of k8s.io/apimachinery. It is the parameter \<open>is_label\<close> of the
  definitions that call it, and \<open>dns1035_labels\<close> states what its documentation promises.

  The lemmas show that every printer is read back by its parser: port numbers, protocol names,
  port-and-protocol pairs, port identifiers and port mappings.
\<close>

section \<open>Protocols\<close>

type_synonym proto = byte

abbreviation ProtoTCP :: proto where "ProtoTCP \<equiv> 6"
abbreviation ProtoUDP :: proto where "ProtoUDP \<equiv> 17"
abbreviation ProtoICMP :: proto where "ProtoICMP \<equiv> 1"
abbreviation ProtoICMPV6 :: proto where "ProtoICMPV6 \<equiv> 58"
abbreviation ProtoSCTP :: proto where "ProtoSCTP \<equiv> 132"

datatype port_error =
    ErrNotInteger
  | ErrPortRange string
  | ErrProto string
  | ErrLabel string
  | ErrNumber string

definition ParseProto :: "string \<Rightarrow> port_error + proto" where
  "ParseProto network =
     (let n = to_lower network in
      if n \<in> {'''', ''tcp'', ''tcp4'', ''tcp6''} then Inr ProtoTCP
      else if n \<in> {''udp'', ''udp4'', ''udp6''} then Inr ProtoUDP
      else if n = ''icmp'' then Inr ProtoICMP
      else if n = ''icmpv6'' then Inr ProtoICMPV6
      else if n = ''sctp'' then Inr ProtoSCTP
      else Inl (ErrProto network))"

definition FromK8sProtocol :: "string \<Rightarrow> proto" where
  "FromK8sProtocol protocol = (case ParseProto protocol of Inl _ \<Rightarrow> ProtoTCP | Inr p \<Rightarrow> p)"

definition Proto_String :: "proto \<Rightarrow> string" where
  "Proto_String p =
     (if p = ProtoICMP then ''ICMP''
      else if p = ProtoICMPV6 then ''ICMPv6''
      else if p = 0 \<or> p = ProtoTCP then ''TCP''
      else if p = ProtoUDP then ''UDP''
      else if p = ProtoSCTP then ''SCTP''
      else ''IP-protocol '' @ itoa (unat p))"

text \<open>The protocols that \<open>ParseProto\<close> can return.\<close>

definition supported :: "proto \<Rightarrow> bool" where
  "supported p \<longleftrightarrow> p \<in> {ProtoTCP, ProtoUDP, ProtoICMP, ProtoICMPV6, ProtoSCTP}"

section \<open>Port numbers\<close>

definition ParsePort :: "string \<Rightarrow> port_error + u16" where
  "ParsePort portStr =
     (case atoi portStr of
        None \<Rightarrow> Inl ErrNotInteger
      | Some port \<Rightarrow>
          if port < 1 \<or> 65535 < port then Inl (ErrPortRange portStr) else Inr (word_of_int port))"

record port_and_proto =
  Port :: u16
  Proto :: proto

definition ParsePortAndProto :: "string \<Rightarrow> port_error + port_and_proto" where
  "ParsePortAndProto s =
     (let finish = (\<lambda>p s'. case ParsePort s' of
                             Inl e \<Rightarrow> Inl e
                           | Inr n \<Rightarrow> Inr \<lparr>Port = n, Proto = p\<rparr>)
      in case index_byte (CHR ''/'') s of
           Some (Suc i) \<Rightarrow>
             (case ParseProto (drop (Suc (Suc i)) s) of
                Inl e \<Rightarrow> Inl e
              | Inr p \<Rightarrow> finish p (take (Suc i) s))
         | _ \<Rightarrow> finish ProtoTCP s)"

definition PortAndProto_String :: "port_and_proto \<Rightarrow> string" where
  "PortAndProto_String pp =
     (if Proto pp = ProtoTCP then itoa (unat (Port pp))
      else itoa (unat (Port pp)) @ ''/'' @ Proto_String (Proto pp))"

section \<open>Port identifiers\<close>

type_synonym port_identifier = string

definition ValidatePort :: "(string \<Rightarrow> bool) \<Rightarrow> string \<Rightarrow> port_error option" where
  "ValidatePort is_label s =
     (case ParsePort s of
        Inr _ \<Rightarrow> None
      | Inl ErrNotInteger \<Rightarrow> if is_label s then None else Some (ErrLabel s)
      | Inl e \<Rightarrow> Some e)"

definition NewPortIdentifier ::
  "(string \<Rightarrow> bool) \<Rightarrow> proto \<Rightarrow> string \<Rightarrow> port_error + port_identifier" where
  "NewPortIdentifier is_label p portString =
     (case ValidatePort is_label portString of
        Some e \<Rightarrow> Inl e
      | None \<Rightarrow>
          Inr (if p \<noteq> ProtoTCP then portString @ ''/'' @ Proto_String p else portString))"

definition HasProto :: "port_identifier \<Rightarrow> bool" where
  "HasProto spi = (case index_byte (CHR ''/'') spi of Some (Suc _) \<Rightarrow> True | _ \<Rightarrow> False)"

definition PortIdentifier_Validate ::
  "(string \<Rightarrow> bool) \<Rightarrow> port_identifier \<Rightarrow> port_error option" where
  "PortIdentifier_Validate is_label spi =
     (case index_byte (CHR ''/'') spi of
        Some (Suc i) \<Rightarrow>
          (case ParseProto (drop (Suc (Suc i)) spi) of
             Inl e \<Rightarrow> Some e
           | Inr _ \<Rightarrow> ValidatePort is_label (take (Suc i) spi))
      | _ \<Rightarrow> ValidatePort is_label spi)"

text \<open>The protocol is 0 when the suffix is not a protocol name: the source drops that error.\<close>

definition ProtoAndNameOrNumber :: "port_identifier \<Rightarrow> proto \<times> string \<times> u16" where
  "ProtoAndNameOrNumber spi =
     (let (p, s) = (case index_byte (CHR ''/'') spi of
                      Some (Suc i) \<Rightarrow>
                        (case ParseProto (drop (Suc (Suc i)) spi) of Inl _ \<Rightarrow> 0 | Inr q \<Rightarrow> q,
                         take (Suc i) spi)
                    | _ \<Rightarrow> (ProtoTCP, spi))
      in case ParsePort s of Inr n \<Rightarrow> (p, [], n) | Inl _ \<Rightarrow> (p, s, 0))"

datatype int_or_string = FromInt int | FromString string

definition AsIntOrStr :: "port_identifier \<Rightarrow> int_or_string" where
  "AsIntOrStr spi =
     (case ProtoAndNameOrNumber spi of (_, s, n) \<Rightarrow>
        if s = [] then FromInt (uint n) else FromString s)"

definition PortIdentifier_String :: "port_identifier \<Rightarrow> string" where
  "PortIdentifier_String spi =
     (case ProtoAndNameOrNumber spi of (p, s, n) \<Rightarrow>
        if s = [] \<and> p = ProtoTCP then itoa (unat n)
        else if s \<noteq> [] \<and> p = ProtoTCP then s
        else if s = [] then itoa (unat n) @ ''/'' @ Proto_String p
        else s @ ''/'' @ Proto_String p)"

section \<open>Port mappings\<close>

type_synonym port_mapping = string

definition NewPortMapping :: "port_identifier \<Rightarrow> u16 \<Rightarrow> port_mapping" where
  "NewPortMapping from to =
     (case ProtoAndNameOrNumber from of (p, s, n) \<Rightarrow>
        if s = [] \<and> p = ProtoTCP then itoa (unat n) @ '':'' @ itoa (unat to)
        else if s = [] then itoa (unat n) @ '':'' @ itoa (unat to) @ ''/'' @ Proto_String p
        else if p = ProtoTCP then s @ '':'' @ itoa (unat to)
        else s @ '':'' @ itoa (unat to) @ ''/'' @ Proto_String p)"

definition FromAndTo ::
  "(string \<Rightarrow> bool) \<Rightarrow> port_mapping \<Rightarrow> port_identifier \<times> port_identifier \<times> port_error option" where
  "FromAndTo is_label ps =
     (case index_byte (CHR '':'') ps of
        Some (Suc i) \<Rightarrow>
          (let to = drop (Suc (Suc i)) ps in
           case PortIdentifier_Validate is_label to of
             Some e \<Rightarrow> ([], to, Some e)
           | None \<Rightarrow>
               (case NewPortIdentifier is_label (fst (ProtoAndNameOrNumber to)) (take (Suc i) ps) of
                  Inl e \<Rightarrow> ([], to, Some e)
                | Inr from \<Rightarrow> (from, to, None)))
      | _ \<Rightarrow>
          (case PortIdentifier_Validate is_label ps of
             Some e \<Rightarrow> ([], ps, Some e)
           | None \<Rightarrow> (ps, ps, PortIdentifier_Validate is_label ps)))"

definition PortMapping_From :: "(string \<Rightarrow> bool) \<Rightarrow> port_mapping \<Rightarrow> port_identifier" where
  "PortMapping_From is_label p = fst (FromAndTo is_label p)"

definition PortMapping_To :: "(string \<Rightarrow> bool) \<Rightarrow> port_mapping \<Rightarrow> port_identifier" where
  "PortMapping_To is_label p = fst (snd (FromAndTo is_label p))"

definition PortMapping_Validate :: "(string \<Rightarrow> bool) \<Rightarrow> port_mapping \<Rightarrow> port_error option" where
  "PortMapping_Validate is_label p = snd (snd (FromAndTo is_label p))"

definition as_numeric :: "port_identifier \<Rightarrow> port_and_proto" where
  "as_numeric pi = (case ProtoAndNameOrNumber pi of (pr, _, n) \<Rightarrow> \<lparr>Port = n, Proto = pr\<rparr>)"

definition FromAsNumeric :: "(string \<Rightarrow> bool) \<Rightarrow> port_mapping \<Rightarrow> port_and_proto" where
  "FromAsNumeric is_label p = as_numeric (PortMapping_From is_label p)"

definition ToAsNumeric :: "(string \<Rightarrow> bool) \<Rightarrow> port_mapping \<Rightarrow> port_and_proto" where
  "ToAsNumeric is_label p = as_numeric (PortMapping_To is_label p)"

definition FromNumberAndTo :: "port_mapping \<Rightarrow> port_error + (u16 \<times> port_and_proto)" where
  "FromNumberAndTo ps =
     (case index_byte (CHR '':'') ps of
        Some (Suc i) \<Rightarrow>
          (case ParsePortAndProto (drop (Suc (Suc i)) ps) of
             Inl e \<Rightarrow> Inl e
           | Inr to \<Rightarrow>
               (case parse_uint 16 (take (Suc i) ps) of
                  None \<Rightarrow> Inl (ErrNumber (take (Suc i) ps))
                | Some fi \<Rightarrow> Inr (of_nat fi, to)))
      | _ \<Rightarrow>
          (case ParsePortAndProto ps of
             Inl e \<Rightarrow> Inl e
           | Inr to \<Rightarrow> Inr (Port to, to)))"

section \<open>What the label check promises\<close>

text \<open>
  \<open>IsDNS1035Label\<close> documents its labels as lower-case alphanumeric characters or a dash, the first
  a letter: such a string is not empty, has no separator of the notation and does not start like a
  decimal number.
\<close>

definition is_lower :: "char \<Rightarrow> bool" where
  "is_lower c \<longleftrightarrow> 97 \<le> (of_char c :: nat) \<and> (of_char c :: nat) \<le> 122"

definition dns1035_labels :: "(string \<Rightarrow> bool) \<Rightarrow> bool" where
  "dns1035_labels is_label \<longleftrightarrow>
     (\<forall>s. is_label s \<longrightarrow>
        s \<noteq> [] \<and> is_lower (hd s) \<and>
        (\<forall>c \<in> set s. is_lower c \<or> is_digit c \<or> c = CHR ''-''))"

text \<open>A concrete check with these properties, for the witnesses.\<close>

definition plain_label :: "string \<Rightarrow> bool" where
  "plain_label s \<longleftrightarrow>
     s \<noteq> [] \<and> length s \<le> 63 \<and> is_lower (hd s) \<and> last s \<noteq> CHR ''-'' \<and>
     list_all (\<lambda>c. is_lower c \<or> is_digit c \<or> c = CHR ''-'') s"

lemma dns1035_labels_plain: "dns1035_labels plain_label"
  by (auto simp: dns1035_labels_def plain_label_def list_all_iff)

section \<open>Protocol names and port numbers are read back\<close>

lemma ParseProto_supported: "ParseProto s = Inr p \<Longrightarrow> supported p"
  unfolding ParseProto_def supported_def Let_def by (simp split: if_split_asm)

lemma ParseProto_names:
  "ParseProto ''TCP'' = Inr ProtoTCP" "ParseProto ''UDP'' = Inr ProtoUDP" "ParseProto ''ICMP'' = Inr ProtoICMP"
  "ParseProto ''ICMPv6'' = Inr ProtoICMPV6" "ParseProto ''SCTP'' = Inr ProtoSCTP"
  by code_simp+

lemma ParseProto_String [codec]: "supported p \<Longrightarrow> ParseProto (Proto_String p) = Inr p"
  unfolding supported_def Proto_String_def by (auto simp: ParseProto_names)

lemma Proto_String_no_sep: "supported p \<Longrightarrow> CHR ''/'' \<notin> set (Proto_String p) \<and> CHR '':'' \<notin> set (Proto_String p)"
  by (auto simp: supported_def Proto_String_def)

lemma FromK8sProtocol_String [codec]: "supported p \<Longrightarrow> FromK8sProtocol (Proto_String p) = p"
  by (simp add: FromK8sProtocol_def ParseProto_String)

lemma ParsePort_itoa [codec]:
  assumes "n \<noteq> 0"
  shows "ParsePort (itoa (unat n)) = Inr n"
proof -
  have lt: "unat n < 65536" using unsigned_less [of n, where 'a = nat] by simp
  then have a: "atoi (itoa (unat n)) = Some (uint n)" using atoi_itoa [of "unat n"] by simp
  from assms have "uint n \<noteq> 0" by (simp add: uint_0_iff)
  moreover have "0 \<le> uint n" "uint n < 65536" using unsigned_less [of n, where 'a = int] by simp_all
  ultimately have "\<not> (uint n < 1 \<or> 65535 < uint n)" by linarith
  with a show ?thesis by (simp add: ParsePort_def)
qed

lemma ParsePort_Inr:
  "ParsePort s = Inr n \<longleftrightarrow> (\<exists>v. atoi s = Some v \<and> 1 \<le> v \<and> v \<le> 65535 \<and> n = word_of_int v)"
  by (auto simp: ParsePort_def not_less split: option.splits)

lemma ParsePort_nonzero: "ParsePort s = Inr n \<Longrightarrow> n \<noteq> 0"
proof -
  assume "ParsePort s = Inr n"
  then obtain v where v: "1 \<le> v" "v \<le> 65535" "n = word_of_int v"
    unfolding ParsePort_Inr by blast
  then have "uint n = v" by (simp add: uint_word_of_int take_bit_eq_mod)
  with v show ?thesis by auto
qed

lemma is_lower_not_sign:
  "is_lower c \<Longrightarrow> c \<noteq> CHR ''-'' \<and> c \<noteq> CHR ''+'' \<and> c \<noteq> CHR ''/'' \<and> c \<noteq> CHR '':'' \<and> \<not> is_digit c"
  by (auto simp: is_lower_def is_digit_def)

lemma label_facts:
  assumes "dns1035_labels is_label" and "is_label s"
  shows "s \<noteq> []" and "CHR ''/'' \<notin> set s" and "CHR '':'' \<notin> set s" and "ParsePort s = Inl ErrNotInteger"
proof -
  from assms have s: "s \<noteq> []" and hd: "is_lower (hd s)"
    and all: "\<And>c. c \<in> set s \<Longrightarrow> is_lower c \<or> is_digit c \<or> c = CHR ''-''"
    by (auto simp: dns1035_labels_def)
  show "s \<noteq> []" by (fact s)
  show "CHR ''/'' \<notin> set s" and "CHR '':'' \<notin> set s"
    using all is_lower_not_sign is_digit_not_sign by blast+
  from s is_lower_not_sign [OF hd] have "atoi s = None"
    by (cases s) (simp_all add: atoi_def Let_def)
  then show "ParsePort s = Inl ErrNotInteger" by (simp add: ParsePort_def)
qed

section \<open>Identifiers and mappings are read back\<close>

text \<open>The reading of a name or number alone, and the two shapes of an identifier.\<close>

definition name_or_number :: "proto \<Rightarrow> string \<Rightarrow> proto \<times> string \<times> u16" where
  "name_or_number p s = (case ParsePort s of Inr n \<Rightarrow> (p, [], n) | Inl _ \<Rightarrow> (p, s, 0))"

lemma index_sep:
  assumes "s \<noteq> []" and "c \<notin> set s"
  shows "index_byte c (s @ c # r) = Some (Suc (length s - 1))"
  using assms by (cases s) (auto simp: index_byte_append)

lemma ident_plain: "CHR ''/'' \<notin> set s \<Longrightarrow> ProtoAndNameOrNumber s = name_or_number ProtoTCP s"
proof -
  assume "CHR ''/'' \<notin> set s"
  then have "index_byte (CHR ''/'') s = None" by simp
  then show ?thesis by (simp add: ProtoAndNameOrNumber_def name_or_number_def del: index_byte_None)
qed

lemma ident_suffixed:
  assumes "s \<noteq> []" and "CHR ''/'' \<notin> set s" and "supported p"
  shows "ProtoAndNameOrNumber (s @ ''/'' @ Proto_String p) = name_or_number p s"
  using index_sep [OF assms(1,2), of "Proto_String p"] assms
  by (cases s) (simp_all add: ProtoAndNameOrNumber_def name_or_number_def ParseProto_String)

lemma validate_plain:
  "CHR ''/'' \<notin> set s \<Longrightarrow> PortIdentifier_Validate is_label s = ValidatePort is_label s"
proof -
  assume "CHR ''/'' \<notin> set s"
  then have "index_byte (CHR ''/'') s = None" by simp
  then show ?thesis by (simp add: PortIdentifier_Validate_def del: index_byte_None)
qed

lemma validate_suffixed:
  assumes "s \<noteq> []" and "CHR ''/'' \<notin> set s" and "supported p"
  shows "PortIdentifier_Validate is_label (s @ ''/'' @ Proto_String p) = ValidatePort is_label s"
  using index_sep [OF assms(1,2), of "Proto_String p"] assms
  by (cases s) (simp_all add: PortIdentifier_Validate_def ParseProto_String)

lemma atoi_chars: "atoi s = Some v \<Longrightarrow> s \<noteq> [] \<and> CHR ''/'' \<notin> set s \<and> CHR '':'' \<notin> set s"
proof -
  assume v: "atoi s = Some v"
  then obtain c r where s: "s = c # r"
    by (cases s) (auto simp: atoi_def Let_def)
  with v have r: "list_all is_digit r" and c: "is_digit c \<or> c = CHR ''-'' \<or> c = CHR ''+''"
    by (auto simp: atoi_def Let_def split: if_splits)
  from r have "CHR ''/'' \<notin> set r" "CHR '':'' \<notin> set r"
    by (auto simp: list_all_iff dest: is_digit_not_sign)
  with c s show ?thesis by (auto dest: is_digit_not_sign)
qed

lemma ValidatePort_facts:
  assumes "dns1035_labels is_label" and "ValidatePort is_label s = None"
  shows "s \<noteq> []" and "CHR ''/'' \<notin> set s" and "CHR '':'' \<notin> set s"
proof -
  from assms(2) consider n where "ParsePort s = Inr n" | "is_label s"
    by (auto simp: ValidatePort_def split: sum.splits port_error.splits if_splits)
  then have "s \<noteq> [] \<and> CHR ''/'' \<notin> set s \<and> CHR '':'' \<notin> set s"
  proof cases
    case 1
    then obtain v where "atoi s = Some v"
      by (auto simp: ParsePort_def split: option.splits)
    then show ?thesis by (rule atoi_chars)
  next
    case 2
    with assms(1) show ?thesis by (simp add: label_facts)
  qed
  then show "s \<noteq> []" and "CHR ''/'' \<notin> set s" and "CHR '':'' \<notin> set s" by auto
qed

text \<open>
  A validated identifier is a valid name or number, alone or with the name of a supported protocol.
\<close>

lemma validated_ident:
  assumes "PortIdentifier_Validate is_label spi = None" and "dns1035_labels is_label"
  obtains p s where "ProtoAndNameOrNumber spi = name_or_number p s" and "supported p"
    and "ValidatePort is_label s = None"
proof (cases "index_byte (CHR ''/'') spi")
  case None
  with assms(1) that [of ProtoTCP spi] show ?thesis
    by (auto simp: PortIdentifier_Validate_def ident_plain supported_def)
next
  case (Some i)
  show ?thesis
  proof (cases i)
    case 0
    with Some have "CHR ''/'' \<in> set spi" by (metis index_byte_None option.distinct(1))
    moreover from assms(1) Some 0 have "ValidatePort is_label spi = None"
      by (simp add: PortIdentifier_Validate_def)
    ultimately show ?thesis using ValidatePort_facts(2) [OF assms(2)] by blast
  next
    case (Suc j)
    with assms(1) Some obtain q where q: "ParseProto (drop (Suc (Suc j)) spi) = Inr q"
      and v: "ValidatePort is_label (take (Suc j) spi) = None"
      by (auto simp: PortIdentifier_Validate_def split: sum.splits)
    from q have "supported q" by (rule ParseProto_supported)
    with that [of q "take (Suc j) spi"] q v Some Suc show ?thesis
      by (simp add: ProtoAndNameOrNumber_def name_or_number_def)
  qed
qed

text \<open>Printing in the canonical form of \<open>String\<close> and of \<open>NewPortMapping\<close>.\<close>

definition print_name_or_number :: "string \<times> u16 \<Rightarrow> string" where
  "print_name_or_number = (\<lambda>(s, n). if s = [] then itoa (unat n) else s)"

lemma print_name_or_number_parse:
  assumes "ValidatePort is_label s = None" and "dns1035_labels is_label"
    and "name_or_number p s = (p', s', n)"
  shows "name_or_number q (print_name_or_number (s', n)) = (q, s', n)"
    and "ValidatePort is_label (print_name_or_number (s', n)) = None"
    and "p' = p"
    and "print_name_or_number (s', n) \<noteq> []"
    and "CHR ''/'' \<notin> set (print_name_or_number (s', n))"
    and "CHR '':'' \<notin> set (print_name_or_number (s', n))"
proof -
  have "name_or_number q (print_name_or_number (s', n)) = (q, s', n) \<and>
    ValidatePort is_label (print_name_or_number (s', n)) = None \<and> p' = p"
  proof (cases "ParsePort s")
    case (Inr m)
    with assms(3) have "p' = p" "s' = []" "n = m" by (auto simp: name_or_number_def)
    with Inr show ?thesis
      by (simp add: print_name_or_number_def name_or_number_def ValidatePort_def ParsePort_itoa
        ParsePort_nonzero)
  next
    case (Inl e)
    with assms(1,3) have "p' = p" "s' = s" "n = 0" by (auto simp: name_or_number_def)
    with Inl assms(1) ValidatePort_facts(1) [OF assms(2,1)] show ?thesis
      by (simp add: print_name_or_number_def name_or_number_def)
  qed
  then show "name_or_number q (print_name_or_number (s', n)) = (q, s', n)"
    and v: "ValidatePort is_label (print_name_or_number (s', n)) = None" and "p' = p"
    by auto
  show "print_name_or_number (s', n) \<noteq> []"
    and "CHR ''/'' \<notin> set (print_name_or_number (s', n))"
    and "CHR '':'' \<notin> set (print_name_or_number (s', n))"
    using ValidatePort_facts [OF assms(2) v] by auto
qed

text \<open>What the two printers write, in terms of the canonical name or number.\<close>

definition with_proto :: "proto \<Rightarrow> string \<Rightarrow> string" where
  "with_proto p s = (if p = ProtoTCP then s else s @ ''/'' @ Proto_String p)"

lemma PortIdentifier_String_alt:
  "ProtoAndNameOrNumber spi = (p, s, n) \<Longrightarrow>
   PortIdentifier_String spi = with_proto p (print_name_or_number (s, n))"
  by (simp add: PortIdentifier_String_def with_proto_def print_name_or_number_def)

lemma NewPortMapping_alt:
  "ProtoAndNameOrNumber from = (p, s, n) \<Longrightarrow>
   NewPortMapping from to = print_name_or_number (s, n) @ '':'' @ with_proto p (itoa (unat to))"
  by (simp add: NewPortMapping_def with_proto_def print_name_or_number_def)

lemma ident_with_proto:
  assumes "s \<noteq> []" and "CHR ''/'' \<notin> set s" and "supported p"
  shows "ProtoAndNameOrNumber (with_proto p s) = name_or_number p s"
    and "PortIdentifier_Validate is_label (with_proto p s) = ValidatePort is_label s"
  using assms by (simp_all add: with_proto_def ident_plain ident_suffixed validate_plain validate_suffixed
    del: append_Cons append.simps)

lemma ValidatePort_itoa: "(n :: u16) \<noteq> 0 \<Longrightarrow> ValidatePort is_label (itoa (unat n)) = None"
  by (simp add: ValidatePort_def ParsePort_itoa)

lemma NewPortIdentifier_alt:
  "ValidatePort is_label s = None \<Longrightarrow> NewPortIdentifier is_label p s = Inr (with_proto p s)"
  by (simp add: NewPortIdentifier_def with_proto_def)

section \<open>Properties\<close>

text \<open>
  Printing a port with its protocol and parsing the text again gives the same pair, for every
  port but 0 and every protocol that the parser knows.
\<close>

lemma ParsePortAndProto_String:
  assumes "Port pp \<noteq> 0" and "supported (Proto pp)"
  shows "ParsePortAndProto (PortAndProto_String pp) = Inr (pp :: port_and_proto)"
proof (cases "Proto pp = ProtoTCP")
  case True
  have "index_byte (CHR ''/'') (itoa (unat (Port pp))) = None" by simp
  with True assms show ?thesis
    by (simp add: PortAndProto_String_def ParsePortAndProto_def ParsePort_itoa del: index_byte_None)
next
  case False
  let ?d = "itoa (unat (Port pp))"
  obtain i where i: "length ?d = Suc i" by (cases ?d) auto
  have "index_byte (CHR ''/'') (?d @ ''/'' @ Proto_String (Proto pp)) = Some (Suc i)"
    using index_sep [of ?d "CHR ''/''" "Proto_String (Proto pp)"] i by simp
  with False assms i show ?thesis
    by (simp add: PortAndProto_String_def ParsePortAndProto_def ParseProto_String ParsePort_itoa)
qed

text \<open>
  The canonical text of a validated port identifier (\<open>String\<close>) validates again, denotes the
  same protocol, name and number, and is its own canonical text.
\<close>

lemma PortIdentifier_String_canonical:
  assumes lab: "dns1035_labels is_label" and valid: "PortIdentifier_Validate is_label spi = None"
  shows "ProtoAndNameOrNumber (PortIdentifier_String spi) = ProtoAndNameOrNumber spi
    \<and> PortIdentifier_Validate is_label (PortIdentifier_String spi) = None
    \<and> PortIdentifier_String (PortIdentifier_String spi) = PortIdentifier_String spi"
proof -
  obtain p s where ps: "ProtoAndNameOrNumber spi = name_or_number p s" and sup: "supported p"
    and v: "ValidatePort is_label s = None"
    by (rule validated_ident [OF valid lab])
  obtain p' s' n where n: "name_or_number p s = (p', s', n)" by (cases "name_or_number p s") auto
  note f = print_name_or_number_parse [OF v lab n]
  have str: "PortIdentifier_String spi = with_proto p (print_name_or_number (s', n))"
    using PortIdentifier_String_alt [of spi p' s' n] ps n f(3) by simp
  have dec: "ProtoAndNameOrNumber (PortIdentifier_String spi) = (p, s', n)"
    unfolding str ident_with_proto(1) [OF f(4,5) sup] by (rule f(1))
  then have "PortIdentifier_String (PortIdentifier_String spi) = PortIdentifier_String spi"
    using PortIdentifier_String_alt [of "PortIdentifier_String spi" p s' n] str by simp
  moreover have "PortIdentifier_Validate is_label (PortIdentifier_String spi) = None"
    unfolding str ident_with_proto(2) [OF f(4,5) sup] by (rule f(2))
  ultimately show ?thesis using dec ps n f(3) by simp
qed

text \<open>
  A mapping built from a validated source identifier and a port other than 0 splits back into
  the canonical source identifier and the target port, both with the protocol of the source, and the
  split reports no error.
\<close>

lemma FromAndTo_NewPortMapping:
  assumes lab: "dns1035_labels is_label" and valid: "PortIdentifier_Validate is_label from = None"
    and to: "to \<noteq> 0"
  shows "FromAndTo is_label (NewPortMapping from to) =
      (PortIdentifier_String from, with_proto (fst (ProtoAndNameOrNumber from)) (itoa (unat to)), None)
    \<and> ToAsNumeric is_label (NewPortMapping from to) = \<lparr>Port = to, Proto = fst (ProtoAndNameOrNumber from)\<rparr>"
proof -
  obtain p s where ps: "ProtoAndNameOrNumber from = name_or_number p s" and sup: "supported p"
    and v: "ValidatePort is_label s = None"
    by (rule validated_ident [OF valid lab])
  obtain p' s' n where n: "name_or_number p s = (p', s', n)" by (cases "name_or_number p s") auto
  note f = print_name_or_number_parse [OF v lab n]
  let ?f = "print_name_or_number (s', n)" and ?t = "with_proto p (itoa (unat to))"
  have map: "NewPortMapping from to = ?f @ '':'' @ ?t"
    using NewPortMapping_alt [of "from" p' s' n] ps n f(3) by simp
  have t: "ProtoAndNameOrNumber ?t = (p, [], to)" "PortIdentifier_Validate is_label ?t = None"
    using ident_with_proto [of "itoa (unat to)" p] sup to
    by (simp_all add: name_or_number_def ParsePort_itoa ValidatePort_itoa)
  obtain i where i: "length ?f = Suc i" using f(4) by (cases ?f) auto
  have "FromAndTo is_label (NewPortMapping from to) = (with_proto p ?f, ?t, None)"
    using index_sep [OF f(4,6), of ?t] i t f(2)
    by (simp add: map FromAndTo_def NewPortIdentifier_alt)
  then show ?thesis
    using t PortIdentifier_String_alt [of "from" p' s' n] ps n f(3)
    by (simp add: ToAsNumeric_def PortMapping_To_def as_numeric_def)
qed

end
