(* ===== verification/Conn_Id.thy ===== *)
theory Conn_Id
  imports Netip Ports
begin

text \<open>
  The connection identifier of \<^verbatim>\<open>pkg/tunnel/connid.go\<close>: the bytes of source address, source port,
  destination address, destination port and protocol, used as a map key by the connection pool, and
  sent as the first field of the stream information.

  \<open>NewConnID\<close> panics on an invalid address, so it returns an option; the accessors slice the bytes
  at fixed offsets, so they return an option as well (\<open>None\<close> when the identifier is too short for
  the slice). The lemmas show that the identifiers of \<open>NewConnID\<close> have one of two lengths, that
  every accessor gives back what went in (addresses up to the IPv4-mapped form of IPv6), and that
  \<open>Reply\<close> swaps the two ends.
\<close>

section \<open>Construction\<close>

type_synonym conn_id = "byte list"

text \<open>The choice of the address forms, lines 22 to 42: both are IPv4, or both are IPv6.\<close>

definition conn_addrs :: "addr \<Rightarrow> addr \<Rightarrow> addr \<times> addr" where
  "conn_addrs srcAddr dstAddr =
     (if is4 srcAddr then
        if is4in6 dstAddr then (srcAddr, unmap dstAddr)
        else if is6 dstAddr then (Addr6 (as16 srcAddr), dstAddr)
        else (srcAddr, dstAddr)
      else if is4in6 srcAddr then
        if is4 dstAddr then (unmap srcAddr, dstAddr)
        else if is4in6 dstAddr then (unmap srcAddr, unmap dstAddr)
        else (srcAddr, dstAddr)
      else
        if is4 dstAddr then (srcAddr, Addr6 (as16 dstAddr))
        else (srcAddr, dstAddr))"

definition NewConnID :: "proto \<Rightarrow> addr_port \<Rightarrow> addr_port \<Rightarrow> conn_id option" where
  "NewConnID p src dst =
     (let (srcAddr, dstAddr) = conn_addrs (ap_addr src) (ap_addr dst);
          ls = bit_len srcAddr div 8;
          ld = bit_len dstAddr div 8
      in if ls = 0 then None
         else if ld = 0 then None
         else Some (as_slice srcAddr @ be_bytes 2 (ap_port src) @
                    as_slice dstAddr @ be_bytes 2 (ap_port dst) @ [p]))"

definition ConnIDFromUDP :: "addr_port \<Rightarrow> addr_port \<Rightarrow> conn_id option" where
  "ConnIDFromUDP src dst = NewConnID ProtoUDP src dst"

definition NewZeroID :: conn_id where
  "NewZeroID = replicate 13 0"

section \<open>Accessors\<close>

text \<open>The Go slice \<open>b[i:j]\<close>.\<close>

definition slice :: "nat \<Rightarrow> nat \<Rightarrow> 'a list \<Rightarrow> 'a list option" where
  "slice i j bs = (if i \<le> j \<and> j \<le> length bs then Some (take (j - i) (drop i bs)) else None)"

text \<open>\<open>net.IP(b).To4() != nil\<close> for 16 bytes: ten zero bytes and two bytes \<open>0xff\<close> come first.\<close>

definition ip_to4_ok :: "byte list \<Rightarrow> bool" where
  "ip_to4_ok b \<longleftrightarrow> length b = 4 \<or> length b = 16 \<and> take 12 b = replicate 10 0 @ [0xff, 0xff]"

definition areBothIPv4 :: "conn_id \<Rightarrow> bool" where
  "areBothIPv4 cid \<longleftrightarrow> length cid = 13"

definition IsSourceIPv4 :: "conn_id \<Rightarrow> bool" where
  "IsSourceIPv4 cid \<longleftrightarrow> areBothIPv4 cid \<or> 16 < length cid \<and> ip_to4_ok (take 16 cid)"

definition IsDestinationIPv4 :: "conn_id \<Rightarrow> bool" where
  "IsDestinationIPv4 cid \<longleftrightarrow> areBothIPv4 cid \<or> length cid = 37 \<and> ip_to4_ok (take 16 (drop 18 cid))"

definition SourceAddr :: "conn_id \<Rightarrow> addr option" where
  "SourceAddr cid =
     (if areBothIPv4 cid then map_option (\<lambda>b. Addr4 (be_word b)) (slice 0 4 cid)
      else map_option (\<lambda>b. unmap (Addr6 (be_word b))) (slice 0 16 cid))"

definition SourcePort :: "conn_id \<Rightarrow> u16 option" where
  "SourcePort cid = map_option be_word (if areBothIPv4 cid then slice 4 6 cid else slice 16 18 cid)"

definition Source :: "conn_id \<Rightarrow> addr_port option" where
  "Source cid =
     (case SourceAddr cid of None \<Rightarrow> None
      | Some a \<Rightarrow> map_option (\<lambda>n. \<lparr>ap_addr = a, ap_port = n\<rparr>) (SourcePort cid))"

definition DestinationAddr :: "conn_id \<Rightarrow> addr option" where
  "DestinationAddr cid =
     (if areBothIPv4 cid then map_option (\<lambda>b. Addr4 (be_word b)) (slice 6 10 cid)
      else map_option (\<lambda>b. unmap (Addr6 (be_word b))) (slice 18 34 cid))"

definition DestinationPort :: "conn_id \<Rightarrow> u16 option" where
  "DestinationPort cid = map_option be_word (if areBothIPv4 cid then slice 10 12 cid else slice 34 36 cid)"

definition Destination :: "conn_id \<Rightarrow> addr_port option" where
  "Destination cid =
     (case DestinationAddr cid of None \<Rightarrow> None
      | Some a \<Rightarrow> map_option (\<lambda>n. \<lparr>ap_addr = a, ap_port = n\<rparr>) (DestinationPort cid))"

definition Protocol :: "conn_id \<Rightarrow> proto option" where
  "Protocol cid = (if cid = [] then None else Some (last cid))"

definition protocol_string :: "bool \<Rightarrow> proto \<Rightarrow> string" where
  "protocol_string v4 p =
     (if p = ProtoTCP then (if v4 then ''tcp4'' else ''tcp6'')
      else if p = ProtoUDP then (if v4 then ''udp4'' else ''udp6'')
      else ''unknown-'' @ itoa (unat p))"

definition SourceProtocolString :: "conn_id \<Rightarrow> string option" where
  "SourceProtocolString cid = map_option (protocol_string (IsSourceIPv4 cid)) (Protocol cid)"

definition DestinationProtocolString :: "conn_id \<Rightarrow> string option" where
  "DestinationProtocolString cid = map_option (protocol_string (IsDestinationIPv4 cid)) (Protocol cid)"

definition SourceNetwork :: "conn_id \<Rightarrow> string" where
  "SourceNetwork cid = (if IsSourceIPv4 cid then ''ip4'' else ''ip6'')"

definition DestinationNetwork :: "conn_id \<Rightarrow> string" where
  "DestinationNetwork cid = (if IsDestinationIPv4 cid then ''ip4'' else ''ip6'')"

definition Reply :: "conn_id \<Rightarrow> conn_id option" where
  "Reply cid =
     (case (Protocol cid, Destination cid, Source cid) of
        (Some p, Some d, Some s) \<Rightarrow> NewConnID p d s
      | _ \<Rightarrow> None)"

section \<open>The two shapes of an identifier\<close>

text \<open>Whether an address is IPv4 in either form.\<close>

definition v4 :: "addr \<Rightarrow> bool" where
  "v4 a \<longleftrightarrow> is4 (unmap a)"

definition normalized :: "addr_port \<Rightarrow> addr_port" where
  "normalized ap = ap\<lparr>ap_addr := unmap (ap_addr ap)\<rparr>"

lemma v4_cases: "v4 a \<Longrightarrow> (\<And>w. unmap a = Addr4 w \<Longrightarrow> P) \<Longrightarrow> P"
  by (cases "unmap a") (auto simp: v4_def)

lemma conn_addrs_cases:
  assumes "is_valid s" and "is_valid d"
  shows "conn_addrs s d = (if v4 s \<and> v4 d then (unmap s, unmap d) else (Addr6 (as16 s), Addr6 (as16 d)))"
  using assms by (cases s; cases d) (auto simp: conn_addrs_def v4_def)

lemma conn_addrs_invalid:
  "\<not> is_valid s \<or> \<not> is_valid d \<Longrightarrow>
   bit_len (fst (conn_addrs s d)) = 0 \<or> bit_len (snd (conn_addrs s d)) = 0"
  by (cases s; cases d) (auto simp: conn_addrs_def)

lemma NewConnID_v4:
  assumes "unmap (ap_addr src) = Addr4 s" and "unmap (ap_addr dst) = Addr4 d"
  shows "NewConnID p src dst =
    Some (be_bytes 4 s @ be_bytes 2 (ap_port src) @ be_bytes 4 d @ be_bytes 2 (ap_port dst) @ [p])"
proof -
  have "is_valid (ap_addr src)" "is_valid (ap_addr dst)" "v4 (ap_addr src)" "v4 (ap_addr dst)"
    using assms by (cases "ap_addr src"; cases "ap_addr dst"; auto simp: v4_def)+
  then show ?thesis using assms by (simp add: NewConnID_def conn_addrs_cases)
qed

lemma NewConnID_v6:
  assumes "is_valid (ap_addr src)" and "is_valid (ap_addr dst)" and "\<not> (v4 (ap_addr src) \<and> v4 (ap_addr dst))"
  shows "NewConnID p src dst =
    Some (be_bytes 16 (as16 (ap_addr src)) @ be_bytes 2 (ap_port src) @
          be_bytes 16 (as16 (ap_addr dst)) @ be_bytes 2 (ap_port dst) @ [p])"
  using assms by (auto simp: NewConnID_def conn_addrs_cases)

lemma NewConnID_None: "NewConnID p src dst = None \<longleftrightarrow> \<not> is_valid (ap_addr src) \<or> \<not> is_valid (ap_addr dst)"
proof (cases "is_valid (ap_addr src) \<and> is_valid (ap_addr dst)")
  case True
  then show ?thesis
    by (cases "v4 (ap_addr src) \<and> v4 (ap_addr dst)") (auto simp: NewConnID_v6 NewConnID_v4 elim!: v4_cases)
next
  case False
  with conn_addrs_invalid [of "ap_addr src" "ap_addr dst"] show ?thesis
    by (auto simp: NewConnID_def split: prod.splits)
qed

lemma ip_to4_ok_bytes: "ip_to4_ok (be_bytes 16 (w :: u128)) \<longleftrightarrow> drop_bit 32 w = 0xffff"
proof -
  let ?u = "drop_bit 32 w"
  have u: "take_bit 96 ?u = ?u" and f: "take_bit 96 (0xffff :: u128) = 0xffff"
    using take_bit_length_eq [of w] by (simp_all add: take_bit_drop_bit)
  have pat: "replicate 10 0 @ [0xff, 0xff] = be_bytes 12 (0xffff :: u128)" by code_simp
  have "take 12 (be_bytes 16 w) = be_bytes 12 ?u" by (simp add: take_be_bytes)
  then have "ip_to4_ok (be_bytes 16 w) \<longleftrightarrow> be_bytes 12 ?u = be_bytes 12 (0xffff :: u128)"
    by (simp only: ip_to4_ok_def length_be_bytes pat) simp
  also have "\<dots> \<longleftrightarrow> ?u = 0xffff"
    using be_word_be_bytes_take [of 12 ?u] be_word_be_bytes_take [of 12 "0xffff :: u128"] u f by force
  finally show ?thesis .
qed

lemma slice_mid: "i = length a \<Longrightarrow> j = i + length b \<Longrightarrow> slice i j (a @ b @ c) = Some b"
  by (simp add: slice_def)

lemma slice_fst: "j = length b \<Longrightarrow> slice 0 j (b @ c) = Some b"
  by (simp add: slice_def)

lemma as16_v4: "is_valid a \<Longrightarrow> drop_bit 32 (as16 a) = 0xffff \<longleftrightarrow> v4 a"
  by (cases a) (auto simp: v4_def)

lemma unmap_as16_word: "is_valid a \<Longrightarrow> drop_bit 32 (as16 a) \<noteq> 0xffff \<Longrightarrow> Addr6 (as16 a) = unmap a"
  by (cases a) auto

text \<open>The fields of the two shapes.\<close>

lemma fields13:
  fixes s d :: u32 and sp dp :: u16 and p :: proto
  defines "cid \<equiv> be_bytes 4 s @ be_bytes 2 sp @ be_bytes 4 d @ be_bytes 2 dp @ [p]"
  shows "Source cid = Some \<lparr>ap_addr = Addr4 s, ap_port = sp\<rparr>"
    and "Destination cid = Some \<lparr>ap_addr = Addr4 d, ap_port = dp\<rparr>"
    and "Protocol cid = Some p" and "IsSourceIPv4 cid" and "IsDestinationIPv4 cid" and "length cid = 13"
proof -
  show len: "length cid = 13" by (simp add: cid_def)
  have b: "areBothIPv4 cid" using len by (simp add: areBothIPv4_def)
  then show "IsSourceIPv4 cid" and "IsDestinationIPv4 cid"
    by (simp_all add: IsSourceIPv4_def IsDestinationIPv4_def)
  show "Protocol cid = Some p" by (simp add: Protocol_def cid_def)
  have "slice 0 4 cid = Some (be_bytes 4 s)" "slice 4 6 cid = Some (be_bytes 2 sp)"
    "slice 6 10 cid = Some (be_bytes 4 d)" "slice 10 12 cid = Some (be_bytes 2 dp)"
    by (simp_all add: cid_def slice_def)
  with b show "Source cid = Some \<lparr>ap_addr = Addr4 s, ap_port = sp\<rparr>"
    and "Destination cid = Some \<lparr>ap_addr = Addr4 d, ap_port = dp\<rparr>"
    by (simp_all add: Source_def SourceAddr_def SourcePort_def Destination_def DestinationAddr_def
      DestinationPort_def be_word_be_bytes)
qed

lemma fields37:
  fixes s d :: u128 and sp dp :: u16 and p :: proto
  defines "cid \<equiv> be_bytes 16 s @ be_bytes 2 sp @ be_bytes 16 d @ be_bytes 2 dp @ [p]"
  shows "Source cid = Some \<lparr>ap_addr = unmap (Addr6 s), ap_port = sp\<rparr>"
    and "Destination cid = Some \<lparr>ap_addr = unmap (Addr6 d), ap_port = dp\<rparr>"
    and "Protocol cid = Some p"
    and "IsSourceIPv4 cid \<longleftrightarrow> drop_bit 32 s = 0xffff"
    and "IsDestinationIPv4 cid \<longleftrightarrow> drop_bit 32 d = 0xffff" and "length cid = 37"
proof -
  show len: "length cid = 37" by (simp add: cid_def)
  have b: "\<not> areBothIPv4 cid" using len by (simp add: areBothIPv4_def)
  have "take 16 cid = be_bytes 16 s" "take 16 (drop 18 cid) = be_bytes 16 d" by (simp_all add: cid_def)
  with b len show "IsSourceIPv4 cid \<longleftrightarrow> drop_bit 32 s = 0xffff"
    and "IsDestinationIPv4 cid \<longleftrightarrow> drop_bit 32 d = 0xffff"
    by (simp_all add: IsSourceIPv4_def IsDestinationIPv4_def ip_to4_ok_bytes)
  show "Protocol cid = Some p" by (simp add: Protocol_def cid_def)
  have "slice 0 16 cid = Some (be_bytes 16 s)" "slice 16 18 cid = Some (be_bytes 2 sp)"
    "slice 18 34 cid = Some (be_bytes 16 d)" "slice 34 36 cid = Some (be_bytes 2 dp)"
    by (simp_all add: cid_def slice_def)
  with b show "Source cid = Some \<lparr>ap_addr = unmap (Addr6 s), ap_port = sp\<rparr>"
    and "Destination cid = Some \<lparr>ap_addr = unmap (Addr6 d), ap_port = dp\<rparr>"
    by (simp_all add: Source_def SourceAddr_def SourcePort_def Destination_def DestinationAddr_def
      DestinationPort_def be_word_be_bytes del: unmap.simps)
qed

lemma NewConnID_accessors:
  assumes "NewConnID p src dst = Some cid"
  shows "Source cid = Some (normalized src)" and "Destination cid = Some (normalized dst)"
    and "Protocol cid = Some p"
    and "IsSourceIPv4 cid \<longleftrightarrow> v4 (ap_addr src)" and "IsDestinationIPv4 cid \<longleftrightarrow> v4 (ap_addr dst)"
    and "length cid = (if v4 (ap_addr src) \<and> v4 (ap_addr dst) then 13 else 37)"
proof -
  have val: "is_valid (ap_addr src)" "is_valid (ap_addr dst)"
    using assms NewConnID_None [of p src dst] by auto
  have "Source cid = Some (normalized src) \<and> Destination cid = Some (normalized dst) \<and> Protocol cid = Some p \<and>
    (IsSourceIPv4 cid \<longleftrightarrow> v4 (ap_addr src)) \<and> (IsDestinationIPv4 cid \<longleftrightarrow> v4 (ap_addr dst)) \<and>
    length cid = (if v4 (ap_addr src) \<and> v4 (ap_addr dst) then 13 else 37)"
  proof (cases "v4 (ap_addr src) \<and> v4 (ap_addr dst)")
    case True
    then obtain s d where sd: "unmap (ap_addr src) = Addr4 s" "unmap (ap_addr dst) = Addr4 d"
      by (auto elim!: v4_cases)
    from NewConnID_v4 [OF this] assms have "cid = be_bytes 4 s @ be_bytes 2 (ap_port src) @
        be_bytes 4 d @ be_bytes 2 (ap_port dst) @ [p]" by simp
    then show ?thesis
      using True sd fields13 by (simp add: normalized_def)
  next
    case False
    from NewConnID_v6 [OF val False] assms have "cid = be_bytes 16 (as16 (ap_addr src)) @
        be_bytes 2 (ap_port src) @ be_bytes 16 (as16 (ap_addr dst)) @ be_bytes 2 (ap_port dst) @ [p]"
      by simp
    then show ?thesis
      using False val fields37 by (simp add: normalized_def as16_v4 del: unmap.simps)
  qed
  then show "Source cid = Some (normalized src)" and "Destination cid = Some (normalized dst)"
    and "Protocol cid = Some p"
    and "IsSourceIPv4 cid \<longleftrightarrow> v4 (ap_addr src)" and "IsDestinationIPv4 cid \<longleftrightarrow> v4 (ap_addr dst)"
    and "length cid = (if v4 (ap_addr src) \<and> v4 (ap_addr dst) then 13 else 37)"
    by auto
qed

lemma as16_unmap: "is_valid a \<Longrightarrow> as16 (unmap a) = as16 a"
  by (cases a) (auto simp: map4_ucast)

lemma NewConnID_normalized: "NewConnID p (normalized src) (normalized dst) = NewConnID p src dst"
proof (cases "is_valid (ap_addr src) \<and> is_valid (ap_addr dst)")
  case True
  show ?thesis
  proof (cases "v4 (ap_addr src) \<and> v4 (ap_addr dst)")
    case 1: True
    then show ?thesis by (auto simp: NewConnID_v4 normalized_def elim!: v4_cases)
  next
    case 2: False
    then have "\<not> (v4 (ap_addr (normalized src)) \<and> v4 (ap_addr (normalized dst)))"
      by (simp add: v4_def normalized_def)
    with True 2 show ?thesis
      by (simp add: NewConnID_v6 normalized_def as16_unmap)
  qed
next
  case False
  then have "NewConnID p src dst = None" "NewConnID p (normalized src) (normalized dst) = None"
    unfolding NewConnID_None by (simp_all add: normalized_def)
  then show ?thesis by simp
qed

section \<open>Properties\<close>

text \<open>
  C1. What goes into a connection identifier comes out of it. \<open>NewConnID\<close> panics exactly when one of
  the addresses is the zero address; otherwise the protocol and the two ends are read back, the
  addresses with the IPv4-mapped form of IPv6 replaced by IPv4, the address family predicates tell
  whether an end is IPv4 in either form, and the identifier has 13 bytes if both ends are IPv4 and
  37 bytes if not.
\<close>

theorem NewConnID_roundtrip:
  "case NewConnID p src dst of
     None \<Rightarrow> ap_addr src = NoAddr \<or> ap_addr dst = NoAddr
   | Some cid \<Rightarrow>
       Source cid = Some (normalized src) \<and> Destination cid = Some (normalized dst) \<and> Protocol cid = Some p
       \<and> IsSourceIPv4 cid = v4 (ap_addr src) \<and> IsDestinationIPv4 cid = v4 (ap_addr dst)
       \<and> length cid = (if v4 (ap_addr src) \<and> v4 (ap_addr dst) then 13 else 37)"
proof (cases "NewConnID p src dst")
  case None
  then show ?thesis unfolding NewConnID_None by (cases "ap_addr src"; cases "ap_addr dst") (simp_all add: None)
next
  case (Some cid)
  from NewConnID_accessors [OF this] show ?thesis by (simp add: Some)
qed

text \<open>
  A connection identifier determines its connection: two equal identifiers come from the same
  protocol and, up to the IPv4-mapped form, the same two ends, so the pool never mixes up two
  connections.
\<close>

lemma NewConnID_inject:
  assumes "NewConnID p src dst = Some cid" and "NewConnID p' src' dst' = Some cid"
  shows "p = p' \<and> normalized src = normalized src' \<and> normalized dst = normalized dst'"
  using NewConnID_accessors(1-3) [OF assms(1)] NewConnID_accessors(1-3) [OF assms(2)] by simp

text \<open>
  \<open>Reply\<close> swaps the ends: on every identifier of \<open>NewConnID\<close> it returns the identifier of the
  opposite direction, without a panic, and the reply to the reply is the identifier itself.
\<close>

lemma Reply_swaps:
  assumes "NewConnID p src dst = Some cid"
  shows "Reply cid = NewConnID p dst src \<and> (\<exists>r. Reply cid = Some r \<and> Reply r = Some cid)"
proof -
  have r: "Reply c = NewConnID q d s" if "NewConnID q s d = Some c" for q s d c
    using NewConnID_accessors(1-3) [OF that] by (simp add: Reply_def NewConnID_normalized)
  obtain r where "NewConnID p dst src = Some r"
    using assms NewConnID_None [of p src dst] NewConnID_None [of p dst src] by fastforce
  with r [OF this] r [OF assms] assms show ?thesis by simp
qed

end
