(* ===== verification/Tunnel_Message.thy ===== *)
theory Tunnel_Message
  imports Conn_Id "HOL-Library.Monad_Syntax"
begin

text \<open>
  The wire format of the tunnel, \<^verbatim>\<open>pkg/tunnel/message.go\<close>, and the handshake of
  \<^verbatim>\<open>client_stream.go\<close> and \<^verbatim>\<open>server_stream.go\<close> that uses it, with the parts of \<^verbatim>\<open>stream.go\<close> that the
  handshake calls.

  A message is its bytes, the code first. The variable-length integers are those of Go's
  \<open>encoding/binary\<close>: \<open>PutUvarint\<close> panics when the buffer is too small, so everything built on it is
  an option. A session ID is a Go string, kept as its bytes; a \<open>time.Duration\<close> is 64 bits.

  The locale \<open>codec\<close> states when an encoder and a decoder fit together; the variable-length
  integers and the length-prefixed fields of the message are two interpretations of it.
\<close>

section \<open>Variable-length integers\<close>

function uvarint_bytes :: "u64 \<Rightarrow> byte list" where
  "uvarint_bytes x =
     (if 0x80 \<le> x then (ucast x OR 0x80) # uvarint_bytes (drop_bit 7 x) else [ucast x])"
  by auto

termination
proof (relation "measure unat")
  fix x :: u64
  assume "0x80 \<le> x"
  then have "(128 :: nat) \<le> unat x" by (simp add: word_le_nat_alt)
  then show "(drop_bit 7 x, x) \<in> measure unat"
    by (simp add: drop_bit_eq_div unat_div)
qed simp

declare uvarint_bytes.simps [simp del]

text \<open>\<open>PutUvarint(buf, x)\<close> and \<open>buf[:n]\<close>: \<open>None\<close> is the panic when \<open>buf\<close> is too short.\<close>

definition put_uvarint :: "nat \<Rightarrow> u64 \<Rightarrow> byte list option" where
  "put_uvarint bufLen x = (let b = uvarint_bytes x in if length b \<le> bufLen then Some b else None)"

text \<open>\<open>Uvarint\<close>: the value and the number of bytes read, 0 or less when there is no value.\<close>

fun uvarint_from :: "nat \<Rightarrow> u64 \<Rightarrow> byte list \<Rightarrow> u64 \<times> int" where
  "uvarint_from i x [] = (0, 0)"
| "uvarint_from i x (b # buf) =
     (if i = 10 then (0, - int (i + 1))
      else if b < 0x80 then
        if i = 9 \<and> 1 < b then (0, - int (i + 1))
        else (x OR push_bit (7 * i) (ucast b), int (i + 1))
      else uvarint_from (i + 1) (x OR push_bit (7 * i) (ucast (b AND 0x7f))) buf)"

definition uvarint :: "byte list \<Rightarrow> u64 \<times> int" where
  "uvarint buf = uvarint_from 0 0 buf"

section \<open>Messages\<close>

type_synonym message = "byte list"
type_synonym session_id = "byte list"

abbreviation Normal :: byte where "Normal \<equiv> 0"
abbreviation streamInfo :: byte where "streamInfo \<equiv> 1"
abbreviation streamOK :: byte where "streamOK \<equiv> 2"
abbreviation closeSend :: byte where "closeSend \<equiv> 3"
abbreviation DialOK :: byte where "DialOK \<equiv> 4"
abbreviation DialReject :: byte where "DialReject \<equiv> 5"
abbreviation Disconnect :: byte where "Disconnect \<equiv> 6"
abbreviation KeepAlive :: byte where "KeepAlive \<equiv> 7"
abbreviation Session :: byte where "Session \<equiv> 8"

definition MessageCode_String :: "byte \<Rightarrow> string" where
  "MessageCode_String c =
     (if c = streamInfo then ''STREAM_INFO''
      else if c = streamOK then ''STREAM_OK''
      else if c = closeSend then ''CLOSE_SEND''
      else if c = DialOK then ''DIAL_OK''
      else if c = DialReject then ''DIAL_REJECT''
      else if c = Disconnect then ''DISCONNECT_OK''
      else if c = KeepAlive then ''KEEP_ALIVE''
      else if c = Session then ''SESSION''
      else ''** unknown control code: '' @ itoa (unat c) @ '' **'')"

text \<open>\<open>c[0]\<close> and \<open>c[1:]\<close> panic on an empty message.\<close>

fun Code :: "message \<Rightarrow> byte option" where
  "Code [] = None"
| "Code (c # pl) = Some c"

fun Payload :: "message \<Rightarrow> byte list option" where
  "Payload [] = None"
| "Payload (c # pl) = Some pl"

definition makeMessage :: "byte \<Rightarrow> nat \<Rightarrow> message" where
  "makeMessage code payloadLength = code # replicate payloadLength 0"

text \<open>Go's \<open>copy(dst, src)\<close> into a slice.\<close>

definition copy_into :: "byte list \<Rightarrow> byte list \<Rightarrow> byte list" where
  "copy_into dst src = take (length dst) src @ drop (length src) dst"

definition NewMessage :: "byte \<Rightarrow> byte list \<Rightarrow> message" where
  "NewMessage code payload =
     (if 0 < length payload
      then (let c = makeMessage code (length payload) in hd c # copy_into (tl c) payload)
      else [code])"

definition Version :: u16 where
  "Version = 2"

definition StreamInfoMessage :: "conn_id \<Rightarrow> session_id \<Rightarrow> u64 \<Rightarrow> u64 \<Rightarrow> message option" where
  "StreamInfoMessage cid sessionID callDelay dialTimeout =
     do {
       v \<leftarrow> put_uvarint 8 (ucast Version);
       cd \<leftarrow> put_uvarint 8 callDelay;
       dt \<leftarrow> put_uvarint 8 dialTimeout;
       idl \<leftarrow> put_uvarint 8 (of_nat (length cid));
       sl \<leftarrow> put_uvarint 8 (of_nat (length sessionID));
       Some ([streamInfo] @ v @ cd @ dt @ idl @ cid @ sl @ sessionID)
     }"

definition StreamOKMessage :: "message option" where
  "StreamOKMessage = map_option (\<lambda>v. streamOK # v) (put_uvarint 4 (ucast Version))"

definition SessionMessage :: "session_id \<Rightarrow> message" where
  "SessionMessage sessionID = NewMessage Session sessionID"

definition GetSession :: "message \<Rightarrow> session_id option" where
  "GetSession m = Payload m"

definition getVersion :: "message \<Rightarrow> u16 option" where
  "getVersion m = map_option (\<lambda>pl. ucast (fst (uvarint pl))) (Payload m)"

section \<open>Streams\<close>

record stream =
  stream_id :: conn_id
  dialTimeout :: u64
  roundtripLatency :: u64
  sessionID :: session_id
  tag :: string
  syncRatio :: u32
  ackWindow :: u32
  peerVersion :: u16

definition newStream :: "string \<Rightarrow> stream" where
  "newStream t = \<lparr>stream_id = [], dialTimeout = 0, roundtripLatency = 0, sessionID = [], tag = t,
     syncRatio = 8, ackWindow = 1, peerVersion = 0\<rparr>"

text \<open>
  The errors the sources tell apart: \<open>io.EOF\<close>, \<open>net.ErrClosed\<close>, \<open>context.Canceled\<close>, a gRPC status with
  its code, and any other error, by its text.
\<close>

datatype grpc_code = CodeNotFound | CodeCanceled | CodeUnavailable | CodeOther

datatype stream_error =
    EOF
  | ErrClosed
  | ErrCanceled
  | ErrStatus grpc_code string
  | ErrMalformedConnect
  | ErrNotStreamInfo
  | ErrNotStreamOK
  | ErrOther string

text \<open>
  The reader of the stream information. Each step takes a field off the payload and writes it to the
  stream; a malformed field ends the reading, with the fields before it written. The outer option is
  the panic of the slice \<open>pl[:v]\<close>, whose bound has been compared with the length before the bytes
  of the length itself were dropped.
\<close>

definition read_uvarint :: "byte list \<Rightarrow> (u64 \<times> byte list) option" where
  "read_uvarint pl = (case uvarint pl of (v, n) \<Rightarrow> if n \<le> 0 then None else Some (v, drop (nat n) pl))"

datatype field = FieldPanic | FieldMalformed | Field "byte list" "byte list"

definition read_field :: "byte list \<Rightarrow> field" where
  "read_field pl =
     (case read_uvarint pl of
        None \<Rightarrow> FieldMalformed
      | Some (v, pl') \<Rightarrow>
          if length pl < unat v then FieldMalformed
          else if length pl' < unat v then FieldPanic
          else Field (take (unat v) pl') (drop (unat v) pl'))"

definition setConnectInfo :: "message \<Rightarrow> stream \<Rightarrow> (stream_error option \<times> stream) option" where
  "setConnectInfo m s =
     (case Payload m of None \<Rightarrow> None | Some pl \<Rightarrow>
      case read_uvarint pl of None \<Rightarrow> Some (Some ErrMalformedConnect, s) | Some (v, pl) \<Rightarrow>
      let s = s\<lparr>peerVersion := ucast v\<rparr> in
      case read_uvarint pl of None \<Rightarrow> Some (Some ErrMalformedConnect, s) | Some (v, pl) \<Rightarrow>
      let s = s\<lparr>roundtripLatency := v\<rparr> in
      case read_uvarint pl of None \<Rightarrow> Some (Some ErrMalformedConnect, s) | Some (v, pl) \<Rightarrow>
      let s = s\<lparr>dialTimeout := v\<rparr> in
      case read_field pl of
        FieldPanic \<Rightarrow> None
      | FieldMalformed \<Rightarrow> Some (Some ErrMalformedConnect, s)
      | Field b pl \<Rightarrow>
          let s = s\<lparr>stream_id := b\<rparr> in
          case read_field pl of
            FieldPanic \<Rightarrow> None
          | FieldMalformed \<Rightarrow> Some (Some ErrMalformedConnect, s)
          | Field b pl \<Rightarrow> Some (None, s\<lparr>sessionID := b\<rparr>))"

text \<open>
  The transport: \<open>recv\<close> and \<open>send\<close> of the generated gRPC stream are parameters, functions on the
  state of the transport. \<open>Receive\<close> turns a \<open>closeSend\<close> message into the error \<open>net.ErrClosed\<close>;
  the outer option is the panic on an empty message.
\<close>

type_synonym 'g recv = "'g \<Rightarrow> (stream_error + message) \<times> 'g"
type_synonym 'g send = "message \<Rightarrow> 'g \<Rightarrow> stream_error option \<times> 'g"

definition stream_Receive :: "'g recv \<Rightarrow> 'g \<Rightarrow> ((stream_error + message) \<times> 'g) option" where
  "stream_Receive recv g =
     (case recv g of
        (Inl e, g) \<Rightarrow> Some (Inl e, g)
      | (Inr m, g) \<Rightarrow>
          (case Code m of
             None \<Rightarrow> None
           | Some c \<Rightarrow> Some (if c = closeSend then (Inl ErrClosed, g) else (Inr m, g))))"

definition stream_Send :: "'g send \<Rightarrow> message \<Rightarrow> 'g \<Rightarrow> stream_error option \<times> 'g" where
  "stream_Send send m g = send m g"

text \<open>\<open>CloseSend\<close> of a server stream; \<open>ctx_done\<close> tells whether the context is cancelled.\<close>

definition stream_CloseSend :: "bool \<Rightarrow> 'g send \<Rightarrow> 'g \<Rightarrow> stream_error option \<times> 'g" where
  "stream_CloseSend ctx_done send g =
     (case stream_Send send (NewMessage closeSend []) g of
        (Some e, g) \<Rightarrow> (if \<not> ctx_done \<and> \<not> (e = EOF \<or> e = ErrClosed) then Some e else None, g)
      | (None, g) \<Rightarrow> (None, g))"

definition NewClientStream ::
  "'g send \<Rightarrow> 'g recv \<Rightarrow> ('g \<Rightarrow> 'g) \<Rightarrow> string \<Rightarrow> conn_id \<Rightarrow> session_id \<Rightarrow> u64 \<Rightarrow> u64 \<Rightarrow> 'g \<Rightarrow>
   ((stream_error + stream) \<times> 'g) option" where
  "NewClientStream send recv close t cid sid callDelay dialTo g =
     (let s = (newStream t)\<lparr>stream_id := cid, roundtripLatency := callDelay, dialTimeout := dialTo,
                            sessionID := sid\<rparr>
      in case StreamInfoMessage cid sid callDelay dialTo of
           None \<Rightarrow> None
         | Some info \<Rightarrow>
             (case stream_Send send info g of
                (Some e, g) \<Rightarrow> Some (Inl e, close g)
              | (None, g) \<Rightarrow>
                  (case stream_Receive recv g of
                     None \<Rightarrow> None
                   | Some (Inl e, g) \<Rightarrow> Some (Inl e, close g)
                   | Some (Inr m, g) \<Rightarrow>
                       if Code m \<noteq> Some streamOK then Some (Inl ErrNotStreamOK, close g)
                       else map_option (\<lambda>v. (Inr (s\<lparr>peerVersion := v\<rparr>), g)) (getVersion m))))"

definition NewServerStream ::
  "'g send \<Rightarrow> 'g recv \<Rightarrow> string \<Rightarrow> 'g \<Rightarrow> ((stream_error + stream) \<times> 'g) option" where
  "NewServerStream send recv t g =
     (case stream_Receive recv g of
        None \<Rightarrow> None
      | Some (Inl e, g) \<Rightarrow> Some (Inl e, g)
      | Some (Inr m, g) \<Rightarrow>
          if Code m \<noteq> Some streamInfo then Some (Inl ErrNotStreamInfo, g)
          else case setConnectInfo m (newStream t) of
                 None \<Rightarrow> None
               | Some (Some e, _) \<Rightarrow> Some (Inl e, g)
               | Some (None, s) \<Rightarrow>
                   (case StreamOKMessage of
                      None \<Rightarrow> None
                    | Some ok \<Rightarrow>
                        (case stream_Send send ok g of
                           (Some e, g) \<Rightarrow> Some (Inl e, g)
                         | (None, g) \<Rightarrow> Some (Inr s, g))))"

section \<open>The loops around a stream\<close>

text \<open>\<open>status.Code(err)\<close>: \<open>Unknown\<close> for an error that is no status.\<close>

fun status_Code :: "stream_error \<Rightarrow> grpc_code" where
  "status_Code (ErrStatus c t) = c"
| "status_Code e = CodeOther"

fun error_text :: "stream_error \<Rightarrow> string" where
  "error_text (ErrStatus c t) = t"
| "error_text (ErrOther t) = t"
| "error_text EOF = ''EOF''"
| "error_text ErrClosed = ''use of closed network connection''"
| "error_text ErrCanceled = ''context canceled''"
| "error_text ErrMalformedConnect = ''malformed Connect message''"
| "error_text ErrNotStreamInfo = ''initial message was not StreamInfo''"
| "error_text ErrNotStreamOK = ''initial message was not StreamOK''"

text \<open>Whether \<open>ReadLoop\<close> reports the error that ended it on its error channel.\<close>

definition read_loop_reports :: "bool \<Rightarrow> stream_error \<Rightarrow> bool" where
  "read_loop_reports ctx_done e =
     (if ctx_done then False
      else if e = EOF \<or> e = ErrClosed \<or> e = ErrCanceled then False
      else case status_Code e of
             CodeNotFound \<Rightarrow> False
           | CodeCanceled \<Rightarrow> False
           | CodeUnavailable \<Rightarrow> \<not> has_suffix (error_text e) ''reading from server: EOF''
           | CodeOther \<Rightarrow> True)"

text \<open>
  One turn of the loop gets what \<open>Receive\<close> returned, whether the context is done when the message is
  passed on (the select may then take either branch: \<open>deliver\<close> tells which), and the state is the
  messages put on the message channel, the errors put on the error channel and the bytes counted.
\<close>

record read_turn =
  received :: "stream_error + message"
  ctx_done :: bool
  deliver :: bool

record read_loop =
  msgCh :: "message list"
  errCh :: "stream_error list"
  probe :: nat
  ended :: bool

definition ReadLoop_turn :: "read_turn \<Rightarrow> read_loop \<Rightarrow> read_loop" where
  "ReadLoop_turn t l =
     (case received t of
        Inr m \<Rightarrow>
          let l = l\<lparr>probe := probe l + length (tl m)\<rparr> in
          if \<not> ctx_done t \<or> deliver t then l\<lparr>msgCh := msgCh l @ [m]\<rparr> else l\<lparr>ended := True\<rparr>
      | Inl e \<Rightarrow>
          l\<lparr>ended := True, errCh := (if read_loop_reports (ctx_done t) e then errCh l @ [e] else errCh l)\<rparr>)"

fun ReadLoop :: "read_turn list \<Rightarrow> read_loop \<Rightarrow> read_loop" where
  "ReadLoop [] l = l"
| "ReadLoop (t # ts) l = (if ended l then l else ReadLoop ts (ReadLoop_turn t l))"

text \<open>
  The loop that writes: it ends when the context is done, when the channel of messages is closed, or
  when a send fails, and then calls \<open>CloseSend\<close> once.
\<close>

datatype write_turn = WriteCtxDone | WriteChClosed | WriteMsg message "stream_error option"

record write_loop =
  sent :: "message list"
  written :: nat
  closeSends :: nat
  write_ended :: bool

definition WriteLoop_turn :: "write_turn \<Rightarrow> write_loop \<Rightarrow> write_loop" where
  "WriteLoop_turn t l =
     (let stop = (\<lambda>l. l\<lparr>write_ended := True, closeSends := closeSends l + 1\<rparr>) in
      case t of
        WriteCtxDone \<Rightarrow> stop l
      | WriteChClosed \<Rightarrow> stop l
      | WriteMsg m err \<Rightarrow>
          let l = l\<lparr>written := written l + length (tl m)\<rparr> in
          case err of None \<Rightarrow> l\<lparr>sent := sent l @ [m]\<rparr> | Some e \<Rightarrow> stop l)"

fun WriteLoop :: "write_turn list \<Rightarrow> write_loop \<Rightarrow> write_loop" where
  "WriteLoop [] l = l"
| "WriteLoop (t # ts) l = (if write_ended l then l else WriteLoop ts (WriteLoop_turn t l))"

section \<open>Codecs\<close>

text \<open>
  What the reader of a field relies on: on the bytes the writer produced, followed by any others,
  the decoder returns the value and exactly those others.
\<close>

locale codec =
  fixes valid :: "'a \<Rightarrow> bool" and enc :: "'a \<Rightarrow> byte list" and dec :: "byte list \<Rightarrow> ('a \<times> byte list) option"
  assumes dec_enc: "valid x \<Longrightarrow> dec (enc x @ rest) = Some (x, rest)"
begin

lemma enc_inject:
  assumes "valid x" and "valid y" and "enc x @ r = enc y @ r'"
  shows "x = y \<and> r = r'"
proof -
  have "dec (enc x @ r) = Some (x, r)" by (rule dec_enc) fact
  moreover have "dec (enc x @ r) = Some (y, r')" unfolding assms(3) by (rule dec_enc) fact
  ultimately show ?thesis by simp
qed

lemma enc_prefix_free:
  assumes "valid x" and "valid y" and "enc x @ r = enc y"
  shows "x = y \<and> r = []"
  by (rule enc_inject [OF assms(1,2)]) (simp add: assms(3))

end

section \<open>Variable-length integers are read back\<close>

lemma odd_div_128: "n < 256 \<Longrightarrow> odd (n div 128) \<longleftrightarrow> 128 \<le> (n::nat)"
proof -
  assume n: "n < 256"
  show ?thesis
  proof (cases "n < 128")
    case False
    with n have "n div 128 = 1" by (simp add: div_nat_eqI)
    with False show ?thesis by simp
  qed simp
qed

lemma byte_less_80: "(b :: byte) < 0x80 \<longleftrightarrow> \<not> bit b 7"
proof -
  have "unat b < 256" using unsigned_less [of b, where 'a = nat] by simp
  moreover have "bit b 7 \<longleftrightarrow> odd (unat b div 128)"
    using bit_unsigned_iff [of b 7, where 'a = nat] bit_iff_odd [of "unat b" 7] by simp
  moreover have "b < 0x80 \<longleftrightarrow> unat b < 128" by (simp add: word_less_nat_alt)
  ultimately show ?thesis using odd_div_128 by auto
qed

lemma low_byte:
  fixes x :: u64
  shows "\<not> (ucast x OR 0x80 :: byte) < 0x80" and "ucast ((ucast x OR 0x80 :: byte) AND 0x7f) = take_bit 7 x"
proof -
  have seven: "bit (0x7f :: byte) n \<longleftrightarrow> n < 7" for n
  proof -
    have "(0x7f :: byte) = mask 7" by (simp add: mask_eq_exp_minus_1)
    then show ?thesis by (simp only: bit_mask_iff) (auto simp: min_def)
  qed
  have eight: "bit (0x80 :: byte) n \<longleftrightarrow> n = 7" for n
  proof -
    have "(0x80 :: byte) = 2 ^ 7" by simp
    then show ?thesis by (simp only: bit_exp_iff) auto
  qed
  show "\<not> (ucast x OR 0x80 :: byte) < 0x80"
    unfolding byte_less_80 bit_or_iff eight by simp
  show "ucast ((ucast x OR 0x80 :: byte) AND 0x7f) = take_bit 7 x"
    by (rule bit_word_eqI) (unfold bit_ucast_iff bit_and_iff bit_or_iff seven eight bit_take_bit_iff, auto)
qed

lemma push_take_drop:
  "push_bit k (take_bit 7 x) OR push_bit (k + 7) (drop_bit 7 x) = push_bit k (x :: u64)"
proof (rule bit_word_eqI)
  fix n
  have "7 + (n - (k + 7)) = n - k" if "\<not> n - k < 7" using that by simp
  then show "bit (push_bit k (take_bit 7 x) OR push_bit (k + 7) (drop_bit 7 x)) n = bit (push_bit k x) n"
    by (cases "n - k < 7")
      (auto simp: bit_or_iff bit_push_bit_iff bit_take_bit_iff bit_drop_bit_eq)
qed

lemma uvarint_from_bytes:
  assumes "i \<le> 9" and "unat v < 2 ^ (64 - 7 * i)"
  shows "uvarint_from i x (uvarint_bytes v @ rest) =
    (x OR push_bit (7 * i) v, int (i + length (uvarint_bytes v)))"
  using assms
proof (induction v arbitrary: i x rule: uvarint_bytes.induct)
  case (1 v)
  show ?case
  proof (cases "0x80 \<le> v")
    case True
    then have v: "2 ^ 7 \<le> unat v" by (simp add: word_le_nat_alt)
    have i: "i \<le> 8"
    proof (rule ccontr)
      assume "\<not> i \<le> 8"
      with 1(2) have "i = 9" by simp
      with 1(3) v show False by simp
    qed
    have e: "64 - 7 * i = 7 + (64 - 7 * (i + 1))" using i by simp
    from 1(3) have "unat v < 2 ^ 7 * 2 ^ (64 - 7 * (i + 1))" by (subst (asm) e) (simp add: power_add)
    then have "unat (drop_bit 7 v) < 2 ^ (64 - 7 * (i + 1))"
      by (simp add: drop_bit_eq_div unat_div less_mult_imp_div_less mult.commute)
    with 1(1) [OF True, of "i + 1" "x OR push_bit (7 * i) (take_bit 7 v)"] i
    have IH: "uvarint_from (i + 1) (x OR push_bit (7 * i) (take_bit 7 v)) (uvarint_bytes (drop_bit 7 v) @ rest) =
        ((x OR push_bit (7 * i) (take_bit 7 v)) OR push_bit (7 * (i + 1)) (drop_bit 7 v),
         int ((i + 1) + length (uvarint_bytes (drop_bit 7 v))))"
      by simp
    have o: "(x OR push_bit (7 * i) (take_bit 7 v)) OR push_bit (7 * (i + 1)) (drop_bit 7 v) = x OR push_bit (7 * i) v"
      using push_take_drop [of "7 * i" v] by (simp add: or.assoc algebra_simps)
    have "uvarint_bytes v = (ucast v OR 0x80) # uvarint_bytes (drop_bit 7 v)"
      using True by (simp add: uvarint_bytes.simps [of v])
    with IH o i low_byte show ?thesis by simp
  next
    case False
    then have v: "unat v < 128" by (simp add: word_le_nat_alt)
    then have b: "unat (ucast v :: byte) = unat v" by (simp add: unsigned_ucast_eq unsigned_take_bit_eq take_bit_nat_eq_self)
    then have "(ucast v :: byte) < 0x80" using v by (simp add: word_less_nat_alt)
    moreover have "\<not> (i = 9 \<and> 1 < (ucast v :: byte))" using 1(3) b by (auto simp: word_less_nat_alt)
    moreover have "ucast (ucast v :: byte) = v" 
      using v b by (simp add: word_unat_eq_iff unsigned_ucast_eq unsigned_take_bit_eq take_bit_nat_eq_self)
    ultimately show ?thesis
      using False 1(2) by (simp add: uvarint_bytes.simps [of v])
  qed
qed

lemma length_uvarint_bytes: "length (uvarint_bytes v) \<le> Suc k \<longleftrightarrow> unat v < 2 ^ (7 * Suc k)"
proof (induction v arbitrary: k rule: uvarint_bytes.induct)
  case (1 v)
  show ?case
  proof (cases "0x80 \<le> v")
    case True
    then have v: "128 \<le> unat v" by (simp add: word_le_nat_alt)
    have len: "length (uvarint_bytes v) = Suc (length (uvarint_bytes (drop_bit 7 v)))"
      using True by (simp add: uvarint_bytes.simps [of v])
    show ?thesis
    proof (cases k)
      case 0
      have "uvarint_bytes (drop_bit 7 v) \<noteq> []" by (simp add: uvarint_bytes.simps [of "drop_bit 7 v"])
      with 0 v len show ?thesis by simp
    next
      case (Suc k')
      have "unat (drop_bit 7 v) < 2 ^ (7 * Suc k') \<longleftrightarrow> unat v < 2 ^ (7 * Suc (Suc k'))"
        by (simp add: drop_bit_eq_div unat_div div_less_iff_less_mult power_add mult.commute)
      with 1 [OF True, of k'] Suc len show ?thesis by simp
    qed
  next
    case False
    then have "unat v < 2 ^ 7" by (simp add: word_le_nat_alt)
    also have "(2 :: nat) ^ 7 \<le> 2 ^ (7 * Suc k)" by (rule power_increasing) auto
    finally show ?thesis using False by (simp add: uvarint_bytes.simps [of v])
  qed
qed

section \<open>The fields of the stream information\<close>

interpretation uv: codec "\<lambda>_. True" uvarint_bytes read_uvarint
proof
  fix x :: u64 and rest
  have "unat x < 2 ^ 64" using unsigned_less [of x, where 'a = nat] by simp
  then show "read_uvarint (uvarint_bytes x @ rest) = Some (x, rest)"
    using uvarint_from_bytes [of 0 x 0 rest]
    by (simp add: read_uvarint_def uvarint_def uvarint_bytes.simps [of x])
qed

definition field_bytes :: "byte list \<Rightarrow> byte list" where
  "field_bytes b = uvarint_bytes (of_nat (length b)) @ b"

definition field_option :: "field \<Rightarrow> (byte list \<times> byte list) option" where
  "field_option f = (case f of Field b r \<Rightarrow> Some (b, r) | _ \<Rightarrow> None)"

lemma read_field_bytes: "length b < 2 ^ 64 \<Longrightarrow> read_field (field_bytes b @ rest) = Field b rest"
  using uv.dec_enc [of "of_nat (length b)" "b @ rest"]
  by (simp add: read_field_def field_bytes_def unat_of_nat)

interpretation fld: codec "\<lambda>b. length b < 2 ^ 64" field_bytes "\<lambda>pl. field_option (read_field pl)"
  by unfold_locales (simp add: read_field_bytes field_option_def)

text \<open>The values the 8 byte buffer can hold.\<close>

definition fits :: "u64 \<Rightarrow> bool" where
  "fits v \<longleftrightarrow> unat v < 2 ^ 56"

lemma put_uvarint_8: "put_uvarint 8 v = (if fits v then Some (uvarint_bytes v) else None)"
  using length_uvarint_bytes [of v 7] by (simp add: put_uvarint_def fits_def)

lemma fits_Version [simp]: "fits (ucast Version)"
  by code_simp

lemma StreamInfoMessage_alt:
  "StreamInfoMessage cid sid cd dt =
     (if fits cd \<and> fits dt \<and> fits (of_nat (length cid)) \<and> fits (of_nat (length sid))
      then Some (streamInfo # uvarint_bytes (ucast Version) @ uvarint_bytes cd @ uvarint_bytes dt @
                 field_bytes cid @ field_bytes sid)
      else None)"
  by (simp add: StreamInfoMessage_def put_uvarint_8 field_bytes_def)

lemma setConnectInfo_fields:
  assumes "length cid < 2 ^ 64" and "length sid < 2 ^ 64"
  shows "setConnectInfo (c # uvarint_bytes v @ uvarint_bytes cd @ uvarint_bytes dt @
      field_bytes cid @ field_bytes sid @ rest) s =
    Some (None, s\<lparr>peerVersion := ucast v, roundtripLatency := cd, dialTimeout := dt,
                  stream_id := cid, sessionID := sid\<rparr>)"
  using assms
  by (simp add: setConnectInfo_def uv.dec_enc read_field_bytes)

lemma Code_StreamInfoMessage: "StreamInfoMessage cid sid cd dt = Some m \<Longrightarrow> Code m = Some streamInfo"
  by (auto simp: StreamInfoMessage_alt split: if_splits)

lemma StreamOKMessage_eq: "StreamOKMessage = Some [streamOK, 2]"
  by code_simp

lemma getVersion_ok: "getVersion [streamOK, 2] = Some Version"
  by code_simp

section \<open>Properties\<close>

text \<open>
  C2. The handshake agrees. When the server receives the message that the client sent and the client
  receives the message that the server sent, over any transport, then both constructors return a
  stream, and the server's stream has the connection ID, session ID, latency and dial timeout the
  client was given, and both have the peer's protocol version.
\<close>

theorem handshake_agrees:
  assumes len: "length cid < 2 ^ 64" "length sid < 2 ^ 64"
    and info: "StreamInfoMessage cid sid callDelay dialTo = Some info"
    and client_sends: "send info g = (None, g1)" and client_receives: "recv g1 = (Inr ok, g2)"
    and server_receives: "recv' h = (Inr info, h1)" and server_sends: "send' ok h1 = (None, h2)"
    and ok: "StreamOKMessage = Some ok"
  shows "\<exists>c s. NewClientStream send recv close ct cid sid callDelay dialTo g = Some (Inr c, g2)
    \<and> NewServerStream send' recv' st h = Some (Inr s, h2)
    \<and> stream_id s = cid \<and> sessionID s = sid \<and> roundtripLatency s = callDelay \<and> dialTimeout s = dialTo
    \<and> stream_id c = cid \<and> sessionID c = sid \<and> roundtripLatency c = callDelay \<and> dialTimeout c = dialTo
    \<and> peerVersion s = Version \<and> peerVersion c = Version"
proof -
  have "Some ok = Some [streamOK, 2]" unfolding ok [symmetric] by (rule StreamOKMessage_eq)
  then have k: "Code ok = Some streamOK" "getVersion ok = Some Version"
    using getVersion_ok by simp_all
  from info have m: "info = streamInfo # uvarint_bytes (ucast Version) @ uvarint_bytes callDelay @
      uvarint_bytes dialTo @ field_bytes cid @ field_bytes sid"
    by (simp add: StreamInfoMessage_alt split: if_splits)
  have set: "setConnectInfo info s = Some (None, s\<lparr>peerVersion := ucast (ucast Version :: u64),
      roundtripLatency := callDelay, dialTimeout := dialTo, stream_id := cid, sessionID := sid\<rparr>)" for s
    unfolding m using setConnectInfo_fields [OF len, of streamInfo _ _ _ "[]"] by simp
  have v: "ucast (ucast Version :: u64) = Version" by code_simp
  show ?thesis
    using assms k Code_StreamInfoMessage [OF info] set [of "newStream st"] v
    unfolding NewServerStream_def ok
    by (auto simp: NewClientStream_def stream_Send_def stream_Receive_def newStream_def)
qed

theorem handshake_agrees_witness:
  "\<exists>info c s. StreamInfoMessage NewZeroID [7, 7] 1000 2000 = Some info
    \<and> NewClientStream (\<lambda>m g. (None, g)) (\<lambda>g. (Inr [streamOK, 2], g)) (\<lambda>g. g) ''CLI'' NewZeroID [7, 7] 1000 2000 () = Some (Inr c, ())
    \<and> NewServerStream (\<lambda>m g. (None, g)) (\<lambda>g. (Inr info, g)) ''MGR'' () = Some (Inr s, ())
    \<and> stream_id s = NewZeroID \<and> sessionID s = [7, 7]"
proof -
  have "StreamInfoMessage NewZeroID [7, 7] 1000 2000 \<noteq> None" by code_simp
  then obtain info where info: "StreamInfoMessage NewZeroID [7, 7] 1000 2000 = Some info" by auto
  have len: "length NewZeroID < 2 ^ 64" "length [7, 7 :: byte] < 2 ^ 64" by (simp_all add: NewZeroID_def)
  show ?thesis
    using handshake_agrees [OF len info, of "\<lambda>m g. (None, g)" "()" "()" "\<lambda>g. (Inr [streamOK, 2], g)" "[streamOK, 2]" "()"
      "\<lambda>g. (Inr info, g)" "()" "()" "\<lambda>m g. (None, g)" "()" "\<lambda>g. g" "''CLI''" "''MGR''"] info StreamOKMessage_eq
    by auto
qed

text \<open>
  The stream information is written exactly when the buffer of 8 bytes holds every number: call
  delay, dial timeout and the two lengths are below \<open>2 ^ 56\<close>. Otherwise \<open>PutUvarint\<close> panics; a
  negative duration, for one, is a number above that bound.
\<close>

lemma StreamInfoMessage_panics_iff:
  "StreamInfoMessage cid sid callDelay dialTo = None \<longleftrightarrow>
     2 ^ 56 \<le> unat callDelay \<or> 2 ^ 56 \<le> unat dialTo
     \<or> 2 ^ 56 \<le> length cid mod 2 ^ 64 \<or> 2 ^ 56 \<le> length sid mod 2 ^ 64"
  by (auto simp: StreamInfoMessage_alt fits_def unat_of_nat not_less)

text \<open>The messages a run of the reader passes on: those before the turn that ends it.\<close>

fun delivered :: "read_turn list \<Rightarrow> message list" where
  "delivered [] = []"
| "delivered (t # ts) =
     (case received t of
        Inr m \<Rightarrow> if \<not> ctx_done t \<or> deliver t then m # delivered ts else []
      | Inl e \<Rightarrow> [])"

lemma ReadLoop_ended: "ended l \<Longrightarrow> ReadLoop ts l = l"
  by (cases ts) simp_all

lemma ReadLoop_msgs: "\<not> ended l \<Longrightarrow> msgCh (ReadLoop ts l) = msgCh l @ delivered ts"
  by (induction ts arbitrary: l)
    (auto simp: ReadLoop_turn_def Let_def ReadLoop_ended split: sum.splits)

lemma ReadLoop_errs:
  "\<not> ended l \<Longrightarrow> errCh (ReadLoop ts l) = errCh l \<or>
    (\<exists>e. errCh (ReadLoop ts l) = errCh l @ [e] \<and> ended (ReadLoop ts l) \<and> read_loop_reports False e)"
proof (induction ts arbitrary: l)
  case (Cons t ts)
  show ?case
  proof (cases "received t")
    case (Inl e)
    with Cons.prems show ?thesis
      by (auto simp: ReadLoop_turn_def ReadLoop_ended read_loop_reports_def split: if_splits grpc_code.splits)
  next
    case (Inr m)
    then have "errCh (ReadLoop_turn t l) = errCh l" by (simp add: ReadLoop_turn_def Let_def)
    with Cons.IH [of "ReadLoop_turn t l"] Cons.prems show ?thesis
      by (cases "ended (ReadLoop_turn t l)") (simp_all add: ReadLoop_ended)
  qed
qed simp

text \<open>
  C6. The reader of a stream keeps the order: what it puts on the message channel is exactly the
  sequence of messages received before the receive that failed or found the context done. It
  reports at most one error, always as its last act, and never the end of file, a closed connection
  or a cancelled context.
\<close>

theorem ReadLoop_correct:
  "let l = ReadLoop ts \<lparr>msgCh = [], errCh = [], probe = 0, ended = False\<rparr> in
     msgCh l = delivered ts
     \<and> length (errCh l) \<le> 1
     \<and> (errCh l = [] \<or> ended l \<and> set (errCh l) \<inter> {EOF, ErrClosed, ErrCanceled} = {})"
  using ReadLoop_msgs [of "\<lparr>msgCh = [], errCh = [], probe = 0, ended = False\<rparr>" ts]
    ReadLoop_errs [of "\<lparr>msgCh = [], errCh = [], probe = 0, ended = False\<rparr>" ts]
  by (auto simp: Let_def read_loop_reports_def)

text \<open>What the writer has sent at its first failure.\<close>

lemma WriteLoop_ended: "write_ended l \<Longrightarrow> WriteLoop ts l = l"
  by (cases ts) simp_all

fun sent_before_end :: "write_turn list \<Rightarrow> message list" where
  "sent_before_end (WriteMsg m None # ts) = m # sent_before_end ts"
| "sent_before_end ts = []"

lemma WriteLoop_run:
  assumes "\<not> write_ended l" and "closeSends l = 0"
  shows "sent (WriteLoop ts l) = sent l @ sent_before_end ts
    \<and> closeSends (WriteLoop ts l) = (if write_ended (WriteLoop ts l) then 1 else 0)
    \<and> (write_ended (WriteLoop ts l) \<longleftrightarrow> length (sent_before_end ts) < length ts)"
  using assms
proof (induction ts arbitrary: l rule: sent_before_end.induct)
  case (1 m ts)
  then show ?case by (simp add: WriteLoop_turn_def Let_def)
qed (simp_all add: WriteLoop_turn_def WriteLoop_ended Let_def)

text \<open>
  The writer of a stream sends the messages in the order of the channel up to the first failure
  and calls \<open>CloseSend\<close> exactly once, when it ends: when the context is done, the channel is closed
  or a send failed.
\<close>

lemma WriteLoop_correct:
  "let l = WriteLoop ts \<lparr>sent = [], written = 0, closeSends = 0, write_ended = False\<rparr> in
     sent l = sent_before_end ts
     \<and> closeSends l = (if write_ended l then 1 else 0)
     \<and> (write_ended l \<longleftrightarrow> length (sent_before_end ts) < length ts)"
  using WriteLoop_run [of "\<lparr>sent = [], written = 0, closeSends = 0, write_ended = False\<rparr>" ts]
  by (simp add: Let_def)

end
