(* ===== verification/Tunnel_Endpoint.thy ===== *)
theory Tunnel_Endpoint
  imports Tunnel_Message
begin

text \<open>
  The endpoints of a tunnel: \<^verbatim>\<open>pkg/tunnel/timed_handler.go\<close>, \<^verbatim>\<open>pool.go\<close> and \<^verbatim>\<open>dialer.go\<close>.

  The idle timer is modelled by what \<open>Stop\<close> returns: whether it was still active. The pool is an
  association list with one entry per connection. The dialer is a record with the atomic state
  \<open>connected\<close>, the operations it has applied to its connection and the messages it has sent.

  The places where several goroutines meet are modelled at the granularity of the source's locks and
  atomic operations: a schedule is a list of thread numbers, each entry runs the next atomic step of
  that thread, and the theorems hold for every schedule. The network is a parameter: the result of
  dialling, of a send and of a write.
\<close>

section \<open>The timed handler\<close>

datatype timer = TimerActive | TimerExpired

record timed_handler =
  th_id :: conn_id
  ttl :: u64
  remove :: bool
  idleTimer :: "timer option"

definition NewTimedHandler :: "conn_id \<Rightarrow> u64 \<Rightarrow> bool \<Rightarrow> timed_handler" where
  "NewTimedHandler cid t rm = \<lparr>th_id = cid, ttl = t, remove = rm, idleTimer = None\<rparr>"

definition GetTTL :: "timed_handler \<Rightarrow> u64" where
  "GetTTL h = ttl h"

definition SetTTL :: "u64 \<Rightarrow> timed_handler \<Rightarrow> timed_handler" where
  "SetTTL t h = h\<lparr>ttl := t\<rparr>"

text \<open>\<open>None\<close> is the panic on the timer that \<open>Start\<close> has not yet created.\<close>

definition ResetIdle :: "timed_handler \<Rightarrow> (bool \<times> timed_handler) option" where
  "ResetIdle h =
     (case idleTimer h of
        None \<Rightarrow> None
      | Some TimerActive \<Rightarrow> Some (True, h\<lparr>idleTimer := Some TimerActive\<rparr>)
      | Some TimerExpired \<Rightarrow> Some (False, h))"

definition TimedHandler_Start :: "timed_handler \<Rightarrow> timed_handler" where
  "TimedHandler_Start h = h\<lparr>idleTimer := Some TimerActive\<rparr>"

text \<open>The flag tells whether the \<open>remove\<close> function has been called.\<close>

definition TimedHandler_Stop :: "timed_handler \<Rightarrow> bool \<times> timed_handler" where
  "TimedHandler_Stop h =
     (if remove h
      then (True, h\<lparr>remove := False, idleTimer := map_option (\<lambda>_. TimerExpired) (idleTimer h)\<rparr>)
      else (False, h))"

section \<open>The pool\<close>

type_synonym 'h pool = "(conn_id \<times> 'h) list"

definition NewPool :: "'h pool" where
  "NewPool = []"

definition pool_release :: "conn_id \<Rightarrow> 'h pool \<Rightarrow> 'h pool" where
  "pool_release cid p = AList.delete cid p"

definition pool_Get :: "conn_id \<Rightarrow> 'h pool \<Rightarrow> 'h option" where
  "pool_Get cid p = map_of p cid"

text \<open>
  The second critical section of \<open>GetOrCreate\<close>, lines 74 to 80: the handler of another caller wins.
  The result is the handler to return and whether it was found.
\<close>

definition pool_insert :: "conn_id \<Rightarrow> 'h \<Rightarrow> 'h pool \<Rightarrow> ('h \<times> bool) \<times> 'h pool" where
  "pool_insert cid h p =
     (case map_of p cid of
        Some old \<Rightarrow> ((old, True), p)
      | None \<Rightarrow> ((h, False), AList.update cid h p))"

datatype create_error = CreateFailed string | NoHandler

text \<open>\<open>create\<close> returns an error, or a handler that may be nil; \<open>started\<close> collects the handlers started.\<close>

definition GetOrCreate ::
  "conn_id \<Rightarrow> (string + 'h option) \<Rightarrow> 'h pool \<times> 'h list \<Rightarrow> (create_error + 'h \<times> bool) \<times> ('h pool \<times> 'h list)" where
  "GetOrCreate cid create = (\<lambda>(p, started).
     case pool_Get cid p of
       Some h \<Rightarrow> (Inr (h, True), (p, started))
     | None \<Rightarrow>
         (case create of
            Inl e \<Rightarrow> (Inl (CreateFailed e), (p, started))
          | Inr None \<Rightarrow> (Inl NoHandler, (p, started))
          | Inr (Some h) \<Rightarrow>
              (case pool_insert cid h p of
                 ((h', True), p) \<Rightarrow> (Inr (h', True), (p, started))
               | ((h', False), p) \<Rightarrow> (Inr (h', False), (p, started @ [h'])))))"

text \<open>\<open>CloseAll\<close> stops every handler of a snapshot; the result is the handlers stopped.\<close>

definition CloseAll :: "'h pool \<Rightarrow> 'h list" where
  "CloseAll p = map snd p"

subsection \<open>Concurrent callers of GetOrCreate\<close>

text \<open>
  A caller is before the lookup (with the handler its creator will produce), before the insertion, or
  done with the handler it returns. Creation errors end a caller without a change of the pool.
\<close>

datatype 'h caller =
    Lookup conn_id "'h option"
  | Insert conn_id 'h
  | Done conn_id 'h bool
  | Failed conn_id

record 'h pool_state =
  handlers :: "'h pool"
  started :: "(conn_id \<times> 'h) list"
  callers :: "'h caller list"

definition caller_step :: "'h caller \<Rightarrow> 'h pool \<Rightarrow> 'h caller \<times> 'h pool" where
  "caller_step c p =
     (case c of
        Lookup cid hn \<Rightarrow>
          (case pool_Get cid p of
             Some h \<Rightarrow> (Done cid h True, p)
           | None \<Rightarrow> (case hn of None \<Rightarrow> (Failed cid, p) | Some h \<Rightarrow> (Insert cid h, p)))
      | Insert cid h \<Rightarrow> (case pool_insert cid h p of ((h', found), p) \<Rightarrow> (Done cid h' found, p))
      | Done cid h found \<Rightarrow> (c, p)
      | Failed cid \<Rightarrow> (c, p))"

definition pool_step :: "nat \<Rightarrow> 'h pool_state \<Rightarrow> 'h pool_state" where
  "pool_step i s =
     (if i < length (callers s) then
        (case caller_step (callers s ! i) (handlers s) of (c, p) \<Rightarrow>
           s\<lparr>handlers := p, callers := (callers s)[i := c],
             started := started s @
               (case (callers s ! i, c) of (Insert _ _, Done cid h False) \<Rightarrow> [(cid, h)] | _ \<Rightarrow> [])\<rparr>)
      else s)"

definition pool_run :: "nat list \<Rightarrow> 'h pool_state \<Rightarrow> 'h pool_state" where
  "pool_run sched s = fold pool_step sched s"

section \<open>The half-close protocol of the dialer\<close>

datatype conn_state = NotConnected | Connecting | Connected | ReadClosed | WriteClosed

datatype conn_op = OpClose | OpCloseRead | OpCloseWrite

record dialer =
  d_stream :: stream
  d_handler :: timed_handler
  d_conn :: "bool option"
  d_connected :: conn_state
  d_done :: bool
  d_cancelled :: bool
  d_ops :: "conn_op list"
  d_sent :: "message list"
  d_closeSends :: nat

text \<open>\<open>atomic.CompareAndSwapInt32(&h.connected, old, new)\<close>.\<close>

definition cas :: "conn_state \<Rightarrow> conn_state \<Rightarrow> dialer \<Rightarrow> bool \<times> dialer" where
  "cas old new h = (if d_connected h = old then (True, h\<lparr>d_connected := new\<rparr>) else (False, h))"

definition conn_do :: "conn_op \<Rightarrow> dialer \<Rightarrow> dialer" where
  "conn_do op h = h\<lparr>d_ops := d_ops h @ [op]\<rparr>"

definition startReaderDisconnect :: "dialer \<Rightarrow> dialer" where
  "startReaderDisconnect h =
     (case cas Connected ReadClosed h of
        (True, h) \<Rightarrow> conn_do OpCloseWrite h
      | (False, h) \<Rightarrow>
          (case cas WriteClosed NotConnected h of
             (True, h) \<Rightarrow> conn_do OpCloseWrite h
           | (False, h) \<Rightarrow> h))"

definition startWriterDisconnect :: "dialer \<Rightarrow> dialer" where
  "startWriterDisconnect h =
     (case cas Connected WriteClosed h of
        (True, h) \<Rightarrow> conn_do OpCloseRead h
      | (False, h) \<Rightarrow>
          (case cas ReadClosed NotConnected h of
             (True, h) \<Rightarrow> conn_do OpCloseRead h
           | (False, h) \<Rightarrow> h))"

text \<open>
  \<open>d_conn\<close> is \<open>None\<close> for the nil connection and otherwise tells whether the connection can be closed
  by halves; the result \<open>None\<close> is the call of \<open>Close\<close> on the nil connection.
\<close>

definition startDisconnect :: "bool \<Rightarrow> dialer \<Rightarrow> dialer option" where
  "startDisconnect isReader h =
     (if d_conn h = Some True then
        Some (if isReader then startReaderDisconnect h else startWriterDisconnect h)
      else case cas Connected NotConnected h of
             (True, h) \<Rightarrow> if d_conn h = None then None else Some (conn_do OpClose h)
           | (False, h) \<Rightarrow> Some h)"

definition dialer_Stop :: "dialer \<Rightarrow> dialer option" where
  "dialer_Stop h =
     do {
       h \<leftarrow> startDisconnect True h;
       h \<leftarrow> startDisconnect False h;
       Some (h\<lparr>d_cancelled := True\<rparr>)
     }"

section \<open>Construction and start\<close>

text \<open>Durations in nanoseconds; \<open>time.Duration\<close> is compared as a signed number.\<close>

definition tcpConnTTL :: u64 where "tcpConnTTL = 7200000000000"
definition udpConnTTL :: u64 where "udpConnTTL = 2000000000"
definition localDialTimeout :: u64 where "localDialTimeout = 2000000000"

definition NewConnEndpointTTL :: "stream \<Rightarrow> bool option \<Rightarrow> u64 \<Rightarrow> dialer" where
  "NewConnEndpointTTL s conn t =
     \<lparr>d_stream = s, d_handler = NewTimedHandler (stream_id s) t False, d_conn = conn,
      d_connected = (if conn \<noteq> None then Connecting else NotConnected),
      d_done = False, d_cancelled = False, d_ops = [], d_sent = [], d_closeSends = 0\<rparr>"

definition NewConnEndpoint :: "stream \<Rightarrow> bool option \<Rightarrow> dialer option" where
  "NewConnEndpoint s conn =
     map_option (\<lambda>p. NewConnEndpointTTL s conn (if p = ProtoUDP then udpConnTTL else tcpConnTTL))
       (Protocol (stream_id s))"

definition NewDialer :: "stream \<Rightarrow> dialer option" where
  "NewDialer s = NewConnEndpoint s None"

definition NewDialerTTL :: "stream \<Rightarrow> u64 \<Rightarrow> dialer" where
  "NewDialerTTL s t = NewConnEndpointTTL s None t"

text \<open>
  The destination to dial and the timeout: an IPv6 destination goes through the synthetic IP resolver,
  and a destination that it changes is local, so its timeout is capped.
\<close>

definition dial_target ::
  "(addr \<Rightarrow> string + addr) \<Rightarrow> stream \<Rightarrow> (string + conn_id \<times> u64) option" where
  "dial_target resolve s =
     do {
       dst \<leftarrow> Destination (stream_id s);
       if is6 (ap_addr dst) then
         (case resolve (ap_addr dst) of
            Inl e \<Rightarrow> Some (Inl e)
          | Inr a \<Rightarrow>
              if a \<noteq> ap_addr dst then
                do {
                  p \<leftarrow> Protocol (stream_id s);
                  src \<leftarrow> Source (stream_id s);
                  cid \<leftarrow> NewConnID p src \<lparr>ap_addr = a, ap_port = ap_port dst\<rparr>;
                  Some (Inr (cid, if sint localDialTimeout < sint (dialTimeout s) then localDialTimeout
                                  else dialTimeout s))
                }
              else Some (Inr (stream_id s, dialTimeout s)))
       else Some (Inr (stream_id s, dialTimeout s))
     }"

text \<open>
  The goroutine of \<open>Start\<close> up to the point where the two loops run: \<open>resolve\<close> is the synthetic IP
  resolver, \<open>dial\<close> the result of the retried dial within the given timeout, and \<open>send_ok\<close> tells
  whether the stream accepts a message. A dialer that is done has closed its \<open>done\<close> channel.
\<close>

definition dialer_send :: "message \<Rightarrow> dialer \<Rightarrow> dialer" where
  "dialer_send m h = h\<lparr>d_sent := d_sent h @ [m]\<rparr>"

definition dialer_loops :: "dialer \<Rightarrow> dialer" where
  "dialer_loops h = h\<lparr>d_handler := TimedHandler_Start (d_handler h), d_connected := Connected\<rparr>"

definition dialer_Start ::
  "(addr \<Rightarrow> string + addr) \<Rightarrow> (u64 \<Rightarrow> conn_id \<Rightarrow> string + bool) \<Rightarrow> (message \<Rightarrow> bool) \<Rightarrow> dialer \<Rightarrow> dialer option" where
  "dialer_Start resolve dial send_ok h =
     (case d_connected h of
        NotConnected \<Rightarrow>
          do {
            tgt \<leftarrow> dial_target resolve (d_stream h);
            (case tgt of
               Inl e \<Rightarrow> Some (h\<lparr>d_connected := NotConnected, d_done := True\<rparr>)
             | Inr (cid, dto) \<Rightarrow>
                 (case dial dto cid of
                    Inl e \<Rightarrow>
                      let h = dialer_send (NewMessage DialReject []) h
                      in Some (h\<lparr>d_closeSends := d_closeSends h + 1, d_connected := NotConnected, d_done := True\<rparr>)
                  | Inr half \<Rightarrow>
                      let h = dialer_send (NewMessage DialOK []) h
                      in if send_ok (NewMessage DialOK []) then Some (dialer_loops (h\<lparr>d_conn := Some half\<rparr>))
                         else Some ((conn_do OpClose h)\<lparr>d_connected := Connecting, d_done := True\<rparr>)))
          }
      | Connecting \<Rightarrow> Some (dialer_loops h)
      | _ \<Rightarrow> Some (h\<lparr>d_done := True\<rparr>))"

text \<open>The end of that goroutine, when both loops have ended.\<close>

definition dialer_finish :: "dialer \<Rightarrow> dialer option" where
  "dialer_finish h = map_option (\<lambda>h. h\<lparr>d_done := True\<rparr>) (dialer_Stop h)"

section \<open>The loops\<close>

definition dialer_ResetIdle :: "dialer \<Rightarrow> (bool \<times> dialer) option" where
  "dialer_ResetIdle h = map_option (\<lambda>(b, th). (b, h\<lparr>d_handler := th\<rparr>)) (ResetIdle (d_handler h))"

definition handleControl :: "byte \<Rightarrow> dialer \<Rightarrow> dialer option" where
  "handleControl code h =
     (if code = DialReject \<or> code = Disconnect then dialer_Stop h
      else if code = KeepAlive then map_option snd (dialer_ResetIdle h)
      else Some h)"

text \<open>
  The inner loop that writes a payload. \<open>write\<close> is \<open>Write\<close> of the connection, on its state; the loop
  goes on while the writes return no error, so it has no result if they never make progress.
\<close>

type_synonym 'c conn_write = "'c \<Rightarrow> byte list \<Rightarrow> (nat \<times> string option) \<times> 'c"

partial_function (option) reply_all ::
  "'c conn_write \<Rightarrow> byte list \<Rightarrow> nat \<Rightarrow> 'c \<Rightarrow> (string option \<times> 'c) option" where
  "reply_all write payload n c =
     (if n < length payload then
        (case write c (drop n payload) of ((wn, err), c) \<Rightarrow>
           (case err of
              Some e \<Rightarrow> Some (Some e, c)
            | None \<Rightarrow> reply_all write payload (n + wn) c))
      else Some (None, c))"

text \<open>
  One turn of \<open>readLoop\<close>: the case of its select that was taken. The flag of the result tells whether
  the loop goes on; when it ends, the deferred disconnect of the reading side is part of the turn.
\<close>

datatype loop_event = EvCtxDone | EvIdle | EvErr string | EvClosed | EvMsg message

definition readLoop_end :: "dialer \<times> 'c \<Rightarrow> (bool \<times> dialer \<times> 'c) option" where
  "readLoop_end = (\<lambda>(h, c). map_option (\<lambda>h. (False, h, c)) (startDisconnect True h))"

definition readLoop_turn :: "'c conn_write \<Rightarrow> loop_event \<Rightarrow> dialer \<times> 'c \<Rightarrow> (bool \<times> dialer \<times> 'c) option" where
  "readLoop_turn write ev = (\<lambda>(h, c).
     case ev of
       EvCtxDone \<Rightarrow> readLoop_end (h, c)
     | EvIdle \<Rightarrow> readLoop_end (h, c)
     | EvErr e \<Rightarrow> Some (True, h, c)
     | EvClosed \<Rightarrow> readLoop_end (h, c)
     | EvMsg m \<Rightarrow>
         do {
           (stopped, h) \<leftarrow> dialer_ResetIdle h;
           if \<not> stopped then readLoop_end (h, c)
           else do {
             code \<leftarrow> Code m;
             payload \<leftarrow> Payload m;
             if code \<noteq> Normal then map_option (\<lambda>h. (True, h, c)) (handleControl code h)
             else do {
               (err, c) \<leftarrow> reply_all write payload 0 c;
               if err \<noteq> None then readLoop_end (h, c) else Some (True, h, c)
             }
           }
         })"

text \<open>
  One turn of \<open>connToStreamLoop\<close>: the bytes read, the kind of error, whether the select around the
  send took the case of the cancelled context, whether the context has an error after a timeout, and
  whether the other side of the channel \<open>outgoing\<close> is ready (the select with a default). The messages
  put on that channel are the second component; the flag tells whether the loop goes on.
\<close>

datatype read_error = RdTimeout | RdEOF | RdClosed | RdAborted | RdOther string

definition connToStream_end :: "bool \<Rightarrow> dialer \<times> message list \<Rightarrow> (bool \<times> dialer \<times> message list) option" where
  "connToStream_end ready = (\<lambda>(h, out). do {
     (stopped, h) \<leftarrow> dialer_ResetIdle h;
     Some (False, h, if \<not> stopped \<and> ready then out @ [NewMessage Disconnect []] else out)
   })"

definition connToStream_turn ::
  "byte list \<Rightarrow> read_error option \<Rightarrow> bool \<Rightarrow> bool \<Rightarrow> bool \<Rightarrow> dialer \<times> message list \<Rightarrow> (bool \<times> dialer \<times> message list) option" where
  "connToStream_turn data err took_done ctx_err ready = (\<lambda>(h, out).
     if data \<noteq> [] \<and> took_done then connToStream_end ready (h, out)
     else let out = (if data \<noteq> [] then out @ [NewMessage Normal data] else out) in
     case err of
       Some RdTimeout \<Rightarrow> if ctx_err then connToStream_end ready (h, out) else Some (True, h, out)
     | Some _ \<Rightarrow> do {
           h \<leftarrow> startDisconnect False h;
           connToStream_end ready (h, out)
         }
     | None \<Rightarrow> do {
           (stopped, h) \<leftarrow> dialer_ResetIdle h;
           if \<not> stopped then connToStream_end ready (h, out) else Some (True, h, out)
         })"

section \<open>Waiting for dial requests\<close>

text \<open>
  The state of \<open>DialWaitLoop\<close>: the requests accepted so far, the responders that run (the entries of
  the channel \<open>dialResponders\<close>, of capacity 256) and, once it has returned, its result.
\<close>

definition maxConcurrentDialResponders :: nat where
  "maxConcurrentDialResponders = 256"

record dial_wait =
  accepted :: "conn_id list"
  responders :: nat
  returned :: "stream_error option option"

definition dial_recv_error :: "bool \<Rightarrow> stream_error \<Rightarrow> stream_error option" where
  "dial_recv_error ctx_err e =
     (if ctx_err then None
      else if e = EOF \<or> e = ErrClosed then None
      else case status_Code e of CodeOther \<Rightarrow> Some e | _ \<Rightarrow> None)"

inductive dial_wait_step :: "dial_wait \<Rightarrow> dial_wait \<Rightarrow> bool" where
  accept: "returned w = None \<Longrightarrow> responders w < maxConcurrentDialResponders \<Longrightarrow>
    dial_wait_step w (w\<lparr>accepted := accepted w @ [cid], responders := responders w + 1\<rparr>)"
| finished: "0 < responders w \<Longrightarrow> dial_wait_step w (w\<lparr>responders := responders w - 1\<rparr>)"
| cancelled: "returned w = None \<Longrightarrow> dial_wait_step w (w\<lparr>returned := Some None\<rparr>)"
| failed: "returned w = None \<Longrightarrow> dial_wait_step w (w\<lparr>returned := Some (dial_recv_error ctx_err e)\<rparr>)"

inductive_cases dial_wait_stepE: "dial_wait_step w w'"

text \<open>
  \<open>dialRespond\<close>: the result of the provider's \<open>Tunnel\<close> call, then that of the handshake; the counter
  is that of \<open>IncomingDialError\<close>, and the result the dialer that is started.
\<close>

definition dialRespond ::
  "(string + unit) \<Rightarrow> (stream_error + stream) \<Rightarrow> nat \<Rightarrow> (dialer option \<times> nat) option" where
  "dialRespond tunnel handshake errors =
     (case tunnel of
        Inl e \<Rightarrow> Some (None, errors + 1)
      | Inr _ \<Rightarrow>
          (case handshake of
             Inl e \<Rightarrow> Some (None, errors + 1)
           | Inr s \<Rightarrow> map_option (\<lambda>d. (Some d, errors)) (NewDialer s)))"

section \<open>Concurrent callers of the pool agree\<close>

lemma pool_insert_Get: "pool_insert cid h p = ((h', f), p') \<Longrightarrow> pool_Get cid p' = Some h'"
  by (auto simp: pool_insert_def pool_Get_def map_of_update split: option.splits)

lemma pool_insert_other:
  "pool_insert cid h p = (r, p') \<Longrightarrow> pool_Get x p = Some y \<Longrightarrow> pool_Get x p' = Some y"
  by (auto simp: pool_insert_def pool_Get_def map_of_update split: option.splits)

text \<open>
  Every caller that is done holds the handler of the pool, and the handlers started are those of the
  pool, one per connection.
\<close>

fun caller_ok :: "'h pool \<Rightarrow> 'h caller \<Rightarrow> bool" where
  "caller_ok p (Done cid h f) \<longleftrightarrow> pool_Get cid p = Some h"
| "caller_ok p c \<longleftrightarrow> True"

definition pool_inv :: "'h pool_state \<Rightarrow> bool" where
  "pool_inv s \<longleftrightarrow>
     list_all (caller_ok (handlers s)) (callers s)
     \<and> distinct (map fst (started s))
     \<and> (\<forall>cid h. (cid, h) \<in> set (started s) \<longrightarrow> pool_Get cid (handlers s) = Some h)"

lemma caller_step_mono:
  "caller_step c p = (c', p') \<Longrightarrow> pool_Get x p = Some y \<Longrightarrow> pool_Get x p' = Some y"
  by (auto simp: caller_step_def pool_insert_other split: caller.splits option.splits prod.splits)

lemma caller_step_ok: "caller_ok p c \<Longrightarrow> caller_step c p = (c', p') \<Longrightarrow> caller_ok p' c'"
  by (auto simp: caller_step_def pool_insert_Get split: caller.splits option.splits prod.splits)

lemma caller_ok_mono:
  "caller_ok p c \<Longrightarrow> (\<And>x y. pool_Get x p = Some y \<Longrightarrow> pool_Get x p' = Some y) \<Longrightarrow> caller_ok p' c"
  by (cases c) auto

lemma caller_step_started:
  assumes "caller_step (Insert cid h) p = (Done cid' h' False, p')"
  shows "cid' = cid \<and> pool_Get cid p = None \<and> pool_Get cid p' = Some h'"
  using assms by (auto simp: caller_step_def pool_insert_def pool_Get_def map_of_update split: option.splits)

lemma pool_step_inv:
  assumes "pool_inv s"
  shows "pool_inv (pool_step i s)"
proof (cases "i < length (callers s)")
  case True
  obtain c p where step: "caller_step (callers s ! i) (handlers s) = (c, p)" by fastforce
  have mono: "\<And>x y. pool_Get x (handlers s) = Some y \<Longrightarrow> pool_Get x p = Some y"
    using caller_step_mono [OF step] .
  have "list_all (caller_ok p) ((callers s)[i := c])"
    using assms True step caller_step_ok [OF _ step] mono
    by (auto simp: pool_inv_def list_all_length nth_list_update intro: caller_ok_mono)
  moreover
  define new where "new = (case (callers s ! i, c) of (Insert _ _, Done cid h False) \<Rightarrow> [(cid, h)] | _ \<Rightarrow> [])"
  have "distinct (map fst (started s @ new)) \<and>
    (\<forall>cid h. (cid, h) \<in> set (started s @ new) \<longrightarrow> pool_Get cid p = Some h)"
  proof (cases "new = []")
    case True
    with assms mono show ?thesis by (auto simp: pool_inv_def)
  next
    case False
    then obtain cid h cid' h' where c: "callers s ! i = Insert cid h" "c = Done cid' h' False" "new = [(cid', h')]"
      by (auto simp: new_def split: caller.splits bool.splits)
    with step have "caller_step (Insert cid h) (handlers s) = (Done cid' h' False, p)" by simp
    from caller_step_started [OF this] c assms mono show ?thesis
      by (force simp: pool_inv_def)
  qed
  ultimately show ?thesis
    using True step by (simp add: pool_inv_def pool_step_def new_def)
qed (use assms in \<open>simp add: pool_step_def\<close>)

lemma pool_run_inv: "pool_inv s \<Longrightarrow> pool_inv (pool_run sched s)"
  by (induction sched arbitrary: s) (simp_all add: pool_run_def pool_step_inv)

section \<open>Concurrent disconnects\<close>

text \<open>
  The goroutines that call \<open>startReaderDisconnect\<close> and \<open>startWriterDisconnect\<close> on a connection that
  closes by halves, one atomic operation at a time: a thread is before its first or its second
  compare-and-swap, or done (the flag tells whether it reads).
\<close>

datatype disc_thread = Cas1 bool | Cas2 bool | DiscDone bool

definition disc_step :: "disc_thread \<Rightarrow> dialer \<Rightarrow> disc_thread \<times> dialer" where
  "disc_step t h =
     (case t of
        Cas1 r \<Rightarrow>
          (case cas Connected (if r then ReadClosed else WriteClosed) h of
             (True, h) \<Rightarrow> (DiscDone r, conn_do (if r then OpCloseWrite else OpCloseRead) h)
           | (False, h) \<Rightarrow> (Cas2 r, h))
      | Cas2 r \<Rightarrow>
          (case cas (if r then WriteClosed else ReadClosed) NotConnected h of
             (True, h) \<Rightarrow> (DiscDone r, conn_do (if r then OpCloseWrite else OpCloseRead) h)
           | (False, h) \<Rightarrow> (DiscDone r, h))
      | DiscDone r \<Rightarrow> (t, h))"

definition disc_sched :: "nat \<Rightarrow> disc_thread list \<times> dialer \<Rightarrow> disc_thread list \<times> dialer" where
  "disc_sched i = (\<lambda>(ts, h).
     if i < length ts then (case disc_step (ts ! i) h of (t, h) \<Rightarrow> (ts[i := t], h)) else (ts, h))"

definition disc_run :: "nat list \<Rightarrow> disc_thread list \<times> dialer \<Rightarrow> disc_thread list \<times> dialer" where
  "disc_run sched s = fold disc_sched sched s"

text \<open>A thread that runs alone is a call of the function of the source.\<close>

lemma disc_sequential:
  "disc_run [0, 0] ([Cas1 r], h) =
     ([DiscDone r], if r then startReaderDisconnect h else startWriterDisconnect h)"
  by (auto simp: disc_run_def disc_sched_def disc_step_def startReaderDisconnect_def
      startWriterDisconnect_def cas_def)

text \<open>
  The invariant: while the connection is open nobody has got past the first compare-and-swap; once
  one half is closed, no thread of the other side has given up; and the operations on the connection
  are those that the state tells.
\<close>

fun disc_thread_ok :: "conn_state \<Rightarrow> disc_thread \<Rightarrow> bool" where
  "disc_thread_ok Connected t = (\<exists>r. t = Cas1 r)"
| "disc_thread_ok ReadClosed t = (t \<noteq> DiscDone False)"
| "disc_thread_ok WriteClosed t = (t \<noteq> DiscDone True)"
| "disc_thread_ok NotConnected t = True"
| "disc_thread_ok Connecting t = False"

fun disc_ops_ok :: "conn_state \<Rightarrow> conn_op list \<Rightarrow> bool" where
  "disc_ops_ok Connected ops = (ops = [])"
| "disc_ops_ok ReadClosed ops = (ops = [OpCloseWrite])"
| "disc_ops_ok WriteClosed ops = (ops = [OpCloseRead])"
| "disc_ops_ok NotConnected ops = (ops = [OpCloseWrite, OpCloseRead] \<or> ops = [OpCloseRead, OpCloseWrite])"
| "disc_ops_ok Connecting ops = False"

definition disc_inv :: "disc_thread list \<times> dialer \<Rightarrow> bool" where
  "disc_inv = (\<lambda>(ts, h).
     list_all (disc_thread_ok (d_connected h)) ts \<and> disc_ops_ok (d_connected h) (d_ops h))"

lemma disc_step_ok:
  assumes "disc_step t h = (t', h')" and "disc_thread_ok (d_connected h) t" and "disc_ops_ok (d_connected h) (d_ops h)"
  shows "disc_thread_ok (d_connected h') t'" and "disc_ops_ok (d_connected h') (d_ops h')"
    and "disc_thread_ok (d_connected h) u \<Longrightarrow> disc_thread_ok (d_connected h') u"
  using assms
  by (cases "d_connected h"; cases t; auto simp: disc_step_def cas_def conn_do_def split: if_splits)+

lemma disc_sched_inv:
  assumes "disc_inv s"
  shows "disc_inv (disc_sched i s)"
proof -
  obtain ts h where s: "s = (ts, h)" by fastforce
  show ?thesis
  proof (cases "i < length ts")
    case True
    obtain t' h' where step: "disc_step (ts ! i) h = (t', h')" by fastforce
    have ok: "disc_thread_ok (d_connected h) (ts ! j)" if "j < length ts" for j
      using assms s that by (simp add: disc_inv_def list_all_length)
    have ops: "disc_ops_ok (d_connected h) (d_ops h)" using assms s by (simp add: disc_inv_def)
    note st = disc_step_ok [OF step ok [OF True] ops]
    have "disc_thread_ok (d_connected h') (ts[i := t'] ! j)" if "j < length ts" for j
      using that st(1) st(3) [OF ok [OF that]] by (cases "j = i") simp_all
    with st(2) s True step show ?thesis
      by (simp add: disc_inv_def disc_sched_def list_all_length)
  next
    case False
    with assms s show ?thesis by (simp add: disc_sched_def)
  qed
qed

lemma disc_run_inv: "disc_inv s \<Longrightarrow> disc_inv (disc_run sched s)"
  by (induction sched arbitrary: s) (simp_all add: disc_run_def disc_sched_inv)

section \<open>Writing a payload\<close>

text \<open>
  What \<open>io.Writer\<close> requires of \<open>Write\<close>: it returns an error whenever it writes less than it was given.
  The log of a connection is the bytes written to it.
\<close>

definition writer_contract :: "'c conn_write \<Rightarrow> ('c \<Rightarrow> byte list) \<Rightarrow> bool" where
  "writer_contract write log \<longleftrightarrow>
     (\<forall>c p n err c'. write c p = ((n, err), c') \<longrightarrow>
        n \<le> length p \<and> log c' = log c @ take n p \<and> (n < length p \<longrightarrow> err \<noteq> None))"

lemma reply_all_total:
  assumes "writer_contract write log" and "n \<le> length payload"
  shows "\<exists>err c'. reply_all write payload n c = Some (err, c')
    \<and> (err = None \<longrightarrow> log c' = log c @ drop n payload)
    \<and> (\<exists>k. log c' = log c @ take k (drop n payload))"
proof (cases "n < length payload")
  case True
  obtain wn err c' where w: "write c (drop n payload) = ((wn, err), c')" by (metis surj_pair)
  with assms(1) have k: "wn \<le> length (drop n payload)" "log c' = log c @ take wn (drop n payload)"
    "wn < length (drop n payload) \<longrightarrow> err \<noteq> None"
    unfolding writer_contract_def by blast+
  show ?thesis
  proof (cases err)
    case None
    with k(1,3) have "wn = length (drop n payload)" by auto
    with True have "n + wn = length payload" by simp
    then have "reply_all write payload (n + wn) c' = Some (None, c')" by (simp add: reply_all.simps)
    with True w None have "reply_all write payload n c = Some (None, c')" by (simp add: reply_all.simps)
    moreover have "log c' = log c @ drop n payload" using k \<open>wn = _\<close> by simp
    ultimately show ?thesis using k(2) by blast
  next
    case (Some e)
    with True w have "reply_all write payload n c = Some (Some e, c')" by (simp add: reply_all.simps)
    with k(2) show ?thesis by blast
  qed
next
  case False
  then have "reply_all write payload n c = Some (None, c)" by (simp add: reply_all.simps)
  moreover have "log c = log c @ take 0 (drop n payload)" "log c = log c @ drop n payload" using False by simp_all
  ultimately show ?thesis by blast
qed

lemma dial_wait_bound:
  "dial_wait_step\<^sup>*\<^sup>* w w' \<Longrightarrow> responders w \<le> maxConcurrentDialResponders \<Longrightarrow>
   responders w' \<le> maxConcurrentDialResponders \<and> (returned w \<noteq> None \<longrightarrow> returned w' = returned w \<and> accepted w' = accepted w)"
  by (induction rule: rtranclp_induct) (auto elim!: dial_wait_stepE)

section \<open>Properties\<close>

fun disc_kind :: "disc_thread \<Rightarrow> bool" where
  "disc_kind (Cas1 r) = r"
| "disc_kind (Cas2 r) = r"
| "disc_kind (DiscDone r) = r"

lemma disc_step_kind: "disc_step t h = (t', h') \<Longrightarrow> disc_kind t' = disc_kind t"
  by (cases t) (auto simp: disc_step_def cas_def split: if_splits)

lemma disc_run_kinds: "map disc_kind (fst (disc_run sched s)) = map disc_kind (fst s)"
proof (induction sched arbitrary: s)
  case (Cons i sched)
  obtain ts h where s: "s = (ts, h)" by fastforce
  obtain t' h' where "disc_step (ts ! i) h = (t', h')" by fastforce
  then have "map disc_kind (fst (disc_sched i s)) = map disc_kind ts"
    using disc_step_kind by (auto simp: s disc_sched_def map_update intro!: list_update_same_conv [THEN iffD2])
  with Cons.IH [of "disc_sched i s"] show ?case by (simp add: disc_run_def s)
qed (simp add: disc_run_def)

lemma disc_run_init:
  assumes "d_connected h0 = Connected" and "d_ops h0 = []"
  shows "disc_inv (disc_run sched (map Cas1 rs, h0))"
  by (rule disc_run_inv) (use assms in \<open>simp add: disc_inv_def list_all_iff\<close>)

text \<open>
  C3. However the goroutines that disconnect a dialer are interleaved, each half of the connection is
  closed at most once; and when all of them are through and both directions were among them, the
  dialer is not connected and each half has been closed exactly once.
\<close>

theorem half_close_once:
  assumes "d_connected h0 = Connected" and "d_ops h0 = []"
    and "disc_run sched (map Cas1 rs, h0) = (ts, h)"
  shows "count_list (d_ops h) OpCloseRead \<le> 1 \<and> count_list (d_ops h) OpCloseWrite \<le> 1
    \<and> (list_all (\<lambda>t. \<exists>r. t = DiscDone r) ts \<and> True \<in> set rs \<and> False \<in> set rs \<longrightarrow>
         d_connected h = NotConnected
         \<and> count_list (d_ops h) OpCloseRead = 1 \<and> count_list (d_ops h) OpCloseWrite = 1)"
proof -
  have inv: "disc_inv (ts, h)" using disc_run_init [OF assms(1,2), of sched rs] assms(3) by simp
  have kinds: "map disc_kind ts = rs"
    using disc_run_kinds [of sched "(map Cas1 rs, h0)"] assms(3) by (simp add: comp_def)
  have "d_connected h = NotConnected"
    if fin: "list_all (\<lambda>t. \<exists>r. t = DiscDone r) ts" and "True \<in> set rs" and "False \<in> set rs"
  proof -
    have "DiscDone r \<in> set ts" if "r \<in> set rs" for r
      using that fin kinds by (force simp: list_all_iff)
    with \<open>True \<in> set rs\<close> \<open>False \<in> set rs\<close> inv show ?thesis
      by (cases "d_connected h") (auto simp: disc_inv_def list_all_iff)
  qed
  with inv show ?thesis by (cases "d_connected h") (auto simp: disc_inv_def)
qed

text \<open>A dialer that is connected, for the witnesses.\<close>

definition sample_stream :: stream where
  "sample_stream = (newStream ''TUN'')\<lparr>stream_id := NewZeroID\<rparr>"

definition sample_dialer :: dialer where
  "sample_dialer = dialer_loops (NewConnEndpointTTL sample_stream (Some True) 1000)"

theorem half_close_once_witness:
  "\<exists>ts h. disc_run [0, 1, 2, 1, 0, 2] (map Cas1 [True, False, True], sample_dialer) = (ts, h)
     \<and> d_connected h = NotConnected \<and> count_list (d_ops h) OpCloseRead = 1"
proof -
  obtain ts h where run: "disc_run [0, 1, 2, 1, 0, 2] (map Cas1 [True, False, True], sample_dialer) = (ts, h)"
    by fastforce
  have "fst (disc_run [0, 1, 2, 1, 0, 2] (map Cas1 [True, False, True], sample_dialer)) =
      [DiscDone True, DiscDone False, DiscDone True]" by code_simp
  then have ts: "ts = [DiscDone True, DiscDone False, DiscDone True]" using run by simp
  have c: "d_connected sample_dialer = Connected" "d_ops sample_dialer = []" by code_simp+
  from half_close_once [OF c run] run show ?thesis unfolding ts by auto
qed

text \<open>
  C4. Whatever callers ask a pool for handlers at the same time, in whatever order their lookups and
  insertions take place, all callers for one connection get the same handler, it is the one in the
  pool, and it is the only handler started for that connection, once.
\<close>

theorem GetOrCreate_agree:
  assumes "pool_run sched \<lparr>handlers = NewPool, started = [], callers = map (\<lambda>(cid, h). Lookup cid h) cs\<rparr> = s"
  shows "(\<forall>cid h f. Done cid h f \<in> set (callers s) \<longrightarrow> pool_Get cid (handlers s) = Some h)
    \<and> distinct (map fst (started s))
    \<and> (\<forall>cid h. (cid, h) \<in> set (started s) \<longrightarrow> pool_Get cid (handlers s) = Some h)"
proof -
  have "pool_inv \<lparr>handlers = NewPool, started = [], callers = map (\<lambda>(cid, h). Lookup cid h) cs\<rparr>"
    by (auto simp: pool_inv_def list_all_iff)
  from pool_run_inv [OF this, of sched] have "pool_inv s" unfolding assms .
  then show ?thesis by (auto simp: pool_inv_def list_all_iff)
qed

theorem GetOrCreate_agree_witness:
  "\<exists>s. pool_run [0, 1, 1, 0] \<lparr>handlers = NewPool, started = [],
         callers = map (\<lambda>(cid, h). Lookup cid h) [(NewZeroID, Some (1 :: nat)), (NewZeroID, Some 2)]\<rparr> = s
     \<and> callers s = [Done NewZeroID 2 True, Done NewZeroID 2 False]
     \<and> pool_Get NewZeroID (handlers s) = Some 2"
proof -
  obtain s where s: "pool_run [0, 1, 1, 0] \<lparr>handlers = NewPool, started = [],
      callers = map (\<lambda>(cid, h). Lookup cid h) [(NewZeroID, Some (1 :: nat)), (NewZeroID, Some 2)]\<rparr> = s"
    by blast
  have "callers (pool_run [0, 1, 1, 0] \<lparr>handlers = NewPool, started = [],
      callers = map (\<lambda>(cid, h). Lookup cid h) [(NewZeroID, Some (1 :: nat)), (NewZeroID, Some 2)]\<rparr>) =
      [Done NewZeroID 2 True, Done NewZeroID 2 False]" by code_simp
  then have c: "callers s = [Done NewZeroID 2 True, Done NewZeroID 2 False]" unfolding s .
  with GetOrCreate_agree [OF s] s show ?thesis by auto
qed

lemma dialer_Start_cases:
  assumes "dialer_Start resolve dial send_ok (NewConnEndpointTTL s conn t) = Some h"
  obtains "d_done h" and "d_connected h \<in> {NotConnected, Connecting}"
  | half where "\<not> d_done h" and "d_connected h = Connected" and "d_conn h = Some half" and "d_ops h = []"
  using assms
  by (cases conn)
    (auto simp: dialer_Start_def NewConnEndpointTTL_def dialer_loops_def dialer_send_def conn_do_def Let_def
      split: Option.bind_splits sum.splits if_splits)

lemma dialer_finish_Connected:
  assumes "d_connected h = Connected" and "d_conn h = Some half" and "d_ops h = []"
  shows "\<exists>h'. dialer_finish h = Some h' \<and> d_connected h' = NotConnected \<and> d_done h' \<and> d_cancelled h'
    \<and> d_ops h' = (if half then [OpCloseWrite, OpCloseRead] else [OpClose])"
  using assms
  by (auto simp: dialer_finish_def dialer_Stop_def startDisconnect_def startReaderDisconnect_def
      startWriterDisconnect_def cas_def conn_do_def)

text \<open>
  A dialer that has been started either is done already, and then its state is not connected (or
  still connecting, when the answer could not be sent), or its two loops run in the state connected;
  and when they have ended, finishing it never panics, leaves it not connected, cancelled and done,
  with the connection closed once: by its two halves, or as a whole if it has none.
\<close>

lemma dialer_lifecycle:
  assumes "dialer_Start resolve dial send_ok (NewConnEndpointTTL s conn t) = Some h"
  shows "if d_done h then d_connected h \<in> {NotConnected, Connecting}
    else d_connected h = Connected
      \<and> (\<exists>h'. dialer_finish h = Some h' \<and> d_connected h' = NotConnected \<and> d_done h' \<and> d_cancelled h'
           \<and> d_ops h' = (if d_conn h = Some True then [OpCloseWrite, OpCloseRead] else [OpClose]))"
  using assms
proof (cases rule: dialer_Start_cases)
  case (2 half)
  then show ?thesis using dialer_finish_Connected [of h half] by auto
qed auto

text \<open>
  The loop that writes a payload to a connection ends, if the connection keeps the contract of
  \<open>io.Writer\<close>: without error it has written the whole payload, and with an error a prefix of it.
\<close>

lemma reply_all_writes:
  assumes "writer_contract write log"
  shows "\<exists>err c'. reply_all write payload 0 c = Some (err, c')
    \<and> (err = None \<longrightarrow> log c' = log c @ payload)
    \<and> (\<exists>k. log c' = log c @ take k payload)"
  using reply_all_total [OF assms, of 0 payload c] by simp

text \<open>
  At most 256 dial responders run at any time, and once \<open>DialWaitLoop\<close> has returned, no further
  request is accepted and the result stays.
\<close>

lemma dial_responders_bounded:
  assumes "dial_wait_step\<^sup>*\<^sup>* \<lparr>accepted = [], responders = 0, returned = None\<rparr> w" and "dial_wait_step\<^sup>*\<^sup>* w w'"
  shows "responders w \<le> 256 \<and> responders w' \<le> 256
    \<and> (returned w \<noteq> None \<longrightarrow> returned w' = returned w \<and> accepted w' = accepted w)"
  using dial_wait_bound [OF assms(1)] dial_wait_bound [OF assms(2)]
  by (simp add: maxConcurrentDialResponders_def)

end
