(* ===== verification/Subnet.thy ===== *)
theory Subnet
  imports Netip "HOL-Library.Product_Lexorder"
begin

text \<open>
  The package \<^verbatim>\<open>pkg/subnet\<close>: the bit field of \<^verbatim>\<open>bitfield256.go\<close>, the functions on prefixes of
  \<^verbatim>\<open>subnet.go\<close> and the set of \<^verbatim>\<open>set.go\<close>; and the conversions of \<^verbatim>\<open>pkg/iputil/ipnet.go\<close>.

  A bit field is a list of four 64-bit words. The maps of \<open>CoveringPrefixes\<close> are association lists;
  their iteration order does not matter, for the result is sorted. \<open>Unique\<close> works in place on a
  slice: the model carries the part of it that is still in use. The interface addresses that
  \<open>RandomIPv4Prefix\<close> asks the operating system for are an argument.
\<close>

section \<open>Bit fields\<close>

type_synonym bitfield = "u64 list"

definition empty_field :: bitfield where
  "empty_field = replicate 4 0"

definition SetBit :: "bitfield \<Rightarrow> byte \<Rightarrow> bitfield" where
  "SetBit b bv =
     (let i = unat (drop_bit 6 bv) in b[i := b ! i OR push_bit (unat (bv AND 0x3f)) 1])"

definition ClearBit :: "bitfield \<Rightarrow> byte \<Rightarrow> bitfield" where
  "ClearBit b bv =
     (let i = unat (drop_bit 6 bv) in b[i := b ! i AND NOT (push_bit (unat (bv AND 0x3f)) 1)])"

definition GetBit :: "bitfield \<Rightarrow> byte \<Rightarrow> bool" where
  "GetBit b bv = (b ! unat (drop_bit 6 bv) AND push_bit (unat (bv AND 0x3f)) 1 \<noteq> 0)"

definition Bitfield_Equals :: "bitfield \<Rightarrow> bitfield option \<Rightarrow> bool" where
  "Bitfield_Equals b other = (case other of None \<Rightarrow> False | Some b' \<Rightarrow> b = b')"

text \<open>\<open>bits.OnesCount64\<close>.\<close>

definition ones_count64 :: "u64 \<Rightarrow> nat" where
  "ones_count64 g = length (filter (\<lambda>i. bit g i) [0..<64])"

definition OnesCount :: "bitfield \<Rightarrow> nat" where
  "OnesCount b = sum_list (map (\<lambda>g. if g \<noteq> 0 then ones_count64 g else 0) b)"

text \<open>The double loop over the groups and the bits that \<open>ToSlice\<close> and \<open>Mask\<close> share.\<close>

definition group_bytes :: "nat \<Rightarrow> u64 \<Rightarrow> nat list" where
  "group_bytes bi g =
     (if g \<noteq> 0
      then map (\<lambda>b. push_bit 6 bi OR b) (filter (\<lambda>b. g AND push_bit b 1 \<noteq> 0) [0..<64])
      else [])"

definition field_values :: "bitfield \<Rightarrow> nat list" where
  "field_values b = concat (map (\<lambda>(bi, g). group_bytes bi g) (enumerate 0 b))"

definition ToSlice :: "bitfield \<Rightarrow> byte list" where
  "ToSlice b = map of_nat (field_values b)"

text \<open>
  The inner loop of \<open>Mask\<close> for one bit: \<open>None\<close> when two bytes differ in it, otherwise the value of the
  bit (false if there is no byte at all).
\<close>

fun mask_scan :: "nat \<Rightarrow> bool \<Rightarrow> bool \<Rightarrow> nat list \<Rightarrow> bool option" where
  "mask_scan v first hasBit [] = Some hasBit"
| "mask_scan v first hasBit (bv # bvs) =
     (if first then mask_scan v False (bv AND v \<noteq> 0) bvs
      else if hasBit \<noteq> (bv AND v \<noteq> 0) then None
      else mask_scan v False hasBit bvs)"

fun mask_loop :: "nat list \<Rightarrow> nat \<Rightarrow> byte \<Rightarrow> nat \<times> byte" where
  "mask_loop bvs 0 val = (8, val)"
| "mask_loop bvs (Suc testBit) val =
     (let v = push_bit testBit 1 in
      case mask_scan v True False bvs of
        None \<Rightarrow> (7 - testBit, val)
      | Some hasBit \<Rightarrow> mask_loop bvs testBit (if hasBit then val OR of_nat v else val))"

definition Mask :: "bitfield \<Rightarrow> nat \<times> byte" where
  "Mask b = mask_loop (field_values b) 8 0"

section \<open>Prefixes that cover addresses\<close>

definition add_v4 :: "(byte list \<times> bitfield) list \<Rightarrow> byte list \<Rightarrow> (byte list \<times> bitfield) list" where
  "add_v4 m ip4 =
     (let r = take 2 ip4;
          bytes = (case map_of m r of None \<Rightarrow> empty_field | Some b \<Rightarrow> b)
      in AList.update r (SetBit bytes (ip4 ! 2)) m)"

definition add_v6 :: "(byte list \<times> bitfield list) list \<Rightarrow> byte list \<Rightarrow> (byte list \<times> bitfield list) list" where
  "add_v6 m ip16 =
     (let r = take 8 ip16;
          byteSets = (case map_of m r of None \<Rightarrow> replicate 7 empty_field | Some b \<Rightarrow> b)
      in AList.update r (map2 SetBit byteSets (take 7 (drop 8 ip16))) m)"

fun collect ::
  "addr list \<Rightarrow> (byte list \<times> bitfield) list \<times> (byte list \<times> bitfield list) list \<Rightarrow>
   (byte list \<times> bitfield) list \<times> (byte list \<times> bitfield list) list" where
  "collect [] m = m"
| "collect (ip # ips) (m4, m6) =
     collect ips
       (if is4 ip then (add_v4 m4 (as_slice ip), m6)
        else if is6 ip then (m4, add_v6 m6 (as_slice ip))
        else (m4, m6))"

definition prefix_v4 :: "byte list \<times> bitfield \<Rightarrow> prefix" where
  "prefix_v4 = (\<lambda>(network, bytes).
     case Mask bytes of (ones, thirdByte) \<Rightarrow>
       prefix_from (Addr4 (be_word (network @ [thirdByte, 0]))) (16 + int ones))"

text \<open>The loop over the seven bit fields: it stops at the first one that does not fix its whole byte.\<close>

fun mask_v6 :: "bitfield list \<Rightarrow> nat \<times> byte list" where
  "mask_v6 [] = (0, [])"
| "mask_v6 (bytes # byteSets) =
     (case Mask bytes of (ones, nByte) \<Rightarrow>
        if ones \<noteq> 8 then (ones, [nByte])
        else (case mask_v6 byteSets of (others, ns) \<Rightarrow> (ones + others, nByte # ns)))"

definition prefix_v6 :: "byte list \<times> bitfield list \<Rightarrow> prefix" where
  "prefix_v6 = (\<lambda>(subnet, byteSets).
     case mask_v6 byteSets of (ones, ns) \<Rightarrow>
       prefix_from (Addr6 (be_word (subnet @ ns @ replicate (8 - length ns) 0))) (64 + int ones))"

definition CoveringPrefixes :: "addr list \<Rightarrow> prefix list" where
  "CoveringPrefixes addrs =
     (case collect addrs ([], []) of (m4, m6) \<Rightarrow>
        sort_key paddr (map prefix_v4 m4 @ map prefix_v6 m6))"

section \<open>Covers and Unique\<close>

definition Covers :: "prefix \<Rightarrow> prefix \<Rightarrow> bool" where
  "Covers a b =
     (if \<not> (prefix_valid a \<and> prefix_valid b) then False
      else if a = b then True
      else if is4 (paddr a) \<noteq> is4 (paddr b) then False
      else if pbits b < pbits a then False
      else if 0 < pbits a then
        (case addr_prefix (paddr a) (pbits a) of
           None \<Rightarrow> False
         | Some a' \<Rightarrow>
             (case addr_prefix (paddr b) (pbits a) of
                None \<Rightarrow> False
              | Some b' \<Rightarrow> paddr a' = paddr b'))
      else paddr a = paddr b)"

text \<open>
  The slice up to \<open>ln\<close> and the index \<open>i\<close>: a covered subnet is replaced by the last one, which is then
  looked at next, or dropped if it is the last.
\<close>

definition covered_at :: "prefix list \<Rightarrow> nat \<Rightarrow> bool" where
  "covered_at xs i = list_ex (\<lambda>r. r \<noteq> i \<and> Covers (xs ! r) (xs ! i)) [0..<length xs]"

function unique_from :: "prefix list \<Rightarrow> nat \<Rightarrow> prefix list" where
  "unique_from xs i =
     (if i < length xs then
        if covered_at xs i then
          if i < length xs - 1 then unique_from ((butlast xs)[i := last xs]) i
          else unique_from (butlast xs) (i + 1)
        else unique_from xs (i + 1)
      else xs)"
  by auto
termination by (relation "measure (\<lambda>(xs, i). 2 * length xs - i)") auto

declare unique_from.simps [simp del]

definition Unique :: "prefix list \<Rightarrow> prefix list" where
  "Unique subnets = unique_from subnets 0"

fun partition_from :: "(nat \<Rightarrow> 'a \<Rightarrow> bool) \<Rightarrow> nat \<Rightarrow> 'a list \<Rightarrow> 'a list \<times> 'a list" where
  "partition_from f i [] = ([], [])"
| "partition_from f i (sn # sns) =
     (case partition_from f (i + 1) sns of (matched, notMatched) \<Rightarrow>
        if f i sn then (sn # matched, notMatched) else (matched, sn # notMatched))"

definition Partition :: "(nat \<Rightarrow> 'a \<Rightarrow> bool) \<Rightarrow> 'a list \<Rightarrow> 'a list \<times> 'a list" where
  "Partition f subnets = partition_from f 0 subnets"

section \<open>A free subnet\<close>

text \<open>The carry loop of \<open>incIP4\<close> over the bytes 2, 1 and 0.\<close>

fun inc_bytes :: "nat \<Rightarrow> byte list \<Rightarrow> byte list option" where
  "inc_bytes 0 ipc =
     (if ipc ! 0 < 255 then Some (ipc[0 := ipc ! 0 + 1]) else None)"
| "inc_bytes (Suc i) ipc =
     (if ipc ! Suc i < 255 then Some (ipc[Suc i := ipc ! Suc i + 1]) else inc_bytes i (ipc[Suc i := 0]))"

definition incIP4 :: "addr \<Rightarrow> addr \<Rightarrow> addr" where
  "incIP4 ip end' =
     (case inc_bytes 2 ((as_slice ip)[3 := 0]) of
        Some ipc \<Rightarrow>
          let ip' = Addr4 (be_word ipc) in if \<not> addr_less ip' end' then NoAddr else ip'
      | None \<Rightarrow> ip)"

definition candidate :: "int \<Rightarrow> addr \<Rightarrow> prefix" where
  "candidate bits ip = prefix_from (Addr4 (be_word ((as_slice ip)[3 := 1]))) bits"

text \<open>The search in one range: \<open>Some None\<close> is the end of the range, \<open>None\<close> a search that never ends.\<close>

partial_function (option) find_free ::
  "int \<Rightarrow> prefix list \<Rightarrow> addr \<Rightarrow> addr \<Rightarrow> prefix option option" where
  "find_free bits avoid ip end' =
     (if \<not> list_ex (\<lambda>cidr. overlaps cidr (candidate bits ip)) avoid then Some (Some (candidate bits ip))
      else let ip' = incIP4 ip end' in
           if \<not> is_valid ip' then Some None else find_free bits avoid ip' end')"

definition private_ranges :: "(addr \<times> addr) list" where
  "private_ranges =
     [(Addr4 0xc0a80000, Addr4 0xc0a90000),
      (Addr4 0xac100000, Addr4 0xac200000),
      (Addr4 0x0a000000, Addr4 0x0b000000)]"

fun find_in_ranges :: "int \<Rightarrow> prefix list \<Rightarrow> (addr \<times> addr) list \<Rightarrow> prefix option option" where
  "find_in_ranges bits avoid [] = Some None"
| "find_in_ranges bits avoid ((ip, end') # rs) =
     (case find_free bits avoid ip end' of
        None \<Rightarrow> None
      | Some (Some sn) \<Rightarrow> Some (Some sn)
      | Some None \<Rightarrow> find_in_ranges bits avoid rs)"

text \<open>\<open>ifaces\<close> are the prefixes of the interface addresses that parse; the inner \<open>None\<close> is the error.\<close>

definition RandomIPv4Prefix :: "prefix list \<Rightarrow> int \<Rightarrow> prefix list \<Rightarrow> prefix option option" where
  "RandomIPv4Prefix ifaces bits avoid =
     find_in_ranges bits (Unique (ifaces @ avoid)) private_ranges"

definition IsHalfOfDefault :: "prefix \<Rightarrow> bool" where
  "IsHalfOfDefault n \<longleftrightarrow> pbits n = 1"

section \<open>Sets of subnets\<close>

text \<open>A Go map with the prefixes as keys: a list without repetition, in some order.\<close>

type_synonym subnet_set = "prefix list"

definition Set_Add :: "prefix \<Rightarrow> subnet_set \<Rightarrow> bool \<times> subnet_set" where
  "Set_Add sn s = (if sn \<in> set s then (False, s) else (True, s @ [sn]))"

definition Set_Delete :: "prefix \<Rightarrow> subnet_set \<Rightarrow> bool \<times> subnet_set" where
  "Set_Delete sn s = (if sn \<in> set s then (True, remove1 sn s) else (False, s))"

definition NewSet :: "prefix list \<Rightarrow> subnet_set" where
  "NewSet subnets = fold (\<lambda>sn s. snd (Set_Add sn s)) subnets []"

definition Set_Equals :: "subnet_set \<Rightarrow> subnet_set \<Rightarrow> bool" where
  "Set_Equals s o' = (if length s \<noteq> length o' then False else list_all (\<lambda>key. key \<in> set o') s)"

definition sortedKeys :: "subnet_set \<Rightarrow> prefix list" where
  "sortedKeys s = sort_key (\<lambda>p. (paddr p, pbits p)) s"

definition AppendSortedTo :: "subnet_set \<Rightarrow> prefix list \<Rightarrow> prefix list" where
  "AppendSortedTo s subnets = (if s = [] then subnets else subnets @ sortedKeys s)"

section \<open>Prefixes on the wire\<close>

record ipnet =
  Ip :: "byte list"
  IMask :: int

definition PrefixToRPC :: "prefix \<Rightarrow> ipnet" where
  "PrefixToRPC n = \<lparr>Ip = as_slice (paddr n), IMask = pbits n\<rparr>"

definition RPCToPrefix :: "ipnet \<Rightarrow> prefix" where
  "RPCToPrefix m = (case addr_from_slice (Ip m) of Some a \<Rightarrow> prefix_from a (IMask m) | None \<Rightarrow> no_prefix)"

definition PrefixesToRPC :: "prefix list \<Rightarrow> ipnet list" where
  "PrefixesToRPC n = map PrefixToRPC n"

definition RPCsToPrefixes :: "ipnet list \<Rightarrow> prefix list" where
  "RPCsToPrefixes n = map RPCToPrefix n"

section \<open>The values of a bit field\<close>

lemma byte_split: "unat (bv :: byte) = unat (drop_bit 6 bv) * 64 + unat (bv AND 0x3f)"
proof -
  have "(0x3f :: byte) = mask 6" by (simp add: mask_eq_exp_minus_1)
  then have "unat (bv AND 0x3f) = unat bv mod 64"
    by (simp only: take_bit_eq_mask [symmetric] unsigned_take_bit_eq) (simp add: take_bit_eq_mod)
  moreover have "unat (drop_bit 6 bv) = unat bv div 64"
    by (simp add: drop_bit_eq_div unat_div)
  ultimately show ?thesis by simp
qed

lemma byte_split_bounds: "unat (drop_bit 6 (bv :: byte)) < 4" "unat (bv AND (0x3f :: byte)) < 64"
proof -
  have "unat bv < 256" using unsigned_less [of bv, where 'a = nat] by simp
  then show "unat (drop_bit 6 bv) < 4" by (simp add: drop_bit_eq_div unat_div)
  have "(0x3f :: byte) = mask 6" by (simp add: mask_eq_exp_minus_1)
  then have "unat (bv AND 0x3f) = unat bv mod 64"
    by (simp only: take_bit_eq_mask [symmetric] unsigned_take_bit_eq) (simp add: take_bit_eq_mod)
  then show "unat (bv AND (0x3f :: byte)) < 64" by simp
qed

lemma and_push_1: "a AND 2 ^ k \<noteq> 0 \<longleftrightarrow> bit (a :: 'a::semiring_bit_operations) k"
  by (simp add: bit_iff_and_push_bit_not_eq_0)

lemma and_push_1_nat: "0 < a AND 2 ^ k \<longleftrightarrow> bit (a :: nat) k" "a AND 2 ^ k = 0 \<longleftrightarrow> \<not> bit (a :: nat) k"
  using and_push_1 [of a k] by auto

lemma group_index:
  assumes "b < 64"
  shows "push_bit 6 i OR b = i * 64 + (b :: nat)"
proof -
  have "b = take_bit 6 b" using assms by (simp add: take_bit_nat_eq_self)
  then have "\<not> bit (push_bit 6 i) n \<or> \<not> bit b n" for n
    by (metis bit_push_bit_iff bit_take_bit_iff not_le)
  then have "push_bit 6 i + b = push_bit 6 i OR b" by (rule disjunctive_add)
  then show ?thesis by (simp add: push_bit_eq_mult)
qed

lemma set_field_values:
  assumes "length b = 4"
  shows "set (field_values b) = {n. n div 64 < 4 \<and> bit (b ! (n div 64)) (n mod 64)}"
proof -
  have g: "set (group_bytes i g) = {i * 64 + k | k. k < 64 \<and> bit g k}" for i g
    by (auto simp: group_bytes_def and_push_1 [symmetric] group_index image_iff)
  have "set (field_values b) = (\<Union>i<4. set (group_bytes i (b ! i)))"
  proof -
    have "set (enumerate 0 b) = (\<lambda>i. (i, b ! i)) ` {..<4}"
      using assms by (auto simp: in_set_enumerate_eq image_iff)
    then show ?thesis by (simp add: field_values_def)
  qed
  also have "\<dots> = {n. n div 64 < 4 \<and> bit (b ! (n div 64)) (n mod 64)}"
  proof -
    have "n \<in> (\<Union>i<4. {i * 64 + k | k. k < 64 \<and> bit (b ! i) k}) \<longleftrightarrow>
        n div 64 < 4 \<and> bit (b ! (n div 64)) (n mod 64)" for n
    proof
      assume "n div 64 < 4 \<and> bit (b ! (n div 64)) (n mod 64)"
      moreover have "n = n div 64 * 64 + n mod 64" "n mod 64 < 64" by simp_all
      ultimately show "n \<in> (\<Union>i<4. {i * 64 + k | k. k < 64 \<and> bit (b ! i) k})" by blast
    qed auto
    then show ?thesis unfolding g by blast
  qed
  finally show ?thesis .
qed

lemma GetBit_values:
  assumes "length b = 4"
  shows "GetBit b bv \<longleftrightarrow> unat bv \<in> set (field_values b)"
proof -
  have "unat bv div 64 = unat (drop_bit 6 bv)" "unat bv mod 64 = unat (bv AND 0x3f)"
    using byte_split [of bv] byte_split_bounds [of bv] by simp_all
  then show ?thesis
    using byte_split_bounds [of bv] by (simp add: GetBit_def and_push_1 set_field_values [OF assms])
qed

lemma length_SetBit [simp]: "length (SetBit b bv) = length b"
  by (simp add: SetBit_def Let_def)

lemma GetBit_SetBit: "length b = 4 \<Longrightarrow> GetBit (SetBit b bv) bv' \<longleftrightarrow> bv' = bv \<or> GetBit b bv'"
proof -
  assume len: "length b = 4"
  have "bv' = bv \<longleftrightarrow> unat (drop_bit 6 bv') = unat (drop_bit 6 bv) \<and> unat (bv' AND 0x3f) = unat (bv AND 0x3f)"
    using byte_split [of bv] byte_split [of bv'] by (metis word_unat_eq_iff)
  with len byte_split_bounds [of bv] byte_split_bounds [of bv'] show ?thesis
    by (auto simp: GetBit_def SetBit_def Let_def and_push_1 nth_list_update bit_or_iff bit_exp_iff
        simp del: and_zero_eq)
qed

lemma values_byte: "length b = 4 \<Longrightarrow> n \<in> set (field_values b) \<Longrightarrow> n < 256"
  by (auto simp: set_field_values)

section \<open>Mask is the longest common prefix\<close>

lemma mask_scan_rest:
  "mask_scan (2 ^ k) False h bvs = (if \<forall>bv\<in>set bvs. bit bv k = h then Some h else None)"
proof (induction bvs)
  case (Cons a bvs)
  then show ?case by (cases "bit a k = h") (auto simp: and_push_1_nat simp del: if_image_distrib)
qed simp

lemma mask_scan_eq:
  "mask_scan (2 ^ k) True False bvs =
     (if bvs = [] then Some False
      else if \<forall>bv\<in>set bvs. bit bv k = bit (hd bvs) k then Some (bit (hd bvs) k) else None)"
  by (cases bvs) (auto simp: mask_scan_rest and_push_1_nat)

text \<open>The value has the common bits from bit \<open>k\<close> upwards and no others.\<close>

definition common_from :: "nat list \<Rightarrow> nat \<Rightarrow> byte \<Rightarrow> bool" where
  "common_from bvs k val \<longleftrightarrow>
     (\<forall>i<8. if k \<le> i then \<forall>bv\<in>set bvs. bit bv i = bit val i else \<not> bit val i)"

lemma bit_or_exp: "bit (val OR (2 ^ k :: byte)) i \<longleftrightarrow> bit val i \<or> i = k \<and> k < 8"
  by (auto simp: bit_or_iff bit_exp_iff)

lemma mask_loop_correct:
  assumes "mask_loop bvs k val = (ones, res)" and "common_from bvs k val" and "k \<le> 8" and "bvs \<noteq> []"
  shows "ones \<le> 8 \<and> common_from bvs (8 - ones) res
    \<and> (ones < 8 \<longrightarrow> (\<exists>x\<in>set bvs. \<exists>y\<in>set bvs. bit x (7 - ones) \<noteq> bit y (7 - ones)))"
  using assms
proof (induction bvs k val rule: mask_loop.induct)
  case (2 bvs t val)
  note IH = 2(1) and run = 2(2) and com = 2(3) and bounds = 2(4,5)
  show ?case
  proof (cases "\<exists>h. \<forall>bv\<in>set bvs. bit bv t = h")
    case True
    then obtain h where h: "\<forall>bv\<in>set bvs. bit bv t = h" by blast
    define w where "w = (if h then val OR 2 ^ t else val)"
    have scan: "mask_scan (push_bit t 1) True False bvs = Some h"
      using h bounds by (simp add: mask_scan_eq)
    have "common_from bvs t w"
      unfolding common_from_def
    proof (intro allI impI)
      fix i :: nat
      assume "i < 8"
      then have old: "if Suc t \<le> i then \<forall>bv\<in>set bvs. bit bv i = bit val i else \<not> bit val i"
        using com unfolding common_from_def by blast
      have "bit w i \<longleftrightarrow> (if i = t then h else bit val i)"
        using old bounds by (cases "i = t") (simp_all add: w_def bit_or_exp)
      with old h show "if t \<le> i then \<forall>bv\<in>set bvs. bit bv i = bit w i else \<not> bit w i"
        by (cases "i = t") auto
    qed
    moreover have "mask_loop bvs t w = (ones, res)" 
      using run scan by (cases h) (simp_all add: w_def of_nat_power)
    ultimately show ?thesis
      using IH [OF refl scan] bounds by (cases h) (simp_all add: w_def of_nat_power)
  next
    case False
    then have ne: "\<not> (\<forall>bv\<in>set bvs. bit bv t = bit (hd bvs) t)" by blast
    have "mask_scan (push_bit t 1) True False bvs = None"
      unfolding push_bit_of_1 mask_scan_eq if_not_P [OF ne] using bounds by simp
    with run have r: "ones = 7 - t" "res = val" by simp_all
    from ne obtain x where x: "x \<in> set bvs" "bit x t \<noteq> bit (hd bvs) t" by blast
    have eq: "7 - ones = t" "8 - ones = Suc t" "ones \<le> 8" using bounds r by auto
    have "hd bvs \<in> set bvs" using bounds by simp
    with x have "\<exists>x\<in>set bvs. \<exists>y\<in>set bvs. bit x t \<noteq> bit y t" by blast
    with com show ?thesis unfolding eq r(2) using eq(3) by blast
  qed
qed simp

lemma Mask_correct:
  assumes "length b = 4" and "Mask b = (ones, val)" and "field_values b \<noteq> []"
  shows "ones \<le> 8" and "common_from (field_values b) (8 - ones) val"
    and "ones < 8 \<Longrightarrow> \<exists>x\<in>set (field_values b). \<exists>y\<in>set (field_values b). bit x (7 - ones) \<noteq> bit y (7 - ones)"
proof -
  have "common_from (field_values b) 8 0" by (auto simp: common_from_def)
  from mask_loop_correct [OF assms(2)[unfolded Mask_def] this] assms(3)
  show "ones \<le> 8" and "common_from (field_values b) (8 - ones) val"
    and "ones < 8 \<Longrightarrow> \<exists>x\<in>set (field_values b). \<exists>y\<in>set (field_values b). bit x (7 - ones) \<noteq> bit y (7 - ones)"
    by auto
qed

section \<open>Addresses by their leading bits\<close>

definition top_bit :: "byte list \<Rightarrow> nat \<Rightarrow> bool" where
  "top_bit bs i = bit (bs ! (i div 8)) (7 - i mod 8)"

lemma bit_be_word_top:
  assumes "length A = n" and "LENGTH('a::len) = 8 * n" and "q < 8 * n"
  shows "bit (be_word A :: 'a word) q = top_bit A (8 * n - 1 - q)"
proof -
  define a b where "a = q div 8" and "b = q mod 8"
  have q: "q = 8 * a + b" "b < 8" by (simp_all add: a_def b_def)
  with assms(3) have a: "a < n" by simp
  have "8 * n - 1 - q = 8 * (n - Suc a) + (7 - b)" using q a by (simp add: diff_mult_distrib2)
  moreover have "(8 * (n - Suc a) + (7 - b)) div 8 = n - Suc a" "(8 * (n - Suc a) + (7 - b)) mod 8 = 7 - b"
    by simp_all
  moreover have "7 - (7 - b) = b" using q by simp
  ultimately show ?thesis
    using assms a by (simp add: bit_be_word top_bit_def a_def b_def)
qed

lemma drop_bit_be_word_eq:
  assumes "length A = n" and "length B = n" and "LENGTH('a::len) = 8 * n" and "k \<le> 8 * n"
    and top: "\<And>i. i < k \<Longrightarrow> top_bit A i = top_bit B i"
  shows "drop_bit (8 * n - k) (be_word A :: 'a word) = drop_bit (8 * n - k) (be_word B)"
proof (rule bit_word_eqI)
  fix j assume "j < LENGTH('a)"
  show "bit (drop_bit (8 * n - k) (be_word A :: 'a word)) j = bit (drop_bit (8 * n - k) (be_word B :: 'a word)) j"
  proof (cases "8 * n - k + j < 8 * n")
    case True
    then have "8 * n - 1 - (8 * n - k + j) < k" using assms(4) by simp
    from top [OF this] True show ?thesis
      using bit_be_word_top [OF assms(1,3) True] bit_be_word_top [OF assms(2,3) True]
      by (simp add: bit_drop_bit_eq)
  next
    case False
    then show ?thesis
      using assms(3) bit_imp_le_length [of "be_word A :: 'a word" "8 * n - k + j"]
        bit_imp_le_length [of "be_word B :: 'a word" "8 * n - k + j"]
      by (auto simp: bit_drop_bit_eq)
  qed
qed

text \<open>A byte in a bit field agrees with the field's mask on the common bits.\<close>

lemma Mask_member:
  assumes "length b = 4" and "Mask b = (ones, val)" and "GetBit b bv" and "i < ones"
  shows "bit val (7 - i) = bit bv (7 - i)"
proof -
  have m: "unat bv \<in> set (field_values b)" using GetBit_values [OF assms(1)] assms(3) by simp
  then have "field_values b \<noteq> []" by auto
  note mask = Mask_correct [OF assms(1,2) this]
  have "7 - i < 8" and "8 - ones \<le> 7 - i" using mask(1) assms(4) by auto
  with mask(2) m have "bit (unat bv) (7 - i) = bit val (7 - i)" unfolding common_from_def by auto
  then show ?thesis by (simp add: bit_unsigned_iff)
qed

lemma Mask_le: "length b = 4 \<Longrightarrow> Mask b = (ones, val) \<Longrightarrow> GetBit b bv \<Longrightarrow> ones \<le> 8"
  using GetBit_values [of b bv] Mask_correct(1) [of b ones val] by fastforce

lemma prefix_v4_contains:
  assumes "length b = 4" and "GetBit b (as_slice (Addr4 w) ! 2)"
  shows "contains (prefix_v4 (take 2 (as_slice (Addr4 w)), b)) (Addr4 w)"
proof -
  obtain ones val where m: "Mask b = (ones, val)" by fastforce
  have le: "ones \<le> 8" using Mask_le [OF assms(1) m assms(2)] .
  let ?B = "be_bytes 4 w" and ?A = "take 2 (be_bytes 4 w) @ [val, 0]"
  have "top_bit ?A i = top_bit ?B i" if "i < 16 + ones" for i
  proof (cases "i < 16")
    case True
    then have "i div 8 < 2" by simp
    then show ?thesis by (simp add: top_bit_def nth_append)
  next
    case False
    define r where "r = i - 16"
    have r: "i = 16 + r" "r < ones" "r < 8" using False that le by (auto simp: r_def)
    then have "i div 8 = 2" "i mod 8 = r" by presburger+
    with Mask_member [OF assms(1) m assms(2) r(2)] show ?thesis by (simp add: top_bit_def nth_append)
  qed
  then have "drop_bit (8 * 4 - (16 + ones)) (be_word ?A :: u32) = drop_bit (8 * 4 - (16 + ones)) (be_word ?B)"
    using le by (intro drop_bit_be_word_eq) auto
  moreover have "nat (16 + int ones) = 16 + ones" by simp
  ultimately show ?thesis
    using le by (simp add: prefix_v4_def m contains_def prefix_from_def prefix_valid_def be_word_be_bytes)
qed

text \<open>The seven bit fields of an IPv6 subnet, member by member.\<close>

lemma mask_v6_member:
  assumes "mask_v6 bs = (ones, ns)" and "list_all2 (\<lambda>b v. length b = 4 \<and> GetBit b v) bs vs"
  shows "length ns \<le> length bs \<and> ones \<le> 8 * length ns
    \<and> (\<forall>i<ones. top_bit ns i = top_bit vs i)"
  using assms
proof (induction bs arbitrary: ones ns vs)
  case Nil
  then show ?case by simp
next
  case (Cons b bs)
  obtain v vs' where vs: "vs = v # vs'" and b: "length b = 4" "GetBit b v"
    and rest: "list_all2 (\<lambda>b v. length b = 4 \<and> GetBit b v) bs vs'"
    using Cons.prems(2) by (auto simp: list_all2_Cons1)
  obtain k n where m: "Mask b = (k, n)" by fastforce
  have le: "k \<le> 8" using Mask_le [OF b(1) m b(2)] .
  have first: "top_bit (n # xs) i = top_bit (v # ys) i" if "i < k" for i xs ys
    using Mask_member [OF b(1) m b(2) that] that le by (simp add: top_bit_def)
  show ?case
  proof (cases "k = 8")
    case False
    with Cons.prems(1) m have "ones = k" "ns = [n]" by simp_all
    with first le vs show ?thesis by simp
  next
    case True
    obtain o' ns' where r: "mask_v6 bs = (o', ns')" by fastforce
    with Cons.prems(1) m True have eq: "ones = 8 + o'" "ns = n # ns'" by simp_all
    note IH = Cons.IH [OF r rest]
    have "top_bit ns i = top_bit vs i" if "i < ones" for i
    proof (cases "i < 8")
      case True
      with first [of i ns' vs'] \<open>k = 8\<close> eq vs show ?thesis by simp
    next
      case False
      define j where "j = i - 8"
      have j: "i = 8 + j" using False by (simp add: j_def)
      then have "i div 8 = Suc (j div 8)" "i mod 8 = j mod 8" by simp_all
      moreover have "j < o'" using that eq j by simp
      ultimately show ?thesis using IH eq vs by (simp add: top_bit_def)
    qed
    with IH eq show ?thesis by simp
  qed
qed

lemma prefix_v6_contains:
  assumes "list_all2 (\<lambda>b v. length b = 4 \<and> GetBit b v) bs (take 7 (drop 8 (as_slice (Addr6 w))))"
  shows "contains (prefix_v6 (take 8 (as_slice (Addr6 w)), bs)) (Addr6 w)"
proof -
  obtain ones ns where m: "mask_v6 bs = (ones, ns)" by fastforce
  let ?B = "be_bytes 16 w"
  let ?A = "take 8 ?B @ ns @ replicate (8 - length ns) 0"
  have "length bs = 7" using list_all2_lengthD [OF assms] by simp
  with mask_v6_member [OF m assms] have len: "length ns \<le> 7" "ones \<le> 8 * length ns"
    and top: "\<And>i. i < ones \<Longrightarrow> top_bit ns i = top_bit (take 7 (drop 8 (as_slice (Addr6 w)))) i" by auto
  have "top_bit ?A i = top_bit ?B i" if "i < 64 + ones" for i
  proof (cases "i < 64")
    case True
    then have "i div 8 < 8" by simp
    then show ?thesis by (simp add: top_bit_def nth_append)
  next
    case False
    define j where "j = i - 64"
    have j: "i = 64 + j" "j < ones" using False that by (auto simp: j_def)
    have d: "i div 8 = 8 + j div 8" "i mod 8 = j mod 8" unfolding j(1) by presburger+
    have "j < 8 * length ns" using j len by simp
    then have "j div 8 < length ns" by (simp add: less_mult_imp_div_less mult.commute)
    with d top [OF j(2)] len show ?thesis by (simp add: top_bit_def nth_append)
  qed
  then have "drop_bit (8 * 16 - (64 + ones)) (be_word ?A :: u128) = drop_bit (8 * 16 - (64 + ones)) (be_word ?B)"
    using len by (intro drop_bit_be_word_eq) auto
  moreover have "nat (64 + int ones) = 64 + ones" by simp
  ultimately show ?thesis
    using len by (simp add: prefix_v6_def m contains_def prefix_from_def prefix_valid_def be_word_be_bytes)
qed

section \<open>The collected maps\<close>

definition inv4 :: "addr set \<Rightarrow> (byte list \<times> bitfield) list \<Rightarrow> bool" where
  "inv4 S m \<longleftrightarrow>
     distinct (map fst m)
     \<and> (\<forall>a\<in>S. is4 a \<longrightarrow> (\<exists>b. map_of m (take 2 (as_slice a)) = Some b \<and> GetBit b (as_slice a ! 2)))
     \<and> (\<forall>r b. map_of m r = Some b \<longrightarrow>
          length b = 4 \<and> (\<exists>a\<in>S. is4 a \<and> take 2 (as_slice a) = r \<and> GetBit b (as_slice a ! 2)))"

lemma inv4_add:
  assumes "inv4 S m" and "is4 a"
  shows "inv4 (insert a S) (add_v4 m (as_slice a))"
proof -
  define r where "r = take 2 (as_slice a)"
  define b where "b = (case map_of m r of None \<Rightarrow> empty_field | Some b \<Rightarrow> b)"
  have len: "length b = 4"
    using assms(1) by (auto simp: b_def empty_field_def inv4_def split: option.splits)
  have old: "GetBit b v" if "map_of m r = Some c" and "GetBit c v" for c v
    using that by (simp add: b_def)
  have m: "map_of (add_v4 m (as_slice a)) = (map_of m)(r \<mapsto> SetBit b (as_slice a ! 2))"
    by (simp add: add_v4_def r_def b_def Let_def map_of_update)
  have d: "distinct (map fst (add_v4 m (as_slice a)))"
    using assms(1) by (simp add: add_v4_def Let_def inv4_def distinct_update)
  show ?thesis
    unfolding inv4_def m
    using assms d len old by (auto simp: inv4_def GetBit_SetBit r_def [symmetric])
qed

definition fields_ok :: "bitfield list \<Rightarrow> byte list \<Rightarrow> bool" where
  "fields_ok bs ip \<longleftrightarrow> list_all2 (\<lambda>b v. length b = 4 \<and> GetBit b v) bs (take 7 (drop 8 ip))"

lemma fields_ok_Set:
  assumes "length bs = 7" and "\<forall>b\<in>set bs. length b = 4" and "length ip = 16" and "length ip' = 16"
  shows "fields_ok (map2 SetBit bs (take 7 (drop 8 ip'))) ip \<longleftrightarrow>
    (\<forall>k<7. ip ! (8 + k) = ip' ! (8 + k) \<or> GetBit (bs ! k) (ip ! (8 + k)))"
  using assms by (auto simp: fields_ok_def list_all2_conv_all_nth GetBit_SetBit)

definition inv6 :: "addr set \<Rightarrow> (byte list \<times> bitfield list) list \<Rightarrow> bool" where
  "inv6 S m \<longleftrightarrow>
     distinct (map fst m)
     \<and> (\<forall>a\<in>S. is6 a \<longrightarrow> (\<exists>b. map_of m (take 8 (as_slice a)) = Some b \<and> fields_ok b (as_slice a)))
     \<and> (\<forall>r bs. map_of m r = Some bs \<longrightarrow>
          length bs = 7 \<and> (\<forall>b\<in>set bs. length b = 4)
          \<and> (\<exists>a\<in>S. is6 a \<and> take 8 (as_slice a) = r \<and> fields_ok bs (as_slice a)))"

lemma length_as_slice6: "is6 a \<Longrightarrow> length (as_slice a) = 16"
  by (cases a) auto

lemma inv6_add:
  assumes "inv6 S m" and "is6 a"
  shows "inv6 (insert a S) (add_v6 m (as_slice a))"
proof -
  define r where "r = take 8 (as_slice a)"
  define bs where "bs = (case map_of m r of None \<Rightarrow> replicate 7 empty_field | Some b \<Rightarrow> b)"
  define new where "new = map2 SetBit bs (take 7 (drop 8 (as_slice a)))"
  have la: "length (as_slice a) = 16" using assms(2) by (rule length_as_slice6)
  have len: "length bs = 7" "\<forall>b\<in>set bs. length b = 4"
    using assms(1) by (auto simp: bs_def empty_field_def inv6_def split: option.splits)
  have "\<And>k. k < 7 \<Longrightarrow> length (bs ! k) = 4" using len by simp
  then have new: "length new = 7" "\<forall>b\<in>set new. length b = 4"
    using len la by (auto simp: new_def set_zip in_set_conv_nth)
  have self: "fields_ok new (as_slice a)" using fields_ok_Set [OF len la la] by (simp add: new_def)
  have old: "fields_ok new (as_slice x)" if "is6 x" and "map_of m r = Some c" and "fields_ok c (as_slice x)" for c x
    using that fields_ok_Set [OF len length_as_slice6 [OF that(1)] la] length_as_slice6 [OF that(1)]
    by (auto simp: new_def bs_def fields_ok_def list_all2_conv_all_nth)
  have m: "map_of (add_v6 m (as_slice a)) = (map_of m)(r \<mapsto> new)"
    by (simp add: add_v6_def r_def bs_def new_def Let_def map_of_update)
  have d: "distinct (map fst (add_v6 m (as_slice a)))"
    using assms(1) by (simp add: add_v6_def Let_def inv6_def distinct_update)
  show ?thesis
    unfolding inv6_def m using assms d new self old by (auto simp: inv6_def r_def [symmetric])
qed

lemma inv_mono: "inv4 S m \<Longrightarrow> \<not> is4 a \<Longrightarrow> inv4 (insert a S) m" "inv6 S m' \<Longrightarrow> \<not> is6 a \<Longrightarrow> inv6 (insert a S) m'"
  by (auto simp: inv4_def inv6_def)

lemma is4_is6: "\<not> (is4 a \<and> is6 a)"
  by (cases a) auto

lemma collect_inv:
  "inv4 S m4 \<Longrightarrow> inv6 S m6 \<Longrightarrow> collect as (m4, m6) = (n4, n6) \<Longrightarrow> inv4 (set as \<union> S) n4 \<and> inv6 (set as \<union> S) n6"
proof (induction "as" arbitrary: S m4 m6)
  case (Cons a "as")
  have "inv4 (insert a S) (if is4 a then add_v4 m4 (as_slice a) else m4)"
    "inv6 (insert a S) (if \<not> is4 a \<and> is6 a then add_v6 m6 (as_slice a) else m6)"
    using Cons.prems(1,2) is4_is6 [of a] by (auto intro: inv4_add inv6_add inv_mono)
  moreover have "collect as (if is4 a then add_v4 m4 (as_slice a) else m4,
      if \<not> is4 a \<and> is6 a then add_v6 m6 (as_slice a) else m6) = (n4, n6)"
    using Cons.prems(3) by (auto split: if_splits)
  ultimately show ?case using Cons.IH by fastforce
qed simp

lemma collect_start:
  assumes "collect as ([], []) = (m4, m6)"
  shows "inv4 (set as) m4" and "inv6 (set as) m6"
proof -
  have e: "inv4 {} []" "inv6 {} []" by (simp_all add: inv4_def inv6_def)
  from collect_inv [OF e assms] show "inv4 (set as) m4" and "inv6 (set as) m6" by auto
qed

lemma inv4_contains:
  assumes "inv4 S m" and "map_of m (take 2 (as_slice a)) = Some b" and "is4 a" and "GetBit b (as_slice a ! 2)"
  shows "contains (prefix_v4 (take 2 (as_slice a), b)) a"
  using assms prefix_v4_contains [of b] by (cases a) (auto simp: inv4_def simp del: as_slice.simps)

lemma inv6_contains:
  assumes "is6 a" and "fields_ok b (as_slice a)"
  shows "contains (prefix_v6 (take 8 (as_slice a), b)) a"
  using assms prefix_v6_contains [of b] by (cases a) (auto simp: fields_ok_def simp del: as_slice.simps)

lemma CoveringPrefixes_covers:
  assumes "a \<in> set addrs" and "is_valid a"
  shows "\<exists>p\<in>set (CoveringPrefixes addrs). contains p a"
proof -
  obtain m4 m6 where c: "collect addrs ([], []) = (m4, m6)" by fastforce
  note inv = collect_start [OF c]
  have set: "set (CoveringPrefixes addrs) = prefix_v4 ` set m4 \<union> prefix_v6 ` set m6"
    by (simp add: CoveringPrefixes_def c)
  show ?thesis
  proof (cases "is4 a")
    case True
    with inv(1) assms obtain b where "map_of m4 (take 2 (as_slice a)) = Some b" "GetBit b (as_slice a ! 2)"
      unfolding inv4_def by blast
    with inv4_contains [OF inv(1) _ True] map_of_SomeD show ?thesis unfolding set by fastforce
  next
    case False
    with assms(2) have "is6 a" by (cases a) auto
    with inv(2) assms obtain b where "map_of m6 (take 8 (as_slice a)) = Some b" "fields_ok b (as_slice a)"
      unfolding inv6_def by blast
    with inv6_contains [OF \<open>is6 a\<close>] map_of_SomeD show ?thesis unfolding set by fastforce
  qed
qed

lemma CoveringPrefixes_needed:
  assumes "p \<in> set (CoveringPrefixes addrs)"
  shows "\<exists>a\<in>set addrs. contains p a"
proof -
  obtain m4 m6 where c: "collect addrs ([], []) = (m4, m6)" by fastforce
  note inv = collect_start [OF c]
  from assms consider r b where "(r, b) \<in> set m4" "p = prefix_v4 (r, b)" | r bs where "(r, bs) \<in> set m6" "p = prefix_v6 (r, bs)"
    by (auto simp: CoveringPrefixes_def c)
  then show ?thesis
  proof cases
    case 1
    with inv(1) have "map_of m4 r = Some b" by (simp add: inv4_def)
    with inv(1) obtain a where "a \<in> set addrs" "is4 a" "take 2 (as_slice a) = r" "GetBit b (as_slice a ! 2)"
      unfolding inv4_def by blast
    with inv4_contains [OF inv(1), of a b] 1 \<open>map_of m4 r = Some b\<close> show ?thesis by auto
  next
    case 2
    with inv(2) have "map_of m6 r = Some bs" by (simp add: inv6_def)
    with inv(2) obtain a where "a \<in> set addrs" "is6 a" "take 8 (as_slice a) = r" "fields_ok bs (as_slice a)"
      unfolding inv6_def by blast
    with inv6_contains [of a bs] 2 show ?thesis by auto
  qed
qed

section \<open>Covers and Unique keep the covered addresses\<close>

lemma Covers_alt:
  assumes "prefix_wf a" and "prefix_wf b" and "0 < pbits a"
  shows "Covers a b \<longleftrightarrow> prefix_valid b \<and> pbits a \<le> pbits b \<and> same_top (nat (pbits a)) (paddr a) (paddr b)"
proof -
  have va: "is_valid (paddr a)" "pbits a \<le> int (bit_len (paddr a))" using assms by (auto simp: prefix_wf_def)
  have 1: "Covers a b" if "prefix_valid b" "a = b" using that assms by (simp add: Covers_def prefix_valid_def)
  have same: "same_top (nat (pbits a)) (paddr a) (paddr b)" if "a = b" using that va by simp
  have ap: "addr_prefix (paddr x) (pbits a) = Some (prefix_from (mask_addr (nat (pbits a)) (paddr x)) (pbits a))"
    if "pbits a \<le> int (bit_len (paddr x))" "is_valid (paddr x)" for x :: prefix
    using that assms(3) by (cases "paddr x") (auto simp: addr_prefix_def)
  have pf: "paddr (prefix_from x y) = x" for x y by (simp add: prefix_from_def)
  show ?thesis
  proof (cases "prefix_valid b \<and> pbits a \<le> pbits b \<and> a \<noteq> b")
    case False
    then show ?thesis using assms 1 same by (auto simp: Covers_def prefix_valid_def)
  next
    case True
    then have vb: "is_valid (paddr b)" "pbits a \<le> int (bit_len (paddr b))"
      using assms(2) by (auto simp: prefix_wf_def prefix_valid_def)
    have "same_top (nat (pbits a)) (paddr a) (paddr b) \<Longrightarrow> is4 (paddr a) = is4 (paddr b)"
      by (cases "paddr a"; cases "paddr b") auto
    with True assms ap [OF va(2,1)] ap [OF vb(2,1)] mask_addr_eq_iff [OF va(1)] show ?thesis
      by (auto simp: Covers_def prefix_valid_def pf)
  qed
qed

lemma same_top_0: "same_top 0 a b \<longleftrightarrow> is_valid a \<and> is_valid b \<and> is4 a = is4 b"
proof -
  have z4: "drop_bit 32 x = 0" for x :: u32 using drop_bit_word_beyond [of 32 x] by simp
  have z6: "drop_bit 128 x = 0" for x :: u128 using drop_bit_word_beyond [of 128 x] by simp
  show ?thesis by (cases a; cases b) (auto simp: z4 z6)
qed

lemma Covers_sound:
  assumes "prefix_wf a" and "prefix_wf b" and "Covers a b" and "contains b x"
  shows "contains a x"
proof (cases "0 < pbits a")
  case True
  with Covers_alt [OF assms(1,2)] assms(3) have c: "pbits a \<le> pbits b" "same_top (nat (pbits a)) (paddr a) (paddr b)"
    by auto
  have "same_top (nat (pbits a)) (paddr b) x"
    using assms(4) c(1) by (auto simp: contains_def elim!: same_top_mono)
  with c True show ?thesis by (auto simp: contains_def prefix_valid_def intro: same_top_trans)
next
  case False
  with assms have z: "pbits a = 0" "is4 (paddr a) = is4 (paddr b)" "is_valid (paddr a)"
    by (auto simp: Covers_def prefix_valid_def prefix_wf_def split: if_splits)
  have "same_top 0 (paddr b) x" using assms(4) by (auto simp: contains_def elim!: same_top_mono)
  with z show ?thesis by (simp add: contains_def prefix_valid_def same_top_0)
qed

text \<open>The slice after a removal: all elements but the one at \<open>i\<close>.\<close>

lemma set_butlast_update:
  assumes "i < length xs" and "i < length xs - 1"
  shows "set ((butlast xs)[i := last xs]) = {xs ! j | j. j < length xs \<and> j \<noteq> i}"
proof -
  have "xs \<noteq> []" using assms by auto
  have nth: "(butlast xs)[i := last xs] ! k = (if k = i then xs ! (length xs - 1) else xs ! k)"
    if "k < length xs - 1" for k
    using that assms \<open>xs \<noteq> []\<close> by (simp add: nth_list_update nth_butlast last_conv_nth)
  show ?thesis
  proof (intro equalityI subsetI)
    fix x assume "x \<in> set ((butlast xs)[i := last xs])"
    then obtain k where "k < length xs - 1" "x = (butlast xs)[i := last xs] ! k"
      by (auto simp: in_set_conv_nth)
    with nth [of k] assms show "x \<in> {xs ! j | j. j < length xs \<and> j \<noteq> i}" by (auto split: if_splits)
  next
    fix x assume "x \<in> {xs ! j | j. j < length xs \<and> j \<noteq> i}"
    then obtain j where j: "j < length xs" "j \<noteq> i" "x = xs ! j" by blast
    show "x \<in> set ((butlast xs)[i := last xs])"
    proof (cases "j = length xs - 1")
      case True
      with nth [of i] assms j have "x = (butlast xs)[i := last xs] ! i" by simp
      with assms show ?thesis by (auto simp: in_set_conv_nth intro: exI [of _ i])
    next
      case False
      with nth [of j] j have "x = (butlast xs)[i := last xs] ! j" by simp
      with False j show ?thesis by (auto simp: in_set_conv_nth intro: exI [of _ j])
    qed
  qed
qed

lemma set_butlast_nth:
  assumes "xs \<noteq> []" and "i = length xs - 1"
  shows "set (butlast xs) = {xs ! j | j. j < length xs \<and> j \<noteq> i}"
proof -
  have "j < length xs \<and> j \<noteq> i \<longleftrightarrow> j < length (butlast xs)" for j using assms by (cases xs) auto
  moreover have "set (butlast xs) = {xs ! j | j. j < length (butlast xs)}"
    unfolding set_conv_nth by (rule Collect_cong) (metis nth_butlast)
  ultimately show ?thesis by simp
qed

lemma covered_at_iff: "covered_at xs i \<longleftrightarrow> (\<exists>r<length xs. r \<noteq> i \<and> Covers (xs ! r) (xs ! i))"
  by (auto simp: covered_at_def list_ex_iff)

text \<open>What is removed is covered by something that stays.\<close>

lemma removal_keeps:
  assumes "set ys = {xs ! j | j. j < length xs \<and> j \<noteq> i}" and "i < length xs" and "covered_at xs i"
    and "\<forall>p\<in>set xs. prefix_wf p"
  shows "(\<exists>p\<in>set ys. contains p x) \<longleftrightarrow> (\<exists>p\<in>set xs. contains p x)"
proof
  assume "\<exists>p\<in>set xs. contains p x"
  then obtain k where k: "k < length xs" "contains (xs ! k) x" by (auto simp: in_set_conv_nth)
  obtain r where r: "r < length xs" "r \<noteq> i" "Covers (xs ! r) (xs ! i)" using assms(3) by (auto simp: covered_at_iff)
  show "\<exists>p\<in>set ys. contains p x"
  proof (cases "k = i")
    case True
    with Covers_sound [OF _ _ r(3), of x] k r assms(2,4) have "contains (xs ! r) x" by simp
    with r assms(1) show ?thesis by auto
  next
    case False
    with k assms(1) show ?thesis by auto
  qed
qed (use assms(1) in auto)

lemma unique_from_covers:
  "\<forall>p\<in>set xs. prefix_wf p \<Longrightarrow>
   (\<exists>p\<in>set (unique_from xs i). contains p x) = (\<exists>p\<in>set xs. contains p x)
   \<and> set (unique_from xs i) \<subseteq> set xs"
proof (induction xs i rule: unique_from.induct)
  case (1 xs i)
  show ?case
  proof (cases "i < length xs \<and> covered_at xs i")
    case True
    then have "xs \<noteq> []" by auto
    define ys where "ys = (if i < length xs - 1 then (butlast xs)[i := last xs] else butlast xs)"
    have "i = length xs - 1" if "\<not> i < length xs - 1" using True that by auto
    then have set: "set ys = {xs ! j | j. j < length xs \<and> j \<noteq> i}"
      using True set_butlast_update [of i xs] set_butlast_nth [OF \<open>xs \<noteq> []\<close>, of i] by (auto simp: ys_def)
    then have sub: "set ys \<subseteq> set xs" by auto
    with 1(4) have wf: "\<forall>p\<in>set ys. prefix_wf p" by blast
    have "unique_from xs i = unique_from ys (if i < length xs - 1 then i else i + 1)"
      using True by (simp add: unique_from.simps [of xs i] ys_def)
    moreover have "(\<exists>p\<in>set (unique_from ys (if i < length xs - 1 then i else i + 1)). contains p x) =
        (\<exists>p\<in>set ys. contains p x) \<and> set (unique_from ys (if i < length xs - 1 then i else i + 1)) \<subseteq> set ys"
      using 1(1,2) True wf by (simp add: ys_def)
    ultimately show ?thesis
      using removal_keeps [OF set _ _ 1(4), of x] True sub by auto
  next
    case False
    then show ?thesis using 1(3,4) by (simp add: unique_from.simps [of xs i])
  qed
qed

text \<open>Whatever has been passed is not covered by anything left, so in the end nothing is.\<close>

lemma covered_at_update:
  assumes "i < length xs - 1" and "j < i" and "covered_at ((butlast xs)[i := last xs]) j"
  shows "covered_at xs j"
proof -
  have "xs \<noteq> []" using assms by auto
  obtain r where r: "r < length xs - 1" "r \<noteq> j" "Covers ((butlast xs)[i := last xs] ! r) ((butlast xs)[i := last xs] ! j)"
    using assms(3) by (auto simp: covered_at_iff)
  have j: "(butlast xs)[i := last xs] ! j = xs ! j" using assms by (simp add: nth_butlast)
  show ?thesis
  proof (cases "r = i")
    case True
    then have "(butlast xs)[i := last xs] ! r = xs ! (length xs - 1)"
      using assms(1) \<open>xs \<noteq> []\<close> by (simp add: last_conv_nth)
    with r j assms \<open>xs \<noteq> []\<close> show ?thesis by (auto simp: covered_at_iff intro!: exI [of _ "length xs - 1"])
  next
    case False
    with r have "(butlast xs)[i := last xs] ! r = xs ! r" by (simp add: nth_butlast)
    with r j show ?thesis by (auto simp: covered_at_iff intro!: exI [of _ r])
  qed
qed

lemma covered_at_butlast:
  assumes "j < length xs - 1" and "covered_at (butlast xs) j"
  shows "covered_at xs j"
proof -
  obtain r where "r < length xs - 1" "r \<noteq> j" "Covers (xs ! r) (xs ! j)"
    using assms by (auto simp: covered_at_iff nth_butlast)
  then show ?thesis by (auto simp: covered_at_iff intro!: exI [of _ r])
qed

lemma unique_from_irredundant:
  "\<forall>j<i. j < length xs \<longrightarrow> \<not> covered_at xs j \<Longrightarrow> k < length (unique_from xs i) \<Longrightarrow> \<not> covered_at (unique_from xs i) k"
proof (induction xs i rule: unique_from.induct)
  case (1 xs i)
  show ?case
  proof (cases "i < length xs")
    case False
    with 1(4,5) show ?thesis by (simp add: unique_from.simps [of xs i])
  next
    case len: True
    show ?thesis
    proof (cases "covered_at xs i")
      case cov: True
      show ?thesis
      proof (cases "i < length xs - 1")
        case True
        have "\<forall>j<i. j < length ((butlast xs)[i := last xs]) \<longrightarrow> \<not> covered_at ((butlast xs)[i := last xs]) j"
          using covered_at_update [OF True] 1(4) True by auto
        with 1(1) [OF len cov True] 1(5) len cov True show ?thesis
          by (simp add: unique_from.simps [of xs i])
      next
        case False
        have "\<forall>j<i + 1. j < length (butlast xs) \<longrightarrow> \<not> covered_at (butlast xs) j"
          using covered_at_butlast [of _ xs] 1(4) len False by auto
        with 1(2) [OF len cov False] 1(5) len cov False show ?thesis
          by (simp add: unique_from.simps [of xs i])
      qed
    next
      case False
      have "\<forall>j<i + 1. j < length xs \<longrightarrow> \<not> covered_at xs j" using 1(4) False by (auto simp: less_Suc_eq)
      with 1(3) [OF len False] 1(5) len False show ?thesis by (simp add: unique_from.simps [of xs i])
    qed
  qed
qed

section \<open>The search for a free subnet\<close>

lemma unat_be_word:
  assumes "8 * length bs \<le> LENGTH('a::len)"
  shows "unat (be_word bs :: 'a word) = foldl (\<lambda>acc b. acc * 256 + unat b) 0 bs"
  using assms
proof (induction bs rule: rev_induct)
  case Nil
  then show ?case by (simp add: be_word_def)
next
  case (snoc b bs)
  let ?m = "unat (be_word bs :: 'a word)"
  have b: "unat b < 256" using unsigned_less [of b, where 'a = nat] by simp
  have m: "?m < 2 ^ (8 * length bs)"
  proof -
    have "?m = foldl (\<lambda>acc b. acc * 256 + unat b) 0 bs" using snoc by simp
    also have "\<dots> < 2 ^ (8 * length bs)"
    proof (induction bs rule: rev_induct)
      case (snoc c cs)
      have "unat c < 256" using unsigned_less [of c, where 'a = nat] by simp
      with snoc show ?case by (simp add: power_add)
    qed simp
    finally show ?thesis .
  qed
  have "?m * 256 + unat b < 2 ^ (8 * length (bs @ [b]))" using m b by (simp add: power_add)
  also have "(2 :: nat) ^ (8 * length (bs @ [b])) \<le> 2 ^ LENGTH('a)" using snoc(2) by (intro power_increasing) auto
  finally have lt: "?m * 256 + unat b < 2 ^ LENGTH('a)" .
  have u8: "unat (ucast b :: 'a word) = unat b"
  proof -
    have "unat b < 2 ^ LENGTH('a)" using lt by linarith
    then show ?thesis by (simp add: unsigned_ucast_eq unsigned_take_bit_eq take_bit_nat_eq_self)
  qed
  have dis: "\<not> bit (push_bit 8 ?m) n \<or> \<not> bit (unat b) n" for n
    using bit_imp_le_length [of b n] by (auto simp: bit_push_bit_iff bit_unsigned_iff)
  have "unat (be_word (bs @ [b]) :: 'a word) = take_bit LENGTH('a) (push_bit 8 ?m) OR unat b"
    by (simp add: be_word_snoc unsigned_or_eq unsigned_push_bit_eq u8)
  also have "take_bit LENGTH('a) (push_bit 8 ?m) = push_bit 8 ?m"
    using lt by (intro take_bit_nat_eq_self) (simp add: push_bit_eq_mult)
  also have "push_bit 8 ?m OR unat b = ?m * 256 + unat b"
    using disjunctive_add [OF dis] by (simp add: push_bit_eq_mult)
  finally show ?case using snoc by simp
qed

lemma unat_be_word4:
  "unat (be_word [a, b, c, d] :: u32) = ((unat a * 256 + unat b) * 256 + unat c) * 256 + unat d"
  using unat_be_word [of "[a, b, c, d]", where 'a = 32] by simp

lemma unat_byte_inc: "(c :: byte) < 255 \<Longrightarrow> unat (c + 1) = unat c + 1"
  by (simp add: unat_word_ariths word_less_nat_alt)

lemma byte_not_less_255: "\<not> (c :: byte) < 255 \<longleftrightarrow> unat c = 255"
  using unsigned_less [of c, where 'a = nat] by (auto simp: word_less_nat_alt)

lemma inc_bytes_4:
  "inc_bytes 2 [a, b, c, d] =
     (if c < 255 then Some [a, b, c + 1, d]
      else if b < 255 then Some [a, b + 1, 0, d]
      else if a < 255 then Some [a + 1, 0, 0, d] else None)"
  by (simp add: numeral_2_eq_2)

text \<open>A step of the search moves up, or ends.\<close>

lemma incIP4_step:
  assumes "unat w < 0xff000000"
  shows "incIP4 (Addr4 w) (Addr4 e) = NoAddr \<or>
    (\<exists>w'. incIP4 (Addr4 w) (Addr4 e) = Addr4 w' \<and> unat w < unat w' \<and> w' < e)"
proof -
  have "\<exists>a b c d. be_bytes 4 w = [a, b, c, d]" by (simp add: be_bytes_def upt_rec)
  then obtain a b c d where bs: "be_bytes 4 w = [a, b, c, d]" by blast
  have "be_word (be_bytes 4 w) = w" by (simp add: be_word_be_bytes)
  then have w: "unat w = ((unat a * 256 + unat b) * 256 + unat c) * 256 + unat d"
    using unat_be_word4 [of a b c d] by (simp add: bs)
  have d: "unat d < 256" using unsigned_less [of d, where 'a = nat] by simp
  have "unat a * 16777216 \<le> unat w" using w by simp
  then have "unat a < 255" using assms by linarith
  then have a: "a < 255" by (simp add: word_less_nat_alt)
  have "(as_slice (Addr4 w))[3 := 0] = [a, b, c, 0]" by (simp add: bs numeral_3_eq_3)
  moreover have "\<exists>ipc. inc_bytes 2 [a, b, c, 0] = Some ipc \<and> unat w < unat (be_word ipc :: u32)"
  proof (cases "c < 255")
    case True
    then show ?thesis using w d by (simp add: inc_bytes_4 unat_be_word4 unat_byte_inc)
  next
    case False
    then have c: "unat c = 255" by (simp add: byte_not_less_255)
    show ?thesis
    proof (cases "b < 255")
      case True
      then show ?thesis using w d c False by (simp add: inc_bytes_4 unat_be_word4 unat_byte_inc)
    next
      case b: False
      then have "unat b = 255" by (simp add: byte_not_less_255)
      then show ?thesis using w d c a b False by (simp add: inc_bytes_4 unat_be_word4 unat_byte_inc)
    qed
  qed
  ultimately have "\<exists>ipc. inc_bytes 2 ((as_slice (Addr4 w))[3 := 0]) = Some ipc \<and> unat w < unat (be_word ipc :: u32)"
    by (simp only:)
  then obtain ipc where ipc: "inc_bytes 2 ((as_slice (Addr4 w))[3 := 0]) = Some ipc" "unat w < unat (be_word ipc :: u32)"
    by blast
  have "incIP4 (Addr4 w) (Addr4 e) = (if be_word ipc < e then Addr4 (be_word ipc) else NoAddr)"
    unfolding incIP4_def ipc(1) by simp
  with ipc(2) show ?thesis by simp
qed

lemma find_free_total:
  assumes "unat w < unat e" and "unat e \<le> 0xff000000"
  shows "\<exists>r. find_free bits avoid (Addr4 w) (Addr4 e) = Some r \<and>
    (\<forall>sn. r = Some sn \<longrightarrow> (\<forall>p\<in>set avoid. \<not> overlaps p sn) \<and> (\<exists>ip. sn = candidate bits ip))"
  using assms
proof (induction "unat e - unat w" arbitrary: w rule: less_induct)
  case less
  show ?case
  proof (cases "list_ex (\<lambda>cidr. overlaps cidr (candidate bits (Addr4 w))) avoid")
    case False
    then show ?thesis by (auto simp: find_free.simps list_ex_iff)
  next
    case True
    have "unat w < 0xff000000" using less.prems by simp
    from incIP4_step [OF this, of e] show ?thesis
    proof
      assume "incIP4 (Addr4 w) (Addr4 e) = NoAddr"
      with True show ?thesis by (simp add: find_free.simps)
    next
      assume "\<exists>w'. incIP4 (Addr4 w) (Addr4 e) = Addr4 w' \<and> unat w < unat w' \<and> w' < e"
      then obtain w' where w': "incIP4 (Addr4 w) (Addr4 e) = Addr4 w'" "unat w < unat w'" "unat w' < unat e"
        by (auto simp: word_less_nat_alt)
      with less.hyps [of w'] less.prems True show ?thesis by (simp add: find_free.simps [of bits avoid "Addr4 w"])
    qed
  qed
qed

lemma find_in_ranges_total:
  assumes "list_all (\<lambda>(ip, end'). \<exists>w e. ip = Addr4 w \<and> end' = Addr4 e \<and> unat w < unat e \<and> unat e \<le> 0xff000000) rs"
  shows "\<exists>r. find_in_ranges bits avoid rs = Some r \<and>
    (\<forall>sn. r = Some sn \<longrightarrow> (\<forall>p\<in>set avoid. \<not> overlaps p sn) \<and> (\<exists>ip. sn = candidate bits ip))"
  using assms
proof (induction rs)
  case (Cons r rs)
  then obtain w e where r: "r = (Addr4 w, Addr4 e)" "unat w < unat e" "unat e \<le> 0xff000000" by auto
  from find_free_total [OF r(2,3), of bits avoid] obtain x where
    x: "find_free bits avoid (Addr4 w) (Addr4 e) = Some x"
    "\<forall>sn. x = Some sn \<longrightarrow> (\<forall>p\<in>set avoid. \<not> overlaps p sn) \<and> (\<exists>ip. sn = candidate bits ip)" by blast
  with Cons r(1) show ?case by (cases x) auto
qed simp

lemma overlap_common:
  assumes "prefix_wf p" and "prefix_wf q" and "overlaps p q"
  shows "\<exists>x. contains p x \<and> contains q x"
proof -
  have v: "prefix_valid p" "prefix_valid q" using assms(3) by (auto simp: overlaps_def)
  then have "is_valid (paddr p)" "is_valid (paddr q)" using assms by (auto simp: prefix_wf_def prefix_valid_def)
  then have "same_top (nat (min (pbits p) (pbits q))) (paddr p) (paddr q)"
    using assms(3) by (auto simp: overlaps_def same_top_0)
  from contains_of_overlap [OF this v] show ?thesis
    using contains_self [OF assms(1) v(1)] contains_self [OF assms(2) v(2)] by blast
qed

section \<open>Properties\<close>

text \<open>
  C5. The prefixes of \<open>CoveringPrefixes\<close> cover the addresses they were made for, IPv4 and IPv6: every
  valid address given is in one of them, and every one of them has one of the addresses given.
\<close>

theorem CoveringPrefixes_exact:
  "(\<forall>a\<in>set addrs. is_valid a \<longrightarrow> (\<exists>p\<in>set (CoveringPrefixes addrs). contains p a))
   \<and> (\<forall>p\<in>set (CoveringPrefixes addrs). \<exists>a\<in>set addrs. contains p a)"
  using CoveringPrefixes_covers CoveringPrefixes_needed by blast

theorem CoveringPrefixes_exact_witness:
  "\<exists>p\<in>set (CoveringPrefixes [Addr4 0x0a000001, Addr4 0x0a000102]). contains p (Addr4 0x0a000102)"
  using CoveringPrefixes_exact [of "[Addr4 0x0a000001, Addr4 0x0a000102]"] by auto

text \<open>
  \<open>Mask\<close> of a bit field with at least one byte is the longest common prefix of its bytes: all
  bytes agree with the value on the first bits, the value has no bits after them, and two of the
  bytes differ in the next bit, if there is one.
\<close>

lemma Mask_longest_common_prefix:
  assumes "length b = 4" and "GetBit b x" and "Mask b = (ones, val)"
  shows "ones \<le> 8
    \<and> (\<forall>y i. GetBit b y \<and> i < ones \<longrightarrow> bit y (7 - i) = bit val (7 - i))
    \<and> (\<forall>i<8 - ones. \<not> bit val i)
    \<and> (ones < 8 \<longrightarrow> (\<exists>y z. GetBit b y \<and> GetBit b z \<and> bit y (7 - ones) \<noteq> bit z (7 - ones)))"
proof (intro conjI allI impI)
  have m: "field_values b \<noteq> []" using GetBit_values [OF assms(1)] assms(2) by auto
  note mask = Mask_correct [OF assms(1,3) m]
  show "ones \<le> 8" by (rule mask(1))
  show "bit y (7 - i) = bit val (7 - i)" if "GetBit b y \<and> i < ones" for y i
    using Mask_member [OF assms(1,3), of y i] that by simp
  show "\<not> bit val i" if "i < 8 - ones" for i using mask(2) that by (auto simp: common_from_def)
  assume "ones < 8"
  from mask(3) [OF this] obtain n k where nk: "n \<in> set (field_values b)" "k \<in> set (field_values b)"
    "bit n (7 - ones) \<noteq> bit k (7 - ones)" by blast
  have "\<exists>y. GetBit b y \<and> unat y = v" if "v \<in> set (field_values b)" for v
  proof -
    have "unat (of_nat v :: byte) = v" using values_byte [OF assms(1) that] by (simp add: unat_of_nat)
    with that show ?thesis using GetBit_values [OF assms(1), of "of_nat v"] by (metis (no_types))
  qed
  with nk obtain y z where "GetBit b y" "unat y = n" "GetBit b z" "unat z = k" by metis
  with nk(3) show "\<exists>y z. GetBit b y \<and> GetBit b z \<and> bit y (7 - ones) \<noteq> bit z (7 - ones)"
    by (metis bit_unsigned_iff possible_bit_nat)
qed

text \<open>
  C7. \<open>Unique\<close> keeps what the subnets cover: an address is in one of the remaining subnets exactly if
  it was in one of the given ones, every remaining subnet was given, and none of them covers another.
\<close>

theorem Unique_keeps_coverage:
  assumes "\<forall>p\<in>set subnets. prefix_wf p"
  shows "(\<exists>p\<in>set (Unique subnets). contains p x) = (\<exists>p\<in>set subnets. contains p x)
    \<and> set (Unique subnets) \<subseteq> set subnets
    \<and> (\<forall>i r. i < length (Unique subnets) \<and> r < length (Unique subnets) \<and> r \<noteq> i \<longrightarrow>
         \<not> Covers (Unique subnets ! r) (Unique subnets ! i))"
  using unique_from_covers [OF assms, of 0 x] unique_from_irredundant [of 0 subnets]
  by (auto simp: Unique_def covered_at_iff)

theorem Unique_keeps_coverage_witness:
  "set (Unique [prefix_from (Addr4 0x0a010000) 16, prefix_from (Addr4 0x0a000000) 8]) \<subseteq>
     {prefix_from (Addr4 0x0a010000) 16, prefix_from (Addr4 0x0a000000) 8}"
  using Unique_keeps_coverage [of "[prefix_from (Addr4 0x0a010000) 16, prefix_from (Addr4 0x0a000000) 8]"] by auto

text \<open>
  C8. The search for a free subnet always ends, and a subnet it returns overlaps neither a subnet to
  avoid nor one of the interfaces.
\<close>

theorem RandomIPv4Prefix_free:
  assumes "\<forall>p\<in>set (ifaces @ avoid). prefix_wf p"
  shows "\<exists>r. RandomIPv4Prefix ifaces bits avoid = Some r
    \<and> (\<forall>sn. r = Some sn \<longrightarrow> (\<forall>p\<in>set (ifaces @ avoid). \<not> overlaps p sn))"
proof -
  have "list_all (\<lambda>(ip, end'). \<exists>w e. ip = Addr4 w \<and> end' = Addr4 e \<and> unat w < unat e \<and> unat e \<le> 0xff000000)
      private_ranges"
    by (simp add: private_ranges_def)
  from find_in_ranges_total [OF this, of bits "Unique (ifaces @ avoid)"] obtain r where
    r: "RandomIPv4Prefix ifaces bits avoid = Some r"
    "\<forall>sn. r = Some sn \<longrightarrow> (\<forall>p\<in>set (Unique (ifaces @ avoid)). \<not> overlaps p sn) \<and> (\<exists>ip. sn = candidate bits ip)"
    unfolding RandomIPv4Prefix_def by blast
  have "\<not> overlaps p sn" if sn: "r = Some sn" and p: "p \<in> set (ifaces @ avoid)" for sn p
  proof
    assume "overlaps p sn"
    moreover have wf: "prefix_wf sn" using r(2) sn by (auto simp: candidate_def)
    ultimately obtain x where x: "contains p x" "contains sn x" using overlap_common assms p by blast
    then obtain q where q: "q \<in> set (Unique (ifaces @ avoid))" "contains q x"
      using unique_from_covers [OF assms, of 0 x] p unfolding Unique_def by blast
    then have "prefix_wf q" using unique_from_covers [OF assms, of 0 x] assms unfolding Unique_def by blast
    from overlaps_if_common [OF q(2) x(2) this wf] r(2) sn q(1) show False by blast
  qed
  with r(1) show ?thesis by blast
qed

theorem RandomIPv4Prefix_free_witness:
  "\<exists>r. RandomIPv4Prefix [] 24 [prefix_from (Addr4 0xc0a80000) 16] = Some r
     \<and> (\<forall>sn. r = Some sn \<longrightarrow> \<not> overlaps (prefix_from (Addr4 0xc0a80000) 16) sn)"
  using RandomIPv4Prefix_free [of "[]" "[prefix_from (Addr4 0xc0a80000) 16]" 24] by auto

text \<open>An address that leaves a network at a given bit.\<close>

lemma flip_addr:
  assumes "is_valid a" and "k < bit_len a"
  shows "\<exists>x. same_top k a x \<and> \<not> same_top (Suc k) a x"
proof (cases a)
  case (Addr4 w)
  have "drop_bit (32 - k) (flip_bit (31 - k) w) = drop_bit (32 - k) w"
    using assms Addr4
    by (intro bit_word_eqI) (auto simp: bit_drop_bit_eq bit_flip_bit_iff dest: bit_imp_le_length)
  moreover have "bit (drop_bit (31 - k) (flip_bit (31 - k) w)) 0 \<noteq> bit (drop_bit (31 - k) w) 0"
    by (simp add: bit_drop_bit_eq bit_flip_bit_iff less_imp_diff_less)
  ultimately show ?thesis using Addr4 by (intro exI [of _ "Addr4 (flip_bit (31 - k) w)"]) auto
next
  case (Addr6 w)
  have "drop_bit (128 - k) (flip_bit (127 - k) w) = drop_bit (128 - k) w"
    using assms Addr6
    by (intro bit_word_eqI) (auto simp: bit_drop_bit_eq bit_flip_bit_iff dest: bit_imp_le_length)
  moreover have "bit (drop_bit (127 - k) (flip_bit (127 - k) w)) 0 \<noteq> bit (drop_bit (127 - k) w) 0"
    by (simp add: bit_drop_bit_eq bit_flip_bit_iff less_imp_diff_less)
  ultimately show ?thesis using Addr6 by (intro exI [of _ "Addr6 (flip_bit (127 - k) w)"]) auto
qed (use assms in simp)

lemma containment_bits:
  assumes "prefix_wf a" and "prefix_wf b" and "prefix_valid a" and "prefix_valid b"
    and all: "\<forall>x. contains b x \<longrightarrow> contains a x"
  shows "pbits a \<le> pbits b"
proof (rule ccontr)
  assume "\<not> pbits a \<le> pbits b"
  then have lt: "pbits b < pbits a" by simp
  have self: "contains b (paddr b)" using contains_self [OF assms(2,4)] .
  with all have ab: "same_top (nat (pbits a)) (paddr a) (paddr b)" by (simp add: contains_def)
  have "pbits a \<le> int (bit_len (paddr a))" "is_valid (paddr b)"
    using assms by (auto simp: prefix_wf_def prefix_valid_def)
  then have "nat (pbits b) < bit_len (paddr b)"
    using lt same_top_bit_len [OF ab] assms(4) by (simp add: prefix_valid_def)
  from flip_addr [OF \<open>is_valid (paddr b)\<close> this] obtain x where
    x: "same_top (nat (pbits b)) (paddr b) x" "\<not> same_top (Suc (nat (pbits b))) (paddr b) x" by blast
  have "same_top (nat (pbits a)) (paddr a) x" using x(1) all assms(4) by (simp add: contains_def)
  with ab have "same_top (nat (pbits a)) (paddr b) x" by (metis same_top_sym same_top_trans)
  then have "same_top (Suc (nat (pbits b))) (paddr b) x"
    using lt assms(4) by (elim same_top_mono) (simp add: prefix_valid_def)
  with x(2) show False ..
qed

text \<open>
  For a network of at least one bit, \<open>Covers\<close> decides what it is documented to decide: whether
  every address of the second network is in the first.
\<close>

lemma Covers_decides_containment:
  assumes "prefix_wf a" and "prefix_wf b" and "0 < pbits a" and "prefix_valid b"
  shows "Covers a b \<longleftrightarrow> (\<forall>x. contains b x \<longrightarrow> contains a x)"
proof
  assume all: "\<forall>x. contains b x \<longrightarrow> contains a x"
  have "prefix_valid a" using assms(3) by (simp add: prefix_valid_def)
  from containment_bits [OF assms(1,2) this assms(4) all]
  show "Covers a b"
    using all contains_self [OF assms(2,4)] assms Covers_alt [of a b] by (auto simp: contains_def)
qed (use Covers_sound [OF assms(1,2)] in blast)

text \<open>
  For a network of no bits, the default route, it does not: \<open>0.0.0.0/0\<close> contains every IPv4 address, but
  \<open>Covers\<close> denies that it covers \<open>10.0.0.0/8\<close>, because it then compares the unmasked addresses.
\<close>

lemma Covers_default_route:
  "\<not> Covers (prefix_from (Addr4 0) 0) (prefix_from (Addr4 0x0a000000) 8)
   \<and> contains (prefix_from (Addr4 0) 0) x = is4 x"
proof
  show "\<not> Covers (prefix_from (Addr4 0) 0) (prefix_from (Addr4 0x0a000000) 8)" by code_simp
  have z4: "drop_bit 32 w = 0" for w :: u32 using drop_bit_word_beyond [of 32 w] by simp
  show "contains (prefix_from (Addr4 0) 0) x = is4 x"
    by (cases x) (auto simp: contains_def prefix_from_def prefix_valid_def z4)
qed

end
