(* ===== verification/Vip.thy ===== *)
theory Vip
  imports Subnet
begin

text \<open>
  The generators of virtual IPs, \<^verbatim>\<open>pkg/client/rootd/vip/vip.go\<close>: one per address family, each counting
  up from the network address with a counter of fixed width that wraps around.

  The locale \<open>address_allocator\<close> is what the clients of a generator rely on: the state determines a
  sequence of candidates, and each call tries the next one. Inside it, the results of a run of calls
  are shown to be distinct as long as the candidates are. Both generators are interpretations.
\<close>

section \<open>Addresses and integers\<close>

definition ipV4FromInt :: "u32 \<Rightarrow> addr" where
  "ipV4FromInt v =
     Addr4 (be_word [ucast (drop_bit 24 (v AND 0xff000000)), ucast (drop_bit 16 (v AND 0x00ff0000)),
                     ucast (drop_bit 8 (v AND 0x0000ff00)), ucast (v AND 0x000000ff)])"

text \<open>\<open>As4\<close> panics on an IPv6 address that is not IPv4-mapped: the generator calls it on IPv4 only.\<close>

definition intFromIPV4 :: "addr \<Rightarrow> u32" where
  "intFromIPV4 a =
     (let v = as_slice a
      in push_bit 24 (ucast (v ! 0)) OR push_bit 16 (ucast (v ! 1)) OR push_bit 8 (ucast (v ! 2)) OR ucast (v ! 3))"

definition bytes_of_u64 :: "u64 \<Rightarrow> byte list" where
  "bytes_of_u64 x =
     [ucast (drop_bit 56 (x AND 0xff00000000000000)), ucast (drop_bit 48 (x AND 0x00ff000000000000)),
      ucast (drop_bit 40 (x AND 0x0000ff0000000000)), ucast (drop_bit 32 (x AND 0x000000ff00000000)),
      ucast (drop_bit 24 (x AND 0x00000000ff000000)), ucast (drop_bit 16 (x AND 0x0000000000ff0000)),
      ucast (drop_bit 8 (x AND 0x000000000000ff00)), ucast (x AND 0x00000000000000ff)]"

definition ipV6FromInts :: "u64 \<Rightarrow> u64 \<Rightarrow> addr" where
  "ipV6FromInts hi lo = Addr6 (be_word (bytes_of_u64 hi @ bytes_of_u64 lo))"

definition u64_of_bytes :: "byte list \<Rightarrow> u64" where
  "u64_of_bytes v =
     push_bit 56 (ucast (v ! 0)) OR push_bit 48 (ucast (v ! 1)) OR push_bit 40 (ucast (v ! 2)) OR
     push_bit 32 (ucast (v ! 3)) OR push_bit 24 (ucast (v ! 4)) OR push_bit 16 (ucast (v ! 5)) OR
     push_bit 8 (ucast (v ! 6)) OR ucast (v ! 7)"

definition intsFromIPV6 :: "addr \<Rightarrow> u64 \<times> u64" where
  "intsFromIPV6 a =
     (let v = be_bytes 16 (as16 a) in (u64_of_bytes (take 8 v), u64_of_bytes (drop 8 v)))"

section \<open>Generators\<close>

record ip4Generator =
  g4_subnet :: prefix
  g4_alloc :: prefix
  nextVirtualIP :: u32

record vip6Provider =
  g6_subnet :: prefix
  g6_alloc :: prefix
  fixedHi :: u64
  nextLo :: u64

datatype generator = Gen4 ip4Generator | Gen6 vip6Provider

datatype vip_error = VipExhausted prefix | VipNoSubnet addr

definition ip4_Next :: "ip4Generator \<Rightarrow> (vip_error + addr) \<times> ip4Generator" where
  "ip4_Next v =
     (let v = v\<lparr>nextVirtualIP := nextVirtualIP v + 1\<rparr>;
          nxt = ipV4FromInt (nextVirtualIP v)
      in if \<not> contains (g4_alloc v) nxt then (Inl (VipExhausted (g4_subnet v)), v) else (Inr nxt, v))"

definition vip6_Next :: "vip6Provider \<Rightarrow> (vip_error + addr) \<times> vip6Provider" where
  "vip6_Next v =
     (let v = v\<lparr>nextLo := nextLo v + 1\<rparr>;
          nxt = ipV6FromInts (fixedHi v) (nextLo v)
      in if \<not> contains (g6_alloc v) nxt then (Inl (VipExhausted (g6_subnet v)), v) else (Inr nxt, v))"

fun Generator_Next :: "generator \<Rightarrow> (vip_error + addr) \<times> generator" where
  "Generator_Next (Gen4 v) = (case ip4_Next v of (r, v) \<Rightarrow> (r, Gen4 v))"
| "Generator_Next (Gen6 v) = (case vip6_Next v of (r, v) \<Rightarrow> (r, Gen6 v))"

fun Generator_Subnet :: "generator \<Rightarrow> prefix" where
  "Generator_Subnet (Gen4 v) = g4_subnet v"
| "Generator_Subnet (Gen6 v) = g6_subnet v"

definition NewGenerator :: "prefix \<Rightarrow> generator" where
  "NewGenerator sn =
     (let lo = paddr (masked sn);
          alloc = (if pbits sn < int (bit_len (paddr sn)) then prefix_from lo (pbits sn + 1) else sn)
      in if is4 lo then Gen4 \<lparr>g4_subnet = sn, g4_alloc = alloc, nextVirtualIP = intFromIPV4 lo\<rparr>
         else case intsFromIPV6 lo of (fixed, loInt) \<Rightarrow>
                Gen6 \<lparr>g6_subnet = sn, g6_alloc = alloc, fixedHi = fixed, nextLo = loInt\<rparr>)"

record generators =
  gs_v4 :: "generator option"
  gs_v6 :: "generator option"
  v4Subnet :: prefix
  v6Subnet :: prefix

definition NewGenerators :: "prefix \<Rightarrow> prefix \<Rightarrow> generators" where
  "NewGenerators p4 p6 = \<lparr>gs_v4 = None, gs_v6 = None, v4Subnet = p4, v6Subnet = p6\<rparr>"

definition EnsureFamily :: "addr \<Rightarrow> generators \<Rightarrow> generators" where
  "EnsureFamily a g =
     (if is4 a then
        if gs_v4 g = None \<and> prefix_valid (v4Subnet g) then g\<lparr>gs_v4 := Some (NewGenerator (v4Subnet g))\<rparr> else g
      else
        if gs_v6 g = None \<and> prefix_valid (v6Subnet g) then g\<lparr>gs_v6 := Some (NewGenerator (v6Subnet g))\<rparr> else g)"

definition Generators_Next :: "addr \<Rightarrow> generators \<Rightarrow> (vip_error + addr) \<times> generators" where
  "Generators_Next forAddr g =
     (if is4 forAddr then
        (case gs_v4 g of
           None \<Rightarrow> (Inl (VipNoSubnet forAddr), g)
         | Some gen \<Rightarrow> (case Generator_Next gen of (r, gen) \<Rightarrow> (r, g\<lparr>gs_v4 := Some gen\<rparr>)))
      else
        (case gs_v6 g of
           None \<Rightarrow> (Inl (VipNoSubnet forAddr), g)
         | Some gen \<Rightarrow> (case Generator_Next gen of (r, gen) \<Rightarrow> (r, g\<lparr>gs_v6 := Some gen\<rparr>))))"

definition Generators_Subnets :: "generators \<Rightarrow> prefix list" where
  "Generators_Subnets g =
     (case gs_v4 g of None \<Rightarrow> [] | Some gen \<Rightarrow> [Generator_Subnet gen]) @
     (case gs_v6 g of None \<Rightarrow> [] | Some gen \<Rightarrow> [Generator_Subnet gen])"

section \<open>Integers and addresses correspond\<close>

lemma be_bytes_cons: "be_bytes (Suc n) w = ucast (drop_bit (8 * n) w) # be_bytes n w"
  by (simp add: be_bytes_def)

lemma be_bytes_0: "be_bytes 0 w = []"
  by (simp add: be_bytes_def)

text \<open>Masking a byte in place before shifting it down changes nothing.\<close>

lemma byte_in_place: "(ucast (drop_bit k (x AND push_bit k 0xff)) :: byte) = ucast (drop_bit k (x :: 'a::len word))"
proof (rule bit_word_eqI)
  fix n assume n: "n < LENGTH(8)"
  have m: "bit (0xff :: 'a word) n \<longleftrightarrow> n < LENGTH('a)"
  proof -
    have "(0xff :: 'a word) = mask 8" by (simp add: mask_eq_exp_minus_1)
    with n show ?thesis by (simp only: bit_mask_iff) auto
  qed
  show "bit (ucast (drop_bit k (x AND push_bit k 0xff)) :: byte) n = bit (ucast (drop_bit k x) :: byte) n"
    using n m bit_imp_le_length [of x "k + n"]
    by (auto simp: bit_ucast_iff bit_drop_bit_eq bit_and_iff bit_push_bit_iff)
qed

lemma low_byte_in_place: "(ucast (x AND 0xff) :: byte) = ucast (x :: 'a::len word)"
  using byte_in_place [of 0 x] by simp

lemma bytes4: "[ucast (drop_bit 24 v), ucast (drop_bit 16 v), ucast (drop_bit 8 v), ucast v] = be_bytes 4 (v :: u32)"
  by (simp add: be_bytes_def upt_rec)

lemma ipV4FromInt_eq: "ipV4FromInt v = Addr4 v"
proof -
  have c: "(0xff000000 :: u32) = push_bit 24 0xff" "(0x00ff0000 :: u32) = push_bit 16 0xff"
    "(0x0000ff00 :: u32) = push_bit 8 0xff"
    by (simp_all add: push_bit_eq_mult)
  show ?thesis
    unfolding ipV4FromInt_def c byte_in_place low_byte_in_place bytes4 by (simp add: be_word_be_bytes)
qed

lemma bytes_of_u64_eq: "bytes_of_u64 x = be_bytes 8 x"
proof -
  have c: "(0xff00000000000000 :: u64) = push_bit 56 0xff" "(0x00ff000000000000 :: u64) = push_bit 48 0xff"
    "(0x0000ff0000000000 :: u64) = push_bit 40 0xff" "(0x000000ff00000000 :: u64) = push_bit 32 0xff"
    "(0x00000000ff000000 :: u64) = push_bit 24 0xff" "(0x0000000000ff0000 :: u64) = push_bit 16 0xff"
    "(0x000000000000ff00 :: u64) = push_bit 8 0xff"
    by (simp_all add: push_bit_eq_mult)
  have "be_bytes 8 x = [ucast (drop_bit 56 x), ucast (drop_bit 48 x), ucast (drop_bit 40 x), ucast (drop_bit 32 x),
      ucast (drop_bit 24 x), ucast (drop_bit 16 x), ucast (drop_bit 8 x), ucast x]"
    by (simp add: be_bytes_def upt_rec)
  then show ?thesis unfolding bytes_of_u64_def c byte_in_place low_byte_in_place by simp
qed

lemma u64_of_bytes_eq: "length v = 8 \<Longrightarrow> u64_of_bytes v = be_word v"
proof -
  assume "length v = 8"
  then obtain a b c d e f g h where v: "v = [a, b, c, d, e, f, g, h]"
    by (auto simp: numeral_eq_Suc length_Suc_conv)
  show ?thesis
    unfolding v u64_of_bytes_def be_word_def by (simp add: push_bit_or or.assoc)
qed

lemma intFromIPV4_eq: "intFromIPV4 (Addr4 w) = w"
proof -
  obtain a b c d where v: "be_bytes 4 w = [a, b, c, d]" by (simp add: be_bytes_def upt_rec)
  have "be_word (be_bytes 4 w) = w" by (simp add: be_word_be_bytes)
  then show ?thesis
    unfolding intFromIPV4_def by (simp add: v be_word_def push_bit_or or.assoc Let_def)
qed

lemma ipV6FromInts_inject: "ipV6FromInts hi lo = ipV6FromInts hi' lo' \<longleftrightarrow> hi = hi' \<and> lo = lo'"
proof
  assume "ipV6FromInts hi lo = ipV6FromInts hi' lo'"
  then have "(be_word (be_bytes 8 hi @ be_bytes 8 lo) :: u128) = be_word (be_bytes 8 hi' @ be_bytes 8 lo')"
    by (simp add: ipV6FromInts_def bytes_of_u64_eq)
  then have "be_bytes 16 (be_word (be_bytes 8 hi @ be_bytes 8 lo) :: u128) =
      be_bytes 16 (be_word (be_bytes 8 hi' @ be_bytes 8 lo') :: u128)" by simp
  then have "be_bytes 8 hi @ be_bytes 8 lo = be_bytes 8 hi' @ be_bytes 8 lo'"
    by (simp add: be_bytes_be_word)
  then have "be_bytes 8 hi = be_bytes 8 hi'" "be_bytes 8 lo = be_bytes 8 lo'" by simp_all
  then have "(be_word (be_bytes 8 hi) :: u64) = be_word (be_bytes 8 hi')"
    "(be_word (be_bytes 8 lo) :: u64) = be_word (be_bytes 8 lo')" by simp_all
  then show "hi = hi' \<and> lo = lo'" by (simp add: be_word_be_bytes)
qed simp

lemma ipV6_ints: "intsFromIPV6 (Addr6 w) = (hi, lo) \<Longrightarrow> ipV6FromInts hi lo = Addr6 w"
proof -
  assume "intsFromIPV6 (Addr6 w) = (hi, lo)"
  then have h: "hi = be_word (take 8 (be_bytes 16 w))" "lo = be_word (drop 8 (be_bytes 16 w))"
    by (simp_all add: intsFromIPV6_def Let_def u64_of_bytes_eq)
  have "be_bytes 8 hi = take 8 (be_bytes 16 w)" "be_bytes 8 lo = drop 8 (be_bytes 16 w)"
    unfolding h by (simp_all add: be_bytes_be_word)
  then show ?thesis by (simp add: ipV6FromInts_def bytes_of_u64_eq be_word_be_bytes)
qed

lemma is4_FromInts [simp]: "is4 (ipV4FromInt v)" "is6 (ipV6FromInts hi lo)"
  by (simp_all add: ipV4FromInt_eq ipV6FromInts_def)

section \<open>Allocators\<close>

text \<open>
  \<open>cand g i\<close> is the candidate that the call number \<open>i\<close> from the state \<open>g\<close> tries, \<open>ok g\<close> the addresses it
  may return; within \<open>period\<close> calls no candidate comes back.
\<close>

locale address_allocator =
  fixes nxt :: "'g \<Rightarrow> ('e + addr) \<times> 'g" and cand :: "'g \<Rightarrow> nat \<Rightarrow> addr" and ok :: "'g \<Rightarrow> addr \<Rightarrow> bool"
    and period :: nat
  assumes next_cand: "nxt g = (r, g') \<Longrightarrow> (case r of Inr a \<Rightarrow> a = cand g 0 \<and> ok g a | Inl e \<Rightarrow> \<not> ok g (cand g 0))"
    and next_state: "nxt g = (r, g') \<Longrightarrow> cand g' i = cand g (Suc i) \<and> ok g' = ok g"
    and cand_inject: "i < period \<Longrightarrow> j < period \<Longrightarrow> cand g i = cand g j \<Longrightarrow> i = j"
begin

fun calls :: "nat \<Rightarrow> 'g \<Rightarrow> ('e + addr) list" where
  "calls 0 g = []"
| "calls (Suc n) g = (case nxt g of (r, g) \<Rightarrow> r # calls n g)"

lemma calls_nth:
  "k < n \<Longrightarrow> (case calls n g ! k of Inr a \<Rightarrow> a = cand g k \<and> ok g a | Inl e \<Rightarrow> \<not> ok g (cand g k))"
proof (induction n arbitrary: g k)
  case (Suc n)
  obtain r g' where x: "nxt g = (r, g')" by fastforce
  show ?case
  proof (cases k)
    case 0
    with x next_cand [OF x] show ?thesis by (simp split: sum.splits)
  next
    case (Suc k')
    with Suc.IH [of k' g'] Suc.prems x next_state [OF x] show ?thesis by (simp split: sum.splits)
  qed
qed simp

lemma length_calls [simp]: "length (calls n g) = n"
  by (induction n arbitrary: g) (auto split: prod.splits)

lemma calls_distinct:
  assumes "n \<le> period" and "j < k" and "k < n" and "calls n g ! j = Inr a" and "calls n g ! k = Inr b"
  shows "a \<noteq> b \<and> ok g a \<and> ok g b"
  using assms calls_nth [of j n g] calls_nth [of k n g] cand_inject [of j k g] by auto

lemma calls_exhausted:
  assumes "k < n" and "calls n g ! k = Inl e"
  shows "\<not> ok g (cand g k)"
  using assms calls_nth [of k n g] by simp

end

text \<open>The candidates of the two generators: what the counter will be, as an address.\<close>

definition ip4_cand :: "ip4Generator \<Rightarrow> nat \<Rightarrow> addr" where
  "ip4_cand v i = ipV4FromInt (nextVirtualIP v + 1 + of_nat i)"

definition vip6_cand :: "vip6Provider \<Rightarrow> nat \<Rightarrow> addr" where
  "vip6_cand v i = ipV6FromInts (fixedHi v) (nextLo v + 1 + of_nat i)"

lemma of_nat_inject_below: "i < 2 ^ LENGTH('a::len) \<Longrightarrow> j < 2 ^ LENGTH('a) \<Longrightarrow> (of_nat i :: 'a word) = of_nat j \<Longrightarrow> i = j"
  by (metis unat_of_nat take_bit_nat_eq_self mod_less)

interpretation a4: address_allocator ip4_Next ip4_cand "\<lambda>v. contains (g4_alloc v)" "2 ^ 32"
proof
  show "ip4_Next g = (r, g') \<Longrightarrow>
      case r of Inr a \<Rightarrow> a = ip4_cand g 0 \<and> contains (g4_alloc g) a | Inl e \<Rightarrow> \<not> contains (g4_alloc g) (ip4_cand g 0)"
    for g g' and r :: "vip_error + addr"
    by (auto simp: ip4_Next_def ip4_cand_def Let_def split: if_splits)
  show "ip4_Next g = (r, g') \<Longrightarrow> ip4_cand g' i = ip4_cand g (Suc i) \<and> contains (g4_alloc g') = contains (g4_alloc g)"
    for g g' i and r :: "vip_error + addr"
    by (auto simp: ip4_Next_def ip4_cand_def Let_def algebra_simps split: if_splits)
  show "i < 2 ^ 32 \<Longrightarrow> j < 2 ^ 32 \<Longrightarrow> ip4_cand g i = ip4_cand g j \<Longrightarrow> i = j" for i j g
    using of_nat_inject_below [where 'a = 32, of i j] by (simp add: ip4_cand_def ipV4FromInt_eq)
qed

interpretation a6: address_allocator vip6_Next vip6_cand "\<lambda>v. contains (g6_alloc v)" "2 ^ 64"
proof
  show "vip6_Next g = (r, g') \<Longrightarrow>
      case r of Inr a \<Rightarrow> a = vip6_cand g 0 \<and> contains (g6_alloc g) a | Inl e \<Rightarrow> \<not> contains (g6_alloc g) (vip6_cand g 0)"
    for g g' and r :: "vip_error + addr"
    by (auto simp: vip6_Next_def vip6_cand_def Let_def split: if_splits)
  show "vip6_Next g = (r, g') \<Longrightarrow> vip6_cand g' i = vip6_cand g (Suc i) \<and> contains (g6_alloc g') = contains (g6_alloc g)"
    for g g' i and r :: "vip_error + addr"
    by (auto simp: vip6_Next_def vip6_cand_def Let_def algebra_simps split: if_splits)
  show "i < 2 ^ 64 \<Longrightarrow> j < 2 ^ 64 \<Longrightarrow> vip6_cand g i = vip6_cand g j \<Longrightarrow> i = j" for i j g
    using of_nat_inject_below [where 'a = 64, of i j] by (simp add: vip6_cand_def ipV6FromInts_inject)
qed

section \<open>Runs of a generator\<close>

fun Next_calls :: "nat \<Rightarrow> generator \<Rightarrow> (vip_error + addr) list" where
  "Next_calls 0 g = []"
| "Next_calls (Suc n) g = (case Generator_Next g of (r, g) \<Rightarrow> r # Next_calls n g)"

lemma Next_calls_4: "Next_calls n (Gen4 v) = a4.calls n v"
  by (induction n arbitrary: v) (auto split: prod.splits)

lemma Next_calls_6: "Next_calls n (Gen6 v) = a6.calls n v"
  by (induction n arbitrary: v) (auto split: prod.splits)

lemma paddr_masked:
  assumes "prefix_wf sn" and "prefix_valid sn"
  shows "paddr (masked sn) = mask_addr (nat (pbits sn)) (paddr sn)"
  using assms by (cases "paddr sn") (auto simp: masked_def addr_prefix_def prefix_from_def prefix_wf_def prefix_valid_def)

text \<open>The prefix that addresses are drawn from: the lower half, or the whole if there are no halves.\<close>

definition alloc_prefix :: "prefix \<Rightarrow> prefix" where
  "alloc_prefix sn =
     (if pbits sn < int (bit_len (paddr sn)) then prefix_from (paddr (masked sn)) (pbits sn + 1) else sn)"

lemma alloc_in_subnet:
  assumes wf: "prefix_wf sn" "prefix_valid sn" and c: "contains (alloc_prefix sn) a"
  shows "contains sn a"
proof (cases "pbits sn < int (bit_len (paddr sn))")
  case True
  let ?m = "mask_addr (nat (pbits sn)) (paddr sn)"
  have v: "is_valid (paddr sn)" using wf by (auto simp: prefix_wf_def prefix_valid_def)
  have "same_top (nat (pbits sn + 1)) ?m a"
    using c True v wf by (auto simp: alloc_prefix_def paddr_masked contains_def prefix_from_def prefix_valid_def)
  then have "same_top (nat (pbits sn)) ?m a" by (rule same_top_mono) simp
  then show ?thesis
    using v wf same_top_mask [of "nat (pbits sn)" "paddr sn"]
    by (auto simp: contains_def intro: same_top_trans simp: same_top_sym)
qed (use c in \<open>simp add: alloc_prefix_def\<close>)

lemma NewGenerator_cases:
  assumes "prefix_wf sn" and "prefix_valid sn"
  obtains w v where "NewGenerator sn = Gen4 v" and "is4 (paddr sn)" and "g4_alloc v = alloc_prefix sn"
    and "paddr (masked sn) = Addr4 w" and "nextVirtualIP v = w"
  | w v where "NewGenerator sn = Gen6 v" and "\<not> is4 (paddr sn)" and "g6_alloc v = alloc_prefix sn"
    and "paddr (masked sn) = Addr6 w" and "ipV6FromInts (fixedHi v) (nextLo v) = Addr6 w"
proof (cases "paddr (masked sn)")
  case NoAddr
  with assms show ?thesis
    by (cases "paddr sn") (auto simp: paddr_masked prefix_wf_def prefix_valid_def)
next
  case (Addr4 w)
  moreover from this have "is4 (paddr sn)" using assms by (cases "paddr sn") (auto simp: paddr_masked)
  ultimately show ?thesis
    using that(1) by (simp add: NewGenerator_def Let_def alloc_prefix_def intFromIPV4_eq)
next
  case (Addr6 w)
  moreover from this have "\<not> is4 (paddr sn)" using assms by (cases "paddr sn") (auto simp: paddr_masked)
  moreover obtain hi lo where "intsFromIPV6 (Addr6 w) = (hi, lo)" by fastforce
  ultimately show ?thesis
    using that(2) ipV6_ints by (simp add: NewGenerator_def Let_def alloc_prefix_def)
qed

lemma of_nat_Suc_nonzero:
  assumes "k + 1 < 2 ^ LENGTH('a::len)"
  shows "(1 + of_nat k :: 'a word) \<noteq> 0"
proof
  assume "(1 + of_nat k :: 'a word) = 0"
  then have "(of_nat (k + 1) :: 'a word) = of_nat 0" by (simp add: add.commute)
  then show False using of_nat_inject_below [OF assms, of 0] by simp
qed

section \<open>Properties\<close>

text \<open>
  C9. Virtual IPs are never handed out twice: of fewer than \<open>2 ^ 32\<close> calls to a new generator, any two
  that succeed return different addresses; each lies in the subnet, in its lower half if it has
  halves, and is not the network address. (After \<open>2 ^ 32\<close> calls the IPv4 counter has wrapped around.)
\<close>

theorem virtual_ips_distinct:
  assumes sn: "prefix_wf sn" "prefix_valid sn" and n: "n < 2 ^ 32"
    and calls: "Next_calls n (NewGenerator sn) = rs"
  shows "(\<forall>j k a b. j < k \<and> k < n \<and> rs ! j = Inr a \<and> rs ! k = Inr b \<longrightarrow> a \<noteq> b)
    \<and> (\<forall>k a. k < n \<and> rs ! k = Inr a \<longrightarrow>
         contains (alloc_prefix sn) a \<and> contains sn a \<and> a \<noteq> paddr (masked sn))"
proof -
  have n64: "n \<le> 2 ^ 64" using n by simp
  from sn show ?thesis
  proof (cases rule: NewGenerator_cases)
    case (1 w v)
    then have rs: "rs = a4.calls n v" using calls Next_calls_4 by simp
    have "a \<noteq> b" if "j < k" "k < n" "rs ! j = Inr a" "rs ! k = Inr b" for j k a b
      using a4.calls_distinct [OF _ that(1,2), of v a b] that n by (simp add: rs)
    moreover have "contains (alloc_prefix sn) a \<and> contains sn a \<and> a \<noteq> paddr (masked sn)"
      if "k < n" "rs ! k = Inr a" for k a
      using a4.calls_nth [OF that(1), of v] that 1 alloc_in_subnet [OF sn] n of_nat_Suc_nonzero [of k, where 'a = 32]
      by (auto simp: rs ip4_cand_def ipV4FromInt_eq add.assoc)
    ultimately show ?thesis by blast
  next
    case (2 w v)
    then have rs: "rs = a6.calls n v" using calls Next_calls_6 by simp
    have "a \<noteq> b" if "j < k" "k < n" "rs ! j = Inr a" "rs ! k = Inr b" for j k a b
      using a6.calls_distinct [OF n64 that(1,2), of v a b] that by (simp add: rs)
    moreover have "contains (alloc_prefix sn) a \<and> contains sn a \<and> a \<noteq> paddr (masked sn)"
      if "k < n" "rs ! k = Inr a" for k a
    proof -
      have "vip6_cand v k \<noteq> ipV6FromInts (fixedHi v) (nextLo v)"
        using n that(1) of_nat_Suc_nonzero [of k, where 'a = 64]
        by (simp add: vip6_cand_def ipV6FromInts_inject add.assoc)
      then show ?thesis
        using a6.calls_nth [OF that(1), of v] that 2 alloc_in_subnet [OF sn] by (auto simp: rs)
    qed
    ultimately show ?thesis by blast
  qed
qed

theorem virtual_ips_distinct_witness:
  "\<exists>rs. Next_calls 3 (NewGenerator (prefix_from (Addr4 0x0a010203) 24)) = rs
     \<and> rs ! 0 = Inr (Addr4 0x0a010201) \<and> rs ! 1 = Inr (Addr4 0x0a010202)
     \<and> contains (prefix_from (Addr4 0x0a010203) 24) (Addr4 0x0a010202)"
proof -
  let ?sn = "prefix_from (Addr4 0x0a010203) 24"
  have r: "take 2 (Next_calls 3 (NewGenerator ?sn)) = [Inr (Addr4 0x0a010201), Inr (Addr4 0x0a010202)]" by code_simp
  have v: "prefix_wf ?sn" "prefix_valid ?sn" by (simp_all add: prefix_from_def prefix_wf_def prefix_valid_def)
  have e: "Next_calls 3 (NewGenerator ?sn) ! 0 = Inr (Addr4 0x0a010201)"
    "Next_calls 3 (NewGenerator ?sn) ! 1 = Inr (Addr4 0x0a010202)"
    using arg_cong [OF r, of "\<lambda>xs. xs ! 0"] arg_cong [OF r, of "\<lambda>xs. xs ! 1"] by simp_all
  have "(3 :: nat) < 2 ^ 32" "(1 :: nat) < 3" by simp_all
  with virtual_ips_distinct [OF v this(1) refl] e(2) have "contains ?sn (Addr4 0x0a010202)" by blast
  with e show ?thesis by blast
qed

end
