(* ===== verification/Rpc.thy ===== *)
theory Rpc
  imports Netip
begin

text \<open>
  The messages of \<^verbatim>\<open>rpc/manager/manager.proto\<close> that the modelled components exchange, one record per
  message with the fields of the proto file. A \<open>map\<close> field is an association list, a \<open>bytes\<close> field a
  list of bytes, and an \<open>int32\<close> or \<open>int64\<close> a word of that width. The generated Go code holds no logic.
\<close>

section \<open>Sessions and intercepts\<close>

datatype disposition =
    UNSPECIFIED | ACTIVE | WAITING | NO_CLIENT | NO_AGENT | NO_MECHANISM | NO_PORTS | AGENT_ERROR | BAD_ARGS | REMOVED

definition disposition_String :: "disposition \<Rightarrow> string" where
  "disposition_String d = (case d of UNSPECIFIED \<Rightarrow> ''UNSPECIFIED'' | ACTIVE \<Rightarrow> ''ACTIVE'' | WAITING \<Rightarrow> ''WAITING''
     | NO_CLIENT \<Rightarrow> ''NO_CLIENT'' | NO_AGENT \<Rightarrow> ''NO_AGENT'' | NO_MECHANISM \<Rightarrow> ''NO_MECHANISM''
     | NO_PORTS \<Rightarrow> ''NO_PORTS'' | AGENT_ERROR \<Rightarrow> ''AGENT_ERROR'' | BAD_ARGS \<Rightarrow> ''BAD_ARGS'' | REMOVED \<Rightarrow> ''REMOVED'')"

record intercept_spec =
  sp_name :: string
  sp_client :: string
  sp_agent :: string
  sp_workload_kind :: string
  sp_namespace :: string
  sp_mechanism :: string
  sp_target_host :: string
  sp_pod_ports :: "string list"
  sp_local_ports :: "string list"
  sp_port_identifier :: string
  sp_service_port_name :: string
  sp_service_port :: i32
  sp_service_uid :: string
  sp_service_name :: string
  sp_protocol :: string
  sp_container_name :: string
  sp_container_port :: i32
  sp_target_port :: i32
  sp_roundtrip_latency :: i64
  sp_dial_timeout :: i64
  sp_extra_ports :: "i32 list"
  sp_replace :: bool
  sp_wiretap :: bool
  sp_no_default_port :: bool
  sp_header_filters :: "(string \<times> string) list"
  sp_path_filters :: "string list"
  sp_metadata :: "(string \<times> string) list"
  sp_plaintext :: bool
  sp_service_ips :: "byte list list"

text \<open>The zero value of the message, in which every field is unset.\<close>

definition zero_spec :: intercept_spec where
  "zero_spec = \<lparr>sp_name = [], sp_client = [], sp_agent = [], sp_workload_kind = [], sp_namespace = [],
     sp_mechanism = [], sp_target_host = [], sp_pod_ports = [], sp_local_ports = [], sp_port_identifier = [],
     sp_service_port_name = [], sp_service_port = 0, sp_service_uid = [], sp_service_name = [], sp_protocol = [],
     sp_container_name = [], sp_container_port = 0, sp_target_port = 0, sp_roundtrip_latency = 0,
     sp_dial_timeout = 0, sp_extra_ports = [], sp_replace = False, sp_wiretap = False, sp_no_default_port = False,
     sp_header_filters = [], sp_path_filters = [], sp_metadata = [], sp_plaintext = False, sp_service_ips = []\<rparr>"

record session_info =
  si_session_id :: string
  si_manager_install_id :: string
  si_install_id :: "string option"

record intercept_info =
  ii_spec :: intercept_spec
  ii_id :: string
  ii_client_session :: session_info
  ii_disposition :: disposition
  ii_message :: string
  ii_pod_name :: string
  ii_api_port :: i32
  ii_pod_ip :: string
  ii_sftp_port :: i32
  ii_ftp_port :: i32
  ii_client_mount_point :: string
  ii_mount_point :: string
  ii_mechanism_args_desc :: string
  ii_environment :: "(string \<times> string) list"
  ii_mounts :: "(string \<times> i32) list"
  ii_modified_at :: nat

definition zero_info :: intercept_info where
  "zero_info = \<lparr>ii_spec = zero_spec, ii_id = [],
     ii_client_session = \<lparr>si_session_id = [], si_manager_install_id = [], si_install_id = None\<rparr>,
     ii_disposition = UNSPECIFIED, ii_message = [], ii_pod_name = [], ii_api_port = 0, ii_pod_ip = [],
     ii_sftp_port = 0, ii_ftp_port = 0, ii_client_mount_point = [], ii_mount_point = [],
     ii_mechanism_args_desc = [], ii_environment = [], ii_mounts = [], ii_modified_at = 0\<rparr>"

record review_request =
  rv_id :: string
  rv_disposition :: disposition
  rv_message :: string
  rv_pod_ip :: string
  rv_sftp_port :: i32
  rv_ftp_port :: i32
  rv_mount_point :: string
  rv_mechanism_args_desc :: string
  rv_environment :: "(string \<times> string) list"
  rv_mounts :: "(string \<times> i32) list"

text \<open>A review that only names the intercept, its disposition and texts, every other field zero.\<close>

definition plain_review :: "string \<Rightarrow> disposition \<Rightarrow> string \<Rightarrow> string \<Rightarrow> review_request" where
  "plain_review i d msg desc = \<lparr>rv_id = i, rv_disposition = d, rv_message = msg, rv_pod_ip = [], rv_sftp_port = 0,
     rv_ftp_port = 0, rv_mount_point = [], rv_mechanism_args_desc = desc, rv_environment = [], rv_mounts = []\<rparr>"

end
