(* ===== verification/Go_Maps.thy ===== *)
theory Go_Maps
  imports Prelude "HOL-Library.List_Lexorder" "HOL-Library.Char_ord"
begin

text \<open>
  The generic functions of \<^verbatim>\<open>pkg/maps/utils.go\<close>. A Go map is an association list without repeated keys,
  in some iteration order; a lookup of an absent key gives the zero value of the value type, which is
  an argument where the source relies on it.
\<close>

definition maps_wf :: "('k \<times> 'v) list \<Rightarrow> bool" where
  "maps_wf m \<longleftrightarrow> distinct (map fst m)"

definition go_lookup :: "'v \<Rightarrow> ('k \<times> 'v) list \<Rightarrow> 'k \<Rightarrow> 'v" where
  "go_lookup zero m k = (case map_of m k of None \<Rightarrow> zero | Some v \<Rightarrow> v)"

definition maps_Copy :: "('k \<times> 'v) list \<Rightarrow> ('k \<times> 'v) list" where
  "maps_Copy a = fold (\<lambda>(k, v). AList.update k v) a []"

definition maps_Equal :: "'v \<Rightarrow> ('k \<times> 'v) list \<Rightarrow> ('k \<times> 'v) list \<Rightarrow> bool" where
  "maps_Equal zero a b =
     (if length a \<noteq> length b then False else list_all (\<lambda>(k, v). v = go_lookup zero b k) a)"

definition maps_Merge :: "('k \<times> 'v) list \<Rightarrow> ('k \<times> 'v) list \<Rightarrow> ('k \<times> 'v) list" where
  "maps_Merge dst src = fold (\<lambda>(k, v). AList.update k v) src dst"

definition KeySlice :: "('k \<times> 'v) list \<Rightarrow> 'k list" where
  "KeySlice m = map fst m"

definition SortedKeys :: "('k::linorder \<times> 'v) list \<Rightarrow> 'k list" where
  "SortedKeys m = sort (KeySlice m)"

definition ToSortedSlice :: "'v \<Rightarrow> ('k::linorder \<times> 'v) list \<Rightarrow> 'v list" where
  "ToSortedSlice zero m = map (go_lookup zero m) (sort (map fst m))"

definition DeltaUpdate :: "('k \<times> 'v) list \<Rightarrow> ('k \<times> 'v) list \<Rightarrow> 'k list \<Rightarrow> ('k \<times> 'v) list" where
  "DeltaUpdate m upserts removals =
     fold AList.delete removals (fold (\<lambda>(k, v). AList.update k v) upserts m)"

text \<open>\<open>Values\<close> fills its slice from the end.\<close>

definition maps_Values :: "('k \<times> 'v) list \<Rightarrow> 'v list" where
  "maps_Values m = rev (map snd m)"

section \<open>Slices\<close>

text \<open>The functions of \<^verbatim>\<open>pkg/slice/contains.go\<close>.\<close>

fun slice_Contains :: "'a list \<Rightarrow> 'a \<Rightarrow> bool" where
  "slice_Contains [] e = False"
| "slice_Contains (v # vs) e = (if e = v then True else slice_Contains vs e)"

definition ContainsAll :: "'a list \<Rightarrow> 'a list \<Rightarrow> bool" where
  "ContainsAll vs es = list_all (slice_Contains vs) es"

definition ContainsAny :: "'a list \<Rightarrow> 'a list \<Rightarrow> bool" where
  "ContainsAny vs es = list_ex (slice_Contains vs) es"

fun AppendUnique :: "'a list \<Rightarrow> 'a list \<Rightarrow> 'a list" where
  "AppendUnique dest [] = dest"
| "AppendUnique dest (v # src) = AppendUnique (if \<not> slice_Contains dest v then dest @ [v] else dest) src"

lemma slice_Contains_iff [simp]: "slice_Contains vs e \<longleftrightarrow> e \<in> set vs"
  by (induction vs) auto

lemma AppendUnique_set: "set (AppendUnique dest src) = set dest \<union> set src \<and> (distinct dest \<longrightarrow> distinct (AppendUnique dest src))"
  by (induction dest src rule: AppendUnique.induct) auto

section \<open>Lookups after the operations\<close>

lemma map_of_fold_update:
  "maps_wf upd \<Longrightarrow>
   map_of (fold (\<lambda>(k, v). AList.update k v) upd m) k = (case map_of upd k of None \<Rightarrow> map_of m k | Some v \<Rightarrow> Some v)"
proof (induction upd arbitrary: m)
  case (Cons p upd)
  obtain a b where p: "p = (a, b)" by fastforce
  show ?case
  proof (cases "k = a")
    case True
    with Cons p have "map_of upd k = None" by (simp add: maps_wf_def map_of_eq_None_iff)
    with Cons p True show ?thesis by (simp add: maps_wf_def map_of_update)
  next
    case False
    with Cons p show ?thesis by (simp add: maps_wf_def map_of_update split: option.splits)
  qed
qed simp

lemma map_of_fold_delete: "map_of (fold AList.delete ks m) k = (if k \<in> set ks then None else map_of m k)"
  by (induction ks arbitrary: m) (auto simp: map_of_delete)

lemma maps_wf_fold_update: "maps_wf m \<Longrightarrow> maps_wf (fold (\<lambda>(k, v). AList.update k v) upd m)"
  by (induction upd arbitrary: m) (auto simp: maps_wf_def distinct_update)

lemma maps_wf_fold_delete: "maps_wf m \<Longrightarrow> maps_wf (fold AList.delete ks m)"
  by (induction ks arbitrary: m) (auto simp: maps_wf_def distinct_delete)

lemma map_of_Merge:
  "maps_wf src \<Longrightarrow> map_of (maps_Merge dst src) k = (case map_of src k of None \<Rightarrow> map_of dst k | Some v \<Rightarrow> Some v)"
  by (simp add: maps_Merge_def map_of_fold_update)

lemma maps_Equal_keys:
  assumes "maps_wf a" and "maps_wf b" and "zero \<notin> snd ` set a" and "maps_Equal zero a b"
  shows "map_of a = map_of b"
proof -
  have len: "length a = length b" and vals: "\<And>k v. (k, v) \<in> set a \<Longrightarrow> v = go_lookup zero b k"
    using assms(4) by (auto simp: maps_Equal_def list_all_iff split: if_splits)
  have in_b: "map_of b k = Some v" if "(k, v) \<in> set a" for k v
    using vals [OF that] assms(3) that by (auto simp: go_lookup_def image_iff split: option.splits)
  have "fst ` set a \<subseteq> fst ` set b"
  proof
    fix k assume "k \<in> fst ` set a"
    then obtain v where "(k, v) \<in> set a" by auto
    from map_of_SomeD [OF in_b [OF this]] show "k \<in> fst ` set b" by (metis fst_conv imageI)
  qed
  moreover have "card (fst ` set a) = card (fst ` set b)"
    using assms(1,2) len by (metis distinct_card length_map list.set_map maps_wf_def)
  ultimately have dom: "fst ` set a = fst ` set b" by (simp add: card_subset_eq)
  show ?thesis
  proof
    fix k
    show "map_of a k = map_of b k"
    proof (cases "map_of a k")
      case None
      then have "k \<notin> fst ` set b" using dom by (simp add: map_of_eq_None_iff)
      then have "map_of b k = None" by (simp add: map_of_eq_None_iff)
      with None show ?thesis by simp
    next
      case (Some v)
      with in_b [OF map_of_SomeD [OF Some]] show ?thesis by simp
    qed
  qed
qed

lemma maps_Equal_complete:
  assumes "maps_wf a" and "maps_wf b" and "map_of a = map_of b"
  shows "maps_Equal zero a b"
proof -
  have "set a = set b" using assms by (metis map_of_inject_set maps_wf_def)
  then have "length a = length b"
    using assms(1,2) by (metis distinct_card distinct_map maps_wf_def)
  moreover have "v = go_lookup zero b k" if "(k, v) \<in> set a" for k v
    using that assms by (metis go_lookup_def map_of_is_SomeI maps_wf_def option.simps(5))
  ultimately show ?thesis by (auto simp: maps_Equal_def list_all_iff)
qed

section \<open>Properties\<close>

text \<open>
  \<open>DeltaUpdate\<close> applies a delta: afterwards a removed key is absent, an upserted key that is not
  removed has its new value, every other key is as before, and no key is repeated.
\<close>

lemma DeltaUpdate_lookup:
  assumes "maps_wf m" and "maps_wf upserts"
  shows "maps_wf (DeltaUpdate m upserts removals)
    \<and> map_of (DeltaUpdate m upserts removals) k =
        (if k \<in> set removals then None
         else case map_of upserts k of None \<Rightarrow> map_of m k | Some v \<Rightarrow> Some v)"
  using assms
  by (simp add: DeltaUpdate_def map_of_fold_delete map_of_fold_update maps_wf_fold_update maps_wf_fold_delete)

text \<open>
  \<open>Equal\<close> decides equality of maps whose values are not the zero value of their type.
\<close>

lemma maps_Equal_correct:
  assumes "maps_wf a" and "maps_wf b" and "zero \<notin> snd ` set a"
  shows "maps_Equal zero a b \<longleftrightarrow> map_of a = map_of b"
  using maps_Equal_keys [OF assms] maps_Equal_complete [OF assms(1,2)] by blast

text \<open>
  With a zero value it does not: a key with the zero value on one side only goes unnoticed.
\<close>

lemma maps_Equal_zero_value:
  "maps_Equal '''' [(''x'', '''')] [(''y'', ''z'')] \<and> map_of [(''x'', '''')] \<noteq> map_of [(''y'', ''z'')]"
proof
  show "maps_Equal '''' [(''x'', '''')] [(''y'', ''z'')]" by code_simp
  have "map_of [(''x'', '''')] ''y'' \<noteq> map_of [(''y'', ''z'')] ''y''" by simp
  then show "map_of [(''x'', '''')] \<noteq> map_of [(''y'', ''z'')]" by metis
qed

end
