(* ===== verification/Policies.thy ===== *)
theory Policies
  imports Rpc Go_Maps "HOL-Library.Multiset"
begin

text \<open>
  The mount policies of \<^verbatim>\<open>pkg/types/mountpolicy.go\<close> with the annotations that change them
  (\<^verbatim>\<open>pkg/annotation\<close>), and the engagement types of \<^verbatim>\<open>pkg/types/engagement.go\<close>.

  A policy is a Go \<open>int\<close>. The policies of a container are a map that may be nil, hence an option; a
  write to the nil map panics, so the functions that write have an optional result. The JSON decoder
  is an argument of the functions that read annotations in JSON.
\<close>

section \<open>Mount policies\<close>

type_synonym mount_policy = i64
type_synonym mount_policies = "(string \<times> mount_policy) list option"

definition MountPolicyRemote :: mount_policy where "MountPolicyRemote = 0"
definition MountPolicyRemoteReadOnly :: mount_policy where "MountPolicyRemoteReadOnly = 1"
definition MountPolicyLocal :: mount_policy where "MountPolicyLocal = 2"
definition MountPolicyIgnore :: mount_policy where "MountPolicyIgnore = 3"

definition mountPolicyNames :: "string list" where
  "mountPolicyNames = [''Remote'', ''RemoteReadOnly'', ''Local'', ''Ignore'']"

definition MountPolicy_String :: "mount_policy \<Rightarrow> string" where
  "MountPolicy_String mp =
     (if 0 \<le> sint mp \<and> sint mp < int (length mountPolicyNames) then mountPolicyNames ! nat (sint mp) else ''Unknown'')"

text \<open>\<open>slices.IndexFunc\<close>.\<close>

fun index_func :: "('a \<Rightarrow> bool) \<Rightarrow> 'a list \<Rightarrow> nat option" where
  "index_func f [] = None"
| "index_func f (x # xs) = (if f x then Some 0 else map_option Suc (index_func f xs))"

datatype policy_error = InvalidMountPolicy string | JsonError string

definition ParseMountPolicy :: "string \<Rightarrow> mount_policy \<times> policy_error option" where
  "ParseMountPolicy s =
     (case index_func (\<lambda>pn. equal_fold pn s) mountPolicyNames of
        Some ix \<Rightarrow> (of_nat ix, None)
      | None \<Rightarrow> (MountPolicyIgnore, Some (InvalidMountPolicy s)))"

subsection \<open>Annotations\<close>

definition DomainPrefix :: string where "DomainPrefix = ''telepresence.io/''"
definition LegacyDomainPrefix :: string where "LegacyDomainPrefix = ''telepresence.getambassador.io/''"
definition InjectIgnoreVolumeMounts :: string where
  "InjectIgnoreVolumeMounts = DomainPrefix @ ''inject-ignore-volume-mounts''"
definition LegacyInjectIgnoreVolumeMounts :: string where
  "LegacyInjectIgnoreVolumeMounts = LegacyDomainPrefix @ ''inject-ignore-volume-mounts''"
definition VolumeMountPolicies :: string where
  "VolumeMountPolicies = DomainPrefix @ ''mount-policies''"

type_synonym annotations = "(string \<times> string) list"

definition GetAnnotation :: "annotations \<Rightarrow> string \<Rightarrow> string \<Rightarrow> string" where
  "GetAnnotation anns key deprecatedKey =
     (case map_of anns key of
        Some v \<Rightarrow> v
      | None \<Rightarrow> (case map_of anns deprecatedKey of Some v \<Rightarrow> v | None \<Rightarrow> []))"

definition getPolicyAnnotations ::
  "(string \<Rightarrow> policy_error + mount_policies) \<Rightarrow> annotations \<Rightarrow> policy_error + mount_policies" where
  "getPolicyAnnotations unmarshal anns =
     (case map_of anns VolumeMountPolicies of
        None \<Rightarrow> Inr None
      | Some vma \<Rightarrow> let vma = trim_space vma in if length vma = 0 then Inr None else unmarshal vma)"

definition getIgnoreAnnotations ::
  "(string \<Rightarrow> policy_error + string list) \<Rightarrow> annotations \<Rightarrow> policy_error + string list" where
  "getIgnoreAnnotations unmarshal anns =
     (let vma = trim_space (GetAnnotation anns InjectIgnoreVolumeMounts LegacyInjectIgnoreVolumeMounts) in
      if length vma = 0 then Inr []
      else if hd vma = CHR ''['' then unmarshal vma
      else Inr (map trim_space (split_byte (CHR '','') vma)))"

definition go_entries :: "('k \<times> 'v) list option \<Rightarrow> ('k \<times> 'v) list" where
  "go_entries m = (case m of None \<Rightarrow> [] | Some m \<Rightarrow> m)"

definition AddAnnotations ::
  "(string \<Rightarrow> policy_error + mount_policies) \<Rightarrow> (string \<Rightarrow> policy_error + string list) \<Rightarrow> annotations
   \<Rightarrow> mount_policies \<Rightarrow> (policy_error + mount_policies) option" where
  "AddAnnotations json_policies json_ignores anns iv =
     (case getIgnoreAnnotations json_ignores anns of
        Inl e \<Rightarrow> Some (Inl e)
      | Inr ignores \<Rightarrow>
          (case getPolicyAnnotations json_policies anns of
             Inl e \<Rightarrow> Some (Inl e)
           | Inr policies \<Rightarrow>
               if length ignores = 0 \<and> length (go_entries policies) = 0 then Some (Inr iv)
               else (case iv of
                       None \<Rightarrow> None
                     | Some mps \<Rightarrow>
                         let mps = fold (\<lambda>(key, policy). AList.update key policy) (go_entries policies) mps;
                             mps = fold (\<lambda>key. AList.update key MountPolicyIgnore) ignores mps
                         in Some (Inr (Some mps)))))"

subsection \<open>Wire form and lookup\<close>

definition MountPoliciesFromRPC :: "(string \<times> i32) list option \<Rightarrow> mount_policies" where
  "MountPoliciesFromRPC mr =
     (case mr of None \<Rightarrow> None | Some mr \<Rightarrow> Some (fold (\<lambda>(k, v). AList.update k (scast v)) mr []))"

definition MountPolicies_ToRPC :: "mount_policies \<Rightarrow> (string \<times> i32) list option" where
  "MountPolicies_ToRPC iv =
     (if length (go_entries iv) = 0 then None
      else Some (fold (\<lambda>(key, policy). AList.update key (ucast policy)) (go_entries iv) []))"

fun MountPolicies_Get :: "(string \<times> mount_policy) list \<Rightarrow> string \<Rightarrow> string \<Rightarrow> mount_policy" where
  "MountPolicies_Get [] volumeName mountPath = MountPolicyRemote"
| "MountPolicies_Get ((key, policy) # iv) volumeName mountPath =
     (if key = volumeName \<or> has_prefix mountPath key then policy else MountPolicies_Get iv volumeName mountPath)"

section \<open>Engagement types\<close>

type_synonym engagement_type = i64

definition engagementTypes :: "(string \<times> engagement_type) list" where
  "engagementTypes =
     [(''connect'', 0), (''ingest'', 1), (''wiretap'', 2), (''intercept'', 3), (''replace'', 4), (''proxy'', 5)]"

definition egStrings :: "string list list" where
  "egStrings =
     [[''connect'', ''Connecting'', ''Connected'', ''Disconnecting'', ''Disconnected''],
      [''ingest'', ''Ingesting'', ''Ingested'', ''Leaving ingest'', ''Left ingest''],
      [''wiretap'', ''Wiretapping'', ''Wiretapped'', ''Removing wiretap'', ''Removed wiretap''],
      [''intercept'', ''Intercepting'', ''Intercepted'', ''Leaving intercept'', ''Left intercept''],
      [''replace'', ''Replacing'', ''Replaced'', ''Restoring'', ''Restored''],
      [''proxy'', ''Proxying'', ''Proxied'', ''Removing proxy'', ''Removed proxy'']]"

definition invalidType :: "string \<Rightarrow> string" where
  "invalidType s = ''invalid engagement type '' @ s"

definition ParseEngagementType :: "string \<Rightarrow> engagement_type \<times> string option" where
  "ParseEngagementType s =
     (case map_of engagementTypes (to_lower s) of Some e \<Rightarrow> (e, None) | None \<Rightarrow> (0, Some (invalidType s)))"

definition EngagementTypeFromSpec :: "intercept_spec \<Rightarrow> engagement_type" where
  "EngagementTypeFromSpec spec = (if sp_wiretap spec then 2 else if sp_no_default_port spec then 4 else 3)"

definition signed_itoa :: "int \<Rightarrow> string" where
  "signed_itoa i = (if i < 0 then CHR ''-'' # itoa (nat (- i)) else itoa (nat i))"

definition eg_strings :: "engagement_type \<Rightarrow> string list" where
  "eg_strings e =
     (if 0 \<le> sint e \<and> sint e < 6 then egStrings ! nat (sint e)
      else replicate 5 (invalidType (signed_itoa (sint e))))"

definition EngagementType_String :: "engagement_type \<Rightarrow> string" where "EngagementType_String e = eg_strings e ! 0"
definition Working :: "engagement_type \<Rightarrow> string" where "Working e = eg_strings e ! 1"
definition WorkDone :: "engagement_type \<Rightarrow> string" where "WorkDone e = eg_strings e ! 2"
definition Leaving :: "engagement_type \<Rightarrow> string" where "Leaving e = eg_strings e ! 3"
definition Left :: "engagement_type \<Rightarrow> string" where "Left e = eg_strings e ! 4"

section \<open>Names read back\<close>

lemma small_policy_cases:
  fixes mp :: mount_policy
  assumes "0 \<le> sint mp" and "sint mp < 4"
  shows "mp = 0 \<or> mp = 1 \<or> mp = 2 \<or> mp = 3"
proof -
  have "sint mp = sint (0 :: i64) \<or> sint mp = sint (1 :: i64) \<or> sint mp = sint (2 :: i64) \<or> sint mp = sint (3 :: i64)"
    using assms by simp arith
  then show ?thesis by (metis signed_word_eqI)
qed

lemma small_engagement_cases:
  fixes e :: engagement_type
  assumes "0 \<le> sint e" and "sint e < 6"
  shows "e = 0 \<or> e = 1 \<or> e = 2 \<or> e = 3 \<or> e = 4 \<or> e = 5"
proof -
  have "sint e = sint (0 :: i64) \<or> sint e = sint (1 :: i64) \<or> sint e = sint (2 :: i64) \<or> sint e = sint (3 :: i64)
    \<or> sint e = sint (4 :: i64) \<or> sint e = sint (5 :: i64)"
    using assms by simp arith
  then show ?thesis by (metis signed_word_eqI)
qed

lemma ParseMountPolicy_String:
  assumes "0 \<le> sint mp" and "sint mp < 4"
  shows "ParseMountPolicy (MountPolicy_String mp) = (mp, None)"
proof -
  have "ParseMountPolicy (MountPolicy_String 0) = (0, None)" "ParseMountPolicy (MountPolicy_String 1) = (1, None)"
    "ParseMountPolicy (MountPolicy_String 2) = (2, None)" "ParseMountPolicy (MountPolicy_String 3) = (3, None)"
    by code_simp+
  with small_policy_cases [OF assms] show ?thesis by fastforce
qed

lemma ParseEngagementType_String:
  assumes "0 \<le> sint e" and "sint e < 6"
  shows "ParseEngagementType (EngagementType_String e) = (e, None)"
proof -
  have "ParseEngagementType (EngagementType_String 0) = (0, None)" "ParseEngagementType (EngagementType_String 1) = (1, None)"
    "ParseEngagementType (EngagementType_String 2) = (2, None)" "ParseEngagementType (EngagementType_String 3) = (3, None)"
    "ParseEngagementType (EngagementType_String 4) = (4, None)" "ParseEngagementType (EngagementType_String 5) = (5, None)"
    by code_simp+
  with small_engagement_cases [OF assms] show ?thesis by fastforce
qed

section \<open>The order of a map\<close>

definition applicable :: "(string \<times> mount_policy) list \<Rightarrow> string \<Rightarrow> string \<Rightarrow> mount_policy set" where
  "applicable iv volumeName mountPath =
     {policy. \<exists>key. (key, policy) \<in> set iv \<and> (key = volumeName \<or> has_prefix mountPath key)}"

lemma Get_applicable:
  "applicable iv v p \<noteq> {} \<Longrightarrow> MountPolicies_Get iv v p \<in> applicable iv v p"
  by (induction iv v p rule: MountPolicies_Get.induct) (auto simp: applicable_def)

lemma Get_default: "applicable iv v p = {} \<Longrightarrow> MountPolicies_Get iv v p = MountPolicyRemote"
  by (induction iv v p rule: MountPolicies_Get.induct) (auto simp: applicable_def)

lemma applicable_mset: "mset iv' = mset iv \<Longrightarrow> applicable iv' v p = applicable iv v p"
  using mset_eq_setD [of iv' iv] by (simp add: applicable_def)

lemma Get_possible:
  assumes "q \<in> applicable iv v p"
  shows "\<exists>iv'. mset iv' = mset iv \<and> MountPolicies_Get iv' v p = q"
proof -
  from assms obtain key where k: "(key, q) \<in> set iv" "key = v \<or> has_prefix p key"
    by (auto simp: applicable_def)
  have "mset ((key, q) # remove1 (key, q) iv) = mset iv" using k(1) by simp
  moreover have "MountPolicies_Get ((key, q) # remove1 (key, q) iv) v p = q" using k(2) by (simp only: MountPolicies_Get.simps if_True)
  ultimately show ?thesis by blast
qed

section \<open>Properties\<close>

text \<open>
  A policy or engagement type that has a name is read back from it, and an intercept is always
  engaged as one of the types that have a name.
\<close>

lemma names_read_back:
  "(0 \<le> sint mp \<and> sint mp < 4 \<longrightarrow> ParseMountPolicy (MountPolicy_String mp) = (mp, None))
   \<and> (0 \<le> sint e \<and> sint e < 6 \<longrightarrow> ParseEngagementType (EngagementType_String e) = (e, None))
   \<and> ParseEngagementType (EngagementType_String (EngagementTypeFromSpec spec)) = (EngagementTypeFromSpec spec, None)"
proof -
  have "0 \<le> sint (EngagementTypeFromSpec spec) \<and> sint (EngagementTypeFromSpec spec) < 6"
    by (simp add: EngagementTypeFromSpec_def)
  then show ?thesis by (simp add: ParseMountPolicy_String ParseEngagementType_String)
qed

text \<open>
  Annotations take precedence over the configured policies, and the volumes to ignore over the
  policies: that is what every lookup in the result shows. The call panics exactly if there is
  something to add to a nil map.
\<close>

lemma AddAnnotations_precedence:
  assumes "getIgnoreAnnotations json_ignores anns = Inr ignores"
    and "getPolicyAnnotations json_policies anns = Inr policies" and "maps_wf (go_entries policies)"
  shows "case AddAnnotations json_policies json_ignores anns iv of
      None \<Rightarrow> iv = None \<and> (ignores \<noteq> [] \<or> go_entries policies \<noteq> [])
    | Some (Inl e) \<Rightarrow> False
    | Some (Inr mps) \<Rightarrow>
        map_of (go_entries mps) k =
          (if k \<in> set ignores then Some MountPolicyIgnore
           else case map_of (go_entries policies) k of Some p \<Rightarrow> Some p | None \<Rightarrow> map_of (go_entries iv) k)"
proof -
  have ign: "map_of (fold (\<lambda>key. AList.update key MountPolicyIgnore) ks m) k =
      (if k \<in> set ks then Some MountPolicyIgnore else map_of m k)" for ks m
    by (induction ks arbitrary: m) auto
  show ?thesis
  proof (cases iv)
    case None
    with assms show ?thesis by (simp add: AddAnnotations_def go_entries_def split: option.splits)
  next
    case (Some mps)
    with assms(3) show ?thesis
      by (simp add: AddAnnotations_def assms(1,2) ign map_of_fold_update go_entries_def Let_def split: option.splits)
  qed
qed

text \<open>
  The policy \<open>Get\<close> finds depends on the order in which Go ranges over the map: the results over
  all orders are exactly the policies whose key is the volume or a prefix of the path, and the default
  if there is none. So the result is determined exactly if those policies agree.
\<close>

lemma Get_over_all_orders:
  "(\<lambda>iv'. MountPolicies_Get iv' v p) ` {iv'. mset iv' = mset iv} =
     (if applicable iv v p = {} then {MountPolicyRemote} else applicable iv v p)"
proof (cases "applicable iv v p = {}")
  case True
  have "MountPolicies_Get iv' v p = MountPolicyRemote" if "mset iv' = mset iv" for iv'
    using Get_default [of iv' v p] applicable_mset [OF that, of v p] True by simp
  then have "(\<lambda>iv'. MountPolicies_Get iv' v p) ` {iv'. mset iv' = mset iv} = {MountPolicyRemote}"
    by (intro equalityI subsetI) (blast, metis (mono_tags) image_eqI mem_Collect_eq singletonD)
  with True show ?thesis by simp
next
  case False
  have "MountPolicies_Get iv' v p \<in> applicable iv v p" if "mset iv' = mset iv" for iv'
    using Get_applicable [of iv' v p] applicable_mset [OF that, of v p] False by simp
  moreover have "q \<in> (\<lambda>iv'. MountPolicies_Get iv' v p) ` {iv'. mset iv' = mset iv}" if "q \<in> applicable iv v p" for q
    using Get_possible [OF that] by blast
  ultimately have "(\<lambda>iv'. MountPolicies_Get iv' v p) ` {iv'. mset iv' = mset iv} = applicable iv v p"
    by blast
  with False show ?thesis by simp
qed

end
