(* ===== verification/K8s.thy ===== *)
theory K8s
  imports Policies Ports
begin

text \<open>
  The Kubernetes objects that the agent configuration is made from, as records with the fields the
  sources read or write. They are the data types of \<^verbatim>\<open>k8s.io/api/core/v1\<close> and hold no logic. A part
  of an object that the sources only copy (a resource requirement, an environment source) is its JSON
  text.
\<close>

type_synonym k8s_json = string

record security_context =
  sc_RunAsUser :: "i64 option"
  sc_RunAsGroup :: "i64 option"
  sc_other :: k8s_json

record container_port =
  cp_Name :: string
  cp_ContainerPort :: i32
  cp_Protocol :: string

record env_var =
  ev_Name :: string
  ev_Value :: string
  ev_ValueFrom :: "k8s_json option"

record env_from =
  ef_Prefix :: string
  ef_source :: k8s_json

record volume_mount =
  vm_Name :: string
  vm_ReadOnly :: bool
  vm_RecursiveReadOnly :: "string option"
  vm_MountPath :: string
  vm_SubPath :: string
  vm_SubPathExpr :: string

record k8s_container =
  kc_Name :: string
  kc_Ports :: "container_port list"
  kc_Env :: "env_var list"
  kc_EnvFrom :: "env_from list"
  kc_VolumeMounts :: "volume_mount list"
  kc_SecurityContext :: "security_context option"

record pod_template =
  pt_Name :: string
  pt_Namespace :: string
  pt_Labels :: "(string \<times> string) list"
  pt_Annotations :: annotations
  pt_SecurityContext :: "security_context option"
  pt_Containers :: "k8s_container list"
  pt_InitContainers :: "k8s_container list"

record workload =
  wl_Name :: string
  wl_Namespace :: string
  wl_Kind :: string
  wl_Labels :: "(string \<times> string) list"
  wl_PodTemplate :: pod_template

text \<open>A target port is a number or the name of a container port.\<close>

datatype target_port = TargetInt i32 | TargetString string

record service_port =
  sv_Name :: string
  sv_Protocol :: string
  sv_AppProtocol :: "string option"
  sv_Port :: i32
  sv_TargetPort :: target_port

record k8s_service =
  svc_Name :: string
  svc_UID :: string
  svc_Selector :: "(string \<times> string) list"
  svc_Ports :: "service_port list"

end
