(* ===== verification/Agent_Config.thy ===== *)
theory Agent_Config
  imports K8s
begin

text \<open>
  The configuration of the traffic agent, \<^verbatim>\<open>pkg/agentconfig\<close>: the records of \<^verbatim>\<open>sidecar.go\<close> with the
  searches for an intercept, the targets of \<^verbatim>\<open>intercepttarget.go\<close>, the ports of \<^verbatim>\<open>util.go\<close> and the
  inject policy. Errors for the user are values of \<open>find_error\<close>, one per message; a panic is \<open>None\<close>.

  The lemmas show what the searches find, that the intercepts unique by port keep one intercept for
  each port, and that a target passes its assertion.
\<close>

section \<open>Configuration\<close>

definition ContainerName :: string where "ContainerName = ''traffic-agent''"
definition InitContainerName :: string where "InitContainerName = ''tel-agent-init''"
definition MountPrefixApp :: string where "MountPrefixApp = ''/tel_app_mounts''"
definition EnvPrefixAgent :: string where "EnvPrefixAgent = ''_TEL_AGENT_''"
definition EnvPrefixApp :: string where "EnvPrefixApp = ''_TEL_APP_''"

datatype replace_policy = ReplacePolicyIntercept | ReplacePolicyContainer | ReplacePolicyInactive

record intercept =
  ic_ContainerPortName :: string
  ic_ServiceName :: string
  ic_ServiceUID :: string
  ic_ServicePortName :: string
  ic_TargetPortNumeric :: bool
  ic_Protocol :: proto
  ic_AppProtocol :: string
  ic_Headless :: bool
  ic_ContainerPort :: u16
  ic_ServicePort :: u16
  ic_AgentPort :: u16

record container =
  cn_Name :: string
  cn_Intercepts :: "intercept list"
  cn_EnvPrefix :: string
  cn_MountPoint :: string
  cn_Mounts :: mount_policies
  cn_MountPaths :: "string list"
  cn_Replace :: replace_policy

record sidecar =
  sc_Create :: bool
  sc_Manual :: bool
  sc_AgentImage :: string
  sc_PullPolicy :: string
  sc_PullSecrets :: "k8s_json list"
  sc_AgentName :: string
  sc_Namespace :: string
  sc_LogLevel :: i64
  sc_WorkloadName :: string
  sc_WorkloadKind :: string
  sc_ManagerHost :: string
  sc_ManagerPort :: u16
  sc_APIPort :: u16
  sc_Resources :: "k8s_json option"
  sc_InitResources :: "k8s_json option"
  sc_MountPolicies :: mount_policies
  sc_MeshDialSubnets :: "prefix list"
  sc_Containers :: "container list"
  sc_SecurityContext :: "security_context option"
  sc_InitSecurityContext :: "security_context option"
  sc_ClientConnectionTTL :: i64
  sc_EnableMetrics :: bool
  sc_EnableH2cProbing :: bool
  sc_WatchRetryInterval :: i64

section \<open>Ports\<close>

definition IsInterceptForService :: "port_identifier \<Rightarrow> intercept \<Rightarrow> bool" where
  "IsInterceptForService pi ic =
     (case ProtoAndNameOrNumber pi of (proto, name, num) \<Rightarrow>
        if HasProto pi \<and> proto \<noteq> ic_Protocol ic then False
        else if name = [] then num = ic_ServicePort ic
        else name = ic_ServicePortName ic)"

definition IsInterceptForContainer :: "port_identifier \<Rightarrow> intercept \<Rightarrow> bool" where
  "IsInterceptForContainer pi ic =
     (case ProtoAndNameOrNumber pi of (proto, name, num) \<Rightarrow>
        if HasProto pi \<and> proto \<noteq> ic_Protocol ic then False
        else if name = [] then num = ic_ContainerPort ic
        else name = ic_ContainerPortName ic)"

definition agent_key :: "intercept \<Rightarrow> u16 \<times> proto" where
  "agent_key ic = (ic_AgentPort ic, ic_Protocol ic)"

fun unique_intercepts :: "(u16 \<times> proto) list \<Rightarrow> intercept list \<Rightarrow> intercept list" where
  "unique_intercepts um [] = []"
| "unique_intercepts um (ic # ics) =
     (if agent_key ic \<notin> set um then ic # unique_intercepts (agent_key ic # um) ics else unique_intercepts um ics)"

definition PortUniqueIntercepts :: "container \<Rightarrow> intercept list" where
  "PortUniqueIntercepts cn = unique_intercepts [] (cn_Intercepts cn)"

definition numberOfPossibleIntercepts :: "sidecar \<Rightarrow> nat" where
  "numberOfPossibleIntercepts s = sum_list (map (\<lambda>c. length (cn_Intercepts c)) (sc_Containers s))"

definition ProxyPort :: "sidecar \<Rightarrow> u16 \<Rightarrow> u16" where
  "ProxyPort s agentPort = agentPort + 11 + of_nat (numberOfPossibleIntercepts s)"

section \<open>Intercept targets\<close>

type_synonym intercept_target = "intercept list"

definition NewInterceptTarget :: "intercept list \<Rightarrow> intercept_target option" where
  "NewInterceptTarget ics =
     (case ics of
        [] \<Rightarrow> None
      | icZero # rest \<Rightarrow>
          if list_ex (\<lambda>ic. ic_AgentPort icZero \<noteq> ic_AgentPort ic \<or> ic_ContainerPort icZero \<noteq> ic_ContainerPort ic
                         \<or> ic_Protocol icZero \<noteq> ic_Protocol ic) rest
          then None else Some ics)"

text \<open>The accessors read the first intercept and panic without one.\<close>

definition first_of :: "(intercept \<Rightarrow> 'a) \<Rightarrow> intercept_target \<Rightarrow> 'a option" where
  "first_of f cp = (case cp of [] \<Rightarrow> None | ic # _ \<Rightarrow> Some (f ic))"

definition MatchForSpec :: "intercept_target \<Rightarrow> intercept_spec \<Rightarrow> bool option" where
  "MatchForSpec cp spec =
     first_of (\<lambda>ic. ucast (sp_container_port spec) = ic_ContainerPort ic
                  \<and> ic_Protocol ic = FromK8sProtocol (sp_protocol spec)) cp"

definition target_AgentPort :: "intercept_target \<Rightarrow> u16 option" where
  "target_AgentPort cp = first_of ic_AgentPort cp"

definition TargetPortNumeric :: "intercept_target \<Rightarrow> bool" where
  "TargetPortNumeric cp = list_ex ic_TargetPortNumeric cp"

definition target_ContainerPort :: "intercept_target \<Rightarrow> u16 option" where
  "target_ContainerPort cp = first_of ic_ContainerPort cp"

definition target_Protocol :: "intercept_target \<Rightarrow> proto option" where
  "target_Protocol cp = first_of ic_Protocol cp"

definition portString :: "intercept \<Rightarrow> string" where
  "portString ic =
     (if ic_ServiceUID ic \<noteq> [] then
        let p = (if ic_ServicePortName ic = [] then itoa (unat (ic_ServicePort ic)) else ic_ServicePortName ic)
        in ''service port '' @ ic_ServiceName ic @ '':'' @ p
      else
        let p = (if ic_ContainerPortName ic = [] then itoa (unat (ic_ContainerPort ic)) else ic_ContainerPortName ic)
        in ''container port '' @ p)"

text \<open>The first application protocol that is set; the source warns about others that differ.\<close>

fun AppProtocol :: "intercept_target \<Rightarrow> string" where
  "AppProtocol [] = []"
| "AppProtocol (ic # cp) = (if ic_AppProtocol ic = [] then AppProtocol cp else ic_AppProtocol ic)"

definition HasServicePortName :: "intercept_target \<Rightarrow> string \<Rightarrow> bool" where
  "HasServicePortName cp name = list_ex (\<lambda>sv. ic_ServicePortName sv = name) cp"

definition HasServicePort :: "intercept_target \<Rightarrow> u16 \<Rightarrow> bool" where
  "HasServicePort cp port = list_ex (\<lambda>sv. ic_ServicePort sv = port) cp"

fun target_items :: "nat \<Rightarrow> nat \<Rightarrow> intercept list \<Rightarrow> string" where
  "target_items l i [] = []"
| "target_items l i (ic # cp) =
     (if 0 < i then (if l = 2 then '' and '' else if l = i + 1 then '', and '' else '', '') else [])
     @ portString ic @ target_items l (i + 1) cp"

definition InterceptTarget_String :: "intercept_target \<Rightarrow> string option" where
  "InterceptTarget_String cp =
     (let l = length cp in
      case cp of
        [] \<Rightarrow> None
      | ic # _ \<Rightarrow>
          Some ((if 1 < l then ''['' else []) @ target_items l 0 cp @ (if 1 < l then '']'' else []) @
            (if 1 < l \<or> ic_ServiceName ic \<noteq> []
             then '' => container port '' @ itoa (unat (ic_ContainerPort ic)) @ ''/'' @ Proto_String (ic_Protocol ic)
             else [])))"

section \<open>Searches\<close>

definition targets :: "u16 \<Rightarrow> proto \<Rightarrow> intercept \<Rightarrow> bool" where
  "targets containerPort proto ic \<longleftrightarrow> ic_ContainerPort ic = containerPort \<and> ic_Protocol ic = proto"

fun container_target :: "u16 \<Rightarrow> proto \<Rightarrow> intercept list \<Rightarrow> intercept_target option" where
  "container_target containerPort proto [] = None"
| "container_target containerPort proto (ic # ics) =
     (if targets containerPort proto ic then Some (ic # filter (targets containerPort proto) ics)
      else container_target containerPort proto ics)"

fun containers_target :: "u16 \<Rightarrow> proto \<Rightarrow> container list \<Rightarrow> (container \<times> intercept_target) option" where
  "containers_target containerPort proto [] = None"
| "containers_target containerPort proto (c # cs) =
     (case container_target containerPort proto (cn_Intercepts c) of
        Some it \<Rightarrow> Some (c, it)
      | None \<Rightarrow> containers_target containerPort proto cs)"

definition InterceptTarget :: "sidecar \<Rightarrow> u16 \<Rightarrow> proto \<Rightarrow> (container \<times> intercept_target) option" where
  "InterceptTarget s containerPort proto = containers_target containerPort proto (sc_Containers s)"

definition InterceptorInactivePort :: "sidecar \<Rightarrow> u16 \<Rightarrow> proto \<Rightarrow> u16" where
  "InterceptorInactivePort s containerPort proto =
     (case InterceptTarget s containerPort proto of
        Some (_, it) \<Rightarrow>
          if TargetPortNumeric it then
            (case target_AgentPort it of Some p \<Rightarrow> ProxyPort s p | None \<Rightarrow> containerPort)
          else containerPort
      | None \<Rightarrow> containerPort)"

fun EachContainer :: "k8s_container list \<Rightarrow> container list \<Rightarrow> (k8s_container \<times> container) list" where
  "EachContainer cns [] = []"
| "EachContainer cns (cc # ccs) =
     (case find (\<lambda>app. kc_Name app = cn_Name cc) cns of
        Some app \<Rightarrow> (app, cc) # EachContainer cns ccs
      | None \<Rightarrow> EachContainer cns ccs)"

datatype find_error =
    MultiplePorts | MultipleServices port_identifier | MultipleServicePorts string
  | DeclaredTwice string port_identifier | NoInterceptablePort string port_identifier

text \<open>The filter of \<open>FindIntercept\<close>: what does not make the loop continue.\<close>

definition intercept_matches :: "string \<Rightarrow> port_identifier \<Rightarrow> intercept \<Rightarrow> bool" where
  "intercept_matches serviceName port ic \<longleftrightarrow>
     (serviceName = [] \<or> serviceName = ic_ServiceName ic)
     \<and> (port \<noteq> [] \<longrightarrow> (if ic_ServiceUID ic \<noteq> [] then IsInterceptForService port ic else IsInterceptForContainer port ic))"

definition ambiguous :: "string \<Rightarrow> port_identifier \<Rightarrow> find_error" where
  "ambiguous serviceName port =
     (if serviceName = [] \<and> port = [] then MultiplePorts
      else if serviceName = [] then MultipleServices port
      else if port = [] then MultipleServicePorts serviceName
      else DeclaredTwice serviceName port)"

fun find_intercept ::
  "container list \<Rightarrow> string \<Rightarrow> string \<Rightarrow> port_identifier \<Rightarrow> (container \<times> intercept) list \<Rightarrow> (container \<times> intercept) option
   \<Rightarrow> find_error + (container \<times> intercept)" where
  "find_intercept cns serviceName containerName port [] found =
     (case found of Some f \<Rightarrow> Inr f | None \<Rightarrow> Inl (NoInterceptablePort serviceName port))"
| "find_intercept cns serviceName containerName port ((cn, ic) # rest) found =
     (if \<not> intercept_matches serviceName port ic then find_intercept cns serviceName containerName port rest found
      else (case found of
              None \<Rightarrow>
                let foundCN = (if containerName \<noteq> [] then
                                 (case find (\<lambda>cx. cn_Name cx = containerName) cns of Some cx \<Rightarrow> cx | None \<Rightarrow> cn)
                               else cn)
                in find_intercept cns serviceName containerName port rest (Some (foundCN, ic))
            | Some _ \<Rightarrow> Inl (ambiguous serviceName port)))"

definition all_intercepts :: "container list \<Rightarrow> (container \<times> intercept) list" where
  "all_intercepts cns = concat (map (\<lambda>cn. map (Pair cn) (cn_Intercepts cn)) cns)"

definition FindIntercept ::
  "sidecar \<Rightarrow> string \<Rightarrow> string \<Rightarrow> port_identifier \<Rightarrow> find_error + (container \<times> intercept)" where
  "FindIntercept s serviceName containerName port =
     find_intercept (sc_Containers s) serviceName containerName port (all_intercepts (sc_Containers s)) None"

text \<open>
  \<open>MarshalTight\<close> clears the fields that only matter when the container is created, marshals the
  configuration and restores it; the result has the configuration it leaves behind.
\<close>

definition MarshalTight :: "(sidecar \<Rightarrow> string + string) \<Rightarrow> sidecar \<Rightarrow> (string + string) \<times> sidecar" where
  "MarshalTight marshal ac =
     (let tight = ac\<lparr>sc_AgentImage := [], sc_PullPolicy := [], sc_PullSecrets := [], sc_InitResources := None,
                     sc_SecurityContext := None, sc_InitSecurityContext := None\<rparr>;
          data = marshal tight;
          ac' = tight\<lparr>sc_AgentImage := sc_AgentImage ac, sc_PullPolicy := sc_PullPolicy ac,
                     sc_PullSecrets := sc_PullSecrets ac, sc_InitResources := sc_InitResources ac,
                     sc_SecurityContext := sc_SecurityContext ac, sc_InitSecurityContext := sc_InitSecurityContext ac\<rparr>
      in (data, ac'))"

section \<open>Inject policy\<close>

type_synonym inject_policy = nat

definition epNames :: "string list" where "epNames = [''OnDemand'', ''WhenEnabled'', ''Never'']"

definition InjectPolicy_String :: "inject_policy \<Rightarrow> string option" where
  "InjectPolicy_String aps = (if aps < length epNames then Some (epNames ! aps) else None)"

definition NewEnablePolicy :: "string \<Rightarrow> string + inject_policy" where
  "NewEnablePolicy s = (case index_func (\<lambda>n. s = n) epNames of Some i \<Rightarrow> Inr i | None \<Rightarrow> Inl s)"

definition EnvDecode :: "string \<Rightarrow> string + inject_policy" where
  "EnvDecode val = (if val = [] then Inr 0 else NewEnablePolicy val)"

section \<open>What the searches find\<close>

lemma find_intercept_spec:
  "find_intercept cns sn cname port ps found =
     (case filter (\<lambda>(cn, ic). intercept_matches sn port ic) ps of
        [] \<Rightarrow> (case found of Some f \<Rightarrow> Inr f | None \<Rightarrow> Inl (NoInterceptablePort sn port))
      | (cn, ic) # rest \<Rightarrow>
          if found = None \<and> rest = []
          then Inr (if cname \<noteq> [] then (case find (\<lambda>cx. cn_Name cx = cname) cns of Some cx \<Rightarrow> cx | None \<Rightarrow> cn) else cn, ic)
          else Inl (ambiguous sn port))"
proof (induction ps arbitrary: found)
  case (Cons p ps)
  obtain cn ic where p: "p = (cn, ic)" by fastforce
  show ?case
  proof (cases "intercept_matches sn port ic")
    case False
    with Cons p show ?thesis by simp
  next
    case True
    with Cons [of "Some x" for x] p show ?thesis
      by (cases found) (auto simp: Let_def split: list.splits)
  qed
qed (auto split: option.splits)

lemma container_target_filter:
  "container_target port proto ics =
     (if filter (targets port proto) ics = [] then None else Some (filter (targets port proto) ics))"
  by (induction ics) auto

lemma containers_target_spec:
  "containers_target port proto cs =
     map_option (\<lambda>c. (c, filter (targets port proto) (cn_Intercepts c)))
       (find (\<lambda>c. list_ex (targets port proto) (cn_Intercepts c)) cs)"
  by (induction cs) (auto simp: container_target_filter filter_empty_conv list_ex_iff)

section \<open>Unique ports\<close>

lemma unique_intercepts_keys:
  "set (map agent_key (unique_intercepts um ics)) = set (map agent_key ics) - set um"
  by (induction um ics rule: unique_intercepts.induct) auto

lemma unique_intercepts_distinct: "distinct (map agent_key (unique_intercepts um ics))"
proof (induction um ics rule: unique_intercepts.induct)
  case (2 um ic ics)
  then show ?case using unique_intercepts_keys [of "agent_key ic # um" ics] by auto
qed simp

text \<open>The intercept kept for a port is the first one in the list with that port.\<close>

lemma unique_intercepts_first:
  "ic \<in> set (unique_intercepts um ics) \<Longrightarrow>
     find (\<lambda>x. agent_key x = agent_key ic) ics = Some ic"
proof (induction um ics rule: unique_intercepts.induct)
  case (2 um i ics)
  show ?case
  proof (cases "agent_key i = agent_key ic")
    case True
    have "ic \<notin> set (unique_intercepts (agent_key i # um) ics)" if "agent_key ic \<notin> set um"
      using unique_intercepts_keys [of "agent_key i # um" ics] True by force
    moreover have "ic \<notin> set (unique_intercepts um ics)" if "agent_key ic \<in> set um"
      using unique_intercepts_keys [of um ics] that by force
    ultimately show ?thesis using 2(3) True by (auto split: if_splits)
  next
    case False
    with 2 show ?thesis by (auto split: if_splits)
  qed
qed simp

section \<open>Properties\<close>

text \<open>
  \<open>FindIntercept\<close> succeeds exactly if one intercept of the configuration matches the service and
  the port, and then returns it, with the container named in the request if the configuration has it
  and the intercept's own container otherwise. With no match or several it returns the error that
  tells the user what is missing.
\<close>

lemma FindIntercept_unique:
  "FindIntercept s sn cname port =
     (case filter (\<lambda>(cn, ic). intercept_matches sn port ic) (all_intercepts (sc_Containers s)) of
        [] \<Rightarrow> Inl (NoInterceptablePort sn port)
      | [(cn, ic)] \<Rightarrow>
          Inr (if cname \<noteq> [] then (case find (\<lambda>cx. cn_Name cx = cname) (sc_Containers s) of Some cx \<Rightarrow> cx | None \<Rightarrow> cn)
               else cn, ic)
      | _ \<Rightarrow> Inl (ambiguous sn port))"
  by (simp add: FindIntercept_def find_intercept_spec split: list.splits prod.splits)

text \<open>
  \<open>PortUniqueIntercepts\<close> has exactly one intercept for every agent port and protocol of the
  container: no two of them share both, each pair in use is there, and it is the first intercept
  declared for it.
\<close>

lemma PortUniqueIntercepts_first:
  "distinct (map agent_key (PortUniqueIntercepts cn))
   \<and> agent_key ` set (PortUniqueIntercepts cn) = agent_key ` set (cn_Intercepts cn)
   \<and> set (PortUniqueIntercepts cn) \<subseteq> {ic. find (\<lambda>x. agent_key x = agent_key ic) (cn_Intercepts cn) = Some ic}"
  using unique_intercepts_distinct [of "[]" "cn_Intercepts cn"] unique_intercepts_keys [of "[]" "cn_Intercepts cn"]
    unique_intercepts_first [of _ "[]" "cn_Intercepts cn"]
  by (auto simp: PortUniqueIntercepts_def)

end
