(* ===== verification/Agent_Container.thy ===== *)
theory Agent_Container
  imports Agent_Config "HOL-Library.Monad_Syntax"
begin

text \<open>
  The containers that are injected into a pod, \<^verbatim>\<open>pkg/agentconfig/container.go\<close>, \<^verbatim>\<open>volumes.go\<close> and
  \<^verbatim>\<open>initcontainer.go\<close>.

  The JSON encoding of Kubernetes objects is a record of functions. Texts are lists of bytes: the
  characters the scanners look for are ASCII, so a text in UTF-8 is treated rune by rune.
\<close>

section \<open>Environment variables in texts\<close>

datatype interp_state = stNormal | stDollarSeen | stDollarParenSeen

record interp =
  in_st :: interp_state
  in_bd :: string
  in_ev :: string

definition interp_step :: "string \<Rightarrow> char \<Rightarrow> interp \<Rightarrow> interp" where
  "interp_step pfx c s =
     (if c = CHR ''$'' then
        (case in_st s of
           stDollarParenSeen \<Rightarrow> \<lparr>in_st = stDollarSeen, in_bd = in_bd s @ in_ev s @ ''$'', in_ev = []\<rparr>
         | stDollarSeen \<Rightarrow> s\<lparr>in_st := stNormal, in_bd := in_bd s @ ''$''\<rparr>
         | stNormal \<Rightarrow> s\<lparr>in_st := stDollarSeen, in_bd := in_bd s @ ''$''\<rparr>)
      else if c = CHR ''('' then
        (case in_st s of
           stDollarParenSeen \<Rightarrow> \<lparr>in_st = stNormal, in_bd = in_bd s @ in_ev s @ ''('', in_ev = []\<rparr>
         | stDollarSeen \<Rightarrow> s\<lparr>in_st := stDollarParenSeen, in_bd := in_bd s @ ''(''\<rparr>
         | stNormal \<Rightarrow> s\<lparr>in_st := stNormal, in_bd := in_bd s @ ''(''\<rparr>)
      else if c = CHR '')'' then
        (if in_st s = stDollarParenSeen \<and> 0 < length (in_ev s)
         then \<lparr>in_st = stNormal, in_bd = in_bd s @ pfx @ in_ev s @ '')'', in_ev = []\<rparr>
         else s\<lparr>in_st := stNormal, in_bd := in_bd s @ '')''\<rparr>)
      else
        (case in_st s of
           stDollarParenSeen \<Rightarrow> s\<lparr>in_ev := in_ev s @ [c]\<rparr>
         | _ \<Rightarrow> s\<lparr>in_st := stNormal, in_bd := in_bd s @ [c]\<rparr>))"

definition prefixInterpolated :: "string \<Rightarrow> string \<Rightarrow> string" where
  "prefixInterpolated str pfx =
     (let s = fold (interp_step pfx) str \<lparr>in_st = stNormal, in_bd = [], in_ev = []\<rparr>
      in if 0 < length (in_ev s) then in_bd s @ in_ev s else in_bd s)"

text \<open>
  \<open>envRxReplace\<close>: the leftmost matches of a dollar, a parenthesis, one or more bytes that are not a
  closing parenthesis, and a closing parenthesis.
\<close>

fun env_replace :: "nat \<Rightarrow> string \<Rightarrow> string \<Rightarrow> string" where
  "env_replace 0 pfx s = s"
| "env_replace (Suc fuel) pfx s =
     (case s of
        [] \<Rightarrow> []
      | c # cs \<Rightarrow>
          if has_prefix s ''$('' then
            (case index_byte (CHR '')'') (drop 2 s) of
               Some (Suc n) \<Rightarrow> ''$('' @ pfx @ take (Suc n) (drop 2 s) @ '')'' @ env_replace fuel pfx (drop (n + 4) s)
             | _ \<Rightarrow> c # env_replace fuel pfx cs)
          else c # env_replace fuel pfx cs)"

definition appendAppContainerEnv :: "k8s_container \<Rightarrow> container \<Rightarrow> env_var list \<Rightarrow> env_var list" where
  "appendAppContainerEnv app cc es =
     (let pfx = EnvPrefixApp @ cn_EnvPrefix cc in
      es @ map (\<lambda>e. e\<lparr>ev_Name := pfx @ ev_Name e, ev_Value := env_replace (length (ev_Value e)) pfx (ev_Value e)\<rparr>) (kc_Env app))"

definition appendAppContainerEnvFrom :: "k8s_container \<Rightarrow> container \<Rightarrow> env_from list \<Rightarrow> env_from list" where
  "appendAppContainerEnvFrom app cc es =
     es @ map (\<lambda>e. e\<lparr>ef_Prefix := EnvPrefixApp @ cn_EnvPrefix cc @ ef_Prefix e\<rparr>) (kc_EnvFrom app)"

section \<open>Configured containers\<close>

record k8s_codec =
  kj_container :: "string \<Rightarrow> k8s_container"
  kj_container_text :: "k8s_container \<Rightarrow> string"
  kj_security_text :: "security_context \<Rightarrow> string + string"
  kj_security :: "string \<Rightarrow> string + security_context"
  kj_sidecar_text :: "sidecar \<Rightarrow> string + string"

record builder =
  bd_MountPolicies :: mount_policies
  bd_Pod :: pod_template
  bd_Config :: sidecar

definition ReplacedContainerPrefix :: string where "ReplacedContainerPrefix = DomainPrefix @ ''replaced-container.''"

fun configured_container :: "k8s_codec \<Rightarrow> annotations \<Rightarrow> container \<Rightarrow> k8s_container list \<Rightarrow> k8s_container option" where
  "configured_container kj anns cc [] = None"
| "configured_container kj anns cc (app # cns) =
     (if kc_Name app = ContainerName then
        (case map_of anns (ReplacedContainerPrefix @ cn_Name cc) of
           Some appJson \<Rightarrow> Some (kj_container kj appJson)
         | None \<Rightarrow> configured_container kj anns cc cns)
      else if kc_Name app = cn_Name cc then Some app
      else configured_container kj anns cc cns)"

definition configuredContainers :: "k8s_codec \<Rightarrow> builder \<Rightarrow> k8s_container option list" where
  "configuredContainers kj a =
     map (\<lambda>cc. configured_container kj (pt_Annotations (bd_Pod a)) cc (pt_Containers (bd_Pod a))) (sc_Containers (bd_Config a))"

text \<open>The calls of \<open>eachConfiguredContainer\<close>, in order.\<close>

definition eachConfiguredContainer :: "builder \<Rightarrow> k8s_container option list \<Rightarrow> (k8s_container \<times> container) list" where
  "eachConfiguredContainer a cns =
     concat (map (\<lambda>(cn, cc). case cn of None \<Rightarrow> [] | Some cn \<Rightarrow> [(cn, cc)]) (zip cns (sc_Containers (bd_Config a))))"

section \<open>Ports of the agent container\<close>

type_synonym port_names = "(string \<times> nat) list"

definition unique_port_name :: "string \<Rightarrow> port_names \<Rightarrow> string \<times> port_names" where
  "unique_port_name name names =
     (if name = [] then (name, names)
      else (case map_of names name of
              Some n \<Rightarrow>
                let n = n + 1; suffix = ''-'' @ itoa n;
                    short = (if 15 < length name + length suffix then take (15 - length suffix) name else name)
                in (short @ suffix, AList.update name n names)
            | None \<Rightarrow> (name, AList.update name 1 names)))"

fun intercept_ports :: "intercept list \<Rightarrow> port_names \<Rightarrow> container_port list \<times> port_names" where
  "intercept_ports [] names = ([], names)"
| "intercept_ports (ic # ics) names =
     (let (name, names) = unique_port_name (ic_ContainerPortName ic) names;
          (ports, names) = intercept_ports ics names
      in (\<lparr>cp_Name = name, cp_ContainerPort = ucast (ic_AgentPort ic), cp_Protocol = Proto_String (ic_Protocol ic)\<rparr> # ports, names))"

fun agent_container_ports :: "(k8s_container \<times> container) list \<Rightarrow> port_names \<Rightarrow> container_port list" where
  "agent_container_ports [] names = []"
| "agent_container_ports ((app, cc) # ccs) names =
     (case cn_Replace cc of
        ReplacePolicyContainer \<Rightarrow> kc_Ports app @ agent_container_ports ccs names
      | ReplacePolicyIntercept \<Rightarrow>
          (let (ports, names) = intercept_ports (PortUniqueIntercepts cc) names in ports @ agent_container_ports ccs names)
      | ReplacePolicyInactive \<Rightarrow> agent_container_ports ccs names)"

section \<open>Security context\<close>

text \<open>The loop that counts up to a group nobody uses.\<close>

partial_function (option) next_gid :: "i64 list \<Rightarrow> i64 \<Rightarrow> i64 option" where
  "next_gid used gid = (if gid \<notin> set used then Some gid else next_gid used (gid + 1))"

definition DefaultAgentGID :: i64 where "DefaultAgentGID = 7439"

definition run_as_group :: "security_context option \<Rightarrow> i64 list" where
  "run_as_group sc = (case sc of Some s \<Rightarrow> (case sc_RunAsGroup s of Some g \<Rightarrow> [g] | None \<Rightarrow> []) | None \<Rightarrow> [])"

definition used_gids :: "pod_template \<Rightarrow> i64 list" where
  "used_gids pod =
     run_as_group (pt_SecurityContext pod) @
     concat (map (\<lambda>cn. if kc_Name cn \<noteq> ContainerName \<and> kc_Name cn \<noteq> InitContainerName
                        then run_as_group (kc_SecurityContext cn) else []) (pt_Containers pod @ pt_InitContainers pod))"

definition distinctAgentGID :: "pod_template \<Rightarrow> i64 option" where
  "distinctAgentGID pod = next_gid (used_gids pod) DefaultAgentGID"

fun first_security_context ::
  "k8s_codec \<Rightarrow> k8s_container list \<Rightarrow> container list \<Rightarrow> string + security_context option" where
  "first_security_context kj cns [] = Inr None"
| "first_security_context kj cns (cc # ccs) =
     (if 0 < length (cn_Intercepts cc) then
        (case find (\<lambda>app. kc_Name app = cn_Name cc) cns of
           None \<Rightarrow> first_security_context kj cns ccs
         | Some app \<Rightarrow>
             (case kc_SecurityContext app of
                None \<Rightarrow> first_security_context kj cns ccs
              | Some s \<Rightarrow>
                  (case kj_security_text kj s of
                     Inl e \<Rightarrow> Inl e
                   | Inr js \<Rightarrow>
                       (case kj_security kj (prefixInterpolated js (EnvPrefixApp @ cn_EnvPrefix cc)) of
                          Inl e \<Rightarrow> Inl e
                        | Inr sc \<Rightarrow> Inr (Some sc)))))
      else first_security_context kj cns ccs)"

definition firstAppSecurityContext :: "k8s_codec \<Rightarrow> builder \<Rightarrow> string + security_context option" where
  "firstAppSecurityContext kj a = first_security_context kj (pt_Containers (bd_Pod a)) (sc_Containers (bd_Config a))"

text \<open>The outer option is the loop that looks for a group.\<close>

definition AgentSecurityContext :: "k8s_codec \<Rightarrow> builder \<Rightarrow> (string + security_context) option" where
  "AgentSecurityContext kj a =
     (let with_gid = (\<lambda>sc. map_option (\<lambda>gid. Inr (sc\<lparr>sc_RunAsGroup := Some gid\<rparr>)) (distinctAgentGID (bd_Pod a))) in
      case sc_SecurityContext (bd_Config a) of
        Some cfgSc \<Rightarrow> if sc_RunAsGroup cfgSc \<noteq> None then Some (Inr cfgSc) else with_gid cfgSc
      | None \<Rightarrow>
          (case firstAppSecurityContext kj a of
             Inl e \<Rightarrow> Some (Inl e)
           | Inr None \<Rightarrow> with_gid \<lparr>sc_RunAsUser = None, sc_RunAsGroup = None, sc_other = []\<rparr>
           | Inr (Some sc) \<Rightarrow> with_gid sc))"

section \<open>Volumes\<close>

datatype secret_error = MissingPortSuffix string | EmptyPortSuffix string | InvalidPort string string

fun prefixed_ports :: "string \<Rightarrow> annotations \<Rightarrow> (string \<times> u16 list) list \<Rightarrow> secret_error + (string \<times> u16 list) list" where
  "prefixed_ports prefix [] m = Inr m"
| "prefixed_ports prefix ((k, v) # anns) m =
     (if \<not> has_prefix k prefix then prefixed_ports prefix anns m
      else let ps = drop (length prefix) k in
           if length ps = 0 then Inl (EmptyPortSuffix k)
           else (case parse_uint 16 ps of
                   None \<Rightarrow> Inl (InvalidPort ps k)
                 | Some pn \<Rightarrow> prefixed_ports prefix anns (AList.update v (go_lookup [] m v @ [of_nat pn]) m)))"

definition annotationPrefixedPorts :: "annotations \<Rightarrow> string \<Rightarrow> secret_error + (string \<times> u16 list) list" where
  "annotationPrefixedPorts anns prefix =
     (case map_of anns prefix of
        Some _ \<Rightarrow> Inl (MissingPortSuffix prefix)
      | None \<Rightarrow> prefixed_ports (prefix @ ''.'') anns [])"

definition DownstreamTLSVolumePath :: string where "DownstreamTLSVolumePath = ''/downstream-tls''"

definition new_mount :: "string \<Rightarrow> string \<Rightarrow> volume_mount" where
  "new_mount name path = \<lparr>vm_Name = name, vm_ReadOnly = False, vm_RecursiveReadOnly = None, vm_MountPath = path,
     vm_SubPath = [], vm_SubPathExpr = []\<rparr>"

definition mountSecrets ::
  "annotations \<Rightarrow> string \<Rightarrow> string \<Rightarrow> annotations \<times> volume_mount list \<Rightarrow> secret_error + annotations \<times> volume_mount list" where
  "mountSecrets pod_anns ann certPath st =
     (case annotationPrefixedPorts pod_anns ann of
        Inl e \<Rightarrow> Inl e
      | Inr secretsAndPorts \<Rightarrow>
          Inr (fold (\<lambda>secret (anns, mounts).
                 let volPath = DownstreamTLSVolumePath @ ''/'' @ secret in
                 (fold (\<lambda>p. AList.update (certPath @ ''.'' @ itoa (unat p)) volPath) (go_lookup [] secretsAndPorts secret) anns,
                  mounts @ [new_mount (secret @ ''-vol'') volPath])) (SortedKeys secretsAndPorts) st))"

definition appendVolumeMounts :: "builder \<Rightarrow> k8s_container \<Rightarrow> container \<Rightarrow> volume_mount list \<Rightarrow> volume_mount list" where
  "appendVolumeMounts a app cc mounts =
     (let pfx = EnvPrefixApp @ cn_EnvPrefix cc in
      mounts @ concat (map (\<lambda>m.
        let mp = MountPolicies_Get (go_entries (sc_MountPolicies (bd_Config a))) (vm_Name m) (vm_MountPath m) in
        if mp = MountPolicyIgnore \<or> mp = MountPolicyLocal then []
        else
          let m = (if mp = MountPolicyRemoteReadOnly \<and> \<not> vm_ReadOnly m
                   then m\<lparr>vm_ReadOnly := True, vm_RecursiveReadOnly := Some ''IfPossible''\<rparr> else m)
          in [m\<lparr>vm_Name := prefixInterpolated (vm_Name m) pfx,
                 vm_MountPath := prefixInterpolated (cn_MountPoint cc @ ''/'' @ trim_prefix (vm_MountPath m) ''/'') pfx,
                 vm_SubPath := prefixInterpolated (vm_SubPath m) pfx,
                 vm_SubPathExpr := prefixInterpolated (vm_SubPathExpr m) pfx\<rparr>]) (kc_VolumeMounts app)))"

datatype volume_source = DownwardAnnotations | EmptyDir | SecretVolume string
type_synonym volume = "string \<times> volume_source"

definition appendSecretVolume ::
  "(string \<Rightarrow> string) \<Rightarrow> string \<Rightarrow> annotations \<Rightarrow> volume list \<Rightarrow> secret_error + volume list" where
  "appendSecretVolume expand ann pod_anns volumes =
     (case annotationPrefixedPorts pod_anns ann of
        Inl e \<Rightarrow> Inl e
      | Inr secretsAndPorts \<Rightarrow>
          Inr (volumes @ map (\<lambda>secret. (secret @ ''-vol'', SecretVolume (expand secret))) (SortedKeys secretsAndPorts)))"

definition DownstreamTLSSecret :: string where "DownstreamTLSSecret = DomainPrefix @ ''downstream-tls-secret''"
definition DownstreamCertificatePath :: string where "DownstreamCertificatePath = DomainPrefix @ ''downstream-tls-path''"
definition UpstreamTLSSecret :: string where "UpstreamTLSSecret = DomainPrefix @ ''upstream-tls-secret''"
definition UpstreamCertificatePath :: string where "UpstreamCertificatePath = DomainPrefix @ ''upstream-tls-path''"

text \<open>Without a pod there are no annotations to read.\<close>

definition AgentVolumes :: "(string \<Rightarrow> string) \<Rightarrow> annotations option \<Rightarrow> secret_error + volume list" where
  "AgentVolumes expand pod_anns =
     (let volumes = [(''pod-info'', DownwardAnnotations), (''export-volume'', EmptyDir), (''tel-agent-tmp'', EmptyDir)] in
      case pod_anns of
        None \<Rightarrow> Inr volumes
      | Some anns \<Rightarrow>
          (case appendSecretVolume expand DownstreamTLSSecret anns volumes of
             Inl e \<Rightarrow> Inl e
           | Inr volumes \<Rightarrow> appendSecretVolume expand UpstreamTLSSecret anns volumes))"

section \<open>The agent container\<close>

record agent_container =
  ac_Image :: string
  ac_Ports :: "container_port list"
  ac_Env :: "env_var list"
  ac_EnvFrom :: "env_from list"
  ac_VolumeMounts :: "volume_mount list"
  ac_PullPolicy :: string
  ac_Resources :: "k8s_json option"
  ac_SecurityContext :: security_context

datatype container_error = SecretError secret_error | SecurityError string

definition field_env :: "string \<Rightarrow> string \<Rightarrow> env_var" where
  "field_env name path = \<lparr>ev_Name = name, ev_Value = [], ev_ValueFrom = Some path\<rparr>"

definition agent_env :: "builder \<Rightarrow> (k8s_container \<times> container) list \<Rightarrow> env_var list" where
  "agent_env a confs =
     fold (\<lambda>(app, cc). appendAppContainerEnv app cc) confs []
     @ (if 0 < sc_APIPort (bd_Config a)
        then [\<lparr>ev_Name = ''TELEPRESENCE_API_PORT'', ev_Value = itoa (unat (sc_APIPort (bd_Config a))), ev_ValueFrom = None\<rparr>] else [])
     @ [field_env (EnvPrefixAgent @ ''POD_IP'') ''status.podIP'', field_env (EnvPrefixAgent @ ''POD_UID'') ''metadata.uid'',
        field_env (EnvPrefixAgent @ ''NAME'') ''metadata.name'']"

definition agent_mounts :: "builder \<Rightarrow> (k8s_container \<times> container) list \<Rightarrow> volume_mount list" where
  "agent_mounts a confs =
     fold (\<lambda>(app, cc). appendVolumeMounts a app cc) confs []
     @ [new_mount ''pod-info'' ''/etc/podinfo'', new_mount ''export-volume'' ''/tel_app_exports'', new_mount ''tel-agent-tmp'' ''/tmp'']"

definition replaced_annotations :: "k8s_codec \<Rightarrow> (k8s_container \<times> container) list \<Rightarrow> annotations \<Rightarrow> annotations" where
  "replaced_annotations kj confs anns =
     fold (\<lambda>(app, cc) anns.
             if cn_Replace cc = ReplacePolicyContainer
             then AList.update (ReplacedContainerPrefix @ cn_Name cc) (kj_container_text kj app) anns else anns) confs anns"

definition AgentContainer ::
  "k8s_codec \<Rightarrow> builder \<Rightarrow> (container_error + agent_container \<times> annotations) option" where
  "AgentContainer kj a =
     (let confs = eachConfiguredContainer a (configuredContainers kj a);
          pod_anns = pt_Annotations (bd_Pod a)
      in case mountSecrets pod_anns DownstreamTLSSecret DownstreamCertificatePath ([], agent_mounts a confs) of
           Inl e \<Rightarrow> Some (Inl (SecretError e))
         | Inr st \<Rightarrow>
             (case mountSecrets pod_anns UpstreamTLSSecret UpstreamCertificatePath st of
                Inl e \<Rightarrow> Some (Inl (SecretError e))
              | Inr (anns, mounts) \<Rightarrow>
                  (let anns = replaced_annotations kj confs anns;
                       cfg = (case fst (MarshalTight (kj_sidecar_text kj) (bd_Config a)) of Inr t \<Rightarrow> t | Inl _ \<Rightarrow> []);
                       anns = AList.update (DomainPrefix @ ''agent-config'') cfg anns
                   in map_option
                        (\<lambda>r. case r of
                           Inl e \<Rightarrow> Inl (SecurityError e)
                         | Inr sc \<Rightarrow>
                             Inr (\<lparr>ac_Image = sc_AgentImage (bd_Config a), ac_Ports = agent_container_ports confs [],
                                   ac_Env = agent_env a confs,
                                   ac_EnvFrom = fold (\<lambda>(app, cc). appendAppContainerEnvFrom app cc) confs [],
                                   ac_VolumeMounts = mounts, ac_PullPolicy = sc_PullPolicy (bd_Config a),
                                   ac_Resources = sc_Resources (bd_Config a), ac_SecurityContext = sc\<rparr>, anns))
                        (AgentSecurityContext kj a))))"

section \<open>The init container\<close>

record init_container =
  ni_Image :: string
  ni_Env :: "env_var list"
  ni_Resources :: "k8s_json option"
  ni_SecurityContext :: "security_context option"

text \<open>\<open>None\<close> stands for the context made up here, which adds the capability to change network rules.\<close>

definition InitContainer :: "(i64 \<Rightarrow> string) \<Rightarrow> sidecar \<Rightarrow> security_context option \<Rightarrow> init_container" where
  "InitContainer level_text config asc =
     \<lparr>ni_Image = sc_AgentImage config,
      ni_Env = [\<lparr>ev_Name = ''LOG_LEVEL'', ev_Value = level_text (sc_LogLevel config), ev_ValueFrom = None\<rparr>,
                field_env ''AGENT_CONFIG'' (''metadata.annotations['' @ [CHR 0x27] @ DomainPrefix @ ''agent-config'' @ [CHR 0x27] @ '']''),
                field_env ''POD_IP'' ''status.podIP'']
        @ (case asc of
             None \<Rightarrow> []
           | Some s \<Rightarrow>
               (case sc_RunAsUser s of Some uid \<Rightarrow> [\<lparr>ev_Name = ''AGENT_UID'', ev_Value = signed_itoa (sint uid), ev_ValueFrom = None\<rparr>] | None \<Rightarrow> [])
               @ (case sc_RunAsGroup s of Some gid \<Rightarrow> [\<lparr>ev_Name = ''AGENT_GID'', ev_Value = signed_itoa (sint gid), ev_ValueFrom = None\<rparr>] | None \<Rightarrow> [])),
      ni_Resources = sc_InitResources config, ni_SecurityContext = sc_InitSecurityContext config\<rparr>"

section \<open>What the scanner does\<close>

definition plain :: "char \<Rightarrow> bool" where
  "plain c \<longleftrightarrow> c \<noteq> CHR ''$'' \<and> c \<noteq> CHR ''('' \<and> c \<noteq> CHR '')''"

lemma length_dropWhile_less: "length (dropWhile P ds) < Suc (Suc (length ds))"
  using length_dropWhile_le [of P ds] by linarith

text \<open>
  The same as a recursive definition: an escaped dollar is copied, the name of a complete expression
  gets the prefix, and everything else is copied.
\<close>

function interpolated :: "string \<Rightarrow> string \<Rightarrow> string" where
  "interpolated pfx s =
     (case s of
        [] \<Rightarrow> []
      | [c] \<Rightarrow> [c]
      | c # d # ds \<Rightarrow>
          if c \<noteq> CHR ''$'' then c # interpolated pfx (d # ds)
          else if d = CHR ''('' then
            (let name = takeWhile plain ds; rest = dropWhile plain ds in
             if name \<noteq> [] \<and> rest \<noteq> [] \<and> hd rest = CHR '')''
             then ''$('' @ pfx @ name @ '')'' @ interpolated pfx (tl rest)
             else ''$('' @ name @ interpolated pfx rest)
          else c # d # interpolated pfx ds)"
  by pat_completeness auto

termination
  by (relation "measure (\<lambda>(pfx, s). length s)")
    (auto simp: length_dropWhile_less less_imp_diff_less [OF length_dropWhile_less])

declare interpolated.simps [simp del]

definition normal :: "string \<Rightarrow> interp" where
  "normal b = \<lparr>in_st = stNormal, in_bd = b, in_ev = []\<rparr>"

definition in_expr :: "string \<Rightarrow> string \<Rightarrow> interp" where
  "in_expr b e = \<lparr>in_st = stDollarParenSeen, in_bd = b, in_ev = e\<rparr>"

definition out :: "interp \<Rightarrow> string" where
  "out s = in_bd s @ in_ev s"

lemma prefixInterpolated_out: "prefixInterpolated str pfx = out (fold (interp_step pfx) str (normal []))"
  by (simp add: prefixInterpolated_def out_def normal_def Let_def)

lemma step_normal: "c \<noteq> CHR ''$'' \<Longrightarrow> interp_step pfx c (normal b) = normal (b @ [c])"
  by (simp add: interp_step_def normal_def)

lemma step_two:
  "d \<noteq> CHR ''('' \<Longrightarrow> interp_step pfx d (interp_step pfx (CHR ''$'') (normal b)) = normal (b @ [CHR ''$'', d])"
  "interp_step pfx (CHR ''('') (interp_step pfx (CHR ''$'') (normal b)) = in_expr (b @ ''$('') []"
  by (simp_all add: interp_step_def normal_def in_expr_def)

lemma fold_name: "list_all plain name \<Longrightarrow> fold (interp_step pfx) name (in_expr b e) = in_expr b (e @ name)"
  by (induction name arbitrary: e) (auto simp: interp_step_def in_expr_def plain_def)

lemma step_complete: "e \<noteq> [] \<Longrightarrow> interp_step pfx (CHR '')'') (in_expr b e) = normal (b @ pfx @ e @ '')'')"
  by (simp add: interp_step_def in_expr_def normal_def)

text \<open>A character that ends an expression without completing it leaves it as it is.\<close>

lemma step_broken:
  "\<not> plain c \<Longrightarrow> \<not> (c = CHR '')'' \<and> e \<noteq> []) \<Longrightarrow> interp_step pfx c (in_expr b e) = interp_step pfx c (normal (b @ e))"
  by (auto simp: interp_step_def in_expr_def normal_def plain_def)

lemma fold_interpolated: "out (fold (interp_step pfx) s (normal b)) = b @ interpolated pfx s"
proof (induction pfx s arbitrary: b rule: interpolated.induct)
  case (1 pfx s)
  consider "s = []" | c where "s = [c]" | c d ds where "s = c # d # ds" "c \<noteq> CHR ''$''"
    | d ds where "s = CHR ''$'' # d # ds" "d \<noteq> CHR ''(''" | ds where "s = CHR ''$'' # CHR ''('' # ds"
    by (metis neq_Nil_conv)
  then show ?case
  proof cases
    case 1
    then show ?thesis by (simp add: interpolated.simps out_def normal_def)
  next
    case (2 c)
    then show ?thesis by (simp add: interpolated.simps out_def normal_def interp_step_def)
  next
    case (3 c d ds)
    with "1.IH"(1) [OF 3(1) refl 3(2), of "b @ [c]"] show ?thesis
      by (subst interpolated.simps) (simp add: step_normal)
  next
    case (4 d ds)
    with "1.IH"(4) [OF 4(1) refl _ 4(2), of "b @ [CHR ''$'', d]"] show ?thesis
      by (subst interpolated.simps) (simp add: step_two)
  next
    case (5 ds)
    define name rest where nr: "name = takeWhile plain ds" "rest = dropWhile plain ds"
    have ds: "ds = name @ rest" by (simp add: nr)
    have "list_all plain name" by (auto simp: nr list_all_iff dest: set_takeWhileD)
    with ds have run: "fold (interp_step pfx) s (normal b) = fold (interp_step pfx) rest (in_expr (b @ ''$('') name)"
      by (simp add: 5 step_two fold_name del: fold.simps(2)) (simp add: step_two fold_name)
    have exp: "interpolated pfx s = (if name \<noteq> [] \<and> rest \<noteq> [] \<and> hd rest = CHR '')''
        then ''$('' @ pfx @ name @ '')'' @ interpolated pfx (tl rest) else ''$('' @ name @ interpolated pfx rest)"
      unfolding 5 nr by (subst interpolated.simps) (simp add: Let_def del: dropWhile_eq_Nil_conv)
    show ?thesis
    proof (cases "name \<noteq> [] \<and> rest \<noteq> [] \<and> hd rest = CHR '')''")
      case True
      then obtain r where r: "rest = CHR '')'' # r" by (cases rest) auto
      from "1.IH"(2) [OF 5 refl _ _ nr, of "b @ ''$('' @ pfx @ name @ '')''"] True r show ?thesis
        unfolding run exp by (simp add: step_complete)
    next
      case False
      have eq: "out (fold (interp_step pfx) rest (in_expr (b @ ''$('') name)) = out (fold (interp_step pfx) rest (normal (b @ ''$('' @ name)))"
      proof (cases rest)
        case Nil
        then show ?thesis by (simp add: out_def in_expr_def normal_def)
      next
        case (Cons c r)
        then have "\<not> plain c" using hd_dropWhile [of plain ds] nr(2) by auto
        with False Cons step_broken [of c name pfx "b @ ''$(''"] show ?thesis by auto
      qed
      from "1.IH"(3) [OF 5 refl _ _ nr, of "b @ ''$('' @ name"] False show ?thesis
        unfolding run eq exp by auto
    qed
  qed
qed

section \<open>A group of its own\<close>

lemma next_gid_steps:
  "gid + of_nat k \<notin> set used \<Longrightarrow> (\<And>j. j < k \<Longrightarrow> gid + of_nat j \<in> set used) \<Longrightarrow> next_gid used gid = Some (gid + of_nat k)"
proof (induction k arbitrary: gid)
  case 0
  then show ?case by (simp add: next_gid.simps)
next
  case (Suc k)
  from Suc.prems(2) [of 0] have "gid \<in> set used" by simp
  moreover have "next_gid used (gid + 1) = Some ((gid + 1) + of_nat k)"
    using Suc.prems(1) Suc.prems(2) [of "Suc j" for j] by (intro Suc.IH) (simp_all add: algebra_simps)
  ultimately show ?case by (subst next_gid.simps) (simp add: algebra_simps)
qed

lemma unused_gid_exists:
  fixes gid :: i64
  assumes "length used < 2 ^ 64"
  shows "\<exists>k \<le> length used. gid + of_nat k \<notin> set used"
proof (rule ccontr)
  assume "\<not> (\<exists>k \<le> length used. gid + of_nat k \<notin> set used)"
  then have sub: "(\<lambda>k. gid + of_nat k) ` {..length used} \<subseteq> set used" by auto
  have "inj_on (\<lambda>k. gid + of_nat k) {..length used}"
    using assms of_nat_small_inject [where 'a = 64] by (intro inj_onI) auto
  then have "card {..length used} \<le> card (set used)" using sub by (metis List.finite_set card_image card_mono)
  then show False using card_length [of used] by simp
qed

lemma next_gid_total:
  assumes "length used < 2 ^ 64"
  shows "\<exists>k \<le> length used. next_gid used gid = Some (gid + of_nat k) \<and> gid + of_nat k \<notin> set used \<and> (\<forall>j < k. gid + of_nat j \<in> set used)"
proof -
  define k where "k = (LEAST k. gid + of_nat k \<notin> set used)"
  from unused_gid_exists [OF assms, of gid] obtain m where m: "m \<le> length used" "gid + of_nat m \<notin> set used" by blast
  have k: "gid + of_nat k \<notin> set used" "k \<le> m" unfolding k_def using m(2) by (rule LeastI) (rule Least_le, rule m(2))
  moreover have "gid + of_nat j \<in> set used" if "j < k" for j using that not_less_Least unfolding k_def by blast
  ultimately show ?thesis using next_gid_steps [of gid k used] m(1) by (intro exI [of _ k]) simp
qed

section \<open>Port names\<close>

lemma itoa_length: "n < 10 ^ k \<Longrightarrow> 0 < k \<Longrightarrow> length (itoa n) \<le> k"
proof (induction n arbitrary: k rule: itoa.induct)
  case (1 n)
  show ?case
  proof (cases "n < 10")
    case True
    then show ?thesis using 1(3) by (subst itoa.simps) simp
  next
    case False
    have "1 < k" using False 1(2,3) by (cases "k = 1") auto
    then obtain j where j: "k = Suc j" "0 < j" by (cases k) auto
    have "n div 10 < 10 ^ j" using 1(2) j(1) by (simp add: less_mult_imp_div_less mult.commute)
    with 1(1) [OF False] j show ?thesis using False by (subst itoa.simps) simp
  qed
qed

lemma unique_port_name_length:
  assumes "length name \<le> 15" and "\<forall>n\<in>snd ` set names. n < 10 ^ 13"
  shows "length (fst (unique_port_name name names)) \<le> 15"
proof (cases "map_of names name")
  case (Some n)
  then have "n < 10 ^ 13" using assms(2) map_of_SomeD by fastforce
  then have "n + 1 < 10 ^ 14" by simp
  then have "length (itoa (n + 1)) \<le> 14" using itoa_length [of "n + 1" 14] by simp
  with assms Some show ?thesis by (auto simp: unique_port_name_def Let_def)
qed (use assms in \<open>simp add: unique_port_name_def\<close>)

section \<open>A sample pod\<close>

definition sample_codec :: k8s_codec where
  "sample_codec =
     \<lparr>kj_container = (\<lambda>_. \<lparr>kc_Name = [], kc_Ports = [], kc_Env = [], kc_EnvFrom = [], kc_VolumeMounts = [], kc_SecurityContext = None\<rparr>),
      kj_container_text = (\<lambda>_. []), kj_security_text = (\<lambda>_. Inr []), kj_security = (\<lambda>_. Inl []), kj_sidecar_text = (\<lambda>_. Inr [])\<rparr>"

definition sample_builder :: builder where
  "sample_builder =
     \<lparr>bd_MountPolicies = None,
      bd_Pod = \<lparr>pt_Name = ''echo'', pt_Namespace = ''default'', pt_Labels = [], pt_Annotations = [], pt_SecurityContext = None,
        pt_Containers = [\<lparr>kc_Name = ''app'', kc_Ports = [], kc_Env = [], kc_EnvFrom = [], kc_VolumeMounts = [],
          kc_SecurityContext = Some \<lparr>sc_RunAsUser = None, sc_RunAsGroup = Some 7439, sc_other = []\<rparr>\<rparr>],
        pt_InitContainers = []\<rparr>,
      bd_Config = \<lparr>sc_Create = False, sc_Manual = False, sc_AgentImage = [], sc_PullPolicy = [], sc_PullSecrets = [],
        sc_AgentName = ''echo'', sc_Namespace = ''default'', sc_LogLevel = 0, sc_WorkloadName = ''echo'', sc_WorkloadKind = ''Deployment'',
        sc_ManagerHost = [], sc_ManagerPort = 0, sc_APIPort = 0, sc_Resources = None, sc_InitResources = None, sc_MountPolicies = None,
        sc_MeshDialSubnets = [], sc_Containers = [], sc_SecurityContext = None, sc_InitSecurityContext = None,
        sc_ClientConnectionTTL = 0, sc_EnableMetrics = False, sc_EnableH2cProbing = False, sc_WatchRetryInterval = 0\<rparr>\<rparr>"

section \<open>Properties\<close>

text \<open>
  The scanner that prefixes environment variables is the recursive definition: an escaped
  dollar is copied, the name of a complete expression gets the prefix, and an expression that is
  unbalanced or has a dollar or a parenthesis in it is left alone.
\<close>

lemma prefixInterpolated_equiv: "prefixInterpolated str pfx = interpolated pfx str"
  using fold_interpolated [of pfx str "[]"] by (simp add: prefixInterpolated_out)

text \<open>
  C13. The agent runs with a group that tells its traffic apart: the search for it ends for every pod,
  and unless a group is configured the result is the default or the first group after it that
  neither the pod nor one of its other containers declares.
\<close>

theorem AgentSecurityContext_group:
  assumes "length (used_gids (bd_Pod a)) < 2 ^ 64" and "firstAppSecurityContext kj a = Inr first"
  shows "\<exists>sc gid. AgentSecurityContext kj a = Some (Inr sc) \<and> sc_RunAsGroup sc = Some gid
    \<and> (Option.bind (sc_SecurityContext (bd_Config a)) sc_RunAsGroup = None \<longrightarrow> gid \<notin> set (used_gids (bd_Pod a)))
    \<and> (DefaultAgentGID \<in> set (used_gids (bd_Pod a)) \<or> gid = DefaultAgentGID
       \<or> Option.bind (sc_SecurityContext (bd_Config a)) sc_RunAsGroup = Some gid)"
proof -
  from next_gid_total [OF assms(1), of DefaultAgentGID] obtain k where
    k: "next_gid (used_gids (bd_Pod a)) DefaultAgentGID = Some (DefaultAgentGID + of_nat k)"
      "DefaultAgentGID + of_nat k \<notin> set (used_gids (bd_Pod a))" "\<forall>j<k. DefaultAgentGID + of_nat j \<in> set (used_gids (bd_Pod a))"
    by blast
  define gid where "gid = DefaultAgentGID + of_nat k"
  have dflt: "DefaultAgentGID \<in> set (used_gids (bd_Pod a)) \<or> gid = DefaultAgentGID"
    using k(3) by (cases k) (auto simp: gid_def)
  have g: "distinctAgentGID (bd_Pod a) = Some gid" "gid \<notin> set (used_gids (bd_Pod a))"
    using k(1,2) by (simp_all add: distinctAgentGID_def gid_def)
  show ?thesis
  proof (cases "sc_SecurityContext (bd_Config a)")
    case None
    with assms(2) g dflt show ?thesis by (cases first) (auto simp: AgentSecurityContext_def Let_def)
  next
    case (Some s)
    with g dflt show ?thesis by (cases "sc_RunAsGroup s") (auto simp: AgentSecurityContext_def Let_def)
  qed
qed

theorem AgentSecurityContext_group_witness:
  "\<exists>sc gid. AgentSecurityContext sample_codec sample_builder = Some (Inr sc) \<and> sc_RunAsGroup sc = Some gid \<and> gid \<noteq> 7439"
proof -
  have u: "used_gids (bd_Pod sample_builder) = [7439]" by (simp add: sample_builder_def used_gids_def run_as_group_def ContainerName_def InitContainerName_def)
  have f: "firstAppSecurityContext sample_codec sample_builder = Inr None" by (simp add: sample_builder_def firstAppSecurityContext_def)
  have n: "Option.bind (sc_SecurityContext (bd_Config sample_builder)) sc_RunAsGroup = None" by (simp add: sample_builder_def)
  from AgentSecurityContext_group [OF _ f] show ?thesis by (auto simp: u n)
qed

section \<open>What goes wrong\<close>

text \<open>
  The values of environment variables are prefixed by another scanner, a regular expression that does
  not know the escape: it changes \<open>$$(A)\<close>, which the documentation of \<open>prefixInterpolated\<close> excludes.
\<close>

lemma escaped_variable_prefixed:
  "env_replace 5 ''P_'' ''$$(A)'' = ''$$(P_A)'' \<and> prefixInterpolated ''$$(A)'' ''P_'' = ''$$(A)''"
  by code_simp

text \<open>The numbered name of a port may be the name of another port.\<close>

lemma port_names_collide:
  "let port = (\<lambda>name. \<lparr>ic_ContainerPortName = name, ic_ServiceName = [], ic_ServiceUID = [], ic_ServicePortName = [],
         ic_TargetPortNumeric = True, ic_Protocol = ProtoTCP, ic_AppProtocol = [], ic_Headless = False,
         ic_ContainerPort = 80, ic_ServicePort = 80, ic_AgentPort = 9900\<rparr>)
   in map cp_Name (fst (intercept_ports [port ''web'', port ''web'', port ''web-2''] [])) = [''web'', ''web-2'', ''web-2'']"
  by code_simp

text \<open>A secret for both directions gives two volumes of one name, and two mounts of one path.\<close>

lemma secret_for_both_directions:
  "let anns = [(DownstreamTLSSecret @ ''.443'', ''tls''), (UpstreamTLSSecret @ ''.443'', ''tls'')] in
     (case AgentVolumes (\<lambda>s. s) (Some anns) of Inr vs \<Rightarrow> \<not> distinct (map fst vs) | Inl _ \<Rightarrow> False)
     \<and> (case mountSecrets anns DownstreamTLSSecret DownstreamCertificatePath ([], []) of
          Inr st \<Rightarrow> (case mountSecrets anns UpstreamTLSSecret UpstreamCertificatePath st of
                       Inr (_, ms) \<Rightarrow> \<not> distinct (map vm_MountPath ms) | Inl _ \<Rightarrow> False)
        | Inl _ \<Rightarrow> False)"
  by code_simp

end
