(* ===== verification/Matcher.thy ===== *)
theory Matcher
  imports Go_Maps
begin

text \<open>
  The request matchers of \<^verbatim>\<open>pkg/matcher\<close>: values, path lists, header maps and requests, with the map
  form in which an intercept carries them.

  The regular expressions of Go are a parameter, a record with the two questions the sources ask:
  whether a pattern compiles and whether it matches a string. \<open>QuoteMeta\<close> and the canonical form of
  header names are modelled as the standard library defines them.
\<close>

section \<open>Values\<close>

record regexps =
  rx_compiles :: "string \<Rightarrow> bool"
  rx_match :: "string \<Rightarrow> string \<Rightarrow> bool"

datatype value_op = ValueOpEqual | ValueOpRegex | ValueOpPrefix

datatype "value" = TextValue string | RxValue string | PrefixValue string

fun value_Matches :: "regexps \<Rightarrow> value \<Rightarrow> string \<Rightarrow> bool" where
  "value_Matches rx (TextValue t) s = (t = s)"
| "value_Matches rx (RxValue r) s = (s \<noteq> [] \<and> rx_match rx r s)"
| "value_Matches rx (PrefixValue p) s = has_prefix s p"

fun value_String :: "value \<Rightarrow> string" where
  "value_String (TextValue t) = t"
| "value_String (RxValue r) = r"
| "value_String (PrefixValue p) = p"

fun value_Op :: "value \<Rightarrow> value_op" where
  "value_Op (TextValue t) = ValueOpEqual"
| "value_Op (RxValue r) = ValueOpRegex"
| "value_Op (PrefixValue p) = ValueOpPrefix"

definition op_String :: "value_op \<Rightarrow> string" where
  "op_String op = (case op of ValueOpEqual \<Rightarrow> ''=='' | ValueOpRegex \<Rightarrow> ''=~'' | ValueOpPrefix \<Rightarrow> ''prefix'')"

definition NewEqual :: "string \<Rightarrow> value" where "NewEqual v = TextValue v"

definition NewPrefix :: "string \<Rightarrow> value" where "NewPrefix v = PrefixValue v"

definition NewRegex :: "regexps \<Rightarrow> string \<Rightarrow> value" where
  "NewRegex rx v = (if \<not> rx_compiles rx v then NewEqual v else RxValue v)"

text \<open>\<open>regexp.QuoteMeta\<close> puts a backslash before every metacharacter.\<close>

definition rx_special :: "char \<Rightarrow> bool" where
  "rx_special c \<longleftrightarrow> c = CHR 0x5C \<or> c \<in> set ''.+*?()|[]{}^$''"

fun quote_meta :: "string \<Rightarrow> string" where
  "quote_meta [] = []"
| "quote_meta (c # cs) = (if rx_special c then CHR 0x5C # c # quote_meta cs else c # quote_meta cs)"

definition NewValue :: "regexps \<Rightarrow> string \<Rightarrow> value" where
  "NewValue rx v = (if quote_meta v = v then NewEqual v else NewRegex rx v)"

definition NewOpValue :: "regexps \<Rightarrow> string \<Rightarrow> string \<Rightarrow> value" where
  "NewOpValue rx op v =
     (if op = ''=~'' then NewRegex rx v else if op = ''prefix'' then NewPrefix v else NewEqual v)"

section \<open>Paths\<close>

type_synonym paths = "value list"

definition PathEqual :: string where "PathEqual = '':path-equal:''"
definition PathPrefix :: string where "PathPrefix = '':path-prefix:''"
definition PathRegex :: string where "PathRegex = '':path-regex:''"

definition splitPath :: "string \<Rightarrow> string \<times> string" where
  "splitPath path =
     (if 0 < length path \<and> hd path = CHR '':'' then
        (case index_byte (CHR '':'') (tl path) of
           Some (Suc i) \<Rightarrow> (take (Suc i + 2) path, drop (Suc i + 2) path)
         | _ \<Rightarrow> (PathEqual, path))
      else (PathEqual, path))"

definition PathValue :: "regexps \<Rightarrow> string \<Rightarrow> value" where
  "PathValue rx path =
     (case splitPath path of (p, v) \<Rightarrow>
        if p = PathPrefix then NewPrefix v else if p = PathRegex then NewRegex rx v else NewEqual v)"

definition NewPaths :: "regexps \<Rightarrow> string list \<Rightarrow> paths" where
  "NewPaths rx ps = map (PathValue rx) ps"

definition Paths_Slice :: "paths \<Rightarrow> string list" where
  "Paths_Slice ps =
     map (\<lambda>p. (case value_Op p of ValueOpRegex \<Rightarrow> PathRegex | ValueOpPrefix \<Rightarrow> PathPrefix | ValueOpEqual \<Rightarrow> PathEqual)
              @ value_String p) ps"

definition Paths_Matches :: "regexps \<Rightarrow> paths \<Rightarrow> string \<Rightarrow> bool" where
  "Paths_Matches rx ps path \<longleftrightarrow> length ps = 0 \<or> list_ex (\<lambda>v. value_Matches rx v path) ps"

text \<open>The text of a list of paths: one on the same line, several on lines of their own.\<close>

definition Paths_appendString :: "paths \<Rightarrow> string \<Rightarrow> string" where
  "Paths_appendString ps indent =
     (if length ps = 0 then []
      else let several = 1 < length ps;
               indent' = (if several then indent @ '' '' else []);
               line = (\<lambda>p. indent' @ op_String (value_Op p) @ '' '' @ value_String p)
           in indent @ ''path'' @ (if several then ''s'' @ [CHR 0x0A] else '' '') @
              join_byte (CHR 0x0A) (map line ps))"

definition Paths_String :: "paths \<Rightarrow> string" where
  "Paths_String ps = Paths_appendString ps []"

section \<open>Headers\<close>

text \<open>\<open>textproto.CanonicalMIMEHeaderKey\<close>: a name with a byte that is not allowed in it is left alone.\<close>

definition is_upper :: "char \<Rightarrow> bool" where
  "is_upper c \<longleftrightarrow> 65 \<le> (of_char c :: nat) \<and> (of_char c :: nat) \<le> 90"

definition is_lower_letter :: "char \<Rightarrow> bool" where
  "is_lower_letter c \<longleftrightarrow> 97 \<le> (of_char c :: nat) \<and> (of_char c :: nat) \<le> 122"

definition valid_header_byte :: "char \<Rightarrow> bool" where
  "valid_header_byte c \<longleftrightarrow>
     is_digit c \<or> is_upper c \<or> is_lower_letter c \<or> c \<in> set ''!#$%&*+-.^_`|~'' \<or> c = CHR 0x27"

definition char_upper :: "char \<Rightarrow> char" where
  "char_upper c = (if is_lower_letter c then char_of ((of_char c :: nat) - 32) else c)"

fun canon_bytes :: "bool \<Rightarrow> string \<Rightarrow> string" where
  "canon_bytes upper [] = []"
| "canon_bytes upper (c # cs) =
     (let c' = (if upper then char_upper c else char_lower c) in c' # canon_bytes (c' = CHR ''-'') cs)"

definition canonical_key :: "string \<Rightarrow> string" where
  "canonical_key s = (if list_all valid_header_byte s then canon_bytes True s else s)"

type_synonym header_map = "(string \<times> value) list"
type_synonym http_header = "(string \<times> string list) list"

definition NewHeaders :: "regexps \<Rightarrow> (string \<times> string) list \<Rightarrow> header_map" where
  "NewHeaders rx hs = fold (\<lambda>(k, v). AList.update (canonical_key k) (NewValue rx v)) hs []"

definition HeaderMap_Map :: "header_map \<Rightarrow> (string \<times> string) list" where
  "HeaderMap_Map m = map (\<lambda>(k, v). (k, value_String v)) m"

text \<open>\<open>http.Header.Get\<close>: the first value of the canonical name, empty if there is none.\<close>

definition header_Get :: "http_header \<Rightarrow> string \<Rightarrow> string" where
  "header_Get h name = (case map_of h (canonical_key name) of Some (v # vs) \<Rightarrow> v | _ \<Rightarrow> [])"

definition HeaderMap_Matches :: "regexps \<Rightarrow> header_map \<Rightarrow> http_header \<Rightarrow> bool" where
  "HeaderMap_Matches rx m h = list_all (\<lambda>(name, vm). value_Matches rx vm (header_Get h name)) m"

definition HeaderMap_appendString :: "header_map \<Rightarrow> string \<Rightarrow> string" where
  "HeaderMap_appendString m indent =
     (if length m = 0 then []
      else let several = 1 < length m;
               indent' = (if several then indent @ '' '' else []);
               line = (\<lambda>k. let v = the (map_of m k) in
                 if value_Op v = ValueOpEqual
                 then indent' @ [CHR 0x27] @ k @ '': '' @ value_String v @ [CHR 0x27]
                 else indent' @ [CHR 0x27] @ k @ '' '' @ op_String (value_Op v) @ '' '' @ value_String v @ [CHR 0x27])
           in indent @ ''header'' @ (if several then ''s'' @ [CHR 0x0A] else '' '') @
              join_byte (CHR 0x0A) (map line (SortedKeys m)))"

definition HeaderMap_String :: "header_map \<Rightarrow> string" where
  "HeaderMap_String m = HeaderMap_appendString m []"

text \<open>The log form of a header, \<^verbatim>\<open>header_stringer.go\<close>.\<close>

definition HeaderStringer_String :: "http_header \<Rightarrow> string" where
  "HeaderStringer_String h =
     join_byte (CHR '','')
       (map (\<lambda>k. k @ '':'' @ join_byte (CHR '';'') (go_lookup [] h k)) (sort (map fst h)))"

section \<open>Requests\<close>

record request =
  req_paths :: paths
  req_headers :: header_map

definition NewRequestFromMap :: "regexps \<Rightarrow> (string \<times> string) list \<Rightarrow> request" where
  "NewRequestFromMap rx m =
     fold (\<lambda>(k, v) r.
             if k = '':paths:'' then r\<lparr>req_paths := NewPaths rx (split_byte (CHR '';'') v)\<rparr>
             else r\<lparr>req_headers := AList.update (canonical_key k) (NewValue rx v) (req_headers r)\<rparr>)
       m \<lparr>req_paths = [], req_headers = []\<rparr>"

definition NewRequest :: "regexps \<Rightarrow> string list \<Rightarrow> (string \<times> string) list \<Rightarrow> request" where
  "NewRequest rx ps hdrs =
     \<lparr>req_paths = (if 0 < length ps then NewPaths rx ps else []),
      req_headers = (if 0 < length hdrs then NewHeaders rx hdrs else [])\<rparr>"

definition request_Map :: "request \<Rightarrow> (string \<times> string) list" where
  "request_Map r =
     (let m = (if 0 < length (req_headers r) then HeaderMap_Map (req_headers r) else []) in
      if 0 < length (req_paths r)
      then maps_Merge [('':paths:'', join_byte (CHR '';'') (Paths_Slice (req_paths r)))] m
      else m)"

definition IsGlobal :: "request \<Rightarrow> bool" where
  "IsGlobal r \<longleftrightarrow> length (req_paths r) = 0 \<and> length (req_headers r) = 0"

definition MatchesPathAndHeader :: "regexps \<Rightarrow> request \<Rightarrow> string \<Rightarrow> http_header \<Rightarrow> bool" where
  "MatchesPathAndHeader rx r path header \<longleftrightarrow>
     Paths_Matches rx (req_paths r) path
     \<and> (length (req_headers r) = 0 \<or> HeaderMap_Matches rx (req_headers r) header)"

definition request_String :: "request \<Rightarrow> string" where
  "request_String r =
     (if IsGlobal r then ''all TCP connections''
      else ''HTTP requests with'' @
        (let np = length (req_paths r); nh = length (req_headers r) in
         if np = 0 then '' '' @ HeaderMap_appendString (req_headers r) []
         else if np = 1 \<and> nh < 2 then
           '' '' @ Paths_appendString (req_paths r) [] @
           (if 0 < nh then '' and '' @ HeaderMap_appendString (req_headers r) [] else [])
         else if 0 < nh then
           [CHR 0x0A] @ Paths_appendString (req_paths r) '' '' @ [CHR 0x0A] @
           HeaderMap_appendString (req_headers r) '' ''
         else '' '' @ Paths_appendString (req_paths r) []))"

section \<open>Canonical header names\<close>

lemma char_upper_idem [simp]: "char_upper (char_upper c) = char_upper c"
  by (auto simp: char_upper_def is_lower_letter_def)

lemma char_lower_idem [simp]: "char_lower (char_lower c) = char_lower c"
  by (auto simp: char_lower_def)

lemma char_upper_dash [simp]: "char_upper c = CHR ''-'' \<longleftrightarrow> c = CHR ''-''"
proof
  assume u: "char_upper c = CHR ''-''"
  show "c = CHR ''-''"
  proof (cases "is_lower_letter c")
    case True
    then have "of_char (char_upper c) = (of_char c :: nat) - 32" "65 \<le> (of_char c :: nat) - 32"
      by (auto simp: char_upper_def is_lower_letter_def)
    with u show ?thesis by simp
  qed (use u in \<open>simp add: char_upper_def\<close>)
qed (simp add: char_upper_def is_lower_letter_def)

lemma char_lower_dash [simp]: "char_lower c = CHR ''-'' \<longleftrightarrow> c = CHR ''-''"
proof
  assume u: "char_lower c = CHR ''-''"
  show "c = CHR ''-''"
  proof (cases "is_upper c")
    case True
    then have "of_char (char_lower c) = (of_char c :: nat) + 32" "65 \<le> (of_char c :: nat)"
      by (auto simp: char_lower_def is_upper_def)
    with u show ?thesis by simp
  qed (use u in \<open>simp add: char_lower_def is_upper_def split: if_splits\<close>)
qed (simp add: char_lower_def)

lemma valid_char_upper: "valid_header_byte c \<Longrightarrow> valid_header_byte (char_upper c)"
  by (auto simp: valid_header_byte_def char_upper_def is_upper_def is_lower_letter_def)

lemma valid_char_lower: "valid_header_byte c \<Longrightarrow> valid_header_byte (char_lower c)"
  by (auto simp: valid_header_byte_def char_lower_def is_upper_def is_lower_letter_def)

lemma canon_bytes_idem [simp]: "canon_bytes u (canon_bytes u s) = canon_bytes u s"
  by (induction s arbitrary: u) (simp_all add: Let_def)

lemma canon_bytes_valid: "list_all valid_header_byte s \<Longrightarrow> list_all valid_header_byte (canon_bytes u s)"
  by (induction s arbitrary: u) (simp_all add: Let_def valid_char_upper valid_char_lower)

lemma canonical_key_idem [simp]: "canonical_key (canonical_key k) = canonical_key k"
  by (simp add: canonical_key_def canon_bytes_valid)

lemma canonical_key_paths: "canonical_key k = '':paths:'' \<longleftrightarrow> k = '':paths:''"
proof -
  have bad: "\<not> list_all valid_header_byte '':paths:''" by code_simp
  show ?thesis
  proof (cases "list_all valid_header_byte k")
    case True
    then show ?thesis using bad canon_bytes_valid [OF True, of True] by (auto simp: canonical_key_def)
  qed (use bad in \<open>auto simp: canonical_key_def\<close>)
qed

section \<open>Values and paths read back\<close>

text \<open>A regular expression value has been compiled.\<close>

fun value_wf :: "regexps \<Rightarrow> value \<Rightarrow> bool" where
  "value_wf rx (RxValue r) = rx_compiles rx r"
| "value_wf rx _ = True"

lemma value_String_New [simp]:
  "value_String (NewRegex rx v) = v" "value_String (NewValue rx v) = v"
  by (simp_all add: NewRegex_def NewEqual_def NewValue_def)

lemma value_wf_New [simp]:
  "value_wf rx (NewRegex rx v)" "value_wf rx (NewValue rx v)" "value_wf rx (NewOpValue rx op v)" "value_wf rx (PathValue rx v)"
  by (simp_all add: NewRegex_def NewEqual_def NewPrefix_def NewValue_def NewOpValue_def PathValue_def split: prod.splits)

lemma splitPath_kinds:
  "splitPath (PathRegex @ v) = (PathRegex, v)"
  "splitPath (PathPrefix @ v) = (PathPrefix, v)"
  "splitPath (PathEqual @ v) = (PathEqual, v)"
  by (simp_all add: splitPath_def PathRegex_def PathPrefix_def PathEqual_def)

lemma path_kinds_distinct:
  "PathRegex \<noteq> PathPrefix" "PathEqual \<noteq> PathPrefix" "PathEqual \<noteq> PathRegex"
  by (simp_all add: PathRegex_def PathPrefix_def PathEqual_def)

lemma NewPaths_Slice:
  assumes "list_all (value_wf rx) ps"
  shows "NewPaths rx (Paths_Slice ps) = ps"
proof -
  have "PathValue rx ((case value_Op p of ValueOpRegex \<Rightarrow> PathRegex | ValueOpPrefix \<Rightarrow> PathPrefix | ValueOpEqual \<Rightarrow> PathEqual)
              @ value_String p) = p" if "value_wf rx p" for p
    using that
    by (cases p) (simp_all add: PathValue_def splitPath_kinds NewRegex_def NewPrefix_def NewEqual_def path_kinds_distinct)
  with assms show ?thesis
    by (auto simp: NewPaths_def Paths_Slice_def list_all_iff comp_def intro: map_idI)
qed

lemma splitPath_parts: "splitPath p = (q, v) \<Longrightarrow> set v \<subseteq> set p"
  by (auto simp: splitPath_def split: if_splits option.splits nat.splits dest: in_set_dropD)

lemma PathValue_String: "set (value_String (PathValue rx p)) \<subseteq> set p"
  using splitPath_parts [of p]
  by (auto simp: PathValue_def NewPrefix_def NewEqual_def split: prod.splits)

lemma Paths_Slice_no_sep:
  assumes "\<forall>p\<in>set ps. CHR '';'' \<notin> set p"
  shows "\<forall>w\<in>set (Paths_Slice (NewPaths rx ps)). CHR '';'' \<notin> set w"
  using assms PathValue_String
  by (fastforce simp: Paths_Slice_def NewPaths_def PathRegex_def PathPrefix_def PathEqual_def split: value_op.splits)

section \<open>Header maps read back\<close>

definition headers_wf :: "regexps \<Rightarrow> header_map \<Rightarrow> bool" where
  "headers_wf rx m \<longleftrightarrow>
     maps_wf m \<and> (\<forall>(k, v)\<in>set m. canonical_key k = k \<and> v = NewValue rx (value_String v) \<and> k \<noteq> '':paths:'')"

lemma set_update_subset: "set (AList.update k v m) \<subseteq> insert (k, v) (set m)"
  by (induction m) auto

lemma NewHeaders_wf:
  assumes "'':paths:'' \<notin> fst ` set hs"
  shows "headers_wf rx (NewHeaders rx hs)"
proof -
  have "headers_wf rx (fold (\<lambda>(k, v). AList.update (canonical_key k) (NewValue rx v)) hs m)"
    if "headers_wf rx m" for m
    using that assms
  proof (induction hs arbitrary: m)
    case (Cons h hs)
    obtain k v where h: "h = (k, v)" by fastforce
    have "canonical_key a = a \<and> b = NewValue rx (value_String b) \<and> a \<noteq> '':paths:''"
      if "(a, b) \<in> set (AList.update (canonical_key k) (NewValue rx v) m)" for a b
    proof -
      from that set_update_subset [of "canonical_key k" "NewValue rx v" m]
      consider "(a, b) = (canonical_key k, NewValue rx v)" | "(a, b) \<in> set m" by blast
      then show ?thesis
        using Cons.prems h by cases (auto simp: headers_wf_def canonical_key_paths)
    qed
    then have "headers_wf rx (AList.update (canonical_key k) (NewValue rx v) m)"
      using Cons.prems(1) by (auto simp: headers_wf_def maps_wf_def distinct_update)
    with Cons h show ?case by simp
  qed simp
  from this [of "[]"] show ?thesis by (simp add: NewHeaders_def headers_wf_def maps_wf_def)
qed

text \<open>Reading the pairs of a well-formed header map appends them in order.\<close>

lemma fold_request_headers:
  assumes "headers_wf rx (req_headers r @ m)"
  shows "fold (\<lambda>(k, v) r.
             if k = '':paths:'' then r\<lparr>req_paths := NewPaths rx (split_byte (CHR '';'') v)\<rparr>
             else r\<lparr>req_headers := AList.update (canonical_key k) (NewValue rx v) (req_headers r)\<rparr>)
       (HeaderMap_Map m) r = r\<lparr>req_headers := req_headers r @ m\<rparr>"
  using assms
proof (induction m arbitrary: r)
  case (Cons p m)
  obtain k v where p: "p = (k, v)" by fastforce
  with Cons.prems have k: "canonical_key k = k" "NewValue rx (value_String v) = v" "k \<noteq> '':paths:''"
    "k \<notin> fst ` set (req_headers r)"
    by (auto simp: headers_wf_def maps_wf_def)
  have "headers_wf rx (req_headers (r\<lparr>req_headers := req_headers r @ [(k, v)]\<rparr>) @ m)"
    using Cons.prems p by simp
  from Cons.IH [OF this] k p show ?case
    by (simp add: HeaderMap_Map_def update_fresh)
qed (simp add: HeaderMap_Map_def)

lemma maps_Merge_fresh:
  assumes "maps_wf (dst @ src)"
  shows "maps_Merge dst src = dst @ src"
  using assms unfolding maps_Merge_def
proof (induction src arbitrary: dst)
  case (Cons p src)
  obtain k v where p: "p = (k, v)" by fastforce
  with Cons.prems have "k \<notin> fst ` set dst" by (auto simp: maps_wf_def)
  with Cons.IH [of "dst @ [(k, v)]"] Cons.prems p show ?case by (simp add: update_fresh)
qed simp

lemma request_Map_wf:
  assumes "headers_wf rx (req_headers r)"
  shows "request_Map r =
    (if req_paths r = [] then [] else [('':paths:'', join_byte (CHR '';'') (Paths_Slice (req_paths r)))])
    @ HeaderMap_Map (req_headers r)"
proof -
  have "maps_wf ([('':paths:'', j)] @ HeaderMap_Map (req_headers r))" for j
    using assms by (fastforce simp: headers_wf_def maps_wf_def HeaderMap_Map_def comp_def split_beta)
  from maps_Merge_fresh [OF this] show ?thesis
    by (simp add: request_Map_def HeaderMap_Map_def maps_Merge_def Let_def)
qed

section \<open>Properties\<close>

text \<open>
  The map form of a request, in which an intercept specification carries it, gives the request
  back: \<open>NewRequestFromMap\<close> of the \<open>Map\<close> of a request that \<open>NewRequest\<close> built is that request, for all
  paths without a semicolon and all headers except the one named \<open>:paths:\<close>.
\<close>

lemma request_Map_roundtrip:
  assumes "\<forall>p\<in>set ps. CHR '';'' \<notin> set p" and "'':paths:'' \<notin> fst ` set hdrs"
  shows "NewRequestFromMap rx (request_Map (NewRequest rx ps hdrs)) = NewRequest rx ps hdrs"
proof -
  let ?r = "NewRequest rx ps hdrs"
  have hs: "headers_wf rx (req_headers ?r)"
    using NewHeaders_wf [OF assms(2), of rx] by (simp add: NewRequest_def headers_wf_def maps_wf_def)
  note read = fold_request_headers [of rx "\<lparr>req_paths = qs, req_headers = []\<rparr>" "req_headers ?r" for qs]
  show ?thesis
  proof (cases "ps = []")
    case True
    then have "req_paths ?r = []" by (simp add: NewRequest_def)
    with read [of "[]"] hs show ?thesis by (simp add: request_Map_wf NewRequestFromMap_def)
  next
    case False
    then have ps: "req_paths ?r = NewPaths rx ps" and ne: "Paths_Slice (NewPaths rx ps) \<noteq> []" "NewPaths rx ps \<noteq> []"
      by (simp_all add: NewRequest_def Paths_Slice_def NewPaths_def)
    have "NewPaths rx (split_byte (CHR '';'') (join_byte (CHR '';'') (Paths_Slice (NewPaths rx ps)))) = NewPaths rx ps"
      by (subst split_join_byte [OF ne(1) Paths_Slice_no_sep [OF assms(1)]], rule NewPaths_Slice)
        (simp add: NewPaths_def list_all_iff)
    with read [of "NewPaths rx ps"] hs ps ne(2) show ?thesis
      by (simp add: request_Map_wf [OF hs] NewRequestFromMap_def)
  qed
qed

end
