(* ===== verification/Conflicts.thy ===== *)
theory Conflicts
  imports Matcher Agent_Config
begin

text \<open>
  Conflicts between intercepts, \<^verbatim>\<open>pkg/icept\<close>: which path filters overlap, which specifications are in
  conflict, how that is explained, and the search for the configured container.

  The lemmas show that conflict is symmetric and that specifications over the same header names that
  are not in conflict never match the same request. That rests on a law of the regular expressions:
  what an anchored expression matches starts with the literal that \<open>regexLiteralPrefix\<close> takes from it.

  The locale \<open>conflict_relation\<close> is the interface the review of intercepts relies on.
\<close>

section \<open>Overlapping filters\<close>

definition rx_stop :: "char \<Rightarrow> bool" where
  "rx_stop c \<longleftrightarrow> c \<in> set ''[](){}?+*|$.^'' \<or> c = CHR 0x5C"

definition regexLiteralPrefix :: "string \<Rightarrow> string" where
  "regexLiteralPrefix pattern =
     (if pattern = [] then [] else takeWhile (\<lambda>c. \<not> rx_stop c) (trim_suffix (trim_prefix pattern ''^'') ''.*''))"

definition regexCanMatchValue :: "regexps \<Rightarrow> string \<Rightarrow> value_op \<Rightarrow> string \<Rightarrow> bool" where
  "regexCanMatchValue rx regexPattern op v =
     (if v = [] then True
      else
        let anchored = has_prefix regexPattern ''^'' in
        case op of
          ValueOpEqual \<Rightarrow> if anchored then (if \<not> rx_compiles rx regexPattern then True else rx_match rx regexPattern v) else True
        | ValueOpPrefix \<Rightarrow>
            if anchored then
              (let prefix = regexLiteralPrefix regexPattern in
               if prefix = [] then True else has_prefix v prefix \<or> has_prefix prefix v)
            else True
        | ValueOpRegex \<Rightarrow> True)"

definition valuesCanMatch :: "regexps \<Rightarrow> value \<Rightarrow> value \<Rightarrow> bool" where
  "valuesCanMatch rx v1 v2 =
     (let op1 = value_Op v1; op2 = value_Op v2; pattern1 = value_String v1; pattern2 = value_String v2 in
      if op1 = ValueOpEqual \<and> op2 = ValueOpEqual then pattern1 = pattern2
      else if op1 = ValueOpPrefix \<and> op2 = ValueOpPrefix then has_prefix pattern1 pattern2 \<or> has_prefix pattern2 pattern1
      else if op1 = ValueOpPrefix \<and> op2 = ValueOpEqual then has_prefix pattern2 pattern1
      else if op1 = ValueOpEqual \<and> op2 = ValueOpPrefix then has_prefix pattern1 pattern2
      else if op1 = ValueOpRegex \<and> op2 = ValueOpRegex then
        (if pattern1 = pattern2 then True
         else if has_prefix pattern1 ''^'' \<and> has_prefix pattern2 ''^'' then
           (let prefix1 = regexLiteralPrefix pattern1; prefix2 = regexLiteralPrefix pattern2 in
            has_prefix prefix1 prefix2 \<or> has_prefix prefix2 prefix1)
         else True)
      else if op1 = ValueOpRegex then regexCanMatchValue rx pattern1 op2 pattern2
      else if op2 = ValueOpRegex then regexCanMatchValue rx pattern2 op1 pattern1
      else True)"

definition pathsCanMatch :: "regexps \<Rightarrow> string \<Rightarrow> string \<Rightarrow> bool" where
  "pathsCanMatch rx filter1 filter2 = valuesCanMatch rx (PathValue rx filter1) (PathValue rx filter2)"

definition pathFiltersOverlap :: "regexps \<Rightarrow> string list \<Rightarrow> string list \<Rightarrow> bool" where
  "pathFiltersOverlap rx paths1 paths2 = list_ex (\<lambda>path1. list_ex (pathsCanMatch rx path1) paths2) paths1"

definition isHeaderSubset :: "regexps \<Rightarrow> header_map \<Rightarrow> header_map \<Rightarrow> bool" where
  "isHeaderSubset rx sub super =
     list_all (\<lambda>(key, v). case map_of super key of None \<Rightarrow> False | Some sv \<Rightarrow> valuesCanMatch rx v sv) sub"

section \<open>Conflicts\<close>

definition IsInConflict :: "regexps \<Rightarrow> intercept_spec \<Rightarrow> intercept_spec \<Rightarrow> bool" where
  "IsInConflict rx spec1 spec2 =
     (let hasHeaders1 = 0 < length (sp_header_filters spec1); hasHeaders2 = 0 < length (sp_header_filters spec2);
          hasPaths1 = 0 < length (sp_path_filters spec1); hasPaths2 = 0 < length (sp_path_filters spec2);
          isGlobal1 = (\<not> hasHeaders1 \<and> \<not> hasPaths1); isGlobal2 = (\<not> hasHeaders2 \<and> \<not> hasPaths2);
          overlap = pathFiltersOverlap rx (sp_path_filters spec1) (sp_path_filters spec2)
      in
      if isGlobal1 \<or> isGlobal2 then True
      else if hasHeaders1 \<and> \<not> hasHeaders2 then False
      else if hasHeaders2 \<and> \<not> hasHeaders1 then False
      else if hasHeaders1 then
        (let headers1 = NewHeaders rx (sp_header_filters spec1); headers2 = NewHeaders rx (sp_header_filters spec2) in
         if \<not> (isHeaderSubset rx headers1 headers2 \<or> isHeaderSubset rx headers2 headers1) then False
         else if \<not> hasPaths1 \<or> \<not> hasPaths2 then True
         else overlap)
      else overlap)"

definition ExplainConflict :: "regexps \<Rightarrow> intercept_spec \<Rightarrow> intercept_spec \<Rightarrow> string" where
  "ExplainConflict rx spec1 spec2 =
     (let hasHeaders1 = 0 < length (sp_header_filters spec1); hasHeaders2 = 0 < length (sp_header_filters spec2);
          hasPaths1 = 0 < length (sp_path_filters spec1); hasPaths2 = 0 < length (sp_path_filters spec2);
          isGlobal1 = (\<not> hasHeaders1 \<and> \<not> hasPaths1); isGlobal2 = (\<not> hasHeaders2 \<and> \<not> hasPaths2);
          headers1 = NewHeaders rx (sp_header_filters spec1); headers2 = NewHeaders rx (sp_header_filters spec2)
      in
      if isGlobal1 \<or> isGlobal2 then ''one intercept has no filters (intercepts all traffic)''
      else if hasHeaders1 \<and> hasHeaders2 \<and> (isHeaderSubset rx headers1 headers2 \<or> isHeaderSubset rx headers2 headers1)
        \<and> (\<not> hasPaths1 \<or> \<not> hasPaths2 \<or> pathFiltersOverlap rx (sp_path_filters spec1) (sp_path_filters spec2))
      then ''header filters'' @ (if hasPaths1 \<and> hasPaths2 then '' and paths'' else []) @ '' overlap''
      else if hasPaths1 \<and> hasPaths2 \<and> \<not> hasHeaders1 \<and> \<not> hasHeaders2 then ''path filters overlap''
      else ''filters would route the same traffic to different destinations'')"

definition PotentialConflict :: "string \<Rightarrow> string \<Rightarrow> port_and_proto list \<Rightarrow> intercept_info \<Rightarrow> bool" where
  "PotentialConflict agentName namespace containerPorts info =
     (if ii_disposition info \<in> {ACTIVE, WAITING, NO_AGENT} then
        (let spec = ii_spec info in
         \<not> sp_wiretap spec \<and> sp_agent spec = agentName \<and> sp_namespace spec = namespace
         \<and> \<lparr>Port = ucast (sp_container_port spec), Proto = FromK8sProtocol (sp_protocol spec)\<rparr> \<in> set containerPorts)
      else False)"

section \<open>The container of a specification\<close>

datatype find_container_error = MoreThanOneContainer | NoContainerNamed string | NoPortMatching string port_identifier

definition FindContainer :: "sidecar \<Rightarrow> intercept_spec \<Rightarrow> find_container_error + container" where
  "FindContainer ac spec =
     (if sp_container_name spec = [] then
        (case sc_Containers ac of [cn] \<Rightarrow> Inr cn | _ \<Rightarrow> Inl MoreThanOneContainer)
      else (case find (\<lambda>cn. sp_container_name spec = cn_Name cn) (sc_Containers ac) of
              Some cn \<Rightarrow> Inr cn
            | None \<Rightarrow> Inl (NoContainerNamed (sp_container_name spec))))"

definition icept_FindIntercept :: "sidecar \<Rightarrow> intercept_spec \<Rightarrow> find_error + (container \<times> intercept)" where
  "icept_FindIntercept ac spec = FindIntercept ac (sp_service_name spec) (sp_container_name spec) (sp_port_identifier spec)"

definition FindContainerIntercept :: "container \<Rightarrow> port_identifier \<Rightarrow> find_container_error + intercept" where
  "FindContainerIntercept cn pi =
     (case find (IsInterceptForContainer pi) (cn_Intercepts cn) of
        Some ic \<Rightarrow> Inr ic
      | None \<Rightarrow> Inl (NoPortMatching (cn_Name cn) pi))"

section \<open>Symmetry\<close>

lemma valuesCanMatch_sym: "valuesCanMatch rx v1 v2 = valuesCanMatch rx v2 v1"
  by (cases v1; cases v2) (auto simp: valuesCanMatch_def Let_def)

lemma pathFiltersOverlap_sym: "pathFiltersOverlap rx ps qs = pathFiltersOverlap rx qs ps"
  unfolding pathFiltersOverlap_def pathsCanMatch_def list_ex_iff using valuesCanMatch_sym by blast

lemma IsInConflict_sym: "IsInConflict rx s1 s2 = IsInConflict rx s2 s1"
  using pathFiltersOverlap_sym [of rx "sp_path_filters s1" "sp_path_filters s2"]
  by (auto simp: IsInConflict_def Let_def)

section \<open>No overlap without conflict\<close>

text \<open>The law of regular expressions, for a pattern that is anchored.\<close>

definition literal_law :: "regexps \<Rightarrow> string \<Rightarrow> bool" where
  "literal_law rx p \<longleftrightarrow> (has_prefix p ''^'' \<longrightarrow> (\<forall>s. rx_match rx p s \<longrightarrow> has_prefix s (regexLiteralPrefix p)))"

fun value_law :: "regexps \<Rightarrow> value \<Rightarrow> bool" where
  "value_law rx (RxValue p) = literal_law rx p"
| "value_law rx _ = True"

lemma valuesCanMatch_sound:
  assumes "value_Matches rx v1 s" and "value_Matches rx v2 s" and "value_law rx v1" and "value_law rx v2"
  shows "valuesCanMatch rx v1 v2"
proof -
  have lit: "has_prefix p q \<or> has_prefix q p" if "has_prefix s p" "has_prefix s q" for p q
    using that by (rule has_prefix_comparable)
  show ?thesis
    using assms lit
    by (cases v1; cases v2)
      (auto simp: valuesCanMatch_def regexCanMatchValue_def literal_law_def Let_def)
qed

lemma PathValue_overlap:
  assumes "Paths_Matches rx (NewPaths rx ps) path" and "Paths_Matches rx (NewPaths rx qs) path" and "ps \<noteq> []" and "qs \<noteq> []"
    and "list_all (value_law rx) (NewPaths rx ps)" and "list_all (value_law rx) (NewPaths rx qs)"
  shows "pathFiltersOverlap rx ps qs"
proof -
  from assms(1,3) obtain p where p: "p \<in> set ps" "value_Matches rx (PathValue rx p) path"
    by (auto simp: Paths_Matches_def NewPaths_def list_ex_iff)
  from assms(2,4) obtain q where q: "q \<in> set qs" "value_Matches rx (PathValue rx q) path"
    by (auto simp: Paths_Matches_def NewPaths_def list_ex_iff)
  from p q assms(5,6) valuesCanMatch_sound [OF p(2) q(2)] show ?thesis
    by (auto simp: pathFiltersOverlap_def pathsCanMatch_def list_ex_iff NewPaths_def list_all_iff)
qed

lemma isHeaderSubset_sound:
  assumes "HeaderMap_Matches rx m h" and "HeaderMap_Matches rx m' h" and "fst ` set m \<subseteq> fst ` set m'"
    and "\<forall>v\<in>snd ` set m. value_law rx v" and "\<forall>v\<in>snd ` set m'. value_law rx v"
  shows "isHeaderSubset rx m m'"
  unfolding isHeaderSubset_def list_all_iff
proof (clarify)
  fix k v assume kv: "(k, v) \<in> set m"
  with assms(3) obtain sv where sv: "map_of m' k = Some sv"
    by (metis (no_types, opaque_lifting) fst_conv image_eqI map_of_eq_None_iff not_None_eq subsetD)
  note mem = map_of_SomeD [OF sv]
  have "value_Matches rx v (header_Get h k)" "value_Matches rx sv (header_Get h k)"
    using assms(1,2) kv mem by (auto simp: HeaderMap_Matches_def list_all_iff)
  moreover have "value_law rx v" "value_law rx sv" using assms(4,5) kv mem by force+
  ultimately show "case map_of m' k of None \<Rightarrow> False | Some sv \<Rightarrow> valuesCanMatch rx v sv"
    using valuesCanMatch_sound sv by simp
qed

lemma NewHeaders_empty: "NewHeaders rx hs = [] \<longleftrightarrow> hs = []"
proof -
  have "fold (\<lambda>(k, v). AList.update (canonical_key k) (NewValue rx v)) xs m \<noteq> []" if "m \<noteq> []" for m xs
    using that
  proof (induction xs arbitrary: m)
    case (Cons h xs)
    have "AList.update (canonical_key (fst h)) (NewValue rx (snd h)) m \<noteq> []" using Cons.prems by (cases m) auto
    with Cons.IH show ?case by (simp add: split_beta)
  qed simp
  then show ?thesis by (cases hs) (auto simp: NewHeaders_def)
qed

text \<open>A specification obeys the law if its patterns do.\<close>

definition spec_request :: "regexps \<Rightarrow> intercept_spec \<Rightarrow> request" where
  "spec_request rx spec = NewRequest rx (sp_path_filters spec) (sp_header_filters spec)"

definition spec_law :: "regexps \<Rightarrow> intercept_spec \<Rightarrow> bool" where
  "spec_law rx spec \<longleftrightarrow>
     list_all (value_law rx) (req_paths (spec_request rx spec))
     \<and> list_all (\<lambda>(k, v). value_law rx v) (req_headers (spec_request rx spec))"

definition header_names :: "regexps \<Rightarrow> intercept_spec \<Rightarrow> string set" where
  "header_names rx spec = fst ` set (req_headers (spec_request rx spec))"

lemma req_headers_eq: "req_headers (spec_request rx spec) = NewHeaders rx (sp_header_filters spec)"
  by (simp add: spec_request_def NewRequest_def NewHeaders_def)

lemma req_paths_eq: "req_paths (spec_request rx spec) = NewPaths rx (sp_path_filters spec)"
  by (simp add: spec_request_def NewRequest_def NewPaths_def)

text \<open>Specifications without a conflict do not overlap.\<close>

lemma not_both_match:
  assumes "\<not> IsInConflict rx s1 s2" and "header_names rx s1 = header_names rx s2"
    and "spec_law rx s1" and "spec_law rx s2"
  shows "\<not> (MatchesPathAndHeader rx (spec_request rx s1) path h \<and> MatchesPathAndHeader rx (spec_request rx s2) path h)"
proof
  assume m: "MatchesPathAndHeader rx (spec_request rx s1) path h \<and> MatchesPathAndHeader rx (spec_request rx s2) path h"
  let ?h1 = "NewHeaders rx (sp_header_filters s1)" and ?h2 = "NewHeaders rx (sp_header_filters s2)"
  have same: "sp_header_filters s1 = [] \<longleftrightarrow> sp_header_filters s2 = []"
    using assms(2) NewHeaders_empty by (metis header_names_def image_is_empty req_headers_eq set_empty)
  have overlap: "pathFiltersOverlap rx (sp_path_filters s1) (sp_path_filters s2)"
    if "sp_path_filters s1 \<noteq> []" "sp_path_filters s2 \<noteq> []"
    using m that assms(3,4) by (intro PathValue_overlap [where path = path])
      (simp_all add: MatchesPathAndHeader_def req_paths_eq spec_law_def)
  have subset: "isHeaderSubset rx ?h1 ?h2" if "sp_header_filters s1 \<noteq> []"
  proof (rule isHeaderSubset_sound)
    show "HeaderMap_Matches rx ?h1 h" "HeaderMap_Matches rx ?h2 h"
      using m that same by (simp_all add: MatchesPathAndHeader_def req_headers_eq NewHeaders_empty)
    show "fst ` set ?h1 \<subseteq> fst ` set ?h2" using assms(2) by (simp add: header_names_def req_headers_eq)
    show "\<forall>v\<in>snd ` set ?h1. value_law rx v" "\<forall>v\<in>snd ` set ?h2. value_law rx v"
      using assms(3,4) by (auto simp: spec_law_def req_headers_eq list_all_iff)
  qed
  from assms(1) same overlap subset show False
    by (auto simp: IsInConflict_def Let_def split: if_splits)
qed

section \<open>The interface of the review\<close>

text \<open>
  A review that accepts a candidate only if it is not in conflict with what is active or with an
  earlier candidate never accepts two candidates that are in conflict.
\<close>

locale conflict_relation =
  fixes conflict :: "'a \<Rightarrow> 'a \<Rightarrow> bool"
  assumes conflict_sym: "conflict a b = conflict b a"
begin

definition compatible :: "'a list \<Rightarrow> bool" where
  "compatible xs \<longleftrightarrow> (\<forall>i j. i < length xs \<and> j < length xs \<and> i \<noteq> j \<longrightarrow> \<not> conflict (xs ! i) (xs ! j))"

fun accepted :: "'a list \<Rightarrow> 'a list \<Rightarrow> 'a list \<Rightarrow> 'a list" where
  "accepted active earlier [] = []"
| "accepted active earlier (x # xs) =
     (if list_ex (conflict x) active \<or> list_ex (conflict x) earlier then accepted active (earlier @ [x]) xs
      else x # accepted active (earlier @ [x]) xs)"

lemma accepted_free:
  "x \<in> set (accepted active earlier xs) \<Longrightarrow> y \<in> set active \<union> set earlier \<Longrightarrow> \<not> conflict x y"
  by (induction active earlier xs rule: accepted.induct) (auto simp: list_ex_iff split: if_splits)

lemma accepted_subset: "set (accepted active earlier xs) \<subseteq> set xs"
  by (induction active earlier xs rule: accepted.induct) auto

lemma accepted_distinct: "distinct xs \<Longrightarrow> distinct (accepted active earlier xs)"
proof (induction active earlier xs rule: accepted.induct)
  case (2 active earlier x xs)
  then show ?case using accepted_subset [of active "earlier @ [x]" xs] by auto
qed simp

lemma compatible_Cons:
  "compatible (x # xs) \<longleftrightarrow> compatible xs \<and> (\<forall>y\<in>set xs. \<not> conflict x y)"
proof
  assume c: "compatible (x # xs)"
  have "\<not> conflict x y" if "y \<in> set xs" for y
  proof -
    from that obtain j where "j < length xs" "xs ! j = y" by (auto simp: in_set_conv_nth)
    with c [unfolded compatible_def, rule_format, of 0 "Suc j"] show ?thesis by simp
  qed
  moreover have "compatible xs"
    using c unfolding compatible_def by (metis Suc_inject Suc_less_eq length_Cons nth_Cons_Suc)
  ultimately show "compatible xs \<and> (\<forall>y\<in>set xs. \<not> conflict x y)" by blast
next
  assume c: "compatible xs \<and> (\<forall>y\<in>set xs. \<not> conflict x y)"
  show "compatible (x # xs)"
    unfolding compatible_def
  proof (intro allI impI)
    fix i j assume "i < length (x # xs) \<and> j < length (x # xs) \<and> i \<noteq> j"
    then show "\<not> conflict ((x # xs) ! i) ((x # xs) ! j)"
      using c conflict_sym by (cases i; cases j) (auto simp: compatible_def)
  qed
qed

lemma compatible_append:
  "compatible (xs @ ys) \<longleftrightarrow> compatible xs \<and> compatible ys \<and> (\<forall>x\<in>set xs. \<forall>y\<in>set ys. \<not> conflict x y)"
  by (induction xs) (auto simp: compatible_Cons compatible_def [of "[]"])

lemma accepted_compatible: "compatible (accepted active earlier xs)"
proof (induction active earlier xs rule: accepted.induct)
  case (2 active earlier x xs)
  have "\<not> conflict x y" if "y \<in> set (accepted active (earlier @ [x]) xs)" for y
    using accepted_free [OF that, of x] conflict_sym by simp
  with 2 show ?case by (simp add: compatible_Cons)
qed (simp add: compatible_def)

lemma compatible_map:
  assumes "compatible (map f ks)" and "a \<in> set ks" and "b \<in> set ks" and "a \<noteq> b"
  shows "\<not> conflict (f a) (f b)"
proof -
  from assms(2,3) obtain i j where "i < length ks" "ks ! i = a" "j < length ks" "ks ! j = b"
    by (auto simp: in_set_conv_nth)
  with assms(4) assms(1) [unfolded compatible_def, rule_format, of i j] show ?thesis by auto
qed

lemma accepted_enumerate:
  "accepted active earlier xs =
     map snd (filter (\<lambda>(i, x). \<not> list_ex (conflict x) active \<and> \<not> list_ex (conflict x) (earlier @ take (i - n) xs)) (enumerate n xs))"
proof (induction active earlier xs arbitrary: n rule: accepted.induct)
  case (2 active earlier x xs)
  have "filter (\<lambda>(i, y). \<not> list_ex (conflict y) active \<and> \<not> list_ex (conflict y) (earlier @ take (i - n) (x # xs))) (enumerate (Suc n) xs) =
      filter (\<lambda>(i, y). \<not> list_ex (conflict y) active \<and> \<not> list_ex (conflict y) ((earlier @ [x]) @ take (i - Suc n) xs)) (enumerate (Suc n) xs)"
  proof (rule filter_cong [OF refl], clarify)
    fix i y assume "(i, y) \<in> set (enumerate (Suc n) xs)"
    then have "Suc n \<le> i" by (simp add: in_set_enumerate_eq)
    then have "i - n = Suc (i - Suc n)" by simp
    then show "(\<not> list_ex (conflict y) active \<and> \<not> list_ex (conflict y) (earlier @ take (i - n) (x # xs))) =
        (\<not> list_ex (conflict y) active \<and> \<not> list_ex (conflict y) ((earlier @ [x]) @ take (i - Suc n) xs))" by simp
  qed
  with 2 [of "Suc n"] show ?case by simp
qed simp

lemma compatible_pairs:
  "distinct xs \<Longrightarrow> compatible xs \<longleftrightarrow> (\<forall>a\<in>set xs. \<forall>b\<in>set xs. a \<noteq> b \<longrightarrow> \<not> conflict a b)"
  by (induction xs) (use conflict_sym in \<open>auto simp: compatible_Cons compatible_def [of "[]"]\<close>)

lemma review_keeps_compatible: "compatible active \<Longrightarrow> compatible (active @ accepted active [] xs)"
  using accepted_free conflict_sym accepted_compatible by (fastforce simp: compatible_append)

end

interpretation icept: conflict_relation "\<lambda>i j. IsInConflict rx (ii_spec i) (ii_spec j)" for rx
  by unfold_locales (rule IsInConflict_sym)

section \<open>Properties\<close>



section \<open>What goes wrong\<close>

text \<open>
  The literal taken from a pattern counts a character that the next one makes optional: the overlap
  with a prefix is missed.
\<close>

lemma optional_literal_missed:
  assumes "rx_match rx ''^/ab?'' ''/ac''"
  shows "value_Matches rx (RxValue ''^/ab?'') ''/ac'' \<and> value_Matches rx (PrefixValue ''/ac'') ''/ac''
    \<and> \<not> valuesCanMatch rx (RxValue ''^/ab?'') (PrefixValue ''/ac'')"
  using assms
  by (simp add: valuesCanMatch_def regexCanMatchValue_def regexLiteralPrefix_def has_prefix_def trim_prefix_def
      trim_suffix_def has_suffix_def rx_stop_def Let_def)

end
