(* ===== verification/Interceptors.thy ===== *)
theory Interceptors
  imports Conflicts Conn_Id
begin

text \<open>
  The interceptors of the traffic agent, \<^verbatim>\<open>cmd/traffic/cmd/agent/fwd\<close>: the controllers of the active
  intercepts and wiretaps of a port, the switch between TCP and HTTP listeners and the routing of
  connections and requests.

  A controller owns a context, here a number that no other controller has; cancelling it adds it to
  the cancelled ones. The mutex of an interceptor makes each of its operations one step.
\<close>

section \<open>Controllers\<close>

record controller =
  ct_info :: intercept_info
  ct_ctx :: nat

record contexts =
  cx_next :: nat
  cx_cancelled :: "nat list"

type_synonym controller_map = "(string \<times> controller) list"

definition controller_isHTTP :: "controller \<Rightarrow> bool" where
  "controller_isHTTP ic =
     (let spec = ii_spec (ct_info ic) in 0 < length (sp_header_filters spec) \<or> 0 < length (sp_path_filters spec))"

definition sorted_controllers :: "controller_map \<Rightarrow> controller list" where
  "sorted_controllers im = map (\<lambda>k. the (map_of im k)) (SortedKeys im)"

definition sortedInfos :: "controller_map \<Rightarrow> intercept_info list" where
  "sortedInfos im = map (\<lambda>k. ct_info (the (map_of im k))) (SortedKeys im)"

definition reconcile_info :: "intercept_info \<Rightarrow> contexts \<times> controller_map \<Rightarrow> contexts \<times> controller_map" where
  "reconcile_info ii st =
     (case st of (cx, im) \<Rightarrow>
        (case map_of im (ii_id ii) of
           Some ic \<Rightarrow> (cx, AList.update (ii_id ii) (ic\<lparr>ct_info := ii\<rparr>) im)
         | None \<Rightarrow> (cx\<lparr>cx_next := cx_next cx + 1\<rparr>,
                    AList.update (ii_id ii) \<lparr>ct_info = ii, ct_ctx = cx_next cx\<rparr> im)))"

definition reconcile :: "intercept_info list \<Rightarrow> contexts \<times> controller_map \<Rightarrow> contexts \<times> controller_map" where
  "reconcile iis st =
     (case fold reconcile_info iis st of (cx, im) \<Rightarrow>
        (let icm = map ii_id iis;
             gone = filter (\<lambda>(k, ic). k \<notin> set icm) im
         in (cx\<lparr>cx_cancelled := cx_cancelled cx @ map (\<lambda>(k, ic). ct_ctx ic) gone\<rparr>,
             filter (\<lambda>(k, ic). k \<in> set icm) im)))"

definition global_controller :: "controller_map \<Rightarrow> string + controller option" where
  "global_controller im =
     (if 1 < length im then Inl ''multiple intercepts found when requesting the global intercept''
      else (case im of (k, ic) # _ \<Rightarrow> Inr (Some ic) | [] \<Rightarrow> Inr None))"

definition controllers_isHTTP :: "controller_map \<Rightarrow> bool" where
  "controllers_isHTTP im = list_ex (\<lambda>(k, ic). controller_isHTTP ic) im"

section \<open>Interceptors\<close>

text \<open>
  The fields of \<open>interceptor\<close> and of the \<open>tcp\<close> that embeds it. The listener switch exists once \<open>Serve\<close>
  has started; \<open>True\<close> sends connections to the secondary listener, which serves HTTP.
\<close>

record interceptor =
  fw_listen :: port_and_proto
  fw_target :: addr_port
  fw_tlsManager :: bool
  fw_streamProvider :: bool
  fw_wiretaps :: controller_map
  fw_intercepts :: controller_map
  fw_listenerSwitch :: "bool option"
  fw_contexts :: contexts

definition newInterceptor :: "port_and_proto \<Rightarrow> bool \<Rightarrow> addr_port \<Rightarrow> interceptor" where
  "newInterceptor listenPort tls target =
     \<lparr>fw_listen = listenPort, fw_target = target, fw_tlsManager = tls, fw_streamProvider = False,
      fw_wiretaps = [], fw_intercepts = [], fw_listenerSwitch = None,
      fw_contexts = \<lparr>cx_next = 0, cx_cancelled = []\<rparr>\<rparr>"

definition NewTCPInterceptor :: "port_and_proto \<Rightarrow> bool \<Rightarrow> addr_port \<Rightarrow> interceptor" where
  "NewTCPInterceptor listenPort tls target = newInterceptor listenPort tls target"

definition newUDP :: "port_and_proto \<Rightarrow> addr_port \<Rightarrow> interceptor" where
  "newUDP listenPort target = newInterceptor listenPort False target"

definition NewInterceptor :: "port_and_proto \<Rightarrow> addr_port \<Rightarrow> interceptor option" where
  "NewInterceptor from target =
     (if Proto from = ProtoTCP then Some (NewTCPInterceptor from False target)
      else if Proto from = ProtoUDP then Some (newUDP from target)
      else None)"

definition SetStreamProvider :: "interceptor \<Rightarrow> interceptor" where
  "SetStreamProvider f = f\<lparr>fw_streamProvider := True\<rparr>"

definition InterceptInfos :: "interceptor \<Rightarrow> intercept_info list" where
  "InterceptInfos f = sortedInfos (fw_intercepts f)"

definition WiretapInfos :: "interceptor \<Rightarrow> intercept_info list" where
  "WiretapInfos f = sortedInfos (fw_wiretaps f)"

definition interceptor_SetIntercepting :: "intercept_info list \<Rightarrow> interceptor \<Rightarrow> interceptor" where
  "interceptor_SetIntercepting infos f =
     (case reconcile infos (fw_contexts f, fw_intercepts f) of (cx, im) \<Rightarrow>
        f\<lparr>fw_intercepts := im, fw_contexts := cx\<rparr>)"

definition interceptor_SetWiretapping :: "intercept_info list \<Rightarrow> interceptor \<Rightarrow> interceptor" where
  "interceptor_SetWiretapping infos f =
     (case reconcile infos (fw_contexts f, fw_wiretaps f) of (cx, im) \<Rightarrow>
        f\<lparr>fw_wiretaps := im, fw_contexts := cx\<rparr>)"

definition tcp_IsHTTP :: "interceptor \<Rightarrow> bool" where
  "tcp_IsHTTP f \<longleftrightarrow> controllers_isHTTP (fw_intercepts f) \<or> controllers_isHTTP (fw_wiretaps f)"

definition setListenerSwitch :: "interceptor \<Rightarrow> interceptor" where
  "setListenerSwitch f =
     (case fw_listenerSwitch f of
        Some _ \<Rightarrow> f\<lparr>fw_listenerSwitch := Some (tcp_IsHTTP f)\<rparr>
      | None \<Rightarrow> f)"

definition tcp_SetIntercepting :: "intercept_info list \<Rightarrow> interceptor \<Rightarrow> interceptor" where
  "tcp_SetIntercepting infos f = setListenerSwitch (interceptor_SetIntercepting infos f)"

definition tcp_SetWiretapping :: "intercept_info list \<Rightarrow> interceptor \<Rightarrow> interceptor" where
  "tcp_SetWiretapping infos f = setListenerSwitch (interceptor_SetWiretapping infos f)"

text \<open>\<open>Serve\<close> of the TCP interceptor makes the switch, which is off, and sets it.\<close>

definition tcp_Serve :: "interceptor \<Rightarrow> interceptor" where
  "tcp_Serve f = setListenerSwitch (f\<lparr>fw_listenerSwitch := Some False\<rparr>)"

text \<open>The methods of the interface, by the type that \<open>NewInterceptor\<close> chose.\<close>

definition SetIntercepting :: "intercept_info list \<Rightarrow> interceptor \<Rightarrow> interceptor" where
  "SetIntercepting infos f =
     (if Proto (fw_listen f) = ProtoTCP then tcp_SetIntercepting infos f else interceptor_SetIntercepting infos f)"

definition SetWiretapping :: "intercept_info list \<Rightarrow> interceptor \<Rightarrow> interceptor" where
  "SetWiretapping infos f =
     (if Proto (fw_listen f) = ProtoTCP then tcp_SetWiretapping infos f else interceptor_SetWiretapping infos f)"

definition IsHTTP :: "interceptor \<Rightarrow> bool" where
  "IsHTTP f \<longleftrightarrow> Proto (fw_listen f) = ProtoTCP \<and> tcp_IsHTTP f"

section \<open>Connections\<close>

datatype tcp_route =
    is_RouteError: RouteError string
  | RouteClient "controller list" controller
  | RouteTarget "controller list"

definition route_client :: "tcp_route \<Rightarrow> controller option" where
  "route_client r = (case r of RouteClient taps ic \<Rightarrow> Some ic | _ \<Rightarrow> None)"

definition tcp_Forward :: "interceptor \<Rightarrow> tcp_route" where
  "tcp_Forward f =
     (case global_controller (fw_intercepts f) of
        Inl err \<Rightarrow> RouteError err
      | Inr ic \<Rightarrow>
          (let taps = (if 0 < ap_port (fw_target f) then sorted_controllers (fw_wiretaps f) else []) in
           case ic of Some c \<Rightarrow> RouteClient taps c | None \<Rightarrow> RouteTarget taps))"

definition udp_Forward :: "interceptor \<Rightarrow> tcp_route" where
  "udp_Forward f =
     (case global_controller (fw_intercepts f) of
        Inl err \<Rightarrow> RouteError err
      | Inr (Some c) \<Rightarrow> RouteClient [] c
      | Inr None \<Rightarrow> RouteTarget [])"

datatype stream_error = ErrTargetAddress string | ErrClientStream string

definition iputil_ParseAddr :: "(string \<Rightarrow> addr option) \<Rightarrow> string \<Rightarrow> addr option" where
  "iputil_ParseAddr parse_addr s = map_option unmap (parse_addr s)"

text \<open>
  A stream to the client; \<open>parse_addr\<close> is \<open>netip.ParseAddr\<close> and \<open>provider\<close> the stream provider. The outer
  \<open>None\<close> is the panic of \<open>NewConnID\<close>.
\<close>

definition createStream ::
    "(string \<Rightarrow> addr option) \<Rightarrow> (string \<Rightarrow> conn_id \<Rightarrow> i64 \<Rightarrow> i64 \<Rightarrow> string + 'st) \<Rightarrow> addr_port \<Rightarrow> intercept_info
     \<Rightarrow> (stream_error + 'st) option" where
  "createStream parse_addr provider src ii =
     (let spec = ii_spec ii in
      case iputil_ParseAddr parse_addr (sp_target_host spec) of
        None \<Rightarrow> Some (Inl (ErrTargetAddress (sp_target_host spec)))
      | Some ip \<Rightarrow>
          (case NewConnID ProtoTCP src \<lparr>ap_addr = ip, ap_port = ucast (sp_target_port spec)\<rparr> of
             None \<Rightarrow> None
           | Some cid \<Rightarrow>
               (case provider (si_session_id (ii_client_session ii)) cid (sp_roundtrip_latency spec) (sp_dial_timeout spec) of
                  Inl err \<Rightarrow> Some (Inl (ErrClientStream err))
                | Inr s \<Rightarrow> Some (Inr s))))"

text \<open>
  Serving a connection through a controller, given the error of \<open>createStream\<close> if it has one: then the
  context of the controller is cancelled and the connection ends with the error.
\<close>

definition tcp_interceptConn :: "stream_error option \<Rightarrow> controller \<Rightarrow> interceptor \<Rightarrow> interceptor \<times> stream_error option" where
  "tcp_interceptConn err ic f =
     (case err of
        Some e \<Rightarrow> (f\<lparr>fw_contexts := (fw_contexts f)\<lparr>cx_cancelled := cx_cancelled (fw_contexts f) @ [ct_ctx ic]\<rparr>\<rparr>, Some e)
      | None \<Rightarrow> (f, None))"

section \<open>Requests\<close>

record http_request =
  hr_Path :: string
  hr_Header :: http_header

definition request_Matches :: "regexps \<Rightarrow> request \<Rightarrow> http_request \<Rightarrow> bool" where
  "request_Matches rx r req = MatchesPathAndHeader rx r (hr_Path req) (hr_Header req)"

definition shouldInterceptRequest ::
    "regexps \<Rightarrow> http_request \<Rightarrow> (string \<times> string) list \<Rightarrow> string list \<Rightarrow> bool" where
  "shouldInterceptRequest rx req headerFilters pathFilters =
     request_Matches rx (NewRequest rx pathFilters headerFilters) req"

definition should_intercept :: "regexps \<Rightarrow> http_request \<Rightarrow> controller \<Rightarrow> bool" where
  "should_intercept rx req ic =
     (let spec = ii_spec (ct_info ic) in shouldInterceptRequest rx req (sp_header_filters spec) (sp_path_filters spec))"

text \<open>
  The wiretaps that get the request and the controller that serves it; without one the default handler
  does. \<open>tap_fails\<close> tells whether the header of the request cannot be written to the taps.
\<close>

definition handleHTTPRequest ::
    "regexps \<Rightarrow> bool \<Rightarrow> http_request \<Rightarrow> interceptor \<Rightarrow> controller list \<times> controller option" where
  "handleHTTPRequest rx tap_fails req f =
     (let wts = filter (should_intercept rx req) (sorted_controllers (fw_wiretaps f));
          intercepts = sorted_controllers (fw_intercepts f);
          taps = (if tap_fails then [] else wts)
      in case find (\<lambda>ic. 0 < length (sp_header_filters (ii_spec (ct_info ic))) \<and> should_intercept rx req ic) intercepts of
           Some ic \<Rightarrow> (taps, Some ic)
         | None \<Rightarrow>
             (taps, find (\<lambda>ic. length (sp_header_filters (ii_spec (ct_info ic))) = 0
                             \<and> 0 < length (sp_path_filters (ii_spec (ct_info ic))) \<and> should_intercept rx req ic) intercepts))"

section \<open>The controllers after a reconciliation\<close>

definition infos_of :: "controller_map \<Rightarrow> string \<Rightarrow> intercept_info option" where
  "infos_of im k = map_option ct_info (map_of im k)"

text \<open>The map that a list of intercepts stands for; of two with the same identifier the last one counts.\<close>

definition info_map :: "intercept_info list \<Rightarrow> string \<Rightarrow> intercept_info option" where
  "info_map iis = map_of (rev (map (\<lambda>ii. (ii_id ii, ii)) iis))"

definition controllers_wf :: "contexts \<Rightarrow> controller_map \<Rightarrow> bool" where
  "controllers_wf cx im \<longleftrightarrow> maps_wf im \<and> distinct (map (ct_ctx \<circ> snd) im)
     \<and> list_all (\<lambda>(k, ic). ii_id (ct_info ic) = k \<and> ct_ctx ic < cx_next cx) im"

lemma controllers_wf_Nil [simp]: "controllers_wf cx []"
  by (simp add: controllers_wf_def maps_wf_def)

lemma map_ctx_update_same:
  "map_of im k = Some ic \<Longrightarrow> map (ct_ctx \<circ> snd) (AList.update k (ic\<lparr>ct_info := ii\<rparr>) im) = map (ct_ctx \<circ> snd) im"
  by (induction im) (auto split: if_splits)

lemma set_update_iff:
  "maps_wf im \<Longrightarrow> (k', v') \<in> set (AList.update k v im) \<longleftrightarrow> (if k' = k then v' = v else (k', v') \<in> set im)"
  by (induction im) (auto simp: maps_wf_def rev_image_eqI split: if_splits)

lemma reconcile_info_step:
  assumes "controllers_wf cx im" and "reconcile_info ii (cx, im) = (cx', im')"
  shows "controllers_wf cx' im' \<and> infos_of im' = (infos_of im)(ii_id ii \<mapsto> ii)
    \<and> cx_cancelled cx' = cx_cancelled cx \<and> cx_next cx \<le> cx_next cx'
    \<and> (\<forall>k. case map_of im k of Some ic \<Rightarrow> map_option ct_ctx (map_of im' k) = Some (ct_ctx ic)
            | None \<Rightarrow> (\<forall>ic'. map_of im' k = Some ic' \<longrightarrow> cx_next cx \<le> ct_ctx ic'))"
proof (cases "map_of im (ii_id ii)")
  case None
  with assms(2) have e: "cx' = cx\<lparr>cx_next := cx_next cx + 1\<rparr>" "im' = im @ [(ii_id ii, \<lparr>ct_info = ii, ct_ctx = cx_next cx\<rparr>)]"
    by (simp_all add: reconcile_info_def update_fresh map_of_eq_None_iff)
  have "ii_id ii \<notin> fst ` set im" using None by (simp add: map_of_eq_None_iff)
  with assms(1) have "controllers_wf cx' im'"
    by (fastforce simp: e controllers_wf_def maps_wf_def list_all_iff)
  with None e show ?thesis
    by (auto simp: infos_of_def fun_eq_iff map_add_def split: option.splits)
next
  case (Some ic)
  with assms(2) have e: "cx' = cx" "im' = AList.update (ii_id ii) (ic\<lparr>ct_info := ii\<rparr>) im"
    by (simp_all add: reconcile_info_def)
  have wf: "maps_wf im" using assms(1) by (simp add: controllers_wf_def)
  have "(ii_id ii, ic) \<in> set im" using Some by (rule map_of_SomeD)
  then have "ct_ctx ic < cx_next cx" using assms(1) by (auto simp: controllers_wf_def list_all_iff)
  with assms(1) have "controllers_wf cx im'"
    by (auto simp: e controllers_wf_def map_ctx_update_same [OF Some] list_all_iff set_update_iff [OF wf] maps_wf_def
        distinct_update split: if_splits)
  with Some e show ?thesis by (auto simp: infos_of_def fun_eq_iff split: option.splits)
qed

lemma fold_reconcile_info:
  "controllers_wf cx im \<Longrightarrow> fold reconcile_info iis (cx, im) = (cx', im') \<Longrightarrow>
     controllers_wf cx' im' \<and> infos_of im' = infos_of im ++ info_map iis
     \<and> cx_cancelled cx' = cx_cancelled cx \<and> cx_next cx \<le> cx_next cx'
     \<and> (\<forall>k. case map_of im k of Some ic \<Rightarrow> map_option ct_ctx (map_of im' k) = Some (ct_ctx ic)
             | None \<Rightarrow> (\<forall>ic'. map_of im' k = Some ic' \<longrightarrow> cx_next cx \<le> ct_ctx ic'))"
proof (induction iis arbitrary: cx im)
  case Nil
  then show ?case by (auto simp: info_map_def split: option.splits)
next
  case (Cons ii iis)
  obtain cx1 im1 where r: "reconcile_info ii (cx, im) = (cx1, im1)" by fastforce
  note s = reconcile_info_step [OF Cons.prems(1) r]
  from Cons.prems(2) r have "fold reconcile_info iis (cx1, im1) = (cx', im')" by simp
  note f = Cons.IH [OF conjunct1 [OF s] this]
  have "infos_of im' = infos_of im ++ info_map (ii # iis)"
    using s f by (simp add: info_map_def map_add_assoc [symmetric] map_add_upd map_add_def fun_eq_iff split: option.splits)
  moreover have "case map_of im k of Some ic \<Rightarrow> map_option ct_ctx (map_of im' k) = Some (ct_ctx ic)
             | None \<Rightarrow> (\<forall>ic'. map_of im' k = Some ic' \<longrightarrow> cx_next cx \<le> ct_ctx ic')" for k
  proof -
    from s have s': "case map_of im k of Some ic \<Rightarrow> map_option ct_ctx (map_of im1 k) = Some (ct_ctx ic)
             | None \<Rightarrow> (\<forall>ic'. map_of im1 k = Some ic' \<longrightarrow> cx_next cx \<le> ct_ctx ic')" "cx_next cx \<le> cx_next cx1" by blast+
    from f have f': "case map_of im1 k of Some ic \<Rightarrow> map_option ct_ctx (map_of im' k) = Some (ct_ctx ic)
             | None \<Rightarrow> (\<forall>ic'. map_of im' k = Some ic' \<longrightarrow> cx_next cx1 \<le> ct_ctx ic')" by blast
    from s' f' show ?thesis by (cases "map_of im k"; cases "map_of im1 k") auto
  qed
  ultimately show ?case using s f by (simp add: le_trans)
qed

lemma info_map_None: "info_map iis k = None \<longleftrightarrow> k \<notin> ii_id ` set iis"
  by (simp add: info_map_def map_of_eq_None_iff image_image)

lemma infos_of_None: "infos_of im k = None \<longleftrightarrow> map_of im k = None"
  by (simp add: infos_of_def)

lemma controllers_wf_filter:
  "controllers_wf cx im \<Longrightarrow> controllers_wf cx (filter P im)"
  by (auto simp: controllers_wf_def maps_wf_def distinct_keys_filter list_all_iff distinct_map inj_on_def)

lemma controllers_wf_cancel [simp]: "controllers_wf (cx\<lparr>cx_cancelled := c\<rparr>) im = controllers_wf cx im"
  by (simp add: controllers_wf_def)

lemma controllers_wf_mono: "controllers_wf cx im \<Longrightarrow> cx_next cx \<le> cx_next cx' \<Longrightarrow> controllers_wf cx' im"
  by (fastforce simp: controllers_wf_def list_all_iff)

text \<open>
  The reconciled map holds exactly the intercepts given; a controller that stays keeps its context, a
  new one has a context that no controller had before, and those that go are cancelled.
\<close>

lemma reconcile_result:
  assumes "controllers_wf cx im" and "reconcile iis (cx, im) = (cx', im')"
  shows "controllers_wf cx' im'" and "infos_of im' = info_map iis" and "cx_next cx \<le> cx_next cx'"
    and "map_of im' k = Some ic' \<Longrightarrow>
           (case map_of im k of Some ic \<Rightarrow> ct_ctx ic' = ct_ctx ic | None \<Rightarrow> cx_next cx \<le> ct_ctx ic')"
    and "set (cx_cancelled cx') = set (cx_cancelled cx) \<union> {ct_ctx ic |ic k. map_of im k = Some ic \<and> k \<notin> ii_id ` set iis}"
proof -
  obtain cx1 im1 where f: "fold reconcile_info iis (cx, im) = (cx1, im1)" by fastforce
  note r = fold_reconcile_info [OF assms(1) f]
  from assms(2) f have cx': "cx' = cx1\<lparr>cx_cancelled := cx_cancelled cx1 @
      map (\<lambda>(k, ic). ct_ctx ic) (filter (\<lambda>(k, ic). k \<notin> set (map ii_id iis)) im1)\<rparr>"
    and im': "im' = filter (\<lambda>(k, ic). k \<in> set (map ii_id iis)) im1"
    by (simp_all add: reconcile_def Let_def)
  have wf1: "controllers_wf cx1 im1" using r by blast
  then have d: "distinct (map fst im1)" by (simp add: controllers_wf_def maps_wf_def)
  have look: "map_of im' k = (if k \<in> ii_id ` set iis then map_of im1 k else None)" for k
    by (simp add: im' map_of_filter_distinct [OF d] split: option.splits)
  show "controllers_wf cx' im'" by (simp add: cx' im' controllers_wf_filter [OF wf1])
  show "cx_next cx \<le> cx_next cx'" using r by (simp add: cx')
  have inf1: "infos_of im1 = infos_of im ++ info_map iis" using r by blast
  show "infos_of im' = info_map iis"
  proof
    fix k
    show "infos_of im' k = info_map iis k"
      using info_map_None [of iis k] fun_cong [OF inf1, of k]
      by (cases "k \<in> ii_id ` set iis") (auto simp: infos_of_def look map_add_def split: option.splits)
  qed
  have ctx: "case map_of im k of Some ic \<Rightarrow> map_option ct_ctx (map_of im1 k) = Some (ct_ctx ic)
             | None \<Rightarrow> (\<forall>ic'. map_of im1 k = Some ic' \<longrightarrow> cx_next cx \<le> ct_ctx ic')" for k using r by blast
  show "map_of im' k = Some ic' \<Longrightarrow>
           (case map_of im k of Some ic \<Rightarrow> ct_ctx ic' = ct_ctx ic | None \<Rightarrow> cx_next cx \<le> ct_ctx ic')"
    using ctx [of k] by (auto simp: look split: option.splits if_splits)
  have same: "map_option ct_ctx (map_of im1 k) = map_option ct_ctx (map_of im k)" if "k \<notin> ii_id ` set iis" for k
    using ctx [of k] fun_cong [OF inf1, of k] that info_map_None [of iis k]
    by (cases "map_of im k") (auto simp: infos_of_def map_add_def)
  have "{ct_ctx ic |ic k. map_of im1 k = Some ic \<and> k \<notin> ii_id ` set iis} =
      {ct_ctx ic |ic k. map_of im k = Some ic \<and> k \<notin> ii_id ` set iis}"
    using same by (auto simp: set_eq_iff) (metis (no_types) map_option_eq_Some)+
  moreover have "ct_ctx ` {ic. \<exists>k. (k, ic) \<in> set im1 \<and> k \<notin> ii_id ` set iis} =
      {ct_ctx ic |ic k. map_of im1 k = Some ic \<and> k \<notin> ii_id ` set iis}"
    using map_of_eq_Some_iff [OF d] by blast
  moreover have "set (map (\<lambda>(k, ic). ct_ctx ic) (filter (\<lambda>(k, ic). k \<notin> set (map ii_id iis)) im1)) =
      ct_ctx ` {ic. \<exists>k. (k, ic) \<in> set im1 \<and> k \<notin> ii_id ` set iis}"
    by force
  ultimately show "set (cx_cancelled cx') = set (cx_cancelled cx) \<union> {ct_ctx ic |ic k. map_of im k = Some ic \<and> k \<notin> ii_id ` set iis}"
    using r by (simp add: cx')
qed

section \<open>The interface of an interceptor\<close>

text \<open>
  What the agent relies on when it sets the intercepts and wiretaps of a port, for both kinds of
  interceptors.
\<close>

locale port_forwarder =
  fixes set_intercepting :: "intercept_info list \<Rightarrow> 'f \<Rightarrow> 'f"
    and set_wiretapping :: "intercept_info list \<Rightarrow> 'f \<Rightarrow> 'f"
    and intercepting :: "'f \<Rightarrow> string \<Rightarrow> intercept_info option"
    and wiretapping :: "'f \<Rightarrow> string \<Rightarrow> intercept_info option"
    and good :: "'f \<Rightarrow> bool"
  assumes good_set_intercepting: "good f \<Longrightarrow> good (set_intercepting iis f)"
    and good_set_wiretapping: "good f \<Longrightarrow> good (set_wiretapping iis f)"
    and intercepting_set: "good f \<Longrightarrow> intercepting (set_intercepting iis f) = info_map iis"
    and wiretapping_set: "good f \<Longrightarrow> wiretapping (set_wiretapping iis f) = info_map iis"
    and wiretapping_kept: "good f \<Longrightarrow> wiretapping (set_intercepting iis f) = wiretapping f"
    and intercepting_kept: "good f \<Longrightarrow> intercepting (set_wiretapping iis f) = intercepting f"
begin

definition forward :: "intercept_info list \<Rightarrow> 'f \<Rightarrow> 'f" where
  "forward active f =
     set_intercepting (filter (\<lambda>ii. \<not> sp_wiretap (ii_spec ii)) active)
       (set_wiretapping (filter (\<lambda>ii. sp_wiretap (ii_spec ii)) active) f)"

lemma good_forward: "good f \<Longrightarrow> good (forward active f)"
  by (simp add: forward_def good_set_intercepting good_set_wiretapping)

lemma intercepting_forward:
  "good f \<Longrightarrow> intercepting (forward active f) = info_map (filter (\<lambda>ii. \<not> sp_wiretap (ii_spec ii)) active)"
  by (simp add: forward_def intercepting_set good_set_wiretapping)

lemma wiretapping_forward:
  "good f \<Longrightarrow> wiretapping (forward active f) = info_map (filter (\<lambda>ii. sp_wiretap (ii_spec ii)) active)"
  by (simp add: forward_def wiretapping_kept wiretapping_set good_set_wiretapping)

text \<open>Only the last list of active intercepts counts.\<close>

lemma forward_forgets:
  "good f \<Longrightarrow> intercepting (forward active (forward before f)) = intercepting (forward active f)
     \<and> wiretapping (forward active (forward before f)) = wiretapping (forward active f)"
  by (simp add: intercepting_forward wiretapping_forward good_forward)

end

definition contexts_of :: "controller_map \<Rightarrow> nat set" where
  "contexts_of im = (ct_ctx \<circ> snd) ` set im"

definition interceptor_wf :: "interceptor \<Rightarrow> bool" where
  "interceptor_wf f \<longleftrightarrow> controllers_wf (fw_contexts f) (fw_intercepts f) \<and> controllers_wf (fw_contexts f) (fw_wiretaps f)
     \<and> contexts_of (fw_intercepts f) \<inter> contexts_of (fw_wiretaps f) = {}
     \<and> (case fw_listenerSwitch f of None \<Rightarrow> True | Some b \<Rightarrow> b = tcp_IsHTTP f \<and> Proto (fw_listen f) = ProtoTCP)"

definition intercepting :: "interceptor \<Rightarrow> string \<Rightarrow> intercept_info option" where
  "intercepting f = infos_of (fw_intercepts f)"

definition wiretapping :: "interceptor \<Rightarrow> string \<Rightarrow> intercept_info option" where
  "wiretapping f = infos_of (fw_wiretaps f)"

lemma contexts_of_reconcile:
  assumes "controllers_wf cx im" and "reconcile iis (cx, im) = (cx', im')" and "c \<in> contexts_of im'"
  shows "c \<in> contexts_of im \<or> cx_next cx \<le> c"
proof -
  note r = reconcile_result [OF assms(1,2)]
  from assms(3) obtain k ic' where "(k, ic') \<in> set im'" and c: "c = ct_ctx ic'" by (auto simp: contexts_of_def)
  with r(1) have "map_of im' k = Some ic'" by (simp add: controllers_wf_def maps_wf_def)
  from r(4) [OF this] show ?thesis
    by (auto simp: c contexts_of_def split: option.splits dest!: map_of_SomeD) (metis (no_types) image_eqI comp_apply snd_conv)
qed

lemma contexts_of_less: "controllers_wf cx im \<Longrightarrow> c \<in> contexts_of im \<Longrightarrow> c < cx_next cx"
  by (auto simp: controllers_wf_def contexts_of_def list_all_iff)

lemma reconcile_disjoint:
  assumes "controllers_wf cx im" and "controllers_wf cx im2" and "contexts_of im \<inter> contexts_of im2 = {}"
    and "reconcile iis (cx, im) = (cx', im')"
  shows "controllers_wf cx' im2 \<and> contexts_of im' \<inter> contexts_of im2 = {}"
proof
  show "controllers_wf cx' im2" using controllers_wf_mono [OF assms(2)] reconcile_result(3) [OF assms(1,4)] .
  show "contexts_of im' \<inter> contexts_of im2 = {}"
    using contexts_of_reconcile [OF assms(1,4)] contexts_of_less [OF assms(2)] assms(3) by fastforce
qed

lemma tcp_IsHTTP_switch [simp]: "tcp_IsHTTP (f\<lparr>fw_listenerSwitch := b\<rparr>) = tcp_IsHTTP f"
  by (simp add: tcp_IsHTTP_def)

lemma setListenerSwitch_simps [simp]:
  "fw_intercepts (setListenerSwitch f) = fw_intercepts f" "fw_wiretaps (setListenerSwitch f) = fw_wiretaps f"
  "fw_contexts (setListenerSwitch f) = fw_contexts f" "fw_listen (setListenerSwitch f) = fw_listen f"
  "fw_target (setListenerSwitch f) = fw_target f" "tcp_IsHTTP (setListenerSwitch f) = tcp_IsHTTP f"
  "fw_listenerSwitch (setListenerSwitch f) = map_option (\<lambda>_. tcp_IsHTTP f) (fw_listenerSwitch f)"
  by (simp_all add: setListenerSwitch_def split: option.splits)

lemma SetIntercepting_result:
  assumes "interceptor_wf f"
  shows "interceptor_wf (SetIntercepting iis f) \<and> intercepting (SetIntercepting iis f) = info_map iis
    \<and> fw_wiretaps (SetIntercepting iis f) = fw_wiretaps f"
proof -
  obtain cx im where r: "reconcile iis (fw_contexts f, fw_intercepts f) = (cx, im)" by fastforce
  from assms have wf: "controllers_wf (fw_contexts f) (fw_intercepts f)" "controllers_wf (fw_contexts f) (fw_wiretaps f)"
    "contexts_of (fw_intercepts f) \<inter> contexts_of (fw_wiretaps f) = {}" by (simp_all add: interceptor_wf_def)
  show ?thesis
    using assms reconcile_result(1,2) [OF wf(1) r] reconcile_disjoint [OF wf r]
    by (auto simp: interceptor_wf_def SetIntercepting_def tcp_SetIntercepting_def interceptor_SetIntercepting_def
        intercepting_def r split: option.splits)
qed

lemma SetWiretapping_result:
  assumes "interceptor_wf f"
  shows "interceptor_wf (SetWiretapping iis f) \<and> wiretapping (SetWiretapping iis f) = info_map iis
    \<and> fw_intercepts (SetWiretapping iis f) = fw_intercepts f"
proof -
  obtain cx im where r: "reconcile iis (fw_contexts f, fw_wiretaps f) = (cx, im)" by fastforce
  from assms have wf: "controllers_wf (fw_contexts f) (fw_wiretaps f)" "controllers_wf (fw_contexts f) (fw_intercepts f)"
    "contexts_of (fw_wiretaps f) \<inter> contexts_of (fw_intercepts f) = {}" by (simp_all add: interceptor_wf_def Int_commute)
  show ?thesis
    using assms reconcile_result(1,2) [OF wf(1) r] reconcile_disjoint [OF wf r]
    by (auto simp: interceptor_wf_def SetWiretapping_def tcp_SetWiretapping_def interceptor_SetWiretapping_def
        wiretapping_def r split: option.splits)
qed

lemma NewInterceptor_wf: "NewInterceptor from target = Some f \<Longrightarrow> interceptor_wf f"
  by (auto simp: NewInterceptor_def NewTCPInterceptor_def newUDP_def newInterceptor_def interceptor_wf_def contexts_of_def
      split: if_splits)

lemma SetStreamProvider_wf: "interceptor_wf f \<Longrightarrow> interceptor_wf (SetStreamProvider f)"
  by (simp add: SetStreamProvider_def interceptor_wf_def tcp_IsHTTP_def split: option.splits)

lemma interceptConn_wf: "interceptor_wf f \<Longrightarrow> interceptor_wf (fst (tcp_interceptConn err ic f))"
  by (simp add: tcp_interceptConn_def interceptor_wf_def tcp_IsHTTP_def split: option.splits sum.splits)

lemma tcp_Serve_wf: "interceptor_wf f \<Longrightarrow> Proto (fw_listen f) = ProtoTCP \<Longrightarrow> interceptor_wf (tcp_Serve f)"
  by (simp add: tcp_Serve_def interceptor_wf_def)

interpretation fwd: port_forwarder SetIntercepting SetWiretapping intercepting wiretapping interceptor_wf
  using SetIntercepting_result SetWiretapping_result
  by unfold_locales (simp_all add: intercepting_def wiretapping_def)

section \<open>Routing\<close>

lemma set_sorted_controllers: "maps_wf im \<Longrightarrow> set (sorted_controllers im) = snd ` set im"
  by (force simp: sorted_controllers_def SortedKeys_def KeySlice_def maps_wf_def)

lemma sortedInfos_eq: "sortedInfos im = map ct_info (sorted_controllers im)"
  by (simp add: sortedInfos_def sorted_controllers_def)

lemma compatible_controllers:
  assumes "icept.compatible rx (sortedInfos im)" and "maps_wf im" and "(k, ic) \<in> set im" and "(k', ic') \<in> set im" and "k \<noteq> k'"
  shows "\<not> IsInConflict rx (ii_spec (ct_info ic)) (ii_spec (ct_info ic'))"
proof -
  have "map_of im k = Some ic" "map_of im k' = Some ic'" using assms(2-4) by (simp_all add: maps_wf_def)
  moreover have "k \<in> set (SortedKeys im)" "k' \<in> set (SortedKeys im)"
    using assms(3,4) by (force simp: SortedKeys_def KeySlice_def)+
  ultimately show ?thesis
    using icept.compatible_map [OF assms(1) [unfolded sortedInfos_def], of k k'] assms(5) by simp
qed

lemma should_intercept_iff:
  "should_intercept rx req ic \<longleftrightarrow>
     MatchesPathAndHeader rx (spec_request rx (ii_spec (ct_info ic))) (hr_Path req) (hr_Header req)"
  by (simp add: should_intercept_def shouldInterceptRequest_def request_Matches_def spec_request_def Let_def)

lemma header_names_empty: "header_names rx spec = {} \<longleftrightarrow> sp_header_filters spec = []"
  by (simp add: header_names_def req_headers_eq NewHeaders_empty)

lemma handleHTTPRequest_Some:
  assumes "handleHTTPRequest rx tf req f = (taps, Some ic)" and "maps_wf (fw_intercepts f)"
  shows "ic \<in> snd ` set (fw_intercepts f)" and "should_intercept rx req ic"
    and "sp_header_filters (ii_spec (ct_info ic)) = [] \<Longrightarrow> ic' \<in> snd ` set (fw_intercepts f) \<Longrightarrow> should_intercept rx req ic' \<Longrightarrow>
           sp_header_filters (ii_spec (ct_info ic')) = []"
  using assms(1)
  by (auto simp: handleHTTPRequest_def Let_def find_Some_iff find_None_iff simp flip: set_sorted_controllers [OF assms(2)]
      split: option.splits)

text \<open>Two controllers on the same header names do not both get a request.\<close>

lemma same_names_not_both:
  assumes "icept.compatible rx (sortedInfos im)" and "maps_wf im" and "\<forall>ii\<in>set (sortedInfos im). spec_law rx (ii_spec ii)"
    and "ic \<in> snd ` set im" and "ic' \<in> snd ` set im" and "ic \<noteq> ic'"
    and "header_names rx (ii_spec (ct_info ic)) = header_names rx (ii_spec (ct_info ic'))"
    and "should_intercept rx req ic"
  shows "\<not> should_intercept rx req ic'"
proof -
  from assms(4,5) obtain k k' where k: "(k, ic) \<in> set im" "(k', ic') \<in> set im" by auto
  with assms(2,6) have "k \<noteq> k'" by (metis eq_key_imp_eq_value maps_wf_def)
  from compatible_controllers [OF assms(1,2) k this]
  have "\<not> IsInConflict rx (ii_spec (ct_info ic)) (ii_spec (ct_info ic'))" .
  moreover have "spec_law rx (ii_spec (ct_info ic))" "spec_law rx (ii_spec (ct_info ic'))"
    using assms(3-5) by (auto simp: sortedInfos_eq set_sorted_controllers [OF assms(2)])
  ultimately show ?thesis
    using not_both_match assms(7,8) unfolding should_intercept_iff by blast
qed

lemma all_global_one:
  assumes "icept.compatible rx (sortedInfos im)" and "maps_wf im" and "\<not> controllers_isHTTP im"
  shows "length im \<le> 1"
proof (rule ccontr)
  assume "\<not> length im \<le> 1"
  then obtain p q r where im: "im = p # q # r" by (cases im rule: remdups_adj.cases) auto
  with assms(2) have "fst p \<noteq> fst q" by (simp add: maps_wf_def)
  from compatible_controllers [OF assms(1,2) _ _ this, of "snd p" "snd q"] im assms(3) show False
    by (cases p; cases q) (simp add: controllers_isHTTP_def controller_isHTTP_def IsInConflict_def Let_def)
qed

section \<open>Properties\<close>

text \<open>
  C16. Every operation keeps the interceptor well-formed: a controller is filed under the identifier of
  its intercept, no two controllers share a context, and once the listener switch exists it leads to
  HTTP exactly if an intercept or a wiretap has a filter; UDP interceptors have no switch.
\<close>

theorem interceptor_ops_wf:
  "(\<forall>g. NewInterceptor from target = Some g \<longrightarrow> interceptor_wf g)
   \<and> (interceptor_wf f \<longrightarrow>
        interceptor_wf (SetIntercepting iis f) \<and> interceptor_wf (SetWiretapping iis f)
        \<and> interceptor_wf (SetStreamProvider f) \<and> interceptor_wf (fst (tcp_interceptConn err ic f))
        \<and> (Proto (fw_listen f) = ProtoTCP \<longrightarrow> interceptor_wf (tcp_Serve f)))"
  by (intro conjI impI allI)
    (simp_all add: NewInterceptor_wf SetIntercepting_result SetWiretapping_result SetStreamProvider_wf interceptConn_wf tcp_Serve_wf)

theorem interceptor_ops_wf_witness:
  "let f = newInterceptor \<lparr>Port = 80, Proto = ProtoTCP\<rparr> False \<lparr>ap_addr = Addr4 1, ap_port = 8080\<rparr>
   in interceptor_wf f \<and> interceptor_wf (tcp_Serve f) \<and> interceptor_wf (SetIntercepting [zero_info] f)"
proof -
  let ?pp = "\<lparr>Port = 80, Proto = ProtoTCP\<rparr>" and ?t = "\<lparr>ap_addr = Addr4 1, ap_port = 8080\<rparr>"
  have n: "NewInterceptor ?pp ?t = Some (newInterceptor ?pp False ?t)"
    by (simp add: NewInterceptor_def NewTCPInterceptor_def)
  have p: "Proto (fw_listen (newInterceptor ?pp False ?t)) = ProtoTCP" by (simp add: newInterceptor_def)
  show ?thesis
    using interceptor_ops_wf [of ?pp ?t "newInterceptor ?pp False ?t" "[zero_info]" None undefined] n p
    by (simp add: Let_def)
qed


definition sample_info :: "string \<Rightarrow> bool \<Rightarrow> (string \<times> string) list \<Rightarrow> string list \<Rightarrow> intercept_info" where
  "sample_info i wt hs ps =
     zero_info\<lparr>ii_id := i, ii_disposition := ACTIVE,
       ii_spec := zero_spec\<lparr>sp_wiretap := wt, sp_header_filters := hs, sp_path_filters := ps\<rparr>\<rparr>"

definition sample_interceptor :: interceptor where
  "sample_interceptor = newInterceptor \<lparr>Port = 80, Proto = ProtoTCP\<rparr> False \<lparr>ap_addr = Addr4 1, ap_port = 8080\<rparr>"

lemma sample_info_id [simp]: "ii_id (sample_info i wt hs ps) = i"
  by (simp add: sample_info_def)

lemma sample_interceptor_wf: "interceptor_wf sample_interceptor"
  by (simp add: sample_interceptor_def newInterceptor_def interceptor_wf_def contexts_of_def)




text \<open>
  A connection that the listener switch gives to the TCP side finds at most one intercept: without
  filters, two active intercepts would be in conflict. But a filter on a wiretap switches the whole port to
  HTTP, and the HTTP side never serves an intercept without filters: the application gets its requests.
\<close>

lemma global_intercept_served:
  assumes "interceptor_wf f" and "icept.compatible rx (InterceptInfos f)" and "fw_listenerSwitch f = Some http"
  shows "(\<not> http \<longrightarrow> \<not> is_RouteError (tcp_Forward f)
           \<and> (\<forall>k ic. map_of (fw_intercepts f) k = Some ic \<longrightarrow> route_client (tcp_Forward f) = Some ic))
    \<and> (http \<and> \<not> controllers_isHTTP (fw_intercepts f) \<longrightarrow>
         controllers_isHTTP (fw_wiretaps f) \<and> snd (handleHTTPRequest rx tap_fails req f) = None)"
proof -
  have wf: "maps_wf (fw_intercepts f)" "http = tcp_IsHTTP f"
    using assms(1,3) by (simp_all add: interceptor_wf_def controllers_wf_def)
  have one: "length (fw_intercepts f) \<le> 1" if "\<not> controllers_isHTTP (fw_intercepts f)"
    using all_global_one [OF assms(2) [unfolded InterceptInfos_def] wf(1) that] .
  have "snd (handleHTTPRequest rx tap_fails req f) = None" if "\<not> controllers_isHTTP (fw_intercepts f)"
  proof -
    from that have "list_all (\<lambda>ic. \<not> controller_isHTTP ic) (sorted_controllers (fw_intercepts f))"
      by (force simp: list_all_iff set_sorted_controllers [OF wf(1)] controllers_isHTTP_def list_ex_iff)
    then have "find (\<lambda>ic. 0 < length (sp_header_filters (ii_spec (ct_info ic))) \<and> should_intercept rx req ic)
          (sorted_controllers (fw_intercepts f)) = None"
      "find (\<lambda>ic. length (sp_header_filters (ii_spec (ct_info ic))) = 0
          \<and> 0 < length (sp_path_filters (ii_spec (ct_info ic))) \<and> should_intercept rx req ic)
          (sorted_controllers (fw_intercepts f)) = None"
      by (auto simp: find_None_iff list_all_iff controller_isHTTP_def Let_def)
    then show ?thesis by (simp add: handleHTTPRequest_def Let_def)
  qed
  with one show ?thesis
    by (cases "fw_intercepts f" rule: remdups_adj.cases)
      (auto simp: wf(2) tcp_IsHTTP_def tcp_Forward_def global_controller_def route_client_def Let_def)
qed

section \<open>What goes wrong\<close>

text \<open>
  A TCP connection whose stream cannot be created cancels the context of its controller. The
  controller stays, with that context, as long as the intercept does, so that every later connection
  is served with a context that is cancelled.
\<close>

lemma failed_stream_stays_cancelled:
  assumes "interceptor_wf f" and "map_of (fw_intercepts f) k = Some ic" and "k \<in> ii_id ` set iis"
  shows "let f' = SetIntercepting iis (fst (tcp_interceptConn (Some err) ic f)) in
    \<exists>ic'. map_of (fw_intercepts f') k = Some ic' \<and> ct_ctx ic' \<in> set (cx_cancelled (fw_contexts f'))"
proof -
  let ?g = "fst (tcp_interceptConn (Some err) ic f)"
  obtain cx im where r: "reconcile iis (fw_contexts ?g, fw_intercepts ?g) = (cx, im)" by fastforce
  have g: "fw_intercepts ?g = fw_intercepts f" "ct_ctx ic \<in> set (cx_cancelled (fw_contexts ?g))"
    by (simp_all add: tcp_interceptConn_def)
  have "controllers_wf (fw_contexts ?g) (fw_intercepts ?g)"
    using interceptConn_wf [OF assms(1)] by (simp add: interceptor_wf_def)
  note res = reconcile_result [OF this r]
  from assms(3) info_map_None [of iis k] fun_cong [OF res(2), of k] obtain ic' where "map_of im k = Some ic'"
    by (auto simp: infos_of_def)
  moreover with res(4) [OF this] assms(2) g(1) have "ct_ctx ic' = ct_ctx ic" by simp
  moreover have "fw_intercepts (SetIntercepting iis ?g) = im" "fw_contexts (SetIntercepting iis ?g) = cx"
    by (simp_all add: SetIntercepting_def tcp_SetIntercepting_def interceptor_SetIntercepting_def r)
  ultimately show ?thesis using g(2) by (simp add: res(5) Let_def)
qed

end
