(* ===== verification/Agent_Review.thy ===== *)
theory Agent_Review
  imports Interceptors "HOL-Library.Monad_Syntax"
begin

text \<open>
  The state of the traffic agent and its review of the intercepts that the traffic manager announces,
  \<^verbatim>\<open>cmd/traffic/cmd/agent\<close> (\<^verbatim>\<open>fwdstate.go\<close>, \<^verbatim>\<open>state.go\<close>, \<^verbatim>\<open>containerstate.go\<close> and the setup in \<^verbatim>\<open>agent.go\<close>).
  The manager's side of a review is in the theory of its service.

  The text form of the pod's address is a parameter. \<open>None\<close> is a panic.
\<close>

section \<open>Text\<close>

text \<open>\<open>strconv.Quote\<close> for the format \<open>%q\<close>; bytes from 128 on belong to printable characters here.\<close>

definition quote_char :: "char \<Rightarrow> string" where
  "quote_char c =
     (let n = of_char c :: nat in
      if c = CHR 0x22 \<or> c = CHR 0x5C then [CHR 0x5C, c]
      else if n = 7 then [CHR 0x5C, CHR ''a''] else if n = 8 then [CHR 0x5C, CHR ''b'']
      else if n = 9 then [CHR 0x5C, CHR ''t''] else if n = 10 then [CHR 0x5C, CHR ''n'']
      else if n = 11 then [CHR 0x5C, CHR ''v''] else if n = 12 then [CHR 0x5C, CHR ''f'']
      else if n = 13 then [CHR 0x5C, CHR ''r'']
      else if n < 32 \<or> n = 127 then [CHR 0x5C, CHR ''x'', hex_digit (n div 16), hex_digit (n mod 16)]
      else [c])"

definition quote :: "string \<Rightarrow> string" where
  "quote s = [CHR 0x22] @ concat (map quote_char s) @ [CHR 0x22]"

section \<open>State\<close>

record container_state =
  cs_container :: container
  cs_mountPoint :: string
  cs_env :: "(string \<times> string) list"

record fwd_state =
  fs_intercept :: intercept_target
  fs_container :: string
  fs_forwarder :: interceptor

record agent_state =
  as_AgentConfig :: sidecar
  as_PodIP :: addr
  as_ftpPort :: u16
  as_sftpPort :: u16
  as_sessionInfo :: "session_info option"
  as_interceptStates :: "fwd_state list"
  as_containerStates :: "(string \<times> container_state) list"

definition NewState :: "sidecar \<Rightarrow> addr \<Rightarrow> agent_state" where
  "NewState config podIP =
     \<lparr>as_AgentConfig = config, as_PodIP = podIP, as_ftpPort = 0, as_sftpPort = 0, as_sessionInfo = None,
      as_interceptStates = [], as_containerStates = []\<rparr>"

definition SetFileSharingPorts :: "u16 \<Rightarrow> u16 \<Rightarrow> agent_state \<Rightarrow> agent_state" where
  "SetFileSharingPorts ftp sftp s = s\<lparr>as_ftpPort := ftp, as_sftpPort := sftp\<rparr>"

definition SetManager :: "session_info \<Rightarrow> agent_state \<Rightarrow> agent_state" where
  "SetManager sessionInfo s = s\<lparr>as_sessionInfo := Some sessionInfo\<rparr>"

definition AddInterceptState :: "fwd_state \<Rightarrow> agent_state \<Rightarrow> agent_state" where
  "AddInterceptState ist s = s\<lparr>as_interceptStates := as_interceptStates s @ [ist]\<rparr>"

definition AddContainerState :: "string \<Rightarrow> container_state \<Rightarrow> agent_state \<Rightarrow> agent_state" where
  "AddContainerState containerName cs s =
     s\<lparr>as_containerStates := AList.update containerName cs (as_containerStates s)\<rparr>"

definition NewContainerState :: "container \<Rightarrow> string \<Rightarrow> (string \<times> string) list \<Rightarrow> container_state" where
  "NewContainerState cn mountPoint env = \<lparr>cs_container = cn, cs_mountPoint = mountPoint, cs_env = env\<rparr>"

definition NewInterceptState :: "interceptor \<Rightarrow> intercept_target \<Rightarrow> string \<Rightarrow> fwd_state" where
  "NewInterceptState forwarder intercept container =
     \<lparr>fs_intercept = intercept, fs_container = container, fs_forwarder = forwarder\<rparr>"

section \<open>Setup\<close>

definition MakeInterceptStates :: "container \<Rightarrow> (port_and_proto \<times> intercept_target) list" where
  "MakeInterceptStates cn =
     fold (\<lambda>ic icStates.
             let ap = (if cn_Replace cn = ReplacePolicyContainer then ic_ContainerPort ic else ic_AgentPort ic);
                 k = \<lparr>Port = ap, Proto = ic_Protocol ic\<rparr>
             in AList.update k (go_lookup [] icStates k @ [ic]) icStates)
       (cn_Intercepts cn) []"

definition newPortHandler :: "agent_state \<Rightarrow> container_state \<Rightarrow> port_and_proto \<Rightarrow> intercept list \<Rightarrow> interceptor option" where
  "newPortHandler s c pp ics =
     (case ics of
        [] \<Rightarrow> None
      | ic # _ \<Rightarrow>
          if Proto pp = ProtoTCP \<and> cn_Replace (cs_container c) = ReplacePolicyIntercept then
            (let cp = InterceptorInactivePort (as_AgentConfig s) (ic_ContainerPort ic) (Proto pp) in
             Some (NewTCPInterceptor pp True \<lparr>ap_addr = as_PodIP s, ap_port = cp\<rparr>))
          else NewInterceptor pp \<lparr>ap_addr = NoAddr, ap_port = 0\<rparr>)"

definition AddPortHandler :: "container_state \<Rightarrow> port_and_proto \<Rightarrow> intercept_target \<Rightarrow> agent_state \<Rightarrow> agent_state option" where
  "AddPortHandler c pp it s =
     do {
       ph \<leftarrow> newPortHandler s c pp it;
       Some (AddInterceptState (NewInterceptState ph it (cn_Name (cs_container c))) s)
     }"

fun add_port_handlers :: "container_state \<Rightarrow> (port_and_proto \<times> intercept_target) list \<Rightarrow> agent_state \<Rightarrow> agent_state option" where
  "add_port_handlers cs [] s = Some s"
| "add_port_handlers cs ((pp, ics) # icStates) s =
     do { s' \<leftarrow> AddPortHandler cs pp ics s; add_port_handlers cs icStates s' }"

text \<open>The containers of the agent's info are a map of mount points and environments; a missing one is nil.\<close>

fun setup_containers ::
    "(string \<times> string \<times> (string \<times> string) list) list \<Rightarrow> container list \<Rightarrow> agent_state \<Rightarrow> agent_state option" where
  "setup_containers info [] s = Some s"
| "setup_containers info (cn # cns) s =
     do {
       ci \<leftarrow> map_of info (cn_Name cn);
       let cs = NewContainerState cn (fst ci) (snd ci);
       s' \<leftarrow> add_port_handlers cs (MakeInterceptStates cn) (AddContainerState (cn_Name cn) cs s);
       setup_containers info cns s'
     }"

definition Sidecar :: "(string \<times> string \<times> (string \<times> string) list) list \<Rightarrow> agent_state \<Rightarrow> agent_state option" where
  "Sidecar info s = setup_containers info (sc_Containers (as_AgentConfig s)) s"

section \<open>Review\<close>

definition generateMechanismDescription :: "regexps \<Rightarrow> intercept_spec \<Rightarrow> string" where
  "generateMechanismDescription rx spec = request_String (NewRequest rx (sp_path_filters spec) (sp_header_filters spec))"

definition active_review ::
    "(addr \<Rightarrow> string) \<Rightarrow> agent_state \<Rightarrow> container_state \<Rightarrow> string \<Rightarrow> intercept_info \<Rightarrow> review_request" where
  "active_review addr_string s cs desc ii =
     \<lparr>rv_id = ii_id ii, rv_disposition = ACTIVE, rv_message = [], rv_pod_ip = addr_string (as_PodIP s),
      rv_sftp_port = ucast (as_sftpPort s), rv_ftp_port = ucast (as_ftpPort s), rv_mount_point = cs_mountPoint cs,
      rv_mechanism_args_desc = desc, rv_environment = cs_env cs,
      rv_mounts = go_entries (MountPolicies_ToRPC (cn_Mounts (cs_container cs)))\<rparr>"

definition container_review :: "regexps \<Rightarrow> (addr \<Rightarrow> string) \<Rightarrow> agent_state \<Rightarrow> fwd_state \<Rightarrow> intercept_info \<Rightarrow> review_request" where
  "container_review rx addr_string s fs ii =
     (let container = (if sp_container_name (ii_spec ii) = [] then fs_container fs else sp_container_name (ii_spec ii));
          desc = generateMechanismDescription rx (ii_spec ii)
      in case map_of (as_containerStates s) container of
           None \<Rightarrow> plain_review (ii_id ii) AGENT_ERROR (''No match for container '' @ quote container) desc
         | Some cs \<Rightarrow> active_review addr_string s cs desc ii)"

definition processWiretapIntercept ::
    "regexps \<Rightarrow> (addr \<Rightarrow> string) \<Rightarrow> agent_state \<Rightarrow> fwd_state \<Rightarrow> intercept_info \<Rightarrow> review_request" where
  "processWiretapIntercept rx addr_string s fs ii = container_review rx addr_string s fs ii"

definition findConflictingIntercept ::
    "regexps \<Rightarrow> intercept_info \<Rightarrow> nat \<Rightarrow> intercept_info list \<Rightarrow> intercept_info list \<Rightarrow> intercept_info option" where
  "findConflictingIntercept rx ii index active candidates =
     (case find (\<lambda>a. \<not> sp_wiretap (ii_spec a) \<and> IsInConflict rx (ii_spec ii) (ii_spec a)) active of
        Some a \<Rightarrow> Some a
      | None \<Rightarrow>
          map_option snd
            (find (\<lambda>(j, other). j < index \<and> \<not> sp_wiretap (ii_spec other) \<and> IsInConflict rx (ii_spec ii) (ii_spec other))
               (enumerate 0 candidates)))"

definition processRegularIntercept ::
    "regexps \<Rightarrow> (addr \<Rightarrow> string) \<Rightarrow> agent_state \<Rightarrow> fwd_state \<Rightarrow> intercept_info \<Rightarrow> nat \<Rightarrow> intercept_info list \<Rightarrow> intercept_info list
     \<Rightarrow> review_request" where
  "processRegularIntercept rx addr_string s fs ii index active candidates =
     (case findConflictingIntercept rx ii index active candidates of
        Some ci \<Rightarrow>
          (let reason = ExplainConflict rx (ii_spec ii) (ii_spec ci);
               st = ''currently '' @ map char_lower (disposition_String (ii_disposition ci))
           in plain_review (ii_id ii) AGENT_ERROR
                (''conflicts with the '' @ st @ '' intercept '' @ quote (ii_id ci) @ '' ('' @ quote (sp_client (ii_spec ci)) @ ''): '' @ reason)
                (generateMechanismDescription rx (ii_spec ii)))
      | None \<Rightarrow> container_review rx addr_string s fs ii)"

definition port_review ::
    "regexps \<Rightarrow> (addr \<Rightarrow> string) \<Rightarrow> agent_state \<Rightarrow> fwd_state \<Rightarrow> intercept_info list \<Rightarrow> intercept_info list \<Rightarrow> nat \<times> intercept_info
     \<Rightarrow> review_request" where
  "port_review rx addr_string s fs active candidates =
     (\<lambda>(i, ii). if sp_wiretap (ii_spec ii) then processWiretapIntercept rx addr_string s fs ii
                else processRegularIntercept rx addr_string s fs ii i active candidates)"

definition HandlePort ::
    "regexps \<Rightarrow> (addr \<Rightarrow> string) \<Rightarrow> agent_state \<Rightarrow> fwd_state \<Rightarrow> intercept_info list \<Rightarrow> review_request list \<times> fwd_state" where
  "HandlePort rx addr_string s fs cepts =
     (let active = filter (\<lambda>is. ii_disposition is = ACTIVE) cepts;
          waiting = filter (\<lambda>is. ii_disposition is = WAITING) cepts;
          fwd1 = (if as_sessionInfo s \<noteq> None then SetStreamProvider (fs_forwarder fs) else fs_forwarder fs);
          intercepts = filter (\<lambda>is. \<not> sp_wiretap (ii_spec is)) active;
          wiretaps = filter (\<lambda>is. sp_wiretap (ii_spec is)) active;
          fwd2 = SetIntercepting intercepts (SetWiretapping wiretaps fwd1)
      in (map (port_review rx addr_string s fs active waiting) (enumerate 0 waiting), fs\<lparr>fs_forwarder := fwd2\<rparr>))"

definition ReplaceContainer :: "container_state \<Rightarrow> bool" where
  "ReplaceContainer c \<longleftrightarrow> cn_Replace (cs_container c) = ReplacePolicyContainer"

definition HandleContainer :: "(addr \<Rightarrow> string) \<Rightarrow> agent_state \<Rightarrow> container_state \<Rightarrow> intercept_info list \<Rightarrow> review_request list" where
  "HandleContainer addr_string s c iis =
     map (active_review addr_string s c [])
       (filter (\<lambda>ii. ii_disposition ii = WAITING \<and> ReplaceContainer c
                   \<and> cn_Name (cs_container c) = sp_container_name (ii_spec ii) \<and> sp_container_port (ii_spec ii) = 0) iis)"

text \<open>
  Each port takes the intercepts that match it and that no earlier port took; the rest is for the
  containers. Reading the port of a target without intercepts panics.
\<close>

definition matches_port :: "fwd_state \<Rightarrow> intercept_info \<Rightarrow> bool" where
  "matches_port ist ii \<longleftrightarrow> MatchForSpec (fs_intercept ist) (ii_spec ii) = Some True"

fun handle_ports ::
    "regexps \<Rightarrow> (addr \<Rightarrow> string) \<Rightarrow> agent_state \<Rightarrow> fwd_state list \<Rightarrow> intercept_info list
     \<Rightarrow> (review_request list \<times> fwd_state list \<times> intercept_info list) option" where
  "handle_ports rx addr_string s [] iis = Some ([], [], iis)"
| "handle_ports rx addr_string s (ist # ists) iis =
     (if fs_intercept ist = [] then None
      else
        (let (rs, ist') = HandlePort rx addr_string s ist (filter (matches_port ist) iis)
         in do {
              (rs', ists', unhandled) \<leftarrow> handle_ports rx addr_string s ists (filter (\<lambda>ii. \<not> matches_port ist ii) iis);
              Some (rs @ rs', ist' # ists', unhandled)
            }))"

definition HandleIntercepts ::
    "regexps \<Rightarrow> (addr \<Rightarrow> string) \<Rightarrow> intercept_info list \<Rightarrow> agent_state \<Rightarrow> (review_request list \<times> agent_state) option" where
  "HandleIntercepts rx addr_string iis s =
     do {
       (rs, ists, unhandled) \<leftarrow> handle_ports rx addr_string s (as_interceptStates s) iis;
       Some (rs @ concat (map (\<lambda>(name, cn). HandleContainer addr_string s cn unhandled) (as_containerStates s)),
             s\<lparr>as_interceptStates := ists\<rparr>)
     }"

section \<open>Questions of the REST API\<close>

record rest_info =
  ri_Intercepted :: bool
  ri_Metadata :: "(string \<times> string) list"

definition no_rest_info :: rest_info where "no_rest_info = \<lparr>ri_Intercepted = False, ri_Metadata = []\<rparr>"

definition fwdState_InterceptInfo ::
    "regexps \<Rightarrow> string \<Rightarrow> string \<Rightarrow> u16 \<Rightarrow> http_header \<Rightarrow> fwd_state \<Rightarrow> rest_info option" where
  "fwdState_InterceptInfo rx callerID path containerPort headers fs =
     (if containerPort \<noteq> 0 \<and> fs_intercept fs = [] then None
      else if containerPort \<noteq> 0 \<and> Some containerPort \<noteq> target_ContainerPort (fs_intercept fs) then Some no_rest_info
      else
        (case find (\<lambda>ii. (callerID = [] \<or> callerID = ii_id ii) \<and> ii_disposition ii = ACTIVE
                       \<and> MatchesPathAndHeader rx (NewRequest rx (sp_path_filters (ii_spec ii)) (sp_header_filters (ii_spec ii)))
                           path headers)
               (InterceptInfos (fs_forwarder fs)) of
           Some ii \<Rightarrow> Some \<lparr>ri_Intercepted = True, ri_Metadata = sp_metadata (ii_spec ii)\<rparr>
         | None \<Rightarrow> Some no_rest_info))"

fun first_tcp_target :: "u16 \<Rightarrow> fwd_state list \<Rightarrow> fwd_state option option" where
  "first_tcp_target containerPort [] = Some None"
| "first_tcp_target containerPort (is # iss) =
     (if fs_intercept is = [] then None
      else if (containerPort = 0 \<or> Some containerPort = target_ContainerPort (fs_intercept is))
        \<and> target_Protocol (fs_intercept is) = Some ProtoTCP
      then Some (Some is) else first_tcp_target containerPort iss)"

definition state_InterceptInfo ::
    "regexps \<Rightarrow> string \<Rightarrow> string \<Rightarrow> u16 \<Rightarrow> http_header \<Rightarrow> agent_state \<Rightarrow> rest_info option" where
  "state_InterceptInfo rx callerID path containerPort headers s =
     do {
       r \<leftarrow> first_tcp_target containerPort (as_interceptStates s);
       (case r of Some is \<Rightarrow> fwdState_InterceptInfo rx callerID path containerPort headers is | None \<Rightarrow> Some no_rest_info)
     }"

section \<open>What the review accepts\<close>

text \<open>Wiretaps exclude nothing; other intercepts exclude those they are in conflict with.\<close>

definition excludes :: "regexps \<Rightarrow> intercept_info \<Rightarrow> intercept_info \<Rightarrow> bool" where
  "excludes rx i j \<longleftrightarrow> \<not> sp_wiretap (ii_spec i) \<and> \<not> sp_wiretap (ii_spec j) \<and> IsInConflict rx (ii_spec i) (ii_spec j)"

interpretation excl: conflict_relation "excludes rx" for rx
  by unfold_locales (use IsInConflict_sym in \<open>auto simp: excludes_def\<close>)

lemma findConflictingIntercept_None:
  "findConflictingIntercept rx ii index active candidates = None \<longleftrightarrow>
     (\<forall>a\<in>set active. \<not> (\<not> sp_wiretap (ii_spec a) \<and> IsInConflict rx (ii_spec ii) (ii_spec a)))
     \<and> (\<forall>a\<in>set (take index candidates). \<not> (\<not> sp_wiretap (ii_spec a) \<and> IsInConflict rx (ii_spec ii) (ii_spec a)))"
proof -
  have "set (take index candidates) = {a. \<exists>j < index. (j, a) \<in> set (enumerate 0 candidates)}"
    unfolding in_set_enumerate_eq by (auto simp: set_conv_nth) (metis nth_take)
  then show ?thesis
    by (auto simp: findConflictingIntercept_def find_None_iff find_Some_iff split: option.splits)
qed

lemma container_review_simps [simp]:
  "rv_id (container_review rx as s fs ii) = ii_id ii"
  "rv_disposition (container_review rx as s fs ii) \<in> {ACTIVE, AGENT_ERROR}"
  by (simp_all add: container_review_def plain_review_def active_review_def Let_def split: option.splits)

lemma port_review_id [simp]: "rv_id (port_review rx as s fs active candidates (i, ii)) = ii_id ii"
  by (simp add: port_review_def processWiretapIntercept_def processRegularIntercept_def plain_review_def Let_def split: option.splits)

lemma port_review_ACTIVE:
  assumes "rv_disposition (port_review rx as s fs active candidates (i, ii)) = ACTIVE"
  shows "\<not> list_ex (excludes rx ii) active \<and> \<not> list_ex (excludes rx ii) (take i candidates)"
proof (cases "sp_wiretap (ii_spec ii)")
  case False
  with assms have "findConflictingIntercept rx ii i active candidates = None"
    by (auto simp: port_review_def processRegularIntercept_def plain_review_def Let_def split: option.splits)
  with False show ?thesis by (auto simp: findConflictingIntercept_None excludes_def list_ex_iff)
qed (simp add: excludes_def list_ex_iff)

text \<open>The accepted ones among the waiting.\<close>

definition newly_active ::
    "regexps \<Rightarrow> (addr \<Rightarrow> string) \<Rightarrow> agent_state \<Rightarrow> fwd_state \<Rightarrow> intercept_info list \<Rightarrow> intercept_info list" where
  "newly_active rx addr_string s fs cepts =
     (let active = filter (\<lambda>is. ii_disposition is = ACTIVE) cepts; waiting = filter (\<lambda>is. ii_disposition is = WAITING) cepts in
      map snd (filter (\<lambda>p. rv_disposition (port_review rx addr_string s fs active waiting p) = ACTIVE) (enumerate 0 waiting)))"

lemma newly_active_accepted:
  "set (newly_active rx as s fs cepts) \<subseteq>
     set (excl.accepted rx (filter (\<lambda>is. ii_disposition is = ACTIVE) cepts) [] (filter (\<lambda>is. ii_disposition is = WAITING) cepts))"
  unfolding newly_active_def Let_def excl.accepted_enumerate [of _ _ "[]" _ 0] set_map set_filter
  using port_review_ACTIVE by fastforce

text \<open>
  If the active intercepts do not exclude each other, neither do they together with those that the
  review accepts.
\<close>

lemma review_compatible:
  assumes "distinct (map ii_id cepts)" and "excl.compatible rx (filter (\<lambda>is. ii_disposition is = ACTIVE) cepts)"
    and "a \<in> set (filter (\<lambda>is. ii_disposition is = ACTIVE) cepts) \<union> set (newly_active rx as s fs cepts)"
    and "b \<in> set (filter (\<lambda>is. ii_disposition is = ACTIVE) cepts) \<union> set (newly_active rx as s fs cepts)" and "a \<noteq> b"
  shows "\<not> excludes rx a b"
proof -
  let ?act = "filter (\<lambda>is. ii_disposition is = ACTIVE) cepts" and ?wait = "filter (\<lambda>is. ii_disposition is = WAITING) cepts"
  let ?acc = "excl.accepted rx ?act [] ?wait"
  have "distinct cepts" using assms(1) by (simp add: distinct_map)
  then have "distinct (?act @ ?acc)"
    using excl.accepted_subset [of rx ?act "[]" ?wait] excl.accepted_distinct [of ?wait rx ?act "[]"] by auto
  from excl.compatible_pairs [OF this] excl.review_keeps_compatible [OF assms(2)]
  have "\<forall>a\<in>set (?act @ ?acc). \<forall>b\<in>set (?act @ ?acc). a \<noteq> b \<longrightarrow> \<not> excludes rx a b" by blast
  with assms(3-5) newly_active_accepted [of rx as s fs cepts] show ?thesis by auto
qed

section \<open>Who is reviewed\<close>

lemma HandlePort_ids:
  "map rv_id (fst (HandlePort rx as s fs cepts)) = map ii_id (filter (\<lambda>ii. ii_disposition ii = WAITING) cepts)"
proof -
  have "map (rv_id \<circ> port_review rx as s fs active candidates) (enumerate n xs) = map ii_id xs" for active candidates xs n
    by (induction xs arbitrary: n) auto
  then show ?thesis by (simp add: HandlePort_def Let_def)
qed

lemma handle_ports_unhandled:
  "handle_ports rx as s ists iis = Some (rs, ists', un) \<Longrightarrow>
     un = filter (\<lambda>ii. \<not> list_ex (\<lambda>ist. matches_port ist ii) ists) iis"
proof (induction ists arbitrary: iis rs ists' un)
  case (Cons ist ists)
  then obtain rs2 ists2 where "handle_ports rx as s ists (filter (\<lambda>ii. \<not> matches_port ist ii) iis) = Some (rs2, ists2, un)"
    by (auto simp: Let_def split: if_splits prod.splits bind_splits)
  from Cons.IH [OF this] show ?case by simp
qed simp

lemma handle_ports_ids:
  "handle_ports rx as s ists iis = Some (rs, ists', un) \<Longrightarrow>
     mset (map rv_id rs) = image_mset ii_id (filter_mset (\<lambda>ii. ii_disposition ii = WAITING \<and> list_ex (\<lambda>ist. matches_port ist ii) ists) (mset iis))"
proof (induction ists arbitrary: iis rs ists' un)
  case (Cons ist ists)
  obtain rs1 ist1 where h: "HandlePort rx as s ist (filter (matches_port ist) iis) = (rs1, ist1)" by fastforce
  from Cons.prems h obtain rs2 ists2 where
    r: "handle_ports rx as s ists (filter (\<lambda>ii. \<not> matches_port ist ii) iis) = Some (rs2, ists2, un)" and rs: "rs = rs1 @ rs2"
    by (auto simp: Let_def split: if_splits bind_splits)
  have split: "filter_mset (\<lambda>ii. ii_disposition ii = WAITING \<and> list_ex (\<lambda>ist. matches_port ist ii) (ist # ists)) (mset iis) =
      filter_mset (\<lambda>ii. ii_disposition ii = WAITING) (filter_mset (matches_port ist) (mset iis))
      + filter_mset (\<lambda>ii. ii_disposition ii = WAITING \<and> list_ex (\<lambda>ist. matches_port ist ii) ists)
          (filter_mset (\<lambda>ii. \<not> matches_port ist ii) (mset iis))"
    by (rule multiset_eqI) auto
  have "mset (map rv_id rs1) = image_mset ii_id (filter_mset (\<lambda>ii. ii_disposition ii = WAITING) (filter_mset (matches_port ist) (mset iis)))"
    using HandlePort_ids [of rx as s ist "filter (matches_port ist) iis"] h
    by (metis fst_conv mset_filter mset_map)
  with Cons.IH [OF r] split show ?case by (simp add: rs)
qed simp

text \<open>A container reviews the intercepts that name it; containers are filed under their names.\<close>

definition containers_wf :: "agent_state \<Rightarrow> bool" where
  "containers_wf s \<longleftrightarrow> maps_wf (as_containerStates s) \<and> list_all (\<lambda>(k, c). cn_Name (cs_container c) = k) (as_containerStates s)"

lemma HandleContainer_ids:
  "rv_id ` set (HandleContainer as s c iis) \<subseteq> ii_id ` {ii \<in> set iis. ii_disposition ii = WAITING \<and> sp_container_name (ii_spec ii) = cn_Name (cs_container c)}"
  by (auto simp: HandleContainer_def active_review_def)

lemma containers_distinct:
  assumes "distinct (map fst cs)" and "list_all (\<lambda>(k, c). cn_Name (cs_container c) = k) cs" and "distinct (map ii_id iis)"
  shows "distinct (map rv_id (concat (map (\<lambda>(name, cn). HandleContainer as s cn iis) cs)))
    \<and> rv_id ` set (concat (map (\<lambda>(name, cn). HandleContainer as s cn iis) cs)) \<subseteq>
        ii_id ` {ii \<in> set iis. ii_disposition ii = WAITING \<and> sp_container_name (ii_spec ii) \<in> fst ` set cs}"
  using assms(1,2)
proof (induction cs)
  case (Cons p cs)
  obtain name c where p: "p = (name, c)" by (cases p)
  with Cons.prems have n: "cn_Name (cs_container c) = name" "name \<notin> fst ` set cs" by auto
  have "map rv_id (HandleContainer as s c iis) =
      map ii_id (filter (\<lambda>ii. ii_disposition ii = WAITING \<and> ReplaceContainer c
        \<and> cn_Name (cs_container c) = sp_container_name (ii_spec ii) \<and> sp_container_port (ii_spec ii) = 0) iis)"
    by (simp add: HandleContainer_def active_review_def)
  with assms(3) have d: "distinct (map rv_id (HandleContainer as s c iis))" by (simp add: distinct_map_filter)
  have inj: "ii = jj" if "ii \<in> set iis" "jj \<in> set iis" "ii_id ii = ii_id jj" for ii jj
    using assms(3) that by (auto simp: distinct_map inj_on_def)
  let ?rest = "concat (map (\<lambda>(name, cn). HandleContainer as s cn iis) cs)"
  let ?of = "\<lambda>N. {ii \<in> set iis. ii_disposition ii = WAITING \<and> sp_container_name (ii_spec ii) \<in> N}"
  have c: "rv_id ` set (HandleContainer as s c iis) \<subseteq> ii_id ` ?of {name}" using HandleContainer_ids [of as s c iis] n(1) by auto
  have r: "distinct (map rv_id ?rest)" "rv_id ` set ?rest \<subseteq> ii_id ` ?of (fst ` set cs)" using Cons by simp_all
  have disj: "ii_id ` ?of {name} \<inter> ii_id ` ?of (fst ` set cs) = {}" using inj n(2) by blast
  have "rv_id ` set (HandleContainer as s c iis) \<inter> rv_id ` set ?rest = {}"
    using Int_mono [OF c r(2)] unfolding disj by (rule subset_empty [THEN iffD1])
  with d r(1) have dist: "distinct (map rv_id (HandleContainer as s c iis @ ?rest))"
    by (simp only: map_append distinct_append set_map simp_thms)
  have m: "?of {name} \<subseteq> ?of (fst ` set (p # cs))" "?of (fst ` set cs) \<subseteq> ?of (fst ` set (p # cs))" by (auto simp: p)
  have sub: "rv_id ` set (HandleContainer as s c iis @ ?rest) \<subseteq> ii_id ` ?of (fst ` set (p # cs))"
    unfolding set_append image_Un
    by (rule Un_least [OF subset_trans [OF c image_mono [OF m(1)]] subset_trans [OF r(2) image_mono [OF m(2)]]])
  have e: "concat (map (\<lambda>(name, cn). HandleContainer as s cn iis) (p # cs)) = HandleContainer as s c iis @ ?rest" by (simp add: p)
  show ?case unfolding e by (rule conjI [OF dist sub])
qed simp

section \<open>The ports of the agent\<close>

definition port_key :: "container \<Rightarrow> intercept \<Rightarrow> port_and_proto" where
  "port_key cn ic =
     \<lparr>Port = (if cn_Replace cn = ReplacePolicyContainer then ic_ContainerPort ic else ic_AgentPort ic), Proto = ic_Protocol ic\<rparr>"

lemma fold_group:
  "map_of (fold (\<lambda>x m. AList.update (f x) (go_lookup [] m (f x) @ [x]) m) xs m) k =
     (if filter (\<lambda>x. f x = k) xs = [] then map_of m k else Some (go_lookup [] m k @ filter (\<lambda>x. f x = k) xs))"
  by (induction xs arbitrary: m) (auto simp: go_lookup_def split: option.splits)

lemma distinct_fold_group:
  "distinct (map fst m) \<Longrightarrow> distinct (map fst (fold (\<lambda>x m. AList.update (f x) (go_lookup [] m (f x) @ [x]) m) xs m))"
  by (induction xs arbitrary: m) (auto simp: distinct_update)

lemma MakeInterceptStates_eq:
  "MakeInterceptStates cn =
     fold (\<lambda>ic m. AList.update (port_key cn ic) (go_lookup [] m (port_key cn ic) @ [ic]) m) (cn_Intercepts cn) []"
  by (simp add: MakeInterceptStates_def port_key_def Let_def)

lemma MakeInterceptStates_group:
  "(k, it) \<in> set (MakeInterceptStates cn) \<longleftrightarrow> it = filter (\<lambda>ic. port_key cn ic = k) (cn_Intercepts cn) \<and> it \<noteq> []"
proof -
  have "distinct (map fst (MakeInterceptStates cn))" unfolding MakeInterceptStates_eq by (rule distinct_fold_group) simp
  from map_of_eq_Some_iff [OF this, of k it] show ?thesis
    unfolding MakeInterceptStates_eq fold_group by (auto simp: go_lookup_def split: if_splits)
qed

lemma newPortHandler_some:
  "it \<noteq> [] \<Longrightarrow> newPortHandler s c pp it = None \<longleftrightarrow> Proto pp \<notin> {ProtoTCP, ProtoUDP}"
  by (auto simp: newPortHandler_def NewInterceptor_def Let_def split: list.splits)

lemma newInterceptor_wf: "interceptor_wf (newInterceptor pp tls target)"
  by (simp add: newInterceptor_def interceptor_wf_def contexts_of_def)

lemma newPortHandler_wf: "newPortHandler s c pp it = Some f \<Longrightarrow> interceptor_wf f"
  by (auto simp: newPortHandler_def Let_def NewTCPInterceptor_def newInterceptor_wf split: list.splits if_splits dest: NewInterceptor_wf)

text \<open>The state after the setup of some ports and of some containers.\<close>

definition ports_wf :: "agent_state \<Rightarrow> bool" where
  "ports_wf s \<longleftrightarrow> list_all (\<lambda>fs. fs_intercept fs \<noteq> [] \<and> interceptor_wf (fs_forwarder fs)) (as_interceptStates s)"

lemma add_port_handlers_result:
  "list_all (\<lambda>(pp, it). it \<noteq> []) ps \<Longrightarrow>
     (if list_all (\<lambda>(pp, it). Proto pp \<in> {ProtoTCP, ProtoUDP}) ps
      then \<exists>s'. add_port_handlers c ps s = Some s' \<and> (ports_wf s \<longrightarrow> ports_wf s') \<and> as_containerStates s' = as_containerStates s
        \<and> map fs_intercept (as_interceptStates s') = map fs_intercept (as_interceptStates s) @ map snd ps
      else add_port_handlers c ps s = None)"
proof (induction ps arbitrary: s)
  case (Cons p ps)
  obtain pp it where p: "p = (pp, it)" by (cases p)
  with Cons.prems have ne: "it \<noteq> []" "list_all (\<lambda>(pp, it). it \<noteq> []) ps" by simp_all
  show ?case
  proof (cases "newPortHandler s c pp it")
    case None
    then show ?thesis using newPortHandler_some [OF ne(1), of s c pp] by (simp add: p AddPortHandler_def)
  next
    case (Some f)
    let ?s1 = "AddInterceptState (NewInterceptState f it (cn_Name (cs_container c))) s"
    have "Proto pp \<in> {ProtoTCP, ProtoUDP}" using newPortHandler_some [OF ne(1), of s c pp] Some by auto
    moreover have "ports_wf s \<Longrightarrow> ports_wf ?s1"
      using newPortHandler_wf [OF Some] ne(1) by (simp add: ports_wf_def AddInterceptState_def NewInterceptState_def)
    moreover have "add_port_handlers c (p # ps) s = add_port_handlers c ps ?s1" by (simp add: p AddPortHandler_def Some)
    ultimately show ?thesis
      using Cons.IH [OF ne(2), of ?s1] by (auto simp: p AddInterceptState_def NewInterceptState_def)
  qed
qed simp

lemma setup_containers_result:
  "if fst ` set info \<supseteq> cn_Name ` set cns \<and> (\<forall>cn\<in>set cns. \<forall>ic\<in>set (cn_Intercepts cn). ic_Protocol ic \<in> {ProtoTCP, ProtoUDP})
   then \<exists>s'. setup_containers info cns s = Some s' \<and> (ports_wf s \<longrightarrow> ports_wf s') \<and> (containers_wf s \<longrightarrow> containers_wf s')
     \<and> map fs_intercept (as_interceptStates s') =
         map fs_intercept (as_interceptStates s) @ concat (map (\<lambda>cn. map snd (MakeInterceptStates cn)) cns)
   else setup_containers info cns s = None"
proof (induction cns arbitrary: s)
  case (Cons cn cns)
  let ?ps = "MakeInterceptStates cn"
  have ne: "list_all (\<lambda>(pp, it). it \<noteq> []) ?ps" by (auto simp: list_all_iff MakeInterceptStates_group)
  have protos: "list_all (\<lambda>(pp, it). Proto pp \<in> {ProtoTCP, ProtoUDP}) ?ps \<longleftrightarrow>
      (\<forall>ic\<in>set (cn_Intercepts cn). ic_Protocol ic \<in> {ProtoTCP, ProtoUDP})"
  proof -
    have "fst ` set ?ps = port_key cn ` set (cn_Intercepts cn)"
      by (auto simp: MakeInterceptStates_group image_iff filter_empty_conv Bex_def)
    then have "Proto ` fst ` set ?ps = ic_Protocol ` set (cn_Intercepts cn)" by (simp add: image_image port_key_def)
    moreover have "list_all (\<lambda>(pp, it). Proto pp \<in> {ProtoTCP, ProtoUDP}) ?ps \<longleftrightarrow> Proto ` fst ` set ?ps \<subseteq> {ProtoTCP, ProtoUDP}"
      by (auto simp: list_all_iff split_beta)
    ultimately show ?thesis by (simp add: image_subset_iff)
  qed
  show ?case
  proof (cases "map_of info (cn_Name cn)")
    case None
    then have "cn_Name cn \<notin> fst ` set info" by (simp add: map_of_eq_None_iff)
    with None show ?thesis by simp
  next
    case (Some ci)
    let ?cs = "NewContainerState cn (fst ci) (snd ci)"
    let ?s1 = "AddContainerState (cn_Name cn) ?cs s"
    have n: "cn_Name cn \<in> fst ` set info" using Some by (auto dest!: map_of_SomeD intro: rev_image_eqI)
    have wf1: "ports_wf s \<Longrightarrow> ports_wf ?s1" by (simp add: ports_wf_def AddContainerState_def)
    have cwf: "containers_wf s \<Longrightarrow> containers_wf ?s1"
      by (auto simp: containers_wf_def AddContainerState_def NewContainerState_def maps_wf_def distinct_update list_all_iff
          set_update_iff split: if_splits)
    show ?thesis
    proof (cases "\<forall>ic\<in>set (cn_Intercepts cn). ic_Protocol ic \<in> {ProtoTCP, ProtoUDP}")
      case True
      with add_port_handlers_result [OF ne, of ?cs ?s1] protos obtain s2 where
        s2: "add_port_handlers ?cs ?ps ?s1 = Some s2" "ports_wf ?s1 \<longrightarrow> ports_wf s2" "as_containerStates s2 = as_containerStates ?s1"
          "map fs_intercept (as_interceptStates s2) = map fs_intercept (as_interceptStates ?s1) @ map snd ?ps" by auto
      have "containers_wf s \<Longrightarrow> containers_wf s2" using cwf s2(3) by (simp add: containers_wf_def)
      moreover have "map fs_intercept (as_interceptStates s2) = map fs_intercept (as_interceptStates s) @ map snd ?ps"
        using s2(4) by (simp add: AddContainerState_def)
      moreover have "setup_containers info (cn # cns) s = setup_containers info cns s2" by (simp add: Some s2(1) Let_def)
      ultimately show ?thesis using Cons.IH [of s2] True n wf1 s2(2) by auto
    next
      case False
      with add_port_handlers_result [OF ne, of ?cs ?s1] protos have "add_port_handlers ?cs ?ps ?s1 = None" by auto
      with False show ?thesis by (auto simp: Some Let_def)
    qed
  qed
qed simp

text \<open>The forwarder of a port serves exactly the active intercepts of the last review.\<close>

lemma HandlePort_forwards:
  assumes "interceptor_wf (fs_forwarder fs)"
  shows "interceptor_wf (fs_forwarder (snd (HandlePort rx as s fs cepts)))
    \<and> intercepting (fs_forwarder (snd (HandlePort rx as s fs cepts))) =
        info_map (filter (\<lambda>ii. \<not> sp_wiretap (ii_spec ii)) (filter (\<lambda>ii. ii_disposition ii = ACTIVE) cepts))
    \<and> wiretapping (fs_forwarder (snd (HandlePort rx as s fs cepts))) =
        info_map (filter (\<lambda>ii. sp_wiretap (ii_spec ii)) (filter (\<lambda>ii. ii_disposition ii = ACTIVE) cepts))"
proof -
  let ?f = "if as_sessionInfo s \<noteq> None then SetStreamProvider (fs_forwarder fs) else fs_forwarder fs"
  have wf: "interceptor_wf ?f" using assms SetStreamProvider_wf by simp
  have "fs_forwarder (snd (HandlePort rx as s fs cepts)) = fwd.forward (filter (\<lambda>ii. ii_disposition ii = ACTIVE) cepts) ?f"
    by (simp add: HandlePort_def fwd.forward_def Let_def)
  then show ?thesis
    using fwd.good_forward [OF wf] fwd.intercepting_forward [OF wf] fwd.wiretapping_forward [OF wf] by (simp only:)
qed

section \<open>Properties\<close>

text \<open>
  C18. The agent starts its port handlers, without a panic, exactly if its own info has every container of
  the configuration and every intercept is for TCP or UDP; a port of any other protocol that Kubernetes
  has makes it panic. Then there is one handler for each group of intercepts that share a port to
  listen to, none of the groups is empty, and every handler is well-formed.
\<close>

theorem Sidecar_starts_iff:
  "(case Sidecar info (NewState config podIP) of
      None \<Rightarrow> \<not> (cn_Name ` set (sc_Containers config) \<subseteq> fst ` set info
        \<and> (\<Union>cn\<in>set (sc_Containers config). ic_Protocol ` set (cn_Intercepts cn)) \<subseteq> {ProtoTCP, ProtoUDP})
    | Some s \<Rightarrow> cn_Name ` set (sc_Containers config) \<subseteq> fst ` set info
        \<and> (\<Union>cn\<in>set (sc_Containers config). ic_Protocol ` set (cn_Intercepts cn)) \<subseteq> {ProtoTCP, ProtoUDP}
        \<and> ports_wf s \<and> containers_wf s
        \<and> map fs_intercept (as_interceptStates s) = concat (map (\<lambda>cn. map snd (MakeInterceptStates cn)) (sc_Containers config)))"
proof -
  have eq: "(\<Union>cn\<in>set (sc_Containers config). ic_Protocol ` set (cn_Intercepts cn)) \<subseteq> {ProtoTCP, ProtoUDP} \<longleftrightarrow>
      (\<forall>cn\<in>set (sc_Containers config). \<forall>ic\<in>set (cn_Intercepts cn). ic_Protocol ic \<in> {ProtoTCP, ProtoUDP})" by auto
  have "Sidecar info (NewState config podIP) = setup_containers info (sc_Containers config) (NewState config podIP)"
    by (simp add: Sidecar_def NewState_def)
  moreover have "ports_wf (NewState config podIP)" "containers_wf (NewState config podIP)"
    "as_interceptStates (NewState config podIP) = []"
    by (simp_all add: NewState_def ports_wf_def containers_wf_def maps_wf_def)
  ultimately show ?thesis
    using setup_containers_result [of "sc_Containers config" info "NewState config podIP"] unfolding eq
    by (auto split: if_splits)
qed

text \<open>
  C17. Every waiting intercept that matches a port of the agent is reviewed, no intercept is reviewed
  twice, and only waiting ones are: not by two ports, as the first that matches takes it, and not by a
  port and a container or by two containers.
\<close>

theorem reviews_once:
  assumes "HandleIntercepts rx addr_string iis s = Some (rs, s')" and "distinct (map ii_id iis)" and "containers_wf s"
  shows "distinct (map rv_id rs) \<and> set (map rv_id rs) \<subseteq> ii_id ` {ii \<in> set iis. ii_disposition ii = WAITING}
    \<and> ii_id ` {ii \<in> set iis. ii_disposition ii = WAITING \<and> list_ex (\<lambda>ist. matches_port ist ii) (as_interceptStates s)} \<subseteq> set (map rv_id rs)"
proof -
  let ?m = "\<lambda>ii. list_ex (\<lambda>ist. matches_port ist ii) (as_interceptStates s)"
  from assms(1) obtain rs1 ists un where h: "handle_ports rx addr_string s (as_interceptStates s) iis = Some (rs1, ists, un)"
    and rs: "rs = rs1 @ concat (map (\<lambda>(name, cn). HandleContainer addr_string s cn un) (as_containerStates s))"
    by (auto simp: HandleIntercepts_def split: bind_splits)
  let ?rs2 = "concat (map (\<lambda>(name, cn). HandleContainer addr_string s cn un) (as_containerStates s))"
  have un: "un = filter (\<lambda>ii. \<not> ?m ii) iis" by (rule handle_ports_unhandled [OF h])
  have ms: "mset (map rv_id rs1) = mset (map ii_id (filter (\<lambda>ii. ii_disposition ii = WAITING \<and> ?m ii) iis))"
    using handle_ports_ids [OF h] by simp
  have d1: "distinct (map rv_id rs1)"
    unfolding mset_eq_imp_distinct_iff [OF ms] by (rule distinct_map_filter [OF assms(2)])
  have s1: "set (map rv_id rs1) = ii_id ` {ii \<in> set iis. ii_disposition ii = WAITING \<and> ?m ii}"
    using mset_eq_setD [OF ms] by auto
  have "distinct (map ii_id un)" unfolding un by (rule distinct_map_filter [OF assms(2)])
  moreover have cwf: "distinct (map fst (as_containerStates s))"
      "list_all (\<lambda>(k, c). cn_Name (cs_container c) = k) (as_containerStates s)"
    using assms(3) by (simp_all add: containers_wf_def maps_wf_def)
  ultimately have c: "distinct (map rv_id ?rs2) \<and> rv_id ` set ?rs2 \<subseteq>
      ii_id ` {ii \<in> set un. ii_disposition ii = WAITING \<and> sp_container_name (ii_spec ii) \<in> fst ` set (as_containerStates s)}"
    using containers_distinct by blast
  have incl: "{ii \<in> set un. ii_disposition ii = WAITING \<and> sp_container_name (ii_spec ii) \<in> fst ` set (as_containerStates s)} \<subseteq>
      {ii \<in> set iis. ii_disposition ii = WAITING \<and> \<not> ?m ii}" by (auto simp: un)
  note d2 = conjunct1 [OF c]
  note s2 = subset_trans [OF conjunct2 [OF c] image_mono [OF incl]]
  have no: "ii_id ` {ii \<in> set iis. ii_disposition ii = WAITING \<and> ?m ii} \<inter> ii_id ` {ii \<in> set iis. ii_disposition ii = WAITING \<and> \<not> ?m ii} = {}"
    using assms(2) by (auto simp: distinct_map inj_on_def)
  have disj: "set (map rv_id rs1) \<inter> set (map rv_id ?rs2) = {}"
    unfolding s1 set_map [of rv_id ?rs2] using Int_mono [OF subset_refl [of "ii_id ` {ii \<in> set iis. ii_disposition ii = WAITING \<and> ?m ii}"] s2]
    unfolding no by (rule subset_empty [THEN iffD1])
  have all: "set (map rv_id rs) = set (map rv_id rs1) \<union> set (map rv_id ?rs2)" by (simp only: rs map_append set_append)
  have "distinct (map rv_id rs)" using d1 d2 disj by (simp only: rs map_append distinct_append simp_thms)
  moreover have "set (map rv_id rs) \<subseteq> ii_id ` {ii \<in> set iis. ii_disposition ii = WAITING}"
    unfolding all s1 set_map [of rv_id ?rs2]
    by (rule Un_least [OF image_mono subset_trans [OF s2 image_mono]]) blast+
  moreover have "ii_id ` {ii \<in> set iis. ii_disposition ii = WAITING \<and> ?m ii} \<subseteq> set (map rv_id rs)"
    unfolding all s1 by (rule Un_upper1)
  ultimately show ?thesis by (intro conjI)
qed

definition sample_target :: intercept_target where
  "sample_target =
     [\<lparr>ic_ContainerPortName = [], ic_ServiceName = ''web'', ic_ServiceUID = [], ic_ServicePortName = ''http'',
       ic_TargetPortNumeric = True, ic_Protocol = ProtoTCP, ic_AppProtocol = [], ic_Headless = False,
       ic_ContainerPort = 80, ic_ServicePort = 8080, ic_AgentPort = 9900\<rparr>]"

definition sample_cept :: "string \<Rightarrow> disposition \<Rightarrow> intercept_info" where
  "sample_cept i d =
     zero_info\<lparr>ii_id := i, ii_disposition := d, ii_spec := zero_spec\<lparr>sp_container_port := 80, sp_protocol := ''TCP''\<rparr>\<rparr>"

lemma sample_cept_simps [simp]:
  "ii_id (sample_cept i d) = i" "ii_disposition (sample_cept i d) = d"
  "ii_spec (sample_cept i d) = zero_spec\<lparr>sp_container_port := 80, sp_protocol := ''TCP''\<rparr>"
  by (simp_all add: sample_cept_def)

definition sample_port :: fwd_state where
  "sample_port = \<lparr>fs_intercept = sample_target, fs_container = ''app'', fs_forwarder = sample_interceptor\<rparr>"

lemma sample_port_matches: "matches_port sample_port (sample_cept i d)"
proof -
  have "FromK8sProtocol ''TCP'' = ProtoTCP" by code_simp
  then show ?thesis by (simp add: matches_port_def sample_port_def sample_target_def MatchForSpec_def first_of_def)
qed

definition sample_sidecar :: sidecar where
  "sample_sidecar =
     \<lparr>sc_Create = False, sc_Manual = False, sc_AgentImage = ''tel2'', sc_PullPolicy = [], sc_PullSecrets = [],
      sc_AgentName = ''web'', sc_Namespace = ''default'', sc_LogLevel = 0, sc_WorkloadName = ''web'',
      sc_WorkloadKind = ''Deployment'', sc_ManagerHost = ''traffic-manager'', sc_ManagerPort = 8081, sc_APIPort = 0,
      sc_Resources = None, sc_InitResources = None, sc_MountPolicies = None, sc_MeshDialSubnets = [],
      sc_Containers = [\<lparr>cn_Name = ''app'', cn_Intercepts = sample_target, cn_EnvPrefix = ''A_'', cn_MountPoint = [],
        cn_Mounts = None, cn_MountPaths = [], cn_Replace = ReplacePolicyIntercept\<rparr>],
      sc_SecurityContext = None, sc_InitSecurityContext = None, sc_ClientConnectionTTL = 0, sc_EnableMetrics = False,
      sc_EnableH2cProbing = False, sc_WatchRetryInterval = 0\<rparr>"

definition sample_regexps :: regexps where
  "sample_regexps = \<lparr>rx_compiles = \<lambda>_. True, rx_match = \<lambda>p s. has_prefix s (regexLiteralPrefix p)\<rparr>"

definition sample_agent :: agent_state where
  "sample_agent = (NewState sample_sidecar (Addr4 1))\<lparr>as_interceptStates := [sample_port]\<rparr>"

theorem reviews_once_witness:
  "\<exists>rs s'. HandleIntercepts sample_regexps (\<lambda>_. ''10.0.0.1'') [sample_cept ''a'' WAITING, sample_cept ''b'' ACTIVE] sample_agent
       = Some (rs, s') \<and> map rv_id rs = [''a'']"
proof -
  let ?iis = "[sample_cept ''a'' WAITING, sample_cept ''b'' ACTIVE]" and ?as = "\<lambda>_. ''10.0.0.1''"
  have port: "as_interceptStates sample_agent = [sample_port]" by (simp add: sample_agent_def)
  have "fs_intercept sample_port \<noteq> []" by (simp add: sample_port_def sample_target_def)
  then obtain rs s' where h: "HandleIntercepts sample_regexps ?as ?iis sample_agent = Some (rs, s')"
    by (cases "HandlePort sample_regexps ?as sample_agent sample_port (filter (matches_port sample_port) ?iis)")
      (auto simp: HandleIntercepts_def port)
  have "containers_wf sample_agent" by (simp add: sample_agent_def containers_wf_def NewState_def maps_wf_def)
  moreover have "{ii \<in> set ?iis. ii_disposition ii = WAITING} = {sample_cept ''a'' WAITING}" by auto
  moreover have "{ii \<in> set ?iis. ii_disposition ii = WAITING \<and> list_ex (\<lambda>ist. matches_port ist ii) [sample_port]} = {sample_cept ''a'' WAITING}"
    by (auto simp: sample_port_matches)
  ultimately have "distinct (map rv_id rs) \<and> rv_id ` set rs \<subseteq> {''a''} \<and> ''a'' \<in> rv_id ` set rs"
    using reviews_once [OF h] by (simp add: port)
  then have r: "distinct (map rv_id rs)" "set (map rv_id rs) = {''a''}" by auto
  then have "length (map rv_id rs) = 1" by (metis One_nat_def card.empty card.insert distinct_card empty_iff finite.emptyI)
  with r(2) have "map rv_id rs = [''a'']" by (cases rs rule: remdups_adj.cases) auto
  with h show ?thesis by (intro exI conjI)
qed

end
