(* ===== verification/Cache_Map.thy ===== *)
theory Cache_Map
  imports Go_Maps
begin

text \<open>
  The maps of the traffic manager that notify their subscribers of changes, \<^verbatim>\<open>pkg/cache\<close>.

  The contents are an association list; the operations of the concurrent map that \<open>Map\<close> embeds are
  atomic. A subscriber has a channel with room for one delta, and a client map that it keeps up to
  date with the deltas it receives. The notifier is a timer; \<open>cm_timer\<close> tells whether it runs with the
  short delay. A send to a closed channel panics, which is \<open>None\<close>.
\<close>

section \<open>Deltas\<close>

record ('k, 'v) delta =
  dl_Upserts :: "('k \<times> 'v) list"
  dl_Removals :: "('k \<times> 'v) list"

definition Delta_Merge :: "('k, 'v) delta \<Rightarrow> ('k, 'v) delta \<Rightarrow> ('k, 'v) delta" where
  "Delta_Merge delta other =
     \<lparr>dl_Upserts =
        (if length (dl_Upserts delta) = 0 then dl_Upserts other
         else fold (\<lambda>(k, v). AList.delete k) (dl_Removals other)
                (fold (\<lambda>(k, v). AList.update k v) (dl_Upserts other) (dl_Upserts delta))),
      dl_Removals =
        (if length (dl_Removals delta) = 0 then dl_Removals other
         else fold (\<lambda>(k, v). AList.delete k) (dl_Upserts other)
                (fold (\<lambda>(k, v). AList.update k v) (dl_Removals other) (dl_Removals delta)))\<rparr>"

text \<open>What \<open>ClientMap.Watch\<close> does with a delta: it stores the upserts and deletes the removals.\<close>

definition apply_delta :: "('k, 'v) delta \<Rightarrow> ('k \<times> 'v) list \<Rightarrow> ('k \<times> 'v) list" where
  "apply_delta d c =
     fold (\<lambda>(k, v). AList.delete k) (dl_Removals d) (fold (\<lambda>(k, v). AList.update k v) (dl_Upserts d) c)"

section \<open>Maps and subscriptions\<close>

record ('k, 'v) subscription =
  sb_channel :: "('k, 'v) delta option"
  sb_closed :: bool
  sb_include :: "('k \<Rightarrow> 'v \<Rightarrow> bool) option"
  sb_initialized :: bool
  sb_mark :: bool
  sb_done :: bool

record ('k, 'v) cache_map =
  cm_entries :: "('k \<times> 'v) list"
  cm_snapshot :: "('k \<times> 'v) list"
  cm_subscribers :: "(nat \<times> ('k, 'v) subscription) list"
  cm_timer :: bool

definition NewMap :: "('k, 'v) cache_map" where
  "NewMap = \<lparr>cm_entries = [], cm_snapshot = [], cm_subscribers = [], cm_timer = False\<rparr>"

definition included :: "('k, 'v) subscription \<Rightarrow> 'k \<Rightarrow> 'v \<Rightarrow> bool" where
  "included sb k v = (case sb_include sb of None \<Rightarrow> True | Some f \<Rightarrow> f k v)"

definition markSubscribers :: "'k \<Rightarrow> 'v \<Rightarrow> ('k, 'v) cache_map \<Rightarrow> ('k, 'v) cache_map" where
  "markSubscribers key v m =
     m\<lparr>cm_subscribers :=
        map (\<lambda>(i, sb). (i, if \<not> sb_mark sb \<and> included sb key v then sb\<lparr>sb_mark := True\<rparr> else sb)) (cm_subscribers m)\<rparr>"

datatype compute_op = CancelOp | UpdateOp | DeleteOp

text \<open>
  The function given to \<open>Compute\<close> gets the current value, or the zero value if there is none, and
  whether there is one; it returns a value and what to do with it.
\<close>

definition Compute ::
    "('v \<Rightarrow> 'v \<Rightarrow> bool) \<Rightarrow> 'v \<Rightarrow> 'k \<Rightarrow> ('v \<Rightarrow> bool \<Rightarrow> 'v \<times> compute_op) \<Rightarrow> ('k, 'v) cache_map \<Rightarrow> ('k, 'v) cache_map" where
  "Compute equal zero key f m =
     (let (v, loaded) = (case map_of (cm_entries m) key of Some v \<Rightarrow> (v, True) | None \<Rightarrow> (zero, False));
          (fv, op) = f v loaded
      in case op of
           CancelOp \<Rightarrow> m
         | UpdateOp \<Rightarrow>
             if loaded \<and> equal fv v then m
             else (markSubscribers key fv m)\<lparr>cm_entries := AList.update key fv (cm_entries m), cm_timer := True\<rparr>
         | DeleteOp \<Rightarrow> (markSubscribers key v m)\<lparr>cm_entries := AList.delete key (cm_entries m), cm_timer := True\<rparr>)"

definition CompareAndSwap ::
    "('v \<Rightarrow> 'v \<Rightarrow> bool) \<Rightarrow> 'v \<Rightarrow> 'k \<Rightarrow> 'v \<Rightarrow> 'v \<Rightarrow> ('k, 'v) cache_map \<Rightarrow> bool \<times> ('k, 'v) cache_map" where
  "CompareAndSwap equal zero key oldValue newValue m =
     (case map_of (cm_entries m) key of Some cur \<Rightarrow> equal cur oldValue | None \<Rightarrow> False,
      Compute equal zero key (\<lambda>cur loaded. if loaded \<and> equal cur oldValue then (newValue, UpdateOp) else (oldValue, CancelOp)) m)"

definition Delete :: "('v \<Rightarrow> 'v \<Rightarrow> bool) \<Rightarrow> 'v \<Rightarrow> 'k \<Rightarrow> ('k, 'v) cache_map \<Rightarrow> ('k, 'v) cache_map" where
  "Delete equal zero key = Compute equal zero key (\<lambda>oldValue loaded. (oldValue, if loaded then DeleteOp else CancelOp))"

definition LoadAll :: "('k, 'v) cache_map \<Rightarrow> ('k \<times> 'v) list" where
  "LoadAll m = cm_entries m"

definition LoadMatching :: "('k \<Rightarrow> 'v \<Rightarrow> bool) \<Rightarrow> ('k, 'v) cache_map \<Rightarrow> ('k \<times> 'v) list" where
  "LoadMatching f m = filter (\<lambda>(k, v). f k v) (cm_entries m)"

definition LoadAndDelete ::
    "('v \<Rightarrow> 'v \<Rightarrow> bool) \<Rightarrow> 'v \<Rightarrow> 'k \<Rightarrow> ('k, 'v) cache_map \<Rightarrow> 'v option \<times> ('k, 'v) cache_map" where
  "LoadAndDelete equal zero key m =
     (map_of (cm_entries m) key,
      Compute equal zero key (\<lambda>oldValue loaded. (oldValue, if loaded then DeleteOp else CancelOp)) m)"

definition LoadAndStore ::
    "('v \<Rightarrow> 'v \<Rightarrow> bool) \<Rightarrow> 'v \<Rightarrow> 'k \<Rightarrow> 'v \<Rightarrow> ('k, 'v) cache_map \<Rightarrow> 'v option \<times> ('k, 'v) cache_map" where
  "LoadAndStore equal zero key v m = (map_of (cm_entries m) key, Compute equal zero key (\<lambda>_ _. (v, UpdateOp)) m)"

definition LoadOrCompute ::
    "('v \<Rightarrow> 'v \<Rightarrow> bool) \<Rightarrow> 'v \<Rightarrow> 'k \<Rightarrow> 'v \<Rightarrow> ('k, 'v) cache_map \<Rightarrow> ('v \<times> bool) \<times> ('k, 'v) cache_map" where
  "LoadOrCompute equal zero key v m =
     ((case map_of (cm_entries m) key of Some old \<Rightarrow> (old, True) | None \<Rightarrow> (v, False)),
      Compute equal zero key (\<lambda>oldValue loaded. if loaded then (oldValue, CancelOp) else (v, UpdateOp)) m)"

definition LoadOrStore ::
    "('v \<Rightarrow> 'v \<Rightarrow> bool) \<Rightarrow> 'v \<Rightarrow> 'k \<Rightarrow> 'v \<Rightarrow> ('k, 'v) cache_map \<Rightarrow> ('v \<times> bool) \<times> ('k, 'v) cache_map" where
  "LoadOrStore equal zero key v m =
     ((case map_of (cm_entries m) key of Some old \<Rightarrow> (old, True) | None \<Rightarrow> (v, False)),
      Compute equal zero key (\<lambda>oldValue loaded. if loaded then (oldValue, CancelOp) else (v, UpdateOp)) m)"

definition cache_Store :: "('v \<Rightarrow> 'v \<Rightarrow> bool) \<Rightarrow> 'v \<Rightarrow> 'k \<Rightarrow> 'v \<Rightarrow> ('k, 'v) cache_map \<Rightarrow> ('k, 'v) cache_map" where
  "cache_Store equal zero key v = Compute equal zero key (\<lambda>_ _. (v, UpdateOp))"

section \<open>Notifications\<close>

record ('k, 'v) all_delta =
  ad_snapshot :: "('k \<times> 'v) list"
  ad_upserts :: "('k \<times> 'v) list"
  ad_removals :: "('k \<times> 'v) list"

definition makeDelta :: "('v \<Rightarrow> 'v \<Rightarrow> bool) \<Rightarrow> ('k, 'v) cache_map \<Rightarrow> ('k, 'v) all_delta \<times> ('k, 'v) cache_map" where
  "makeDelta equal m =
     (let previous = cm_snapshot m; current = LoadAll m;
          upserts = filter (\<lambda>(k, v). \<not> (case map_of previous k of Some prev \<Rightarrow> equal prev v | None \<Rightarrow> False)) current;
          removals = filter (\<lambda>(k, v). map_of current k = None) previous
      in (\<lparr>ad_snapshot = current, ad_upserts = upserts, ad_removals = removals\<rparr>, m\<lparr>cm_snapshot := current\<rparr>))"

definition filteredMap :: "('k \<times> 'v) list \<Rightarrow> ('k \<Rightarrow> 'v \<Rightarrow> bool) option \<Rightarrow> ('k \<times> 'v) list" where
  "filteredMap m incl = (case incl of None \<Rightarrow> m | Some f \<Rightarrow> filter (\<lambda>(k, v). f k v) m)"

definition filteredDelta :: "('k, 'v) all_delta \<Rightarrow> bool \<Rightarrow> ('k \<Rightarrow> 'v \<Rightarrow> bool) option \<Rightarrow> ('k, 'v) delta" where
  "filteredDelta ad initialized incl =
     (let upserts = (if initialized then ad_upserts ad else ad_snapshot ad);
          removals = (if initialized then ad_removals ad else [])
      in \<lparr>dl_Upserts = filteredMap upserts incl, dl_Removals = filteredMap removals incl\<rparr>)"

text \<open>
  If the subscriber is done and its channel can be read, the select may take either; \<open>pick_done\<close> is its
  choice. Reading a closed channel gives the zero delta, and sending it back panics.
\<close>

definition delta_send ::
    "bool \<Rightarrow> ('k, 'v) all_delta \<Rightarrow> ('k, 'v) subscription \<Rightarrow> ('k, 'v) subscription option" where
  "delta_send pick_done ad sb =
     (let fd = filteredDelta ad (sb_initialized sb) (sb_include sb); sb' = sb\<lparr>sb_initialized := True\<rparr> in
      if sb_initialized sb \<and> length (dl_Upserts fd) = 0 \<and> length (dl_Removals fd) = 0 then Some sb'
      else if sb_done sb \<and> (pick_done \<or> (sb_channel sb = None \<and> \<not> sb_closed sb)) then Some sb'
      else if sb_closed sb then None
      else (case sb_channel sb of
              Some prevDelta \<Rightarrow> Some (sb'\<lparr>sb_channel := Some (Delta_Merge prevDelta fd)\<rparr>)
            | None \<Rightarrow> Some (sb'\<lparr>sb_channel := Some fd\<rparr>)))"

definition notify_one ::
    "bool \<Rightarrow> ('k, 'v) all_delta \<Rightarrow> ('k, 'v) subscription \<Rightarrow> ('k, 'v) subscription option" where
  "notify_one pick_done ad sb = (if sb_mark sb then delta_send pick_done ad (sb\<lparr>sb_mark := False\<rparr>) else Some sb)"

fun notify_all ::
    "bool \<Rightarrow> ('k, 'v) all_delta \<Rightarrow> (nat \<times> ('k, 'v) subscription) list \<Rightarrow> (nat \<times> ('k, 'v) subscription) list option" where
  "notify_all pick_done ad [] = Some []"
| "notify_all pick_done ad ((i, sb) # sbs) =
     (case notify_one pick_done ad sb of
        None \<Rightarrow> None
      | Some sb' \<Rightarrow> map_option ((#) (i, sb')) (notify_all pick_done ad sbs))"

text \<open>
  The loop goes over the subscribers until none is marked. Sending marks none, so if nothing else
  runs meanwhile one pass is enough; the timer is idle afterwards.
\<close>

definition notify :: "('v \<Rightarrow> 'v \<Rightarrow> bool) \<Rightarrow> bool \<Rightarrow> ('k, 'v) cache_map \<Rightarrow> ('k, 'v) cache_map option" where
  "notify equal pick_done m =
     (case makeDelta equal m of (ad, m') \<Rightarrow>
        map_option (\<lambda>sbs. m'\<lparr>cm_subscribers := sbs, cm_timer := False\<rparr>) (notify_all pick_done ad (cm_subscribers m')))"

definition Subscribe ::
    "('v \<Rightarrow> 'v \<Rightarrow> bool) \<Rightarrow> bool \<Rightarrow> bool \<Rightarrow> nat \<Rightarrow> ('k \<Rightarrow> 'v \<Rightarrow> bool) option \<Rightarrow> ('k, 'v) cache_map \<Rightarrow> ('k, 'v) cache_map option" where
  "Subscribe equal pick_done is_done i includeFilter m =
     (if is_done then Some m
      else
        (let sb = \<lparr>sb_channel = None, sb_closed = False, sb_include = includeFilter, sb_initialized = False,
                   sb_mark = True, sb_done = False\<rparr>
         in notify equal pick_done (m\<lparr>cm_subscribers := AList.update i sb (cm_subscribers m), cm_timer := False\<rparr>)))"

text \<open>The end of a subscription: its channel \<open>done\<close> is closed, it is deleted and its own channel is closed.\<close>

definition Unsubscribe :: "nat \<Rightarrow> ('k, 'v) cache_map \<Rightarrow> ('k, 'v) cache_map" where
  "Unsubscribe i m = m\<lparr>cm_subscribers := AList.delete i (cm_subscribers m)\<rparr>"

definition receive :: "nat \<Rightarrow> ('k, 'v) cache_map \<Rightarrow> ('k, 'v) delta option \<times> ('k, 'v) cache_map" where
  "receive i m =
     (case map_of (cm_subscribers m) i of
        Some sb \<Rightarrow> (sb_channel sb, m\<lparr>cm_subscribers := AList.update i (sb\<lparr>sb_channel := None\<rparr>) (cm_subscribers m)\<rparr>)
      | None \<Rightarrow> (None, m))"

section \<open>Merging deltas\<close>

lemma fold_delete_keys: "fold (\<lambda>(k, v). AList.delete k) ps m = fold AList.delete (map fst ps) m"
  by (induction ps arbitrary: m) auto

definition delta_ok :: "('k, 'v) delta \<Rightarrow> bool" where
  "delta_ok d \<longleftrightarrow> maps_wf (dl_Upserts d) \<and> maps_wf (dl_Removals d) \<and> fst ` set (dl_Upserts d) \<inter> fst ` set (dl_Removals d) = {}"

lemma lookup_apply_delta:
  "maps_wf (dl_Upserts d) \<Longrightarrow>
   map_of (apply_delta d c) k =
     (if k \<in> fst ` set (dl_Removals d) then None
      else case map_of (dl_Upserts d) k of None \<Rightarrow> map_of c k | Some v \<Rightarrow> Some v)"
  by (simp add: apply_delta_def fold_delete_keys map_of_fold_delete map_of_fold_update)

lemma apply_delta_wf: "maps_wf c \<Longrightarrow> maps_wf (apply_delta d c)"
  by (simp add: apply_delta_def fold_delete_keys maps_wf_fold_delete maps_wf_fold_update)

lemma keys_iff_lookup: "k \<in> fst ` set m \<longleftrightarrow> map_of m k \<noteq> None"
  by (simp add: map_of_eq_None_iff)

lemma lookup_Merge:
  assumes "delta_ok d1" and "delta_ok d2"
  shows "map_of (dl_Upserts (Delta_Merge d1 d2)) k =
      (if k \<in> fst ` set (dl_Removals d2) then None
       else case map_of (dl_Upserts d2) k of None \<Rightarrow> map_of (dl_Upserts d1) k | Some v \<Rightarrow> Some v)"
    and "map_of (dl_Removals (Delta_Merge d1 d2)) k =
      (if k \<in> fst ` set (dl_Upserts d2) then None
       else case map_of (dl_Removals d2) k of None \<Rightarrow> map_of (dl_Removals d1) k | Some v \<Rightarrow> Some v)"
  using assms
  by (auto simp: Delta_Merge_def delta_ok_def fold_delete_keys map_of_fold_delete map_of_fold_update keys_iff_lookup disjoint_iff
      split: option.splits)

lemma Merge_ok:
  assumes "delta_ok d1" and "delta_ok d2"
  shows "delta_ok (Delta_Merge d1 d2)"
proof -
  have "maps_wf (dl_Upserts (Delta_Merge d1 d2))" "maps_wf (dl_Removals (Delta_Merge d1 d2))"
    using assms by (simp_all add: Delta_Merge_def delta_ok_def fold_delete_keys maps_wf_fold_delete maps_wf_fold_update)
  moreover have "k \<notin> fst ` set (dl_Removals (Delta_Merge d1 d2))" if "k \<in> fst ` set (dl_Upserts (Delta_Merge d1 d2))" for k
    using that assms unfolding keys_iff_lookup lookup_Merge [OF assms] by (auto simp: delta_ok_def keys_iff_lookup disjoint_iff split: option.splits if_splits)
  ultimately show ?thesis by (auto simp: delta_ok_def)
qed

lemma apply_Merge:
  assumes "delta_ok d1" and "delta_ok d2"
  shows "map_of (apply_delta (Delta_Merge d1 d2) c) = map_of (apply_delta d2 (apply_delta d1 c))"
proof
  fix k
  have wf: "maps_wf (dl_Upserts (Delta_Merge d1 d2))" "maps_wf (dl_Upserts d1)" "maps_wf (dl_Upserts d2)"
    using Merge_ok [OF assms] assms by (simp_all add: delta_ok_def)
  show "map_of (apply_delta (Delta_Merge d1 d2) c) k = map_of (apply_delta d2 (apply_delta d1 c)) k"
    using assms
    unfolding lookup_apply_delta [OF wf(1)] lookup_apply_delta [OF wf(2)] lookup_apply_delta [OF wf(3)] keys_iff_lookup lookup_Merge [OF assms]
    by (auto simp: delta_ok_def keys_iff_lookup disjoint_iff split: option.splits)
qed

section \<open>Runs\<close>

text \<open>
  The operations of a map and of the clients that watch it, one after the other. A client applies
  each delta it receives to its own map. Identifiers of subscriptions are not used twice.
\<close>

datatype ('k, 'v) cache_event =
    EvCompute 'k "'v \<Rightarrow> bool \<Rightarrow> 'v \<times> compute_op"
  | EvNotify
  | EvSubscribe nat "('k \<Rightarrow> 'v \<Rightarrow> bool) option"
  | EvUnsubscribe nat
  | EvReceive nat

type_synonym ('k, 'v) watched = "('k, 'v) cache_map \<times> (nat \<Rightarrow> ('k \<times> 'v) list)"

fun cache_step :: "('v \<Rightarrow> 'v \<Rightarrow> bool) \<Rightarrow> 'v \<Rightarrow> ('k, 'v) cache_event \<Rightarrow> ('k, 'v) watched \<Rightarrow> ('k, 'v) watched option" where
  "cache_step equal zero (EvCompute k f) (m, cs) = Some (Compute equal zero k f m, cs)"
| "cache_step equal zero EvNotify (m, cs) = map_option (\<lambda>m'. (m', cs)) (notify equal True m)"
| "cache_step equal zero (EvSubscribe i incl) (m, cs) =
     (if map_of (cm_subscribers m) i \<noteq> None then Some (m, cs)
      else map_option (\<lambda>m'. (m', cs(i := []))) (Subscribe equal True False i incl m))"
| "cache_step equal zero (EvUnsubscribe i) (m, cs) = Some (Unsubscribe i m, cs)"
| "cache_step equal zero (EvReceive i) (m, cs) =
     (case receive i m of
        (Some d, m') \<Rightarrow> Some (m', cs(i := apply_delta d (cs i)))
      | (None, m') \<Rightarrow> Some (m', cs))"

fun cache_run :: "('v \<Rightarrow> 'v \<Rightarrow> bool) \<Rightarrow> 'v \<Rightarrow> ('k, 'v) cache_event list \<Rightarrow> ('k, 'v) watched \<Rightarrow> ('k, 'v) watched option" where
  "cache_run equal zero [] w = Some w"
| "cache_run equal zero (e # es) w = Option.bind (cache_step equal zero e w) (cache_run equal zero es)"

lemma cache_run_append:
  "cache_run equal zero (es @ es') w = Option.bind (cache_run equal zero es w) (cache_run equal zero es')"
  by (induction es arbitrary: w) (auto split: bind_splits)

text \<open>
  The values that may be stored under a key, and the events that keep to them: a filter tells such
  values of one key never apart.
\<close>

definition stable :: "('k \<Rightarrow> 'v \<Rightarrow> bool) \<Rightarrow> ('k \<Rightarrow> 'v \<Rightarrow> bool) option \<Rightarrow> bool" where
  "stable vals incl \<longleftrightarrow> (\<forall>k v w. vals k v \<and> vals k w \<longrightarrow> (case incl of None \<Rightarrow> True | Some f \<Rightarrow> f k v = f k w))"

fun event_ok :: "('k \<Rightarrow> 'v \<Rightarrow> bool) \<Rightarrow> ('k, 'v) cache_event \<Rightarrow> bool" where
  "event_ok vals (EvCompute k f) \<longleftrightarrow> (\<forall>v loaded. (loaded \<longrightarrow> vals k v) \<and> snd (f v loaded) = UpdateOp \<longrightarrow> vals k (fst (f v loaded)))"
| "event_ok vals (EvSubscribe i incl) \<longleftrightarrow> stable vals incl"
| "event_ok vals e \<longleftrightarrow> True"

section \<open>What subscribers see\<close>

definition shown :: "('k, 'v) subscription \<Rightarrow> ('k \<times> 'v) list \<Rightarrow> 'k \<Rightarrow> 'v option" where
  "shown sb m k = (case map_of m k of Some v \<Rightarrow> if included sb k v then Some v else None | None \<Rightarrow> None)"

text \<open>The client's map once it has received what waits in its channel.\<close>

definition pending_view :: "('k, 'v) subscription \<Rightarrow> ('k \<times> 'v) list \<Rightarrow> ('k \<times> 'v) list" where
  "pending_view sb c = (case sb_channel sb of None \<Rightarrow> c | Some d \<Rightarrow> apply_delta d c)"

lemma included_simps [simp]:
  "included (sb\<lparr>sb_mark := b\<rparr>) = included sb" "included (sb\<lparr>sb_channel := d\<rparr>) = included sb"
  "included (sb\<lparr>sb_initialized := b\<rparr>) = included sb"
  by (simp_all add: included_def fun_eq_iff)

lemma shown_cong: "included sb' = included sb \<Longrightarrow> shown sb' = shown sb"
  by (auto simp: shown_def fun_eq_iff split: option.splits)

lemma shown_simps [simp]:
  "shown (sb\<lparr>sb_mark := b\<rparr>) = shown sb" "shown (sb\<lparr>sb_channel := d\<rparr>) = shown sb"
  "shown (sb\<lparr>sb_initialized := b\<rparr>) = shown sb"
  by (rule shown_cong, simp)+

lemma lookup_filteredMap: "maps_wf m \<Longrightarrow> map_of (filteredMap m (sb_include sb)) k = shown sb m k"
  by (auto simp: filteredMap_def shown_def included_def maps_wf_def map_of_filter_distinct split: option.splits)

lemma filteredMap_wf: "maps_wf m \<Longrightarrow> maps_wf (filteredMap m incl)"
  by (simp add: filteredMap_def maps_wf_def distinct_keys_filter split: option.splits)

definition entries_ok :: "('k \<Rightarrow> 'v \<Rightarrow> bool) \<Rightarrow> ('k \<times> 'v) list \<Rightarrow> bool" where
  "entries_ok vals m \<longleftrightarrow> maps_wf m \<and> (\<forall>k v. map_of m k = Some v \<longrightarrow> vals k v)"

lemma stable_included: "stable vals (sb_include sb) \<Longrightarrow> vals k v \<Longrightarrow> vals k w \<Longrightarrow> included sb k v = included sb k w"
  by (auto simp: stable_def included_def split: option.splits)

definition tracks ::
    "('v \<Rightarrow> 'v \<Rightarrow> bool) \<Rightarrow> ('k \<times> 'v) list \<Rightarrow> ('k \<times> 'v) list \<Rightarrow> ('k \<times> 'v) list \<Rightarrow> ('k, 'v) subscription \<Rightarrow> bool" where
  "tracks equal entries snap c sb \<longleftrightarrow>
     (\<forall>k. rel_option equal (map_of (pending_view sb c) k) (shown sb snap k))
     \<and> (\<not> sb_mark sb \<longrightarrow> (\<forall>k. rel_option equal (shown sb snap k) (shown sb entries k)))"

definition sub_ok ::
    "('k \<Rightarrow> 'v \<Rightarrow> bool) \<Rightarrow> ('v \<Rightarrow> 'v \<Rightarrow> bool) \<Rightarrow> ('k \<times> 'v) list \<Rightarrow> ('k \<times> 'v) list \<Rightarrow> ('k \<times> 'v) list \<Rightarrow> ('k, 'v) subscription \<Rightarrow> bool" where
  "sub_ok vals equal entries snap c sb \<longleftrightarrow>
     \<not> sb_closed sb \<and> \<not> sb_done sb \<and> stable vals (sb_include sb)
     \<and> (case sb_channel sb of None \<Rightarrow> True | Some d \<Rightarrow> delta_ok d)
     \<and> (if sb_initialized sb then tracks equal entries snap c sb else sb_mark sb \<and> sb_channel sb = None \<and> c = [])"

definition cache_ok :: "('k \<Rightarrow> 'v \<Rightarrow> bool) \<Rightarrow> ('v \<Rightarrow> 'v \<Rightarrow> bool) \<Rightarrow> ('k, 'v) watched \<Rightarrow> bool" where
  "cache_ok vals equal w \<longleftrightarrow>
     (case w of (m, cs) \<Rightarrow>
        entries_ok vals (cm_entries m) \<and> entries_ok vals (cm_snapshot m) \<and> maps_wf (cm_subscribers m)
        \<and> list_all (\<lambda>(i, sb). sub_ok vals equal (cm_entries m) (cm_snapshot m) (cs i) sb) (cm_subscribers m))"

lemma rel_option_trans: "equivp equal \<Longrightarrow> rel_option equal a b \<Longrightarrow> rel_option equal b c \<Longrightarrow> rel_option equal a c"
  by (cases a; cases b; cases c) (auto dest: equivp_transp)

lemma rel_option_refl: "equivp equal \<Longrightarrow> rel_option equal a a"
  by (cases a) (auto dest: equivp_reflp)

text \<open>A change that is not shown to an unmarked subscriber changes nothing it sees.\<close>

lemma Compute_sub_ok:
  assumes "sub_ok vals equal entries snap c sb" and "map_of entries' = (map_of entries)(k := new)"
    and "included sb k w \<or> shown sb entries' k = shown sb entries k"
  shows "sub_ok vals equal entries' snap c (if \<not> sb_mark sb \<and> included sb k w then sb\<lparr>sb_mark := True\<rparr> else sb)"
proof -
  let ?sb = "if \<not> sb_mark sb \<and> included sb k w then sb\<lparr>sb_mark := True\<rparr> else sb"
  have same: "included ?sb = included sb" "sb_include ?sb = sb_include sb" "sb_channel ?sb = sb_channel sb"
    "sb_closed ?sb = sb_closed sb" "sb_done ?sb = sb_done sb" "sb_initialized ?sb = sb_initialized sb"
    "sb_mark ?sb \<longleftrightarrow> sb_mark sb \<or> included sb k w"
    by (simp_all add: included_def fun_eq_iff)
  have "shown sb entries' j = shown sb entries j" if "\<not> included sb k w" for j
    using that assms(2,3) by (cases "j = k") (auto simp: shown_def)
  moreover have "shown ?sb = shown sb" "pending_view ?sb c = pending_view sb c"
    by (simp_all add: pending_view_def)
  ultimately show ?thesis
    using assms(1) unfolding sub_ok_def tracks_def same by (auto split: if_splits)
qed

lemma Compute_ok:
  assumes "cache_ok vals equal (m, cs)" and "event_ok vals (EvCompute k f)"
  shows "cache_ok vals equal (Compute equal zero k f m, cs)"
proof -
  obtain v loaded where ld: "(case map_of (cm_entries m) k of Some v \<Rightarrow> (v, True) | None \<Rightarrow> (zero, False)) = (v, loaded)"
    by fastforce
  obtain fv op where f: "f v loaded = (fv, op)" by fastforce
  have e: "entries_ok vals (cm_entries m)" "entries_ok vals (cm_snapshot m)" "maps_wf (cm_subscribers m)"
    and subs: "\<And>i sb. (i, sb) \<in> set (cm_subscribers m) \<Longrightarrow> sub_ok vals equal (cm_entries m) (cm_snapshot m) (cs i) sb"
    using assms(1) by (auto simp: cache_ok_def list_all_iff)
  have lv: "loaded \<Longrightarrow> map_of (cm_entries m) k = Some v" "\<not> loaded \<Longrightarrow> map_of (cm_entries m) k = None" "loaded \<Longrightarrow> vals k v"
    using ld e(1) by (auto simp: entries_ok_def split: option.splits)
  have change: "cache_ok vals equal ((markSubscribers k w m)\<lparr>cm_entries := entries', cm_timer := True\<rparr>, cs)"
    if wf: "entries_ok vals entries'" and new: "map_of entries' = (map_of (cm_entries m))(k := new)"
      and sh: "\<And>sb. stable vals (sb_include sb) \<Longrightarrow> included sb k w \<or> shown sb entries' k = shown sb (cm_entries m) k"
    for w entries' new
  proof -
    have "maps_wf (cm_subscribers (markSubscribers k w m))"
      using e(3) by (simp add: markSubscribers_def maps_wf_def case_prod_unfold comp_def)
    moreover have "sub_ok vals equal entries' (cm_snapshot m) (cs i) (if \<not> sb_mark sb \<and> included sb k w then sb\<lparr>sb_mark := True\<rparr> else sb)"
      if "(i, sb) \<in> set (cm_subscribers m)" for i sb
      using Compute_sub_ok [OF subs [OF that] new sh] subs [OF that] by (simp add: sub_ok_def)
    ultimately show ?thesis using wf e(2) by (auto simp: cache_ok_def list_all_iff markSubscribers_def)
  qed
  show ?thesis
  proof (cases op)
    case CancelOp
    then show ?thesis using assms(1) by (simp add: Compute_def ld f)
  next
    case UpdateOp
    have vfv: "vals k fv" using assms(2) f UpdateOp lv(3) by (cases loaded) (auto dest!: spec [of _ v] spec [of _ loaded])
    have "included sb k fv \<or> shown sb (AList.update k fv (cm_entries m)) k = shown sb (cm_entries m) k"
      if "stable vals (sb_include sb)" for sb
      using stable_included [OF that vfv, of v] lv by (cases loaded) (auto simp: shown_def)
    moreover have "entries_ok vals (AList.update k fv (cm_entries m))"
      using e(1) vfv by (auto simp: entries_ok_def maps_wf_def distinct_update)
    ultimately have "cache_ok vals equal ((markSubscribers k fv m)\<lparr>cm_entries := AList.update k fv (cm_entries m), cm_timer := True\<rparr>, cs)"
      by (intro change [where new = "Some fv"]) simp_all
    then show ?thesis using UpdateOp assms(1) by (simp add: Compute_def ld f)
  next
    case DeleteOp
    have "included sb k v \<or> shown sb (AList.delete k (cm_entries m)) k = shown sb (cm_entries m) k" for sb
      using lv by (cases loaded) (auto simp: shown_def)
    moreover have "entries_ok vals (AList.delete k (cm_entries m))"
      using e(1) by (auto simp: entries_ok_def maps_wf_def distinct_delete split: if_splits)
    ultimately have "cache_ok vals equal ((markSubscribers k v m)\<lparr>cm_entries := AList.delete k (cm_entries m), cm_timer := True\<rparr>, cs)"
      by (intro change [where new = None]) simp_all
    then show ?thesis using DeleteOp by (simp add: Compute_def ld f)
  qed
qed

text \<open>The delta between two snapshots takes what a subscriber sees from the one to the other.\<close>

lemma makeDelta_result:
  "makeDelta equal m = (ad, m') \<Longrightarrow>
     m' = m\<lparr>cm_snapshot := cm_entries m\<rparr> \<and> ad_snapshot ad = cm_entries m
     \<and> ad_upserts ad = filter (\<lambda>(k, v). \<not> (case map_of (cm_snapshot m) k of Some prev \<Rightarrow> equal prev v | None \<Rightarrow> False)) (cm_entries m)
     \<and> ad_removals ad = filter (\<lambda>(k, v). map_of (cm_entries m) k = None) (cm_snapshot m)"
  by (auto simp: makeDelta_def LoadAll_def Let_def)

lemma lookup_upserts:
  assumes "maps_wf entries"
  shows "map_of (filter (\<lambda>(k, v). \<not> (case map_of snap k of Some prev \<Rightarrow> equal prev v | None \<Rightarrow> False)) entries) k =
    (case map_of entries k of None \<Rightarrow> None
     | Some v \<Rightarrow> if (case map_of snap k of Some prev \<Rightarrow> equal prev v | None \<Rightarrow> False) then None else Some v)"
  using assms by (simp add: map_of_filter_distinct maps_wf_def split: option.splits)

lemma lookup_removals:
  assumes "maps_wf snap"
  shows "map_of (filter (\<lambda>(k, v). map_of entries k = None) snap) k = (if map_of entries k = None then map_of snap k else None)"
  using assms by (simp add: map_of_filter_distinct maps_wf_def split: option.splits)

lemma filteredDelta_moves:
  assumes "equivp equal" and "entries_ok vals entries" and "entries_ok vals snap" and "stable vals (sb_include sb)"
    and "ad_snapshot ad = entries"
    and "ad_upserts ad = filter (\<lambda>(k, v). \<not> (case map_of snap k of Some prev \<Rightarrow> equal prev v | None \<Rightarrow> False)) entries"
    and "ad_removals ad = filter (\<lambda>(k, v). map_of entries k = None) snap"
    and "if ini then \<forall>k. rel_option equal (map_of c k) (shown sb snap k) else c = []"
  shows "delta_ok (filteredDelta ad ini (sb_include sb))"
    and "rel_option equal (map_of (apply_delta (filteredDelta ad ini (sb_include sb)) c) k) (shown sb entries k)"
proof -
  let ?d = "filteredDelta ad ini (sb_include sb)"
  have wf: "maps_wf entries" "maps_wf snap" using assms(2,3) by (simp_all add: entries_ok_def)
  then have wfa: "maps_wf (ad_snapshot ad)" "maps_wf (ad_upserts ad)" "maps_wf (ad_removals ad)"
    unfolding assms(5-7) by (simp_all add: maps_wf_def distinct_keys_filter)
  have au: "map_of (ad_upserts ad) j = (case map_of entries j of None \<Rightarrow> None
      | Some v \<Rightarrow> if (case map_of snap j of Some prev \<Rightarrow> equal prev v | None \<Rightarrow> False) then None else Some v)" for j
    unfolding assms(6) by (rule lookup_upserts [OF wf(1)])
  have ar: "map_of (ad_removals ad) j = (if map_of entries j = None then map_of snap j else None)" for j
    unfolding assms(7) by (rule lookup_removals [OF wf(2)])
  have up: "map_of (dl_Upserts ?d) j =
      (if ini then (case shown sb entries j of None \<Rightarrow> None
         | Some v \<Rightarrow> if (case map_of snap j of Some prev \<Rightarrow> equal prev v | None \<Rightarrow> False) then None else Some v)
       else shown sb entries j)" for j
    using lookup_filteredMap [OF wfa(1), of sb j] lookup_filteredMap [OF wfa(2), of sb j]
    by (cases ini) (auto simp: filteredDelta_def Let_def shown_def au assms(5) split: option.splits)
  have rm: "map_of (dl_Removals ?d) j = (if ini \<and> map_of entries j = None then shown sb snap j else None)" for j
    using lookup_filteredMap [OF wfa(3), of sb j]
    by (cases ini) (auto simp: filteredDelta_def filteredMap_def Let_def shown_def ar split: option.splits)
  have wfd: "maps_wf (dl_Upserts ?d)" "maps_wf (dl_Removals ?d)"
    using wfa by (simp_all add: filteredDelta_def filteredMap_wf Let_def maps_wf_def [of "[]"])
  have "j \<notin> fst ` set (dl_Removals ?d)" if "j \<in> fst ` set (dl_Upserts ?d)" for j
    using that unfolding keys_iff_lookup up rm by (auto simp: shown_def split: option.splits if_splits)
  with wfd show "delta_ok ?d" by (auto simp: delta_ok_def)
  have inc: "included sb k v = included sb k w" if "map_of entries k = Some v" "map_of snap k = Some w" for v w
    using that assms(2,3) stable_included [OF assms(4)] by (auto simp: entries_ok_def)
  show "rel_option equal (map_of (apply_delta ?d c) k) (shown sb entries k)"
  proof (cases ini)
    case True
    then have old: "rel_option equal (map_of c k) (shown sb snap k)" using assms(8) by simp
    note look = lookup_apply_delta [OF wfd(1), of c k, unfolded keys_iff_lookup up rm]
    show ?thesis
    proof (cases "map_of entries k")
      case None
      then show ?thesis unfolding look using old \<open>ini\<close> by (simp add: shown_def split: option.splits if_splits)
    next
      case (Some v)
      note v = this
      show ?thesis
      proof (cases "included sb k v \<and> (\<exists>w. map_of snap k = Some w \<and> equal w v)")
        case True
        then obtain w where w: "map_of snap k = Some w" "equal w v" "included sb k v" by blast
        then have "rel_option equal (shown sb snap k) (shown sb entries k)" using inc [OF v w(1)] by (simp add: shown_def v)
        from rel_option_trans [OF assms(1) old this] w \<open>ini\<close> show ?thesis unfolding look by (simp add: shown_def v)
      next
        case False
        then show ?thesis
          unfolding look using \<open>ini\<close> old inc [OF v] equivp_reflp [OF assms(1), of v]
          by (auto simp: shown_def v split: option.splits if_splits)
      qed
    qed
  next
    case False
    with assms(8) show ?thesis
      using equivp_reflp [OF assms(1)]
      unfolding lookup_apply_delta [OF wfd(1)] keys_iff_lookup up rm by (auto split: option.splits)
  qed
qed

text \<open>After its turn in a notification a subscriber is up to date with the contents.\<close>

lemma notify_one_ok:
  assumes "equivp equal" and "entries_ok vals entries" and "entries_ok vals snap" and "sub_ok vals equal entries snap c sb"
    and ad: "ad_snapshot ad = entries"
      "ad_upserts ad = filter (\<lambda>(k, v). \<not> (case map_of snap k of Some prev \<Rightarrow> equal prev v | None \<Rightarrow> False)) entries"
      "ad_removals ad = filter (\<lambda>(k, v). map_of entries k = None) snap"
  obtains sb' where "notify_one pick_done ad sb = Some sb'" and "sub_ok vals equal entries entries c sb'"
    and "\<not> sb_mark sb'" and "sb_initialized sb'" and "sb_include sb' = sb_include sb"
proof -
  have ok: "\<not> sb_closed sb" "\<not> sb_done sb" "stable vals (sb_include sb)" "case sb_channel sb of None \<Rightarrow> True | Some d \<Rightarrow> delta_ok d"
    "sb_initialized sb \<Longrightarrow> tracks equal entries snap c sb" "\<not> sb_initialized sb \<Longrightarrow> sb_mark sb \<and> sb_channel sb = None \<and> c = []"
    using assms(4) by (simp_all add: sub_ok_def split: if_splits)
  show thesis
  proof (cases "sb_mark sb")
    case False
    with ok have tr: "sb_initialized sb" "tracks equal entries snap c sb" by auto
    have "rel_option equal (map_of (pending_view sb c) k) (shown sb entries k)" for k
      by (rule rel_option_trans [OF assms(1), of _ "shown sb snap k"]) (use tr(2) False in \<open>simp_all add: tracks_def\<close>)
    with ok tr(1) False have "sub_ok vals equal entries entries c sb"
      by (simp add: sub_ok_def tracks_def rel_option_refl [OF assms(1)])
    with False tr(1) that show ?thesis by (simp add: notify_one_def)
  next
    case True
    let ?ini = "sb_initialized sb" and ?c = "pending_view sb c"
    let ?fd = "filteredDelta ad ?ini (sb_include sb)"
    have "if ?ini then \<forall>k. rel_option equal (map_of ?c k) (shown sb snap k) else ?c = []"
      using ok(5,6) by (auto simp: tracks_def pending_view_def)
    note mv = filteredDelta_moves [OF assms(1-3) ok(3) ad this]
    define chan where "chan = (if ?ini \<and> length (dl_Upserts ?fd) = 0 \<and> length (dl_Removals ?fd) = 0 then sb_channel sb
      else Some (case sb_channel sb of Some prev \<Rightarrow> Delta_Merge prev ?fd | None \<Rightarrow> ?fd))"
    define sb' where "sb' = sb\<lparr>sb_mark := False, sb_initialized := True, sb_channel := chan\<rparr>"
    have n: "notify_one pick_done ad sb = Some sb'"
      using True ok(1,2) by (auto simp: notify_one_def delta_send_def Let_def chan_def sb'_def split: option.splits)
    have "case chan of None \<Rightarrow> True | Some d \<Rightarrow> delta_ok d"
      using mv(1) ok(4) Merge_ok by (auto simp: chan_def split: option.splits)
    moreover have "map_of (pending_view sb' c) = map_of (apply_delta ?fd ?c)"
      using apply_Merge [OF _ mv(1), of _ c] ok(4)
      by (auto simp: pending_view_def sb'_def chan_def apply_delta_def [of ?fd] split: option.splits)
    moreover have "shown sb' = shown sb" by (simp add: sb'_def)
    ultimately have "sub_ok vals equal entries entries c sb'"
      using ok(1-3) mv(2) by (simp add: sub_ok_def tracks_def rel_option_refl [OF assms(1)]) (simp add: sb'_def)
    with n that show ?thesis by (simp add: sb'_def)
  qed
qed

lemma notify_all_ok:
  assumes "equivp equal" and "entries_ok vals entries" and "entries_ok vals snap"
    and ad: "ad_snapshot ad = entries"
      "ad_upserts ad = filter (\<lambda>(k, v). \<not> (case map_of snap k of Some prev \<Rightarrow> equal prev v | None \<Rightarrow> False)) entries"
      "ad_removals ad = filter (\<lambda>(k, v). map_of entries k = None) snap"
    and "list_all (\<lambda>(i, sb). sub_ok vals equal entries snap (cs i) sb) sbs"
  shows "\<exists>sbs'. notify_all pick_done ad sbs = Some sbs' \<and> map fst sbs' = map fst sbs
    \<and> list_all (\<lambda>(i, sb). sub_ok vals equal entries entries (cs i) sb \<and> \<not> sb_mark sb \<and> sb_initialized sb) sbs'"
  using assms(7)
proof (induction sbs)
  case (Cons p sbs)
  obtain i sb where p: "p = (i, sb)" by (cases p)
  with Cons.prems have "sub_ok vals equal entries snap (cs i) sb" by simp
  from notify_one_ok [OF assms(1-3) this ad, of pick_done] obtain sb' where
    "notify_one pick_done ad sb = Some sb'" "sub_ok vals equal entries entries (cs i) sb'" "\<not> sb_mark sb'" "sb_initialized sb'" by blast
  with Cons p show ?case by auto
qed simp

definition subscribers_current :: "('k, 'v) cache_map \<Rightarrow> bool" where
  "subscribers_current m \<longleftrightarrow> list_all (\<lambda>(i, sb). \<not> sb_mark sb \<and> sb_initialized sb) (cm_subscribers m)"

lemma notify_ok:
  assumes "equivp equal" and "cache_ok vals equal (m, cs)"
  shows "\<exists>m'. notify equal pick_done m = Some m' \<and> cache_ok vals equal (m', cs) \<and> subscribers_current m'
    \<and> cm_entries m' = cm_entries m \<and> cm_snapshot m' = cm_entries m \<and> map fst (cm_subscribers m') = map fst (cm_subscribers m)"
proof -
  have e: "entries_ok vals (cm_entries m)" "entries_ok vals (cm_snapshot m)" "maps_wf (cm_subscribers m)"
    and subs: "list_all (\<lambda>(i, sb). sub_ok vals equal (cm_entries m) (cm_snapshot m) (cs i) sb) (cm_subscribers m)"
    using assms(2) by (simp_all add: cache_ok_def)
  obtain ad m1 where d: "makeDelta equal m = (ad, m1)" by fastforce
  from makeDelta_result [OF d] have r: "m1 = m\<lparr>cm_snapshot := cm_entries m\<rparr>" "ad_snapshot ad = cm_entries m"
    "ad_upserts ad = filter (\<lambda>(k, v). \<not> (case map_of (cm_snapshot m) k of Some prev \<Rightarrow> equal prev v | None \<Rightarrow> False)) (cm_entries m)"
    "ad_removals ad = filter (\<lambda>(k, v). map_of (cm_entries m) k = None) (cm_snapshot m)" by simp_all
  from notify_all_ok [OF assms(1) e(1,2) r(2-4) subs, of pick_done] obtain sbs where
    s: "notify_all pick_done ad (cm_subscribers m) = Some sbs" "map fst sbs = map fst (cm_subscribers m)"
      "list_all (\<lambda>(i, sb). sub_ok vals equal (cm_entries m) (cm_entries m) (cs i) sb \<and> \<not> sb_mark sb \<and> sb_initialized sb) sbs" by blast
  then show ?thesis
    using e by (auto simp: notify_def d r(1) cache_ok_def subscribers_current_def maps_wf_def list_all_iff)
qed

lemma list_all_update:
  "list_all P sbs \<Longrightarrow> P (i, x) \<Longrightarrow> list_all P (AList.update i x sbs)"
  by (induction sbs) auto

lemma list_all_fresh:
  "map_of sbs i = None \<Longrightarrow> list_all (\<lambda>(j, sb). P (cs j) sb) sbs \<Longrightarrow> list_all (\<lambda>(j, sb). P ((cs(i := c)) j) sb) sbs"
  by (induction sbs) (auto split: if_splits)

lemma Subscribe_ok:
  assumes "equivp equal" and "cache_ok vals equal (m, cs)" and "stable vals incl" and "map_of (cm_subscribers m) i = None"
  shows "\<exists>m'. Subscribe equal pick_done False i incl m = Some m' \<and> cache_ok vals equal (m', cs(i := [])) \<and> subscribers_current m'"
proof -
  let ?sb = "\<lparr>sb_channel = None, sb_closed = False, sb_include = incl, sb_initialized = False, sb_mark = True, sb_done = False\<rparr>"
  let ?m = "m\<lparr>cm_subscribers := AList.update i ?sb (cm_subscribers m), cm_timer := False\<rparr>"
  have "list_all (\<lambda>(j, sb). sub_ok vals equal (cm_entries m) (cm_snapshot m) ((cs(i := [])) j) sb) (cm_subscribers m)"
    using assms(2,4) by (intro list_all_fresh) (simp_all add: cache_ok_def)
  moreover have "sub_ok vals equal (cm_entries m) (cm_snapshot m) [] ?sb" using assms(3) by (simp add: sub_ok_def)
  ultimately have "cache_ok vals equal (?m, cs(i := []))"
    using assms(2) by (simp add: cache_ok_def list_all_update maps_wf_def distinct_update)
  from notify_ok [OF assms(1) this, of pick_done] show ?thesis by (auto simp: Subscribe_def)
qed

lemma Unsubscribe_ok: "cache_ok vals equal (m, cs) \<Longrightarrow> cache_ok vals equal (Unsubscribe i m, cs)"
  by (auto simp: cache_ok_def Unsubscribe_def list_all_iff maps_wf_def distinct_delete AList.delete_eq distinct_keys_filter)

lemma receive_ok:
  assumes "cache_ok vals equal (m, cs)" and "receive i m = (d, m')"
  shows "cache_ok vals equal (m', case d of Some d \<Rightarrow> cs(i := apply_delta d (cs i)) | None \<Rightarrow> cs)"
proof (cases "map_of (cm_subscribers m) i")
  case None
  with assms show ?thesis by (auto simp: receive_def)
next
  case (Some sb)
  let ?cs = "case sb_channel sb of Some d \<Rightarrow> cs(i := apply_delta d (cs i)) | None \<Rightarrow> cs"
    and ?sb = "sb\<lparr>sb_channel := None\<rparr>"
  have wf: "maps_wf (cm_subscribers m)"
    and subs: "list_all (\<lambda>(i, sb). sub_ok vals equal (cm_entries m) (cm_snapshot m) (cs i) sb) (cm_subscribers m)"
    using assms(1) by (simp_all add: cache_ok_def)
  have "?cs i = pending_view sb (cs i)" by (simp add: pending_view_def split: option.split)
  moreover have "sub_ok vals equal (cm_entries m) (cm_snapshot m) (cs i) sb"
    using subs map_of_SomeD [OF Some] by (auto simp: list_all_iff)
  ultimately have own: "sub_ok vals equal (cm_entries m) (cm_snapshot m) (?cs i) ?sb"
    by (auto simp: sub_ok_def tracks_def pending_view_def split: if_splits)
  have "sub_ok vals equal (cm_entries m) (cm_snapshot m) (?cs j) s"
    if "(j, s) \<in> set (AList.update i ?sb (cm_subscribers m))" for j s
  proof (cases "j = i")
    case True
    have "maps_wf (AList.update i ?sb (cm_subscribers m))" using wf by (simp add: maps_wf_def distinct_update)
    with that True have "s = ?sb" by (auto simp: maps_wf_def dest!: map_of_is_SomeI)
    with True own show ?thesis by simp
  next
    case False
    then have "map_of (cm_subscribers m) j = Some s"
      using map_of_is_SomeI [OF _ that] wf by (simp add: maps_wf_def distinct_update)
    then have "(j, s) \<in> set (cm_subscribers m)" by (rule map_of_SomeD)
    with subs False show ?thesis by (auto simp: list_all_iff split: option.split)
  qed
  then show ?thesis
    using assms Some by (auto simp: receive_def cache_ok_def list_all_iff maps_wf_def distinct_update)
qed

lemma cache_step_ok:
  assumes "equivp equal" and "cache_ok vals equal w" and "event_ok vals e"
  shows "\<exists>w'. cache_step equal zero e w = Some w' \<and> cache_ok vals equal w'"
proof -
  obtain m cs where w: "w = (m, cs)" by (cases w)
  with assms(2) have ok: "cache_ok vals equal (m, cs)" by simp
  show ?thesis
  proof (cases e)
    case (EvCompute k f)
    with Compute_ok [OF ok] assms(3) w show ?thesis by simp
  next
    case EvNotify
    with notify_ok [OF assms(1) ok, of True] w show ?thesis by auto
  next
    case (EvSubscribe i incl)
    with Subscribe_ok [OF assms(1) ok, of incl i True] assms(3) w ok show ?thesis by auto
  next
    case (EvUnsubscribe i)
    with Unsubscribe_ok [OF ok] w show ?thesis by simp
  next
    case (EvReceive i)
    obtain d m' where "receive i m = (d, m')" by fastforce
    with receive_ok [OF ok this] EvReceive w show ?thesis by (auto split: option.splits)
  qed
qed

lemma cache_run_ok:
  assumes "equivp equal" and "cache_ok vals equal w" and "list_all (event_ok vals) es"
  shows "\<exists>w'. cache_run equal zero es w = Some w' \<and> cache_ok vals equal w'"
  using assms(2,3)
proof (induction es arbitrary: w)
  case (Cons e es)
  with cache_step_ok [OF assms(1) Cons.prems(1), of e zero] show ?case by fastforce
qed simp

lemma NewMap_ok: "cache_ok vals equal (NewMap, \<lambda>_. [])"
  by (simp add: cache_ok_def NewMap_def entries_ok_def maps_wf_def)

text \<open>
  C20. Merging a delta that was not read yet with the next one loses nothing: applying the merged delta
  gives a client the same map as applying the two one after the other.
\<close>

theorem Merge_sequence:
  assumes "delta_ok d1" and "delta_ok d2"
  shows "delta_ok (Delta_Merge d1 d2) \<and> map_of (apply_delta (Delta_Merge d1 d2) c) = map_of (apply_delta d2 (apply_delta d1 c))"
  using Merge_ok [OF assms] apply_Merge [OF assms] by simp

theorem Merge_sequence_witness:
  "map_of (apply_delta (Delta_Merge \<lparr>dl_Upserts = [(1::nat, ''a'')], dl_Removals = [(2, ''b'')]\<rparr>
      \<lparr>dl_Upserts = [(2, ''c'')], dl_Removals = [(1, ''a'')]\<rparr>) [(2, ''b''), (3, ''d'')]) 2 = Some ''c''"
  using Merge_sequence [of "\<lparr>dl_Upserts = [(1::nat, ''a'')], dl_Removals = [(2, ''b'')]\<rparr>"
      "\<lparr>dl_Upserts = [(2, ''c'')], dl_Removals = [(1, ''a'')]\<rparr>" "[(2, ''b''), (3, ''d'')]"]
  by (simp add: delta_ok_def maps_wf_def apply_delta_def)

text \<open>
  C19. Whatever is stored, deleted, subscribed, unsubscribed and received before it, a notification
  ends without a panic and leaves every subscriber with the map's contents as its filter shows them:
  once the client has received what waits in its channel, its map has the same keys and equal
  values. The filters must not tell apart the values that one key can have.
\<close>

theorem subscriber_converges:
  assumes "equivp equal" and "list_all (event_ok vals) es"
  shows "\<exists>m cs. cache_run equal zero (es @ [EvNotify]) (NewMap, \<lambda>_. []) = Some (m, cs)
    \<and> (\<forall>i sb k. map_of (cm_subscribers m) i = Some sb \<longrightarrow>
         rel_option equal (map_of (pending_view sb (cs i)) k) (shown sb (cm_entries m) k))"
proof -
  from cache_run_ok [OF assms(1) NewMap_ok assms(2)] obtain m cs where
    r: "cache_run equal zero es (NewMap, \<lambda>_. []) = Some (m, cs)" "cache_ok vals equal (m, cs)" by force
  from notify_ok [OF assms(1) r(2), of True] obtain m' where
    n: "notify equal True m = Some m'" "cache_ok vals equal (m', cs)" "subscribers_current m'"
      "cm_entries m' = cm_entries m" "cm_snapshot m' = cm_entries m" by blast
  have "rel_option equal (map_of (pending_view sb (cs i)) k) (shown sb (cm_entries m') k)"
    if "map_of (cm_subscribers m') i = Some sb" for i sb k
  proof -
    have "sb_initialized sb" "sub_ok vals equal (cm_entries m') (cm_entries m') (cs i) sb"
      using map_of_SomeD [OF that] n(2-5) by (auto simp: cache_ok_def subscribers_current_def list_all_iff)
    then show ?thesis by (simp add: sub_ok_def tracks_def)
  qed
  with r(1) n(1) show ?thesis by (simp add: cache_run_append)
qed

lemmas cache_defs = Compute_def markSubscribers_def included_def Subscribe_def notify_def makeDelta_def
  LoadAll_def notify_one_def delta_send_def filteredDelta_def filteredMap_def receive_def apply_delta_def Delta_Merge_def Let_def

definition sample_events :: "(string, nat) cache_event list" where
  "sample_events =
     [EvCompute ''a'' (\<lambda>_ _. (1, UpdateOp)), EvSubscribe 0 (Some (\<lambda>k _. k = ''a'')), EvReceive 0,
      EvCompute ''a'' (\<lambda>v _. (v + 1, UpdateOp)), EvNotify, EvCompute ''a'' (\<lambda>v _. (v + 1, UpdateOp)),
      EvCompute ''b'' (\<lambda>_ _. (7, UpdateOp))]"

theorem subscriber_converges_witness:
  "\<exists>m cs sb. cache_run (=) 0 (sample_events @ [EvNotify]) (NewMap, \<lambda>_. []) = Some (m, cs)
     \<and> map_of (cm_subscribers m) 0 = Some sb \<and> map_of (pending_view sb (cs 0)) ''a'' = Some 3
     \<and> map_of (pending_view sb (cs 0)) ''b'' = None"
proof -
  have "list_all (event_ok (\<lambda>_ _. True)) sample_events" by (simp add: sample_events_def stable_def)
  from subscriber_converges [OF identity_equivp this, of 0] obtain m cs where
    m: "cache_run (=) 0 (sample_events @ [EvNotify]) (NewMap, \<lambda>_. []) = Some (m, cs)"
      "\<And>i sb k. map_of (cm_subscribers m) i = Some sb \<Longrightarrow> map_of (pending_view sb (cs i)) k = shown sb (cm_entries m) k"
    by (auto simp: option.rel_eq)
  have run: "map_option (\<lambda>(m, cs). (cm_entries m, map (\<lambda>(i, sb). (i, included sb ''a'' 3, included sb ''b'' 7)) (cm_subscribers m)))
      (cache_run (=) 0 (sample_events @ [EvNotify]) (NewMap, \<lambda>_. [])) = Some ([(''a'', 3), (''b'', 7)], [(0, True, False)])"
    by (simp add: sample_events_def NewMap_def cache_defs)
  then obtain sb where "cm_entries m = [(''a'', 3), (''b'', 7)]" "cm_subscribers m = [(0, sb)]" "included sb ''a'' 3" "\<not> included sb ''b'' 7"
    unfolding m(1) by (auto simp: map_eq_Cons_conv)
  with m show ?thesis by (auto simp: shown_def)
qed

section \<open>What subscribers miss\<close>

text \<open>
  A value that leaves a filter is not reported: the subscriber is marked for the new value, which the
  filter leaves out. Nor is the removal of the key reported afterwards.
\<close>

lemma leaving_filter_missed:
  assumes "f k v" and "\<not> f k w" and "\<not> equal w v" and "\<not> equal v w"
  shows "\<exists>m cs sb. cache_run equal zero
      [EvCompute k (\<lambda>_ _. (v, UpdateOp)), EvSubscribe 0 (Some f), EvReceive 0, EvCompute k (\<lambda>_ _. (w, UpdateOp)), EvNotify,
       EvCompute k (\<lambda>x l. (x, if l then DeleteOp else CancelOp)), EvNotify] (NewMap, \<lambda>_. []) = Some (m, cs)
    \<and> cm_entries m = [] \<and> cm_subscribers m = [(0, sb)] \<and> sb_channel sb = None \<and> cs 0 = [(k, v)]"
  using assms by (simp add: NewMap_def cache_defs)

text \<open>
  A change made after \<open>notify\<close> took its snapshot marks the subscriber, the same \<open>notify\<close> clears the mark
  with a delta that lacks the change, and the next one finds no mark.
\<close>

definition interleaved_notify :: "('v \<Rightarrow> 'v \<Rightarrow> bool) \<Rightarrow> (('k, 'v) cache_map \<Rightarrow> ('k, 'v) cache_map) \<Rightarrow> ('k, 'v) cache_map \<Rightarrow> ('k, 'v) cache_map option" where
  "interleaved_notify equal other m =
     (case makeDelta equal m of (ad, m') \<Rightarrow>
        let m2 = other m' in
        map_option (\<lambda>sbs. m2\<lparr>cm_subscribers := sbs\<rparr>) (notify_all True ad (cm_subscribers m2)))"

lemma lost_update:
  "\<exists>m cs sb m1 m2. cache_run equal zero [EvSubscribe 0 None, EvReceive 0] (NewMap, \<lambda>_. []) = Some (m, cs)
    \<and> interleaved_notify equal (cache_Store equal zero k v) m = Some m1 \<and> notify equal True m1 = Some m2
    \<and> cm_entries m2 = [(k, v)] \<and> cm_snapshot m2 = [(k, v)] \<and> cm_subscribers m2 = [(0, sb)] \<and> sb_channel sb = None \<and> cs 0 = []"
  by (simp add: NewMap_def cache_defs interleaved_notify_def cache_Store_def)

text \<open>The channel can be closed while a notification still goes over the subscribers.\<close>

lemma send_after_close_panics:
  "sb_closed sb \<Longrightarrow> \<not> sb_initialized sb \<Longrightarrow> delta_send False ad sb = None"
  by (simp add: delta_send_def Let_def)

end
