(* ===== verification/Agent_Generator.thy ===== *)
theory Agent_Generator
  imports Agent_Config "HOL-Library.Monad_Syntax"
begin

text \<open>
  The generator of agent configurations, \<^verbatim>\<open>pkg/agentmap\<close>: \<^verbatim>\<open>capsbase26.go\<close>, \<^verbatim>\<open>generator.go\<close> and the
  searches of \<^verbatim>\<open>discorvery.go\<close> it uses.

  \<open>Generate\<close> is in the option monad, \<open>None\<close> being a panic (a nil container is dereferenced), over a sum
  of errors and results. It changes the generator's own configuration, which is part of the result.
  The closure that numbers the agent ports is the pair of the map it captures and \<open>agentPortNumber\<close>.
  The cluster is a record of the functions the sources call: the listers of services, the matching of
  a selector, the check of a DNS label and the JSON decoders of the annotations.
\<close>

section \<open>Numbers in letters\<close>

text \<open>The digits fill a buffer of 14 bytes from its end; a number with more digits would panic.\<close>

fun base26 :: "char \<Rightarrow> u64 \<Rightarrow> nat \<Rightarrow> string \<Rightarrow> string option" where
  "base26 c v 0 b = None"
| "base26 c v (Suc i) b =
     (let b = char_of ((of_char c :: nat) + unat (v mod 26)) # b in
      if v < 26 then Some b else base26 c (v div 26) i b)"

definition addBase26 :: "char \<Rightarrow> u64 \<Rightarrow> string option" where "addBase26 c v = base26 c v 14 []"
definition CapsBase26 :: "u64 \<Rightarrow> string option" where "CapsBase26 v = addBase26 (CHR ''A'') v"
definition Base26 :: "u64 \<Rightarrow> string option" where "Base26 v = addBase26 (CHR ''a'') v"

section \<open>Discovery\<close>

datatype k8s_error = NotFound | ApiError string

record cluster =
  cl_matches :: "(string \<times> string) list \<Rightarrow> (string \<times> string) list \<Rightarrow> bool"
  cl_service :: "string \<Rightarrow> string \<Rightarrow> k8s_error + k8s_service"
  cl_services :: "string \<Rightarrow> k8s_error + k8s_service list"
  cl_is_label :: "string \<Rightarrow> bool"
  cl_json_policies :: "string \<Rightarrow> policy_error + mount_policies"
  cl_json_ignores :: "string \<Rightarrow> policy_error + string list"

datatype gen_error =
    IsTrafficManager | ExposesAgentPort string u16 | ServiceNotFound string | ServiceError k8s_error | NoLabels
  | BadAnnotation string port_error | BadMountPolicy policy_error | NoContainerPort port_identifier

definition findServicesSelecting ::
  "cluster \<Rightarrow> string \<Rightarrow> (string \<times> string) list \<Rightarrow> gen_error + k8s_service list" where
  "findServicesSelecting cl ns lbs =
     (case cl_services cl ns of
        Inl e \<Rightarrow> Inl (ServiceError e)
      | Inr ss \<Rightarrow>
          Inr (sort_key svc_Name (filter (\<lambda>s. 0 < length (svc_Selector s) \<and> cl_matches cl (svc_Selector s) lbs) ss)))"

definition FindServicesForPod :: "cluster \<Rightarrow> pod_template \<Rightarrow> string \<Rightarrow> gen_error + k8s_service list" where
  "FindServicesForPod cl pod svcName =
     (if svcName \<noteq> [] then
        (case cl_service cl (pt_Namespace pod) svcName of
           Inl NotFound \<Rightarrow> Inl (ServiceNotFound svcName)
         | Inl e \<Rightarrow> Inl (ServiceError e)
         | Inr svc \<Rightarrow> Inr [svc])
      else if 0 < length (pt_Labels pod) then findServicesSelecting cl (pt_Namespace pod) (pt_Labels pod)
      else Inl NoLabels)"

definition containerByName :: "string \<Rightarrow> k8s_container list \<Rightarrow> k8s_container option" where
  "containerByName name cns = find (\<lambda>cn. kc_Name cn = name) cns"

text \<open>The first container with a port that satisfies the test, and the index of that port.\<close>

fun find_port :: "(container_port \<Rightarrow> bool) \<Rightarrow> k8s_container list \<Rightarrow> (k8s_container \<times> nat) option" where
  "find_port test [] = None"
| "find_port test (cn # cns) =
     (case index_func test (kc_Ports cn) of Some pi \<Rightarrow> Some (cn, pi) | None \<Rightarrow> find_port test cns)"

text \<open>An index of -1, for a container that declares no ports, is \<open>None\<close>.\<close>

definition findContainerMatchingPort ::
  "service_port \<Rightarrow> k8s_container list \<Rightarrow> (k8s_container \<times> nat option) option" where
  "findContainerMatchingPort port cns =
     (let proto = (if sv_Protocol port \<noteq> [] then sv_Protocol port else ''TCP'');
          protoEqual = (\<lambda>p. p = proto \<or> p = [] \<and> proto = ''TCP'')
      in case sv_TargetPort port of
           TargetString portName \<Rightarrow>
             map_option (\<lambda>(cn, pi). (cn, Some pi))
               (find_port (\<lambda>p. cp_Name p = portName \<and> protoEqual (cp_Protocol p)) cns)
         | TargetInt n \<Rightarrow>
             (let portNum = (if n = 0 then sv_Port port else n) in
              case find_port (\<lambda>p. cp_ContainerPort p = portNum \<and> protoEqual (cp_Protocol p)) cns of
                Some (cn, pi) \<Rightarrow> Some (cn, Some pi)
              | None \<Rightarrow> map_option (\<lambda>cn. (cn, None)) (find (\<lambda>cn. length (kc_Ports cn) = 0) cns)))"

section \<open>Annotations and ports\<close>

record generator_config =
  gc_ManagerPort :: u16
  gc_AgentPort :: u16
  gc_APIPort :: u16
  gc_QualifiedAgentImage :: string
  gc_ManagerNamespace :: string
  gc_ClusterDomain :: string
  gc_LogLevel :: i64
  gc_InitResources :: "k8s_json option"
  gc_Resources :: "k8s_json option"
  gc_PullPolicy :: string
  gc_PullSecrets :: "k8s_json list"
  gc_SecurityContext :: "security_context option"
  gc_InitSecurityContext :: "security_context option"
  gc_MountPolicies :: mount_policies
  gc_MeshDialSubnets :: "prefix list"
  gc_ClientConnectionTTL :: i64
  gc_WatchRetryInterval :: i64
  gc_EnableH2cProbing :: bool
  gc_EnableMetrics :: bool

definition InjectContainerPorts :: string where "InjectContainerPorts = DomainPrefix @ ''inject-container-ports''"
definition LegacyInjectContainerPorts :: string where
  "LegacyInjectContainerPorts = LegacyDomainPrefix @ ''inject-container-ports''"
definition InjectServiceName :: string where "InjectServiceName = DomainPrefix @ ''inject-service-name''"
definition LegacyInjectServiceName :: string where
  "LegacyInjectServiceName = LegacyDomainPrefix @ ''inject-service-name''"
definition InjectServicePorts :: string where "InjectServicePorts = DomainPrefix @ ''inject-service-ports''"
definition LegacyInjectServicePort :: string where
  "LegacyInjectServicePort = LegacyDomainPrefix @ ''inject-service-port''"

fun first_error :: "('a \<Rightarrow> 'e option) \<Rightarrow> 'a list \<Rightarrow> 'e option" where
  "first_error f [] = None"
| "first_error f (x # xs) = (case f x of Some e \<Rightarrow> Some e | None \<Rightarrow> first_error f xs)"

definition portsFromAnnotationValue :: "cluster \<Rightarrow> string \<Rightarrow> string \<Rightarrow> gen_error + port_identifier list" where
  "portsFromAnnotationValue cl ann v =
     (let cps = split_byte (CHR '','') v in
      case first_error (PortIdentifier_Validate (cl_is_label cl)) cps of
        Some e \<Rightarrow> Inl (BadAnnotation ann e)
      | None \<Rightarrow> Inr cps)"

definition portsFromContainerPortsAnnotation :: "cluster \<Rightarrow> pod_template \<Rightarrow> gen_error + port_identifier list" where
  "portsFromContainerPortsAnnotation cl pod =
     (let cpa = GetAnnotation (pt_Annotations pod) InjectContainerPorts LegacyInjectContainerPorts in
      if cpa = [] then Inr []
      else if cpa = ''all'' then
        Inr (concat (map (\<lambda>cn. map (\<lambda>pn.
               (if cp_Name pn = [] then signed_itoa (sint (cp_ContainerPort pn)) else cp_Name pn)
               @ (if cp_Protocol pn \<noteq> ''TCP'' then ''/'' @ cp_Protocol pn else [])) (kc_Ports cn)) (pt_Containers pod)))
      else portsFromAnnotationValue cl InjectContainerPorts cpa)"

definition filterServicePorts :: "k8s_service \<Rightarrow> port_identifier list \<Rightarrow> service_port list" where
  "filterServicePorts svc portAnnotations =
     (if length portAnnotations = 0 then svc_Ports svc
      else concat (map (\<lambda>pi.
        case ProtoAndNameOrNumber pi of (proto, name, num) \<Rightarrow>
          if name \<noteq> [] then filter (\<lambda>port. sv_Name port = name) (svc_Ports svc)
          else filter (\<lambda>port.
                 let pn = (case sv_TargetPort port of TargetInt n \<Rightarrow> n | TargetString _ \<Rightarrow> 0);
                     pn = (if pn = 0 then sv_Port port else pn)
                 in ucast pn = num \<and> FromK8sProtocol (sv_Protocol port) = proto) (svc_Ports svc)) portAnnotations))"

definition names_port :: "port_identifier \<Rightarrow> container_port \<Rightarrow> bool" where
  "names_port p appPort =
     (case ProtoAndNameOrNumber p of (proto, name, num) \<Rightarrow>
        (name \<noteq> [] \<and> name = cp_Name appPort \<or> num = ucast (cp_ContainerPort appPort))
        \<and> (Proto_String proto = cp_Protocol appPort \<or> proto = ProtoTCP \<and> cp_Protocol appPort = []))"

definition findContainerPort ::
  "k8s_container list \<Rightarrow> port_identifier \<Rightarrow> (k8s_container \<times> container_port) option" where
  "findContainerPort cns p =
     map_option (\<lambda>(cn, i). (cn, kc_Ports cn ! i))
       (find_port (names_port p) (filter (\<lambda>cn. kc_Name cn \<noteq> ContainerName) cns))"

definition containerReplacePolicy :: "sidecar option \<Rightarrow> k8s_container \<Rightarrow> replace_policy" where
  "containerReplacePolicy existingConfig cn =
     (case existingConfig of
        None \<Rightarrow> ReplacePolicyIntercept
      | Some s \<Rightarrow>
          (case find (\<lambda>cc. cn_Name cc = kc_Name cn) (sc_Containers s) of
             Some cc \<Rightarrow> cn_Replace cc
           | None \<Rightarrow> ReplacePolicyIntercept))"

section \<open>Containers\<close>

text \<open>The closure \<open>agentPortNumberFunc\<close>: a container port keeps the agent port it got first.\<close>

type_synonym port_numbers = "(i32 \<times> u16) list"

definition agentPortNumber :: "u16 \<Rightarrow> i32 \<Rightarrow> port_numbers \<Rightarrow> u16 \<times> port_numbers" where
  "agentPortNumber base cnPort pns =
     (case map_of pns cnPort of
        Some p \<Rightarrow> (p, pns)
      | None \<Rightarrow> let p = base + of_nat (length pns) in (p, AList.update cnPort p pns))"

definition mount_policies_of :: "mount_policies \<Rightarrow> volume_mount list \<Rightarrow> mount_policies" where
  "mount_policies_of policies vms =
     fold (\<lambda>vm mps.
             let vp = MountPolicies_Get (go_entries policies) (vm_Name vm) (vm_MountPath vm) in
             if vp \<noteq> MountPolicyIgnore then Some (AList.update (vm_MountPath vm) vp (go_entries mps)) else mps)
       vms None"

definition newContainerConfig ::
  "mount_policies \<Rightarrow> k8s_container \<Rightarrow> nat \<Rightarrow> intercept list \<Rightarrow> replace_policy \<Rightarrow> container option" where
  "newContainerConfig policies cn index ics rp =
     do {
       pfx \<leftarrow> CapsBase26 (of_nat index);
       let mps = mount_policies_of policies (kc_VolumeMounts cn);
       let mounts = map fst (filter (\<lambda>(key, mp). mp = MountPolicyRemote \<or> mp = MountPolicyRemoteReadOnly) (go_entries mps));
       Some \<lparr>cn_Name = kc_Name cn, cn_Intercepts = ics, cn_EnvPrefix = pfx @ ''_'',
             cn_MountPoint = MountPrefixApp @ ''/'' @ kc_Name cn, cn_Mounts = mps, cn_MountPaths = sort mounts,
             cn_Replace = rp\<rparr>
     }"

text \<open>The first container of that name gets the intercept, if there is one.\<close>

fun add_intercept :: "(container \<Rightarrow> container) \<Rightarrow> string \<Rightarrow> container list \<Rightarrow> container list option" where
  "add_intercept f name [] = None"
| "add_intercept f name (cc # ccs) =
     (if cn_Name cc = name then Some (f cc # ccs) else map_option ((#) cc) (add_intercept f name ccs))"

type_synonym gen_state = "port_numbers \<times> container list"

definition service_intercept ::
  "u16 \<Rightarrow> k8s_service \<Rightarrow> service_port \<Rightarrow> container_port \<Rightarrow> port_numbers \<Rightarrow> intercept \<times> port_numbers" where
  "service_intercept base svc port appPort pns =
     (case agentPortNumber base (cp_ContainerPort appPort) pns of (ap, pns) \<Rightarrow>
        (\<lparr>ic_ContainerPortName = cp_Name appPort, ic_ServiceName = svc_Name svc, ic_ServiceUID = svc_UID svc,
          ic_ServicePortName = sv_Name port,
          ic_TargetPortNumeric = (case sv_TargetPort port of TargetInt _ \<Rightarrow> True | TargetString _ \<Rightarrow> False),
          ic_Protocol = FromK8sProtocol (sv_Protocol port),
          ic_AppProtocol = (case sv_AppProtocol port of Some a \<Rightarrow> a | None \<Rightarrow> []), ic_Headless = False,
          ic_ContainerPort = ucast (cp_ContainerPort appPort), ic_ServicePort = ucast (sv_Port port),
          ic_AgentPort = ap\<rparr>, pns))"

text \<open>The container port behind a service port; one the container does not declare is made up.\<close>

definition service_app_port :: "service_port \<Rightarrow> k8s_container \<Rightarrow> nat option \<Rightarrow> container_port" where
  "service_app_port port cn i =
     (case i of
        None \<Rightarrow> \<lparr>cp_Name = [], cp_ContainerPort = (case sv_TargetPort port of TargetInt n \<Rightarrow> n | TargetString _ \<Rightarrow> 0),
                 cp_Protocol = sv_Protocol port\<rparr>
      | Some i \<Rightarrow> kc_Ports cn ! i)"

definition add_service_port ::
  "generator_config \<Rightarrow> k8s_service \<Rightarrow> k8s_container list \<Rightarrow> sidecar option \<Rightarrow> service_port \<Rightarrow> gen_state \<Rightarrow> gen_state option" where
  "add_service_port cfg svc cns existingConfig port st =
     (case st of (pns, ccs) \<Rightarrow>
      case findContainerMatchingPort port cns of
        None \<Rightarrow> Some (pns, ccs)
      | Some (cn, i) \<Rightarrow>
          if kc_Name cn = ContainerName then Some (pns, ccs)
          else
            (let appPort = service_app_port port cn i;
                 (ic, pns) = service_intercept (gc_AgentPort cfg) svc port appPort pns
             in case add_intercept (\<lambda>cc. cc\<lparr>cn_Intercepts := cn_Intercepts cc @ [ic]\<rparr>) (kc_Name cn) ccs of
                  Some ccs \<Rightarrow> Some (pns, ccs)
                | None \<Rightarrow>
                    map_option (\<lambda>cc. (pns, ccs @ [cc]))
                      (newContainerConfig (gc_MountPolicies cfg) cn (length ccs) [ic] (containerReplacePolicy existingConfig cn))))"

fun fold_option :: "('a \<Rightarrow> 's \<Rightarrow> 's option) \<Rightarrow> 'a list \<Rightarrow> 's \<Rightarrow> 's option" where
  "fold_option f [] s = Some s"
| "fold_option f (x # xs) s = (case f x s of None \<Rightarrow> None | Some s \<Rightarrow> fold_option f xs s)"

definition appendAgentContainerConfigs ::
  "generator_config \<Rightarrow> k8s_service \<Rightarrow> pod_template \<Rightarrow> port_identifier list \<Rightarrow> sidecar option \<Rightarrow> gen_state \<Rightarrow> gen_state option" where
  "appendAgentContainerConfigs cfg svc pod portAnnotations existingConfig st =
     fold_option (add_service_port cfg svc (pt_Containers pod) existingConfig) (filterServicePorts svc portAnnotations) st"

definition container_intercept :: "u16 \<Rightarrow> container_port \<Rightarrow> port_numbers \<Rightarrow> intercept \<times> port_numbers" where
  "container_intercept base appPort pns =
     (case agentPortNumber base (cp_ContainerPort appPort) pns of (ap, pns) \<Rightarrow>
        (\<lparr>ic_ContainerPortName = cp_Name appPort, ic_ServiceName = [], ic_ServiceUID = [], ic_ServicePortName = [],
          ic_TargetPortNumeric = True, ic_Protocol = FromK8sProtocol (cp_Protocol appPort), ic_AppProtocol = [],
          ic_Headless = False, ic_ContainerPort = ucast (cp_ContainerPort appPort), ic_ServicePort = 0,
          ic_AgentPort = ap\<rparr>, pns))"

text \<open>
  A port annotation that matches no declared container port: for a number the source makes up the
  port, but has no container for it, and reads the name of the nil container. That is a panic.
\<close>

definition add_container_port ::
  "generator_config \<Rightarrow> k8s_container list \<Rightarrow> sidecar option \<Rightarrow> port_identifier \<Rightarrow> gen_state \<Rightarrow> (gen_error + gen_state) option" where
  "add_container_port cfg cns existingConfig p st =
     (case st of (pns, ccs) \<Rightarrow>
      case findContainerPort cns p of
        None \<Rightarrow> (case ProtoAndNameOrNumber p of (proto, name, num) \<Rightarrow>
                   if name \<noteq> [] then Some (Inl (NoContainerPort p)) else None)
      | Some (cn, appPort) \<Rightarrow>
          (let (ic, pns) = container_intercept (gc_AgentPort cfg) appPort pns
           in case add_intercept (\<lambda>cc. if list_ex (\<lambda>eic. ic_ContainerPort eic = ic_ContainerPort ic) (cn_Intercepts cc) then cc
                                       else cc\<lparr>cn_Intercepts := cn_Intercepts cc @ [ic]\<rparr>) (kc_Name cn) ccs of
                Some ccs \<Rightarrow> Some (Inr (pns, ccs))
              | None \<Rightarrow>
                  map_option (\<lambda>cc. Inr (pns, ccs @ [cc]))
                    (newContainerConfig (gc_MountPolicies cfg) cn (length ccs) [ic] (containerReplacePolicy existingConfig cn))))"

fun appendServiceLessAgentContainerConfigs ::
  "generator_config \<Rightarrow> k8s_container list \<Rightarrow> sidecar option \<Rightarrow> port_identifier list \<Rightarrow> gen_state \<Rightarrow> (gen_error + gen_state) option" where
  "appendServiceLessAgentContainerConfigs cfg cns existingConfig [] st = Some (Inr st)"
| "appendServiceLessAgentContainerConfigs cfg cns existingConfig (p # ps) st =
     (case add_container_port cfg cns existingConfig p st of
        None \<Rightarrow> None
      | Some (Inl e) \<Rightarrow> Some (Inl e)
      | Some (Inr st) \<Rightarrow> appendServiceLessAgentContainerConfigs cfg cns existingConfig ps st)"

text \<open>The containers that have no intercepts.\<close>

definition add_other_container ::
  "generator_config \<Rightarrow> sidecar option \<Rightarrow> k8s_container \<Rightarrow> container list \<Rightarrow> container list option" where
  "add_other_container cfg existingConfig cn ccs =
     (if kc_Name cn = ContainerName \<or> list_ex (\<lambda>cc. cn_Name cc = kc_Name cn) ccs then Some ccs
      else map_option (\<lambda>cc. ccs @ [cc])
             (newContainerConfig (gc_MountPolicies cfg) cn (length ccs) [] (containerReplacePolicy existingConfig cn)))"

section \<open>Generate\<close>

definition trim_dots :: "string \<Rightarrow> string" where
  "trim_dots s = rev (dropWhile ((=) (CHR ''.'')) (rev (dropWhile ((=) (CHR ''.'')) s)))"

definition ManagerHost :: "string \<Rightarrow> string \<Rightarrow> string" where
  "ManagerHost managerNamespace clusterDomain =
     (let host = ''traffic-manager.'' @ managerNamespace; clusterDomain = trim_dots clusterDomain in
      if clusterDomain = [] \<or> CHR ''.'' \<in> set managerNamespace then host else host @ ''.svc.'' @ clusterDomain)"

definition TrafficManagerSelector :: "(string \<times> string) list" where
  "TrafficManagerSelector = [(''app'', ''traffic-manager''), (''telepresence'', ''manager'')]"

definition exposes_agent_port :: "generator_config \<Rightarrow> k8s_container \<Rightarrow> bool" where
  "exposes_agent_port cfg cn \<longleftrightarrow>
     kc_Name cn \<noteq> ContainerName \<and> list_ex (\<lambda>p. cp_ContainerPort p = ucast (gc_AgentPort cfg)) (kc_Ports cn)"

definition new_sidecar :: "generator_config \<Rightarrow> workload \<Rightarrow> container list \<Rightarrow> sidecar" where
  "new_sidecar cfg wl ccs =
     \<lparr>sc_Create = False, sc_Manual = False, sc_AgentImage = gc_QualifiedAgentImage cfg, sc_PullPolicy = gc_PullPolicy cfg,
      sc_PullSecrets = gc_PullSecrets cfg, sc_AgentName = wl_Name wl, sc_Namespace = wl_Namespace wl,
      sc_LogLevel = gc_LogLevel cfg, sc_WorkloadName = wl_Name wl, sc_WorkloadKind = wl_Kind wl,
      sc_ManagerHost = ManagerHost (gc_ManagerNamespace cfg) (gc_ClusterDomain cfg), sc_ManagerPort = gc_ManagerPort cfg,
      sc_APIPort = gc_APIPort cfg, sc_Resources = gc_Resources cfg, sc_InitResources = gc_InitResources cfg,
      sc_MountPolicies = gc_MountPolicies cfg, sc_MeshDialSubnets = gc_MeshDialSubnets cfg, sc_Containers = ccs,
      sc_SecurityContext = gc_SecurityContext cfg, sc_InitSecurityContext = gc_InitSecurityContext cfg,
      sc_ClientConnectionTTL = gc_ClientConnectionTTL cfg, sc_EnableMetrics = gc_EnableMetrics cfg,
      sc_EnableH2cProbing = gc_EnableH2cProbing cfg, sc_WatchRetryInterval = gc_WatchRetryInterval cfg\<rparr>"

text \<open>From the services on: the containers with intercepts, then the others.\<close>

definition generate_containers ::
  "cluster \<Rightarrow> generator_config \<Rightarrow> pod_template \<Rightarrow> k8s_service list \<Rightarrow> port_identifier list \<Rightarrow> sidecar option
   \<Rightarrow> (gen_error + container list) option" where
  "generate_containers cl cfg pod svcs ports existingConfig =
     do {
       st \<leftarrow> fold_option (\<lambda>svc. appendAgentContainerConfigs cfg svc pod ports existingConfig) svcs ([], []);
       case portsFromContainerPortsAnnotation cl pod of
         Inl e \<Rightarrow> Some (Inl e)
       | Inr cports \<Rightarrow>
           do {
             r \<leftarrow> (if 0 < length cports
                   then appendServiceLessAgentContainerConfigs cfg (pt_Containers pod) existingConfig cports st
                   else Some (Inr st));
             case r of
               Inl e \<Rightarrow> Some (Inl e)
             | Inr (pns, ccs) \<Rightarrow>
                 map_option Inr (fold_option (add_other_container cfg existingConfig) (pt_Containers pod) ccs)
           }
     }"

text \<open>From the mount policies on; an error leaves nil policies behind.\<close>

definition generate_sidecar ::
  "cluster \<Rightarrow> workload \<Rightarrow> pod_template \<Rightarrow> k8s_service list \<Rightarrow> port_identifier list \<Rightarrow> sidecar option \<Rightarrow> generator_config
   \<Rightarrow> ((gen_error + sidecar) \<times> generator_config) option" where
  "generate_sidecar cl wl pod svcs ports existingConfig cfg =
     (case AddAnnotations (cl_json_policies cl) (cl_json_ignores cl) (pt_Annotations pod) (gc_MountPolicies cfg) of
        None \<Rightarrow> None
      | Some (Inl e) \<Rightarrow> Some (Inl (BadMountPolicy e), cfg\<lparr>gc_MountPolicies := None\<rparr>)
      | Some (Inr mps) \<Rightarrow>
          let cfg = cfg\<lparr>gc_MountPolicies := mps\<rparr> in
          map_option (\<lambda>r. (case r of Inl e \<Rightarrow> Inl e | Inr ccs \<Rightarrow> Inr (new_sidecar cfg wl ccs), cfg))
            (generate_containers cl cfg pod svcs ports existingConfig))"

definition Generate ::
  "cluster \<Rightarrow> workload \<Rightarrow> sidecar option \<Rightarrow> generator_config \<Rightarrow> ((gen_error + sidecar) \<times> generator_config) option" where
  "Generate cl wl existingConfig cfg =
     (if cl_matches cl TrafficManagerSelector (wl_Labels wl) then Some (Inl IsTrafficManager, cfg)
      else
        (let pod = (wl_PodTemplate wl)\<lparr>pt_Namespace := wl_Namespace wl\<rparr>; anns = pt_Annotations pod in
         case find (exposes_agent_port cfg) (pt_Containers pod) of
           Some cn \<Rightarrow> Some (Inl (ExposesAgentPort (kc_Name cn) (gc_AgentPort cfg)), cfg)
         | None \<Rightarrow>
             (case FindServicesForPod cl pod (GetAnnotation anns InjectServiceName LegacyInjectServiceName) of
                Inl e \<Rightarrow> Some (Inl e, cfg)
              | Inr svcs \<Rightarrow>
                  (let ann = GetAnnotation anns InjectServicePorts LegacyInjectServicePort in
                   case (if ann \<noteq> [] then portsFromAnnotationValue cl InjectServicePorts ann else Inr []) of
                     Inl e \<Rightarrow> Some (Inl e, cfg)
                   | Inr ports \<Rightarrow> generate_sidecar cl wl pod svcs ports existingConfig cfg))))"

section \<open>Reading numbers in letters\<close>

definition dec26 :: "char \<Rightarrow> string \<Rightarrow> nat" where
  "dec26 c s = foldl (\<lambda>n ch. n * 26 + (of_char ch - of_char c)) 0 s"

lemma dec26_snoc: "dec26 c (s @ [ch]) = dec26 c s * 26 + (of_char ch - of_char c)"
  by (simp add: dec26_def)

lemma base26_reads:
  assumes "unat v < 26 ^ i" and "0 < i" and c: "(of_char c :: nat) + 25 < 256"
  shows "\<exists>d. base26 c v i b = Some (d @ b) \<and> dec26 c d = unat v"
  using assms(1,2)
proof (induction i arbitrary: v b)
  case (Suc i)
  let ?ch = "char_of ((of_char c :: nat) + unat (v mod 26)) :: char"
  have m: "unat (v mod 26) = unat v mod 26" by (simp add: unat_mod)
  have ch: "of_char ?ch - of_char c = unat v mod 26"
    using c m mod_less_divisor [of 26 "unat v"] by simp
  show ?case
  proof (cases "v < 26")
    case True
    then have "unat v < 26" by (simp add: word_less_nat_alt)
    then have "dec26 c [?ch] = unat v" using dec26_snoc [of c "[]" ?ch] ch by (simp add: dec26_def)
    with True show ?thesis by (intro exI [of _ "[?ch]"]) (simp add: Let_def)
  next
    case False
    then have ge: "26 \<le> unat v" by (simp add: word_less_nat_alt)
    have d: "unat (v div 26) = unat v div 26" by (simp add: unat_div)
    have "unat v div 26 < 26 ^ i" using Suc.prems(1) by (simp add: less_mult_imp_div_less mult.commute)
    moreover have "0 < i" using ge Suc.prems(1) by (cases i) simp_all
    ultimately obtain e where e: "base26 c (v div 26) i (?ch # b) = Some (e @ ?ch # b)" "dec26 c e = unat v div 26"
      using Suc.IH [of "v div 26" "?ch # b"] d by auto
    have "dec26 c (e @ [?ch]) = unat v" unfolding dec26_snoc ch e(2) by simp
    with e(1) False show ?thesis by (intro exI [of _ "e @ [?ch]"]) (simp add: Let_def)
  qed
qed simp

lemma addBase26_reads:
  assumes "(of_char c :: nat) + 25 < 256"
  shows "\<exists>d. addBase26 c v = Some d \<and> dec26 c d = unat v"
proof -
  have "unat v < 2 ^ 64" using unsigned_less [of v, where 'a = nat] by simp
  also have "(2 :: nat) ^ 64 < 26 ^ 14" by simp
  finally show ?thesis using base26_reads [OF _ _ assms, of v 14 "[]"] by (simp add: addBase26_def)
qed

lemma CapsBase26_total: "\<exists>d. CapsBase26 v = Some d"
  using addBase26_reads [of "CHR ''A''" v] by (auto simp: CapsBase26_def)

lemma CapsBase26_inject: "CapsBase26 v = CapsBase26 w \<longleftrightarrow> v = w"
  using addBase26_reads [of "CHR ''A''" v] addBase26_reads [of "CHR ''A''" w]
  by (auto simp: CapsBase26_def) (metis option.inject unsigned_word_eqI)

section \<open>Agent ports\<close>

text \<open>The numbering is in order, and a port that has a number keeps it.\<close>

definition valid_port :: "i32 \<Rightarrow> bool" where
  "valid_port k \<longleftrightarrow> k < 0x10000"

lemma valid_port_ucast: "valid_port k \<Longrightarrow> valid_port l \<Longrightarrow> ucast k = (ucast l :: u16) \<Longrightarrow> k = l"
proof -
  assume v: "valid_port k" "valid_port l" and e: "ucast k = (ucast l :: u16)"
  have low: "unat (ucast m :: u16) = unat m" if "valid_port m" for m :: i32
    using that by (simp add: valid_port_def word_less_nat_alt unsigned_ucast_eq take_bit_nat_eq_self)
  show "k = l" using low [OF v(1)] low [OF v(2)] e by (metis unsigned_word_eqI)
qed

definition pns_ok :: "u16 \<Rightarrow> port_numbers \<Rightarrow> bool" where
  "pns_ok base pns \<longleftrightarrow>
     distinct (map fst pns) \<and> map snd pns = map (\<lambda>i. base + of_nat i) [0..<length pns] \<and> (\<forall>k\<in>fst ` set pns. valid_port k)"

definition port_values :: "port_numbers \<Rightarrow> u16 set" where
  "port_values pns = snd ` set pns"

lemma agentPortNumber_ok:
  assumes "pns_ok base pns" and "valid_port port" and "agentPortNumber base port pns = (p, pns')"
  shows "pns_ok base pns' \<and> map_of pns' port = Some p \<and> map_of pns \<subseteq>\<^sub>m map_of pns'
    \<and> port_values pns' \<subseteq> insert p (port_values pns)"
proof (cases "map_of pns port")
  case None
  then have fresh: "port \<notin> fst ` set pns" by (simp add: map_of_eq_None_iff)
  have eq: "p = base + of_nat (length pns)" "pns' = pns @ [(port, p)]"
    using assms(3) None update_fresh [OF fresh] by (auto simp: agentPortNumber_def Let_def)
  have "map_of pns \<subseteq>\<^sub>m map_of (pns @ [(port, p)])"
    using None by (auto simp: map_le_def map_add_def split: option.splits)
  with assms(1,2) fresh None eq show ?thesis
    by (auto simp: pns_ok_def map_add_def port_values_def)
qed (use assms in \<open>auto simp: agentPortNumber_def\<close>)

lemma pns_ok_length:
  assumes "pns_ok base pns"
  shows "length pns \<le> 0x10000"
proof -
  have keys: "distinct (map fst pns)" "\<forall>k\<in>set (map fst pns). k < 0x10000"
    using assms(1) by (auto simp: pns_ok_def valid_port_def)
  then have "unat ` set (map fst pns) \<subseteq> {..<0x10000}" by (auto simp: word_less_nat_alt)
  from card_mono [OF _ this] have "card (unat ` set (map fst pns)) \<le> 0x10000" by simp
  moreover have "inj_on unat (set (map fst pns))" by (meson inj_onI unsigned_word_eqI)
  ultimately show ?thesis using distinct_card [OF keys(1)] by (simp add: card_image)
qed

lemma pns_ok_nth: "pns_ok base pns \<Longrightarrow> n < length pns \<Longrightarrow> snd (pns ! n) = base + of_nat n"
  by (metis (no_types, lifting) add_0 diff_zero length_upt nth_map nth_upt pns_ok_def)

lemma pns_ok_distinct:
  assumes "pns_ok base pns"
  shows "distinct (map snd pns)"
proof -
  have "i = j" if "i < length pns" "j < length pns" "snd (pns ! i) = snd (pns ! j)" for i j
  proof -
    have "(of_nat i :: u16) = of_nat j" using that pns_ok_nth [OF assms] by simp
    moreover have "i < 2 ^ 16" "j < 2 ^ 16" using that pns_ok_length [OF assms] by simp_all
    ultimately show ?thesis using of_nat_small_inject [where 'a = 16, of i j] by simp
  qed
  then show ?thesis by (simp add: distinct_conv_nth) blast
qed

lemma pns_ok_inject:
  assumes "pns_ok base pns" and "map_of pns k = Some p" and "map_of pns l = Some p"
  shows "k = l"
  using map_of_SomeD [OF assms(2)] map_of_SomeD [OF assms(3)] pns_ok_distinct [OF assms(1)]
  by (metis distinct_map inj_onD prod.inject snd_conv)

section \<open>Containers of the configuration\<close>

definition icpt_ok :: "port_numbers \<Rightarrow> intercept \<Rightarrow> bool" where
  "icpt_ok pns ic \<longleftrightarrow> (\<exists>port. map_of pns port = Some (ic_AgentPort ic) \<and> ic_ContainerPort ic = ucast port)"

definition prefix_of :: "nat \<Rightarrow> string" where
  "prefix_of i = the (CapsBase26 (of_nat i)) @ ''_''"

definition ccs_ok :: "port_numbers \<Rightarrow> container list \<Rightarrow> bool" where
  "ccs_ok pns ccs \<longleftrightarrow>
     distinct (map cn_Name ccs) \<and> ContainerName \<notin> set (map cn_Name ccs)
     \<and> map cn_EnvPrefix ccs = map prefix_of [0..<length ccs]
     \<and> (\<forall>cc\<in>set ccs. list_all (icpt_ok pns) (cn_Intercepts cc))"

lemma icpt_ok_mono: "icpt_ok pns ic \<Longrightarrow> map_of pns \<subseteq>\<^sub>m map_of pns' \<Longrightarrow> icpt_ok pns' ic"
  unfolding icpt_ok_def map_le_def by (metis domI)

lemma ccs_ok_mono: "ccs_ok pns ccs \<Longrightarrow> map_of pns \<subseteq>\<^sub>m map_of pns' \<Longrightarrow> ccs_ok pns' ccs"
  unfolding ccs_ok_def list_all_iff using icpt_ok_mono by blast

lemma newContainerConfig_fields:
  assumes "newContainerConfig policies cn i ics rp = Some cc"
  shows "cn_Name cc = kc_Name cn \<and> cn_EnvPrefix cc = prefix_of i \<and> cn_Intercepts cc = ics"
  using assms CapsBase26_total [of "of_nat i"]
  by (auto simp: newContainerConfig_def prefix_of_def Let_def)

lemma newContainerConfig_total: "newContainerConfig policies cn i ics rp \<noteq> None"
  using CapsBase26_total [of "of_nat i"] by (auto simp: newContainerConfig_def Let_def)

lemma ccs_ok_append:
  assumes "ccs_ok pns ccs" and "kc_Name cn \<notin> set (map cn_Name ccs)" and "kc_Name cn \<noteq> ContainerName"
    and "list_all (icpt_ok pns) ics" and "newContainerConfig policies cn (length ccs) ics rp = Some cc"
  shows "ccs_ok pns (ccs @ [cc])"
  using assms(1-4) newContainerConfig_fields [OF assms(5)] by (auto simp: ccs_ok_def)

lemma add_intercept_None: "add_intercept f name ccs = None \<longleftrightarrow> name \<notin> set (map cn_Name ccs)"
  by (induction ccs) auto

lemma add_intercept_ok:
  assumes "ccs_ok pns ccs" and "add_intercept f name ccs = Some ccs'"
    and f: "\<And>cc. cn_Name (f cc) = cn_Name cc \<and> cn_EnvPrefix (f cc) = cn_EnvPrefix cc
              \<and> (list_all (icpt_ok pns) (cn_Intercepts cc) \<longrightarrow> list_all (icpt_ok pns) (cn_Intercepts (f cc)))"
  shows "ccs_ok pns ccs'"
proof -
  have "map cn_Name ccs' = map cn_Name ccs \<and> map cn_EnvPrefix ccs' = map cn_EnvPrefix ccs
    \<and> ((\<forall>cc\<in>set ccs. list_all (icpt_ok pns) (cn_Intercepts cc)) \<longrightarrow> (\<forall>cc\<in>set ccs'. list_all (icpt_ok pns) (cn_Intercepts cc)))"
    using assms(2) by (induction ccs arbitrary: ccs') (use f in \<open>auto split: if_splits\<close>)
  moreover from this have "length ccs' = length ccs" by (metis length_map)
  ultimately show ?thesis using assms(1) by (simp add: ccs_ok_def)
qed

definition agent_ports :: "container list \<Rightarrow> u16 set" where
  "agent_ports ccs = (\<Union>cc\<in>set ccs. ic_AgentPort ` set (cn_Intercepts cc))"

definition gen_ok :: "u16 \<Rightarrow> gen_state \<Rightarrow> bool" where
  "gen_ok base st \<longleftrightarrow> pns_ok base (fst st) \<and> ccs_ok (fst st) (snd st) \<and> port_values (fst st) \<subseteq> agent_ports (snd st)"

lemma icpt_ok_same:
  assumes "pns_ok base pns" and "icpt_ok pns a" and "icpt_ok pns b"
  shows "ic_ContainerPort a = ic_ContainerPort b \<longleftrightarrow> ic_AgentPort a = ic_AgentPort b"
proof -
  from assms(2,3) obtain k l where k: "map_of pns k = Some (ic_AgentPort a)" "ic_ContainerPort a = ucast k"
    and l: "map_of pns l = Some (ic_AgentPort b)" "ic_ContainerPort b = ucast l"
    by (auto simp: icpt_ok_def)
  have "valid_port k" "valid_port l"
    using assms(1) map_of_SomeD [OF k(1)] map_of_SomeD [OF l(1)] by (force simp: pns_ok_def)+
  then have "ic_ContainerPort a = ic_ContainerPort b \<longleftrightarrow> k = l" using k l valid_port_ucast by auto
  also have "\<dots> \<longleftrightarrow> ic_AgentPort a = ic_AgentPort b" using pns_ok_inject [OF assms(1)] k(1) l(1) by auto
  finally show ?thesis .
qed

lemma add_intercept_ports:
  assumes "add_intercept f name ccs = Some ccs'"
    and "\<And>cc. cc \<in> set ccs \<Longrightarrow>
           f cc = cc \<and> ic_AgentPort ic \<in> ic_AgentPort ` set (cn_Intercepts cc)
           \<or> f cc = cc\<lparr>cn_Intercepts := cn_Intercepts cc @ [ic]\<rparr>"
  shows "agent_ports ccs' = insert (ic_AgentPort ic) (agent_ports ccs)"
  using assms
proof (induction ccs arbitrary: ccs')
  case (Cons cc ccs)
  show ?case
  proof (cases "cn_Name cc = name")
    case True
    with Cons.prems(1) have "ccs' = f cc # ccs" by simp
    with Cons.prems(2) [of cc] show ?thesis by (auto simp: agent_ports_def)
  next
    case False
    with Cons.prems(1) obtain ccs1 where "add_intercept f name ccs = Some ccs1" "ccs' = cc # ccs1" by auto
    with Cons.IH [of ccs1] Cons.prems(2) show ?thesis by (auto simp: agent_ports_def)
  qed
qed simp

lemma find_port_Some:
  "find_port test cns = Some (cn, i) \<Longrightarrow> cn \<in> set cns \<and> i < length (kc_Ports cn) \<and> test (kc_Ports cn ! i)"
proof (induction cns)
  case (Cons c cns)
  have ix: "index_func test ps = Some j \<Longrightarrow> j < length ps \<and> test (ps ! j)" for ps j
    by (induction ps arbitrary: j) (auto split: if_splits)
  from Cons show ?case by (auto dest: ix split: option.splits)
qed simp

text \<open>What Kubernetes validates: container ports and numeric target ports are below 65536.\<close>

definition pod_ports_ok :: "k8s_container list \<Rightarrow> bool" where
  "pod_ports_ok cns \<longleftrightarrow> (\<forall>cn\<in>set cns. \<forall>p\<in>set (kc_Ports cn). valid_port (cp_ContainerPort p))"

definition svc_port_ok :: "service_port \<Rightarrow> bool" where
  "svc_port_ok port \<longleftrightarrow> valid_port (case sv_TargetPort port of TargetInt n \<Rightarrow> n | TargetString _ \<Rightarrow> 0)"

lemma service_app_port_valid:
  assumes "pod_ports_ok cns" and "svc_port_ok port" and "findContainerMatchingPort port cns = Some (cn, i)"
  shows "valid_port (cp_ContainerPort (service_app_port port cn i))"
proof (cases i)
  case None
  with assms(2) show ?thesis by (simp add: service_app_port_def svc_port_ok_def)
next
  case (Some n)
  with assms(3) have "cn \<in> set cns" "n < length (kc_Ports cn)"
    by (auto simp: findContainerMatchingPort_def Let_def dest!: find_port_Some split: target_port.splits option.splits)
  with Some assms(1) show ?thesis by (auto simp: service_app_port_def pod_ports_ok_def)
qed

lemma service_intercept_ok:
  assumes "gen_ok base (pns, ccs)" and "valid_port (cp_ContainerPort appPort)"
    and "service_intercept base svc port appPort pns = (ic, pns')"
  shows "pns_ok base pns' \<and> ccs_ok pns' ccs \<and> icpt_ok pns' ic \<and> port_values pns' \<subseteq> insert (ic_AgentPort ic) (agent_ports ccs)"
proof -
  obtain ap where ap: "agentPortNumber base (cp_ContainerPort appPort) pns = (ap, pns')"
    and ic: "ic_AgentPort ic = ap" "ic_ContainerPort ic = ucast (cp_ContainerPort appPort)"
    using assms(3) by (auto simp: service_intercept_def split: prod.splits)
  from agentPortNumber_ok [OF _ assms(2) ap] assms(1) ic show ?thesis
    by (auto simp: gen_ok_def icpt_ok_def intro: ccs_ok_mono)
qed

text \<open>Adding an intercept to its container, or a new container for it, keeps the configuration well formed.\<close>

lemma gen_ok_add:
  assumes "pns_ok base pns" and "ccs_ok pns ccs" and "icpt_ok pns ic"
    and cov: "port_values pns \<subseteq> insert (ic_AgentPort ic) (agent_ports ccs)" and "kc_Name cn \<noteq> ContainerName"
    and f: "\<And>cc. f cc = cc \<and> ic_ContainerPort ic \<in> ic_ContainerPort ` set (cn_Intercepts cc)
                 \<or> f cc = cc\<lparr>cn_Intercepts := cn_Intercepts cc @ [ic]\<rparr>"
    and st: "(case add_intercept f (kc_Name cn) ccs of
            Some ccs \<Rightarrow> Some (pns, ccs)
          | None \<Rightarrow> map_option (\<lambda>cc. (pns, ccs @ [cc])) (newContainerConfig policies cn (length ccs) [ic] rp)) = Some st"
  shows "gen_ok base st"
proof (cases "add_intercept f (kc_Name cn) ccs")
  case None
  with st obtain cc where
    cc: "newContainerConfig policies cn (length ccs) [ic] rp = Some cc" and eq: "st = (pns, ccs @ [cc])" by auto
  from ccs_ok_append [OF assms(2) _ assms(5) _ cc] None assms(1,3) cov eq newContainerConfig_fields [OF cc] show ?thesis
    by (auto simp: gen_ok_def add_intercept_None agent_ports_def)
next
  case (Some ccs')
  have "cn_Name (f cc) = cn_Name cc \<and> cn_EnvPrefix (f cc) = cn_EnvPrefix cc
      \<and> (list_all (icpt_ok pns) (cn_Intercepts cc) \<longrightarrow> list_all (icpt_ok pns) (cn_Intercepts (f cc)))" for cc
    using f [of cc] assms(3) by auto
  note ok = add_intercept_ok [OF assms(2) Some this]
  have "f cc = cc \<and> ic_AgentPort ic \<in> ic_AgentPort ` set (cn_Intercepts cc)
      \<or> f cc = cc\<lparr>cn_Intercepts := cn_Intercepts cc @ [ic]\<rparr>" if "cc \<in> set ccs" for cc
    using f [of cc] that assms(2) icpt_ok_same [OF assms(1) assms(3)]
    by (auto simp: ccs_ok_def list_all_iff image_iff)
  from add_intercept_ports [OF Some this] cov ok Some assms(1) st show ?thesis by (auto simp: gen_ok_def)
qed

lemma add_service_port_ok:
  assumes "gen_ok (gc_AgentPort cfg) st" and "pod_ports_ok cns" and "svc_port_ok port"
    and "add_service_port cfg svc cns ex port st = Some st'"
  shows "gen_ok (gc_AgentPort cfg) st'"
proof -
  obtain pns ccs where st: "st = (pns, ccs)" by fastforce
  show ?thesis
  proof (cases "\<exists>cn i. findContainerMatchingPort port cns = Some (cn, i) \<and> kc_Name cn \<noteq> ContainerName")
    case False
    with assms st show ?thesis by (auto simp: add_service_port_def split: option.splits if_splits)
  next
    case True
    then obtain cn i where cn: "findContainerMatchingPort port cns = Some (cn, i)" "kc_Name cn \<noteq> ContainerName" by blast
    obtain ic pns' where ic: "service_intercept (gc_AgentPort cfg) svc port (service_app_port port cn i) pns = (ic, pns')"
      by fastforce
    from service_intercept_ok [OF _ service_app_port_valid [OF assms(2,3) cn(1)] ic] assms(1) st
    have ok: "pns_ok (gc_AgentPort cfg) pns'" "ccs_ok pns' ccs" "icpt_ok pns' ic"
      "port_values pns' \<subseteq> insert (ic_AgentPort ic) (agent_ports ccs)" by auto
    from assms(4) st cn ic show ?thesis
      by (intro gen_ok_add [OF ok cn(2), of "\<lambda>cc. cc\<lparr>cn_Intercepts := cn_Intercepts cc @ [ic]\<rparr>"])
        (simp_all add: add_service_port_def)
  qed
qed

lemma container_intercept_ok:
  assumes "gen_ok base (pns, ccs)" and "valid_port (cp_ContainerPort appPort)"
    and "container_intercept base appPort pns = (ic, pns')"
  shows "pns_ok base pns' \<and> ccs_ok pns' ccs \<and> icpt_ok pns' ic \<and> port_values pns' \<subseteq> insert (ic_AgentPort ic) (agent_ports ccs)"
proof -
  obtain ap where ap: "agentPortNumber base (cp_ContainerPort appPort) pns = (ap, pns')"
    and ic: "ic_AgentPort ic = ap" "ic_ContainerPort ic = ucast (cp_ContainerPort appPort)"
    using assms(3) by (auto simp: container_intercept_def split: prod.splits)
  from agentPortNumber_ok [OF _ assms(2) ap] assms(1) ic show ?thesis
    by (auto simp: gen_ok_def icpt_ok_def intro: ccs_ok_mono)
qed

lemma findContainerPort_Some:
  assumes "findContainerPort cns p = Some (cn, appPort)"
  shows "cn \<in> set cns \<and> kc_Name cn \<noteq> ContainerName \<and> appPort \<in> set (kc_Ports cn) \<and> names_port p appPort"
  using assms by (auto simp: findContainerPort_def dest!: find_port_Some)

lemma add_container_port_ok:
  assumes "gen_ok (gc_AgentPort cfg) st" and "pod_ports_ok cns"
    and "add_container_port cfg cns ex p st = Some (Inr st')"
  shows "gen_ok (gc_AgentPort cfg) st'"
proof -
  obtain pns ccs where st: "st = (pns, ccs)" by fastforce
  from assms(3) st obtain cn appPort where cn: "findContainerPort cns p = Some (cn, appPort)"
    by (auto simp: add_container_port_def split: option.splits prod.splits if_splits)
  note mem = findContainerPort_Some [OF cn]
  with assms(2) have V: "valid_port (cp_ContainerPort appPort)" by (auto simp: pod_ports_ok_def)
  obtain ic pns' where ic: "container_intercept (gc_AgentPort cfg) appPort pns = (ic, pns')" by fastforce
  from container_intercept_ok [OF _ V ic] assms(1) st
  have ok: "pns_ok (gc_AgentPort cfg) pns'" "ccs_ok pns' ccs" "icpt_ok pns' ic"
    "port_values pns' \<subseteq> insert (ic_AgentPort ic) (agent_ports ccs)" by auto
  let ?add = "\<lambda>cc. if list_ex (\<lambda>eic. ic_ContainerPort eic = ic_ContainerPort ic) (cn_Intercepts cc) then cc
      else cc\<lparr>cn_Intercepts := cn_Intercepts cc @ [ic]\<rparr>"
  from assms(3) st cn ic
  have "(case add_intercept ?add (kc_Name cn) ccs of
            Some ccs \<Rightarrow> Some (pns', ccs)
          | None \<Rightarrow> map_option (\<lambda>cc. (pns', ccs @ [cc]))
              (newContainerConfig (gc_MountPolicies cfg) cn (length ccs) [ic] (containerReplacePolicy ex cn))) = Some st'"
    by (auto simp: add_container_port_def split: option.splits)
  moreover have "?add cc = cc \<and> ic_ContainerPort ic \<in> ic_ContainerPort ` set (cn_Intercepts cc)
      \<or> ?add cc = cc\<lparr>cn_Intercepts := cn_Intercepts cc @ [ic]\<rparr>" for cc
    by (auto simp: list_ex_iff intro: rev_image_eqI)
  ultimately show ?thesis using gen_ok_add [OF ok, of cn ?add] mem by blast
qed

lemma fold_option_inv:
  assumes "I s" and "fold_option f xs s = Some s'" and "\<And>x s s'. x \<in> set xs \<Longrightarrow> I s \<Longrightarrow> f x s = Some s' \<Longrightarrow> I s'"
  shows "I s'"
  using assms
proof (induction xs arbitrary: s)
  case (Cons x xs)
  from Cons.prems(2) obtain s1 where s1: "f x s = Some s1" "fold_option f xs s1 = Some s'"
    by (auto split: option.splits)
  show ?case by (rule Cons.IH [OF _ s1(2)]) (use Cons.prems(1,3) s1(1) in auto)
qed simp

lemma appendServiceLess_ok:
  assumes "gen_ok (gc_AgentPort cfg) st" and "pod_ports_ok cns"
    and "appendServiceLessAgentContainerConfigs cfg cns ex ps st = Some (Inr st')"
  shows "gen_ok (gc_AgentPort cfg) st'"
  using assms(1,3)
proof (induction ps arbitrary: st)
  case (Cons p ps)
  then obtain st1 where "add_container_port cfg cns ex p st = Some (Inr st1)"
    "appendServiceLessAgentContainerConfigs cfg cns ex ps st1 = Some (Inr st')"
    by (auto split: option.splits sum.splits)
  with Cons add_container_port_ok [OF Cons.prems(1) assms(2)] show ?case by blast
qed simp

lemma add_other_container_ok:
  assumes "ccs_ok pns ccs" and "add_other_container cfg ex cn ccs = Some ccs'"
  shows "ccs_ok pns ccs' \<and> agent_ports ccs' = agent_ports ccs"
proof (cases "kc_Name cn = ContainerName \<or> list_ex (\<lambda>cc. cn_Name cc = kc_Name cn) ccs")
  case True
  with assms show ?thesis by (simp add: add_other_container_def)
next
  case False
  then have new: "kc_Name cn \<notin> set (map cn_Name ccs)" "kc_Name cn \<noteq> ContainerName" by (auto simp: list_ex_iff)
  from False assms(2) obtain cc where
    cc: "newContainerConfig (gc_MountPolicies cfg) cn (length ccs) [] (containerReplacePolicy ex cn) = Some cc"
    and "ccs' = ccs @ [cc]" by (auto simp: add_other_container_def)
  with ccs_ok_append [OF assms(1) new _ cc] newContainerConfig_fields [OF cc] show ?thesis by (simp add: agent_ports_def)
qed

definition services_ok :: "k8s_service list \<Rightarrow> bool" where
  "services_ok svcs \<longleftrightarrow> (\<forall>svc\<in>set svcs. \<forall>port\<in>set (svc_Ports svc). svc_port_ok port)"

lemma filterServicePorts_subset: "set (filterServicePorts svc ps) \<subseteq> set (svc_Ports svc)"
  by (auto simp: filterServicePorts_def split: prod.splits if_splits)

lemma appendAgentContainerConfigs_ok:
  assumes "gen_ok (gc_AgentPort cfg) st" and "pod_ports_ok (pt_Containers pod)"
    and "\<forall>port\<in>set (svc_Ports svc). svc_port_ok port"
    and "appendAgentContainerConfigs cfg svc pod ps ex st = Some st'"
  shows "gen_ok (gc_AgentPort cfg) st'"
proof (rule fold_option_inv [where I = "gen_ok (gc_AgentPort cfg)", OF assms(1)])
  show "fold_option (add_service_port cfg svc (pt_Containers pod) ex) (filterServicePorts svc ps) st = Some st'"
    using assms(4) by (simp add: appendAgentContainerConfigs_def)
next
  fix port s s'
  assume "port \<in> set (filterServicePorts svc ps)" and "gen_ok (gc_AgentPort cfg) s"
    and "add_service_port cfg svc (pt_Containers pod) ex port s = Some s'"
  moreover from this(1) have "svc_port_ok port" using assms(3) filterServicePorts_subset by blast
  ultimately show "gen_ok (gc_AgentPort cfg) s'" using add_service_port_ok [OF _ assms(2)] by blast
qed

lemma generate_containers_ok:
  assumes "pod_ports_ok (pt_Containers pod)" and "services_ok svcs"
    and "generate_containers cl cfg pod svcs ports ex = Some (Inr ccs)"
  shows "\<exists>pns. gen_ok (gc_AgentPort cfg) (pns, ccs)"
proof -
  have skip: "(if 0 < length cports then appendServiceLessAgentContainerConfigs cfg (pt_Containers pod) ex cports st
      else Some (Inr st)) = appendServiceLessAgentContainerConfigs cfg (pt_Containers pod) ex cports st" for cports st
    by (cases cports) simp_all
  from assms(3) obtain st cports pns ccs0 where
    svc: "fold_option (\<lambda>svc. appendAgentContainerConfigs cfg svc pod ports ex) svcs ([], []) = Some st"
    and less: "appendServiceLessAgentContainerConfigs cfg (pt_Containers pod) ex cports st = Some (Inr (pns, ccs0))"
    and other: "fold_option (add_other_container cfg ex) (pt_Containers pod) ccs0 = Some ccs"
    unfolding generate_containers_def skip by (auto split: sum.splits Option.bind_splits)
  have "gen_ok (gc_AgentPort cfg) st"
  proof (rule fold_option_inv [where I = "gen_ok (gc_AgentPort cfg)", OF _ svc])
    show "gen_ok (gc_AgentPort cfg) ([], [])" by (simp add: gen_ok_def pns_ok_def ccs_ok_def port_values_def)
  next
    fix svc s s'
    assume "svc \<in> set svcs" "gen_ok (gc_AgentPort cfg) s" "appendAgentContainerConfigs cfg svc pod ports ex s = Some s'"
    then show "gen_ok (gc_AgentPort cfg) s'"
      using appendAgentContainerConfigs_ok [OF _ assms(1)] assms(2) unfolding services_ok_def by blast
  qed
  from appendServiceLess_ok [OF this assms(1) less]
  have "gen_ok (gc_AgentPort cfg) (pns, ccs0)" .
  then have "gen_ok (gc_AgentPort cfg) (pns, ccs)"
    using other
    by (rule fold_option_inv [where I = "\<lambda>ccs. gen_ok (gc_AgentPort cfg) (pns, ccs)"])
      (use add_other_container_ok in \<open>force simp: gen_ok_def\<close>)
  then show ?thesis ..
qed

section \<open>The generated configuration\<close>

definition cluster_services :: "cluster \<Rightarrow> k8s_service set" where
  "cluster_services cl =
     {svc. (\<exists>ns name. cl_service cl ns name = Inr svc) \<or> (\<exists>ns ss. cl_services cl ns = Inr ss \<and> svc \<in> set ss)}"

lemma FindServicesForPod_from_cluster:
  "FindServicesForPod cl pod name = Inr svcs \<Longrightarrow> set svcs \<subseteq> cluster_services cl"
  by (auto simp: FindServicesForPod_def findServicesSelecting_def cluster_services_def
      split: if_splits sum.splits k8s_error.splits)

lemma generate_sidecar_result:
  assumes "generate_sidecar cl wl pod svcs ports ex cfg = Some (Inr s, cfg')"
  shows "\<exists>mps ccs. cfg' = cfg\<lparr>gc_MountPolicies := mps\<rparr>
    \<and> AddAnnotations (cl_json_policies cl) (cl_json_ignores cl) (pt_Annotations pod) (gc_MountPolicies cfg) = Some (Inr mps)
    \<and> generate_containers cl cfg' pod svcs ports ex = Some (Inr ccs) \<and> s = new_sidecar cfg' wl ccs"
proof -
  let ?add = "AddAnnotations (cl_json_policies cl) (cl_json_ignores cl) (pt_Annotations pod) (gc_MountPolicies cfg)"
  consider "?add = None" | e where "?add = Some (Inl e)" | mps where "?add = Some (Inr mps)"
    by (metis not_Some_eq sumE)
  then obtain mps where mps: "?add = Some (Inr mps)"
    using assms by cases (simp_all add: generate_sidecar_def)
  let ?cfg = "cfg\<lparr>gc_MountPolicies := mps\<rparr>"
  have "map_option (\<lambda>r. (case r of Inl e \<Rightarrow> Inl e | Inr ccs \<Rightarrow> Inr (new_sidecar ?cfg wl ccs), ?cfg))
      (generate_containers cl ?cfg pod svcs ports ex) = Some (Inr s, cfg')"
    using assms by (simp only: generate_sidecar_def mps option.case sum.case Let_def)
  then obtain r where r: "generate_containers cl ?cfg pod svcs ports ex = Some r"
    "(case r of Inl e \<Rightarrow> Inl e | Inr ccs \<Rightarrow> Inr (new_sidecar ?cfg wl ccs)) = Inr s" "cfg' = ?cfg"
    by (simp only: map_option_eq_Some prod.inject) blast
  then obtain ccs where "r = Inr ccs" "s = new_sidecar cfg' wl ccs" by (cases r) simp_all
  with r mps show ?thesis by blast
qed

lemma Generate_result:
  assumes "Generate cl wl ex cfg = Some (Inr s, cfg')"
  shows "\<exists>mps svcs ports ccs. cfg' = cfg\<lparr>gc_MountPolicies := mps\<rparr>
    \<and> AddAnnotations (cl_json_policies cl) (cl_json_ignores cl) (pt_Annotations (wl_PodTemplate wl)) (gc_MountPolicies cfg) = Some (Inr mps)
    \<and> set svcs \<subseteq> cluster_services cl
    \<and> generate_containers cl cfg' ((wl_PodTemplate wl)\<lparr>pt_Namespace := wl_Namespace wl\<rparr>) svcs ports ex = Some (Inr ccs)
    \<and> s = new_sidecar cfg' wl ccs"
proof -
  let ?pod = "(wl_PodTemplate wl)\<lparr>pt_Namespace := wl_Namespace wl\<rparr>"
  from assms obtain svcs ports where
    svcs: "FindServicesForPod cl ?pod (GetAnnotation (pt_Annotations ?pod) InjectServiceName LegacyInjectServiceName) = Inr svcs"
    and g: "generate_sidecar cl wl ?pod svcs ports ex cfg = Some (Inr s, cfg')"
    unfolding Generate_def Let_def by (auto split: if_splits option.splits sum.splits)
  have "pt_Annotations ?pod = pt_Annotations (wl_PodTemplate wl)" by simp
  with generate_sidecar_result [OF g] FindServicesForPod_from_cluster [OF svcs] show ?thesis
    by (elim exE conjE) (intro exI conjI, assumption+, simp, assumption+)
qed

text \<open>What Kubernetes validates, for the pod of the workload and the services of the cluster.\<close>

definition cluster_valid :: "cluster \<Rightarrow> workload \<Rightarrow> bool" where
  "cluster_valid cl wl \<longleftrightarrow>
     pod_ports_ok (pt_Containers (wl_PodTemplate wl)) \<and> (\<forall>svc\<in>cluster_services cl. \<forall>p\<in>set (svc_Ports svc). svc_port_ok p)"

lemma Generate_gen_ok:
  assumes "Generate cl wl ex cfg = Some (Inr s, cfg')" and "cluster_valid cl wl"
  shows "\<exists>pns. gen_ok (gc_AgentPort cfg) (pns, sc_Containers s)"
proof -
  from Generate_result [OF assms(1)] obtain mps svcs ports ccs where
    r: "cfg' = cfg\<lparr>gc_MountPolicies := mps\<rparr>" "set svcs \<subseteq> cluster_services cl" "s = new_sidecar cfg' wl ccs"
      "generate_containers cl cfg' ((wl_PodTemplate wl)\<lparr>pt_Namespace := wl_Namespace wl\<rparr>) svcs ports ex = Some (Inr ccs)"
    by blast
  have "services_ok svcs" using r(2) assms(2) by (auto simp: services_ok_def cluster_valid_def)
  with generate_containers_ok [OF _ _ r(4)] assms(2) r(1,3) show ?thesis
    by (simp add: cluster_valid_def new_sidecar_def)
qed

lemma prefix_of_inject: "i < 2 ^ 64 \<Longrightarrow> j < 2 ^ 64 \<Longrightarrow> prefix_of i = prefix_of j \<longleftrightarrow> i = j"
proof -
  assume ij: "i < 2 ^ 64" "j < 2 ^ 64"
  have "prefix_of i = prefix_of j \<longleftrightarrow> CapsBase26 (of_nat i) = CapsBase26 (of_nat j)"
    using CapsBase26_total [of "of_nat i"] CapsBase26_total [of "of_nat j"] by (auto simp: prefix_of_def)
  also have "\<dots> \<longleftrightarrow> (of_nat i :: u64) = of_nat j" by (rule CapsBase26_inject)
  also have "\<dots> \<longleftrightarrow> i = j" using ij of_nat_small_inject [where 'a = 64, of i j] by simp
  finally show ?thesis .
qed

section \<open>Panics\<close>

lemma add_container_port_panics:
  "add_container_port cfg cns ex p st = None \<longleftrightarrow>
     findContainerPort cns p = None \<and> fst (snd (ProtoAndNameOrNumber p)) = []"
  using newContainerConfig_total
  by (cases st) (auto simp: add_container_port_def split: option.splits prod.splits)

lemma add_container_port_goes_on:
  "findContainerPort cns p \<noteq> None \<Longrightarrow> \<exists>st'. add_container_port cfg cns ex p st = Some (Inr st')"
  using newContainerConfig_total
  by (cases st) (fastforce simp: add_container_port_def split: option.splits prod.splits)

lemma add_container_port_stops:
  "findContainerPort cns p = None \<Longrightarrow> fst (snd (ProtoAndNameOrNumber p)) \<noteq> [] \<Longrightarrow>
     add_container_port cfg cns ex p st = Some (Inl (NoContainerPort p))"
  by (cases st) (auto simp: add_container_port_def split: prod.splits)

section \<open>Counting the agent's ports\<close>

lemma card_agent_ports: "card (agent_ports ccs) \<le> sum_list (map (\<lambda>c. length (cn_Intercepts c)) ccs)"
proof (induction ccs)
  case (Cons cc ccs)
  have "agent_ports (cc # ccs) = ic_AgentPort ` set (cn_Intercepts cc) \<union> agent_ports ccs" by (simp add: agent_ports_def)
  then have "card (agent_ports (cc # ccs)) \<le> card (ic_AgentPort ` set (cn_Intercepts cc)) + card (agent_ports ccs)"
    by (simp add: card_Un_le)
  moreover have "card (ic_AgentPort ` set (cn_Intercepts cc)) \<le> length (cn_Intercepts cc)"
    by (metis card_image_le card_length finite_set order_trans)
  ultimately show ?case using Cons by simp
qed (simp add: agent_ports_def)

lemma agent_ports_numbered:
  assumes "pns_ok base pns" and "ccs_ok pns ccs" and "p \<in> agent_ports ccs"
  shows "\<exists>i < length pns. p = base + of_nat i"
proof -
  from assms(2,3) obtain k where "map_of pns k = Some p"
    unfolding agent_ports_def ccs_ok_def list_all_iff icpt_ok_def by blast
  then obtain i where "i < length pns" "pns ! i = (k, p)" by (metis in_set_conv_nth map_of_SomeD)
  with pns_ok_nth [OF assms(1)] show ?thesis by (metis snd_conv)
qed

section \<open>A sample cluster\<close>

definition sample_container :: "string \<Rightarrow> (string \<times> i32) list \<Rightarrow> k8s_container" where
  "sample_container name ps =
     \<lparr>kc_Name = name, kc_Ports = map (\<lambda>(n, p). \<lparr>cp_Name = n, cp_ContainerPort = p, cp_Protocol = ''TCP''\<rparr>) ps,
      kc_Env = [], kc_EnvFrom = [], kc_VolumeMounts = [], kc_SecurityContext = None\<rparr>"

definition sample_workload :: "annotations \<Rightarrow> workload" where
  "sample_workload anns =
     \<lparr>wl_Name = ''echo'', wl_Namespace = ''default'', wl_Kind = ''Deployment'', wl_Labels = [(''app'', ''echo'')],
      wl_PodTemplate = \<lparr>pt_Name = ''echo'', pt_Namespace = [], pt_Labels = [(''app'', ''echo'')], pt_Annotations = anns,
        pt_SecurityContext = None,
        pt_Containers = [sample_container ''app'' [(''http'', 8080), (''grpc'', 8081)], sample_container ''log'' []],
        pt_InitContainers = []\<rparr>\<rparr>"

definition sample_service :: k8s_service where
  "sample_service =
     \<lparr>svc_Name = ''echo'', svc_UID = ''uid-1'', svc_Selector = [(''app'', ''echo'')],
      svc_Ports = [\<lparr>sv_Name = ''http'', sv_Protocol = ''TCP'', sv_AppProtocol = None, sv_Port = 80, sv_TargetPort = TargetString ''http''\<rparr>,
                   \<lparr>sv_Name = ''grpc'', sv_Protocol = ''TCP'', sv_AppProtocol = None, sv_Port = 81, sv_TargetPort = TargetInt 8081\<rparr>]\<rparr>"

definition sample_cluster :: cluster where
  "sample_cluster =
     \<lparr>cl_matches = (\<lambda>sel lbs. list_all (\<lambda>(k, v). map_of lbs k = Some v) sel), cl_service = (\<lambda>_ _. Inl NotFound),
      cl_services = (\<lambda>_. Inr [sample_service]), cl_is_label = (\<lambda>_. True), cl_json_policies = (\<lambda>_. Inr None),
      cl_json_ignores = (\<lambda>_. Inr [])\<rparr>"

definition sample_config :: generator_config where
  "sample_config =
     \<lparr>gc_ManagerPort = 8081, gc_AgentPort = 9900, gc_APIPort = 0, gc_QualifiedAgentImage = ''tel2'', gc_ManagerNamespace = ''ambassador'',
      gc_ClusterDomain = ''cluster.local.'', gc_LogLevel = 0, gc_InitResources = None, gc_Resources = None, gc_PullPolicy = [],
      gc_PullSecrets = [], gc_SecurityContext = None, gc_InitSecurityContext = None, gc_MountPolicies = Some [],
      gc_MeshDialSubnets = [], gc_ClientConnectionTTL = 0, gc_WatchRetryInterval = 0, gc_EnableH2cProbing = False,
      gc_EnableMetrics = False\<rparr>"

lemma sample_valid: "cluster_valid sample_cluster (sample_workload anns)"
  by (auto simp: cluster_valid_def cluster_services_def sample_cluster_def sample_service_def sample_workload_def
      sample_container_def pod_ports_ok_def svc_port_ok_def valid_port_def)

section \<open>Properties\<close>

text \<open>
  C10. In a generated configuration the containers have different names and different prefixes for
  their environment, none of them is the traffic agent, and two intercepts share the agent's port
  exactly if they share the container's port: the numbering is injective, for all ports that
  Kubernetes accepts. (A slice of containers is shorter than \<open>2 ^ 64\<close>.)
\<close>

theorem Generate_ports_injective:
  assumes "Generate cl wl ex cfg = Some (Inr s, cfg')" and "cluster_valid cl wl" and "length (sc_Containers s) \<le> 2 ^ 64"
  shows "distinct (map cn_Name (sc_Containers s)) \<and> distinct (map cn_EnvPrefix (sc_Containers s))
    \<and> ContainerName \<notin> cn_Name ` set (sc_Containers s)
    \<and> (\<forall>(cn, ic)\<in>set (all_intercepts (sc_Containers s)). \<forall>(cn', ic')\<in>set (all_intercepts (sc_Containers s)).
         ic_AgentPort ic = ic_AgentPort ic' \<longleftrightarrow> ic_ContainerPort ic = ic_ContainerPort ic')"
proof -
  obtain pns where g: "pns_ok (gc_AgentPort cfg) pns" "ccs_ok pns (sc_Containers s)"
    using Generate_gen_ok [OF assms(1,2)] by (auto simp: gen_ok_def)
  have "inj_on prefix_of {0..<length (sc_Containers s)}"
    using assms(3) by (intro inj_onI) (simp add: prefix_of_inject)
  then have "distinct (map cn_EnvPrefix (sc_Containers s))"
    using g(2) by (simp add: ccs_ok_def distinct_map)
  moreover have "icpt_ok pns ic" if "(cn, ic) \<in> set (all_intercepts (sc_Containers s))" for cn ic
    using that g(2) by (auto simp: all_intercepts_def ccs_ok_def list_all_iff)
  ultimately show ?thesis using g(2) icpt_ok_same [OF g(1)] by (auto simp: ccs_ok_def)
qed

theorem Generate_ports_injective_witness:
  "case Generate sample_cluster (sample_workload []) None sample_config of
     Some (Inr s, _) \<Rightarrow> distinct (map cn_EnvPrefix (sc_Containers s)) \<and> length (sc_Containers s) = 2
   | _ \<Rightarrow> False"
proof -
  have "case Generate sample_cluster (sample_workload []) None sample_config of
     Some (Inr s, _) \<Rightarrow> length (sc_Containers s) = 2 | _ \<Rightarrow> False" by code_simp
  then obtain s cfg' where g: "Generate sample_cluster (sample_workload []) None sample_config = Some (Inr s, cfg')"
    and l: "length (sc_Containers s) = 2" by (auto split: option.splits prod.splits sum.splits)
  from Generate_ports_injective [OF g sample_valid] l show ?thesis by (simp add: g)
qed

text \<open>
  The ports the agent forwards to when no intercept is active, in place of a container port that
  is redirected to the agent, are not ports the agent itself listens to, so that the traffic does not
  come back to it: for up to 32762 intercepts, whatever the agent's first port is and although the
  numbers wrap around.
\<close>

lemma proxy_ports_are_not_agent_ports:
  assumes "Generate cl wl ex cfg = Some (Inr s, cfg')" and "cluster_valid cl wl"
    and "2 * numberOfPossibleIntercepts s + 10 < 65536"
  shows "ProxyPort s ` agent_ports (sc_Containers s) \<inter> agent_ports (sc_Containers s) = {}"
proof -
  let ?N = "numberOfPossibleIntercepts s"
  obtain pns where g: "pns_ok (gc_AgentPort cfg) pns" "ccs_ok pns (sc_Containers s)" "port_values pns \<subseteq> agent_ports (sc_Containers s)"
    using Generate_gen_ok [OF assms(1,2)] by (auto simp: gen_ok_def)
  have "length pns = card (port_values pns)"
    using distinct_card [OF pns_ok_distinct [OF g(1)]] by (simp add: port_values_def)
  also have "\<dots> \<le> card (agent_ports (sc_Containers s))" using g(3) by (rule card_mono [rotated]) (simp add: agent_ports_def)
  also have "\<dots> \<le> ?N" by (simp add: card_agent_ports numberOfPossibleIntercepts_def)
  finally have len: "length pns \<le> ?N" .
  have at: "\<exists>i < ?N. p = gc_AgentPort cfg + of_nat i" if "p \<in> agent_ports (sc_Containers s)" for p
    using agent_ports_numbered [OF g(1,2) that] len by force
  have "ProxyPort s p \<noteq> q" if "p \<in> agent_ports (sc_Containers s)" "q \<in> agent_ports (sc_Containers s)" for p q
  proof
    assume eq: "ProxyPort s p = q"
    from at [OF that(1)] obtain i where i: "i < ?N" "p = gc_AgentPort cfg + of_nat i" by blast
    from at [OF that(2)] obtain j where j: "j < ?N" "q = gc_AgentPort cfg + of_nat j" by blast
    have "(of_nat (i + 11 + ?N) :: u16) = of_nat j" using eq i(2) j(2) by (simp add: ProxyPort_def algebra_simps)
    then have "i + 11 + ?N = j"
      using of_nat_small_inject [where 'a = 16, of "i + 11 + ?N" j] i(1) j(1) assms(3) by simp
    with j(1) show False by simp
  qed
  then show ?thesis by blast
qed

text \<open>
  C12. What the containers' ports annotation does wrong: a port that no container declares is an error if
  it has a name, but a panic if it is a number, where the comment in the source announces that a port
  is made up. The source has no container for that port.
\<close>

theorem serviceless_panics_iff:
  "appendServiceLessAgentContainerConfigs cfg cns ex ps st = None \<longleftrightarrow>
     (case dropWhile (\<lambda>p. findContainerPort cns p \<noteq> None) ps of
        [] \<Rightarrow> False
      | p # _ \<Rightarrow> fst (snd (ProtoAndNameOrNumber p)) = [])"
proof (induction ps arbitrary: st)
  case (Cons p ps)
  show ?case
  proof (cases "findContainerPort cns p")
    case None
    then show ?thesis
      using add_container_port_panics [of cfg cns ex p st] add_container_port_stops [OF None, of cfg ex st]
      by (auto split: option.splits sum.splits)
  next
    case (Some r)
    with add_container_port_goes_on [of cns p cfg ex st] obtain st' where
      "add_container_port cfg cns ex p st = Some (Inr st')" by auto
    with Some Cons show ?thesis by simp
  qed
qed simp

text \<open>
  The generator keeps the mount policies of the annotations of one workload in its own
  configuration: the next workload it is used for gets them, although it has no annotations.
\<close>

lemma Generate_policies_carry_over:
  assumes "Generate cl wl1 ex1 cfg = Some (Inr s1, cfg1)" and "Generate cl wl2 ex2 cfg1 = Some (Inr s2, cfg2)"
    and "pt_Annotations (wl_PodTemplate wl2) = []"
  shows "sc_MountPolicies s2 = sc_MountPolicies s1"
proof -
  have none: "AddAnnotations jp ji [] iv = Some (Inr iv)" for jp ji iv
    by (simp add: AddAnnotations_def getIgnoreAnnotations_def getPolicyAnnotations_def GetAnnotation_def
        trim_space_def go_entries_def)
  from Generate_result [OF assms(1)] Generate_result [OF assms(2)] show ?thesis
    by (auto simp: assms(3) none new_sidecar_def)
qed

end
