(* ===== verification/Agent_Configs.thy ===== *)
theory Agent_Configs
  imports Agent_Generator
begin

text \<open>
  The map of agent configurations that the traffic manager keeps per namespace and workload, and the
  eviction of pods whose configuration is not the one in the map: \<^verbatim>\<open>mutator/watcher.go\<close>,
  \<^verbatim>\<open>mutator/eviction.go\<close>, \<^verbatim>\<open>mutator/service_watcher.go\<close> and \<^verbatim>\<open>mutator/workload_watcher.go\<close> of the
  traffic manager.

  What the sources ask of the cluster is the record \<open>world\<close>: the listers, the outcome of an eviction or a
  patch, the JSON coding of a configuration, the environment. The requests that succeed are kept in the
  order they are made. A pod that is evicted also leaves the lister's store; what the lister returns is
  given.
\<close>

section \<open>Pods and the cluster\<close>

definition Config :: string where "Config = DomainPrefix @ ''agent-config''"
definition InjectTrafficAgent :: string where "InjectTrafficAgent = DomainPrefix @ ''inject-traffic-agent''"
definition LegacyInjectTrafficAgent :: string where "LegacyInjectTrafficAgent = LegacyDomainPrefix @ ''inject-traffic-agent''"
definition ManuallyInjected :: string where "ManuallyInjected = DomainPrefix @ ''manually-injected''"
definition LegacyManuallyInjected :: string where "LegacyManuallyInjected = LegacyDomainPrefix @ ''manually-injected''"
definition RestartedAt :: string where "RestartedAt = DomainPrefix @ ''restartedAt''"

datatype pod_phase = PodPending | PodRunning | PodSucceeded | PodFailed | PodUnknown

record pod =
  po_Name :: string
  po_Namespace :: string
  po_UID :: string
  po_Labels :: "(string \<times> string) list"
  po_Annotations :: annotations
  po_Phase :: pod_phase

datatype evict_result = EvictOk | EvictBudget | EvictFailed string

record world =
  wo_cluster :: cluster
  wo_generator :: "string \<Rightarrow> string + generator_config"
  wo_agentImage :: string
  wo_kinds :: "string list"
  wo_workload :: "string \<Rightarrow> string \<Rightarrow> string \<Rightarrow> k8s_error + workload"
  wo_owner :: "pod \<Rightarrow> k8s_error + workload"
  wo_selected :: "workload \<Rightarrow> string + pod list"
  wo_listed :: "string \<Rightarrow> string + pod list"
  wo_replicas :: "workload \<Rightarrow> int"
  wo_evict :: "pod \<Rightarrow> evict_result"
  wo_retries :: "pod \<Rightarrow> evict_result list"
  wo_polls :: "workload \<Rightarrow> (string + pod list) list"
  wo_patch :: "workload \<Rightarrow> string \<Rightarrow> string option"
  wo_marshal :: "sidecar \<Rightarrow> string + string"
  wo_unmarshal :: "string \<Rightarrow> string + sidecar"
  wo_same_template :: "pod_template \<Rightarrow> pod_template \<Rightarrow> bool"
  wo_error_text :: "gen_error \<Rightarrow> string"
  wo_now :: nat
  wo_rfc3339 :: string

section \<open>The map\<close>

record inactivation =
  in_Time :: nat
  in_deleted :: bool

datatype k8s_request = ReqEvict string | ReqEvictLater string | ReqPatch string string | ReqScale string int

record config_watcher =
  cw_agentConfigs :: "(string \<times> (string \<times> sidecar) list) list"
  cw_inactivePods :: "(string \<times> inactivation) list"
  cw_configured :: bool
  cw_running :: bool
  cw_informers :: "string list"
  cw_requests :: "k8s_request list"

definition NewWatcher :: config_watcher where
  "NewWatcher = \<lparr>cw_agentConfigs = [], cw_inactivePods = [], cw_configured = False, cw_running = False, cw_informers = [],
     cw_requests = []\<rparr>"

definition SetConfigured :: "config_watcher \<Rightarrow> config_watcher" where
  "SetConfigured c = c\<lparr>cw_configured := True\<rparr>"

definition Get :: "string \<Rightarrow> string \<Rightarrow> config_watcher \<Rightarrow> sidecar option" where
  "Get key ns c = Option.bind (map_of (cw_agentConfigs c) ns) (\<lambda>scMap. map_of scMap key)"

definition cw_Delete :: "string \<Rightarrow> string \<Rightarrow> config_watcher \<Rightarrow> config_watcher" where
  "cw_Delete name ns c =
     (case map_of (cw_agentConfigs c) ns of
        Some sceMap \<Rightarrow>
          (let sceMap = AList.delete name sceMap in
           if 0 < length sceMap then c\<lparr>cw_agentConfigs := AList.update ns sceMap (cw_agentConfigs c)\<rparr>
           else c\<lparr>cw_agentConfigs := AList.delete ns (cw_agentConfigs c)\<rparr>)
      | None \<Rightarrow> c\<lparr>cw_agentConfigs := AList.delete ns (cw_agentConfigs c)\<rparr>)"

text \<open>The updater may itself change the rest of the watcher, as it evicts pods.\<close>

definition cw_Update ::
    "string \<Rightarrow> string \<Rightarrow> (sidecar option \<Rightarrow> config_watcher \<Rightarrow> ('e + sidecar option) \<times> config_watcher) \<Rightarrow> config_watcher
     \<Rightarrow> ('e + sidecar option) \<times> config_watcher" where
  "cw_Update name ns updater c =
     (case map_of (cw_agentConfigs c) ns of
        Some scMap \<Rightarrow>
          (case updater (map_of scMap name) c of (r, c1) \<Rightarrow>
             (r, c1\<lparr>cw_agentConfigs := AList.update ns
                     (case r of
                        Inl e \<Rightarrow> scMap
                      | Inr None \<Rightarrow> AList.delete name scMap
                      | Inr (Some sc) \<Rightarrow> AList.update name sc scMap) (cw_agentConfigs c)\<rparr>))
      | None \<Rightarrow>
          (case updater None c of (r, c1) \<Rightarrow>
             (r, case r of
                   Inr (Some sc) \<Rightarrow> c1\<lparr>cw_agentConfigs := AList.update ns [(name, sc)] (cw_agentConfigs c)\<rparr>
                 | _ \<Rightarrow> c1\<lparr>cw_agentConfigs := cw_agentConfigs c\<rparr>)))"

definition cw_Store :: "sidecar \<Rightarrow> config_watcher \<Rightarrow> config_watcher" where
  "cw_Store sc c =
     (let scMap = (case map_of (cw_agentConfigs c) (sc_Namespace sc) of
                     Some scMap \<Rightarrow> AList.update (sc_AgentName sc) sc scMap
                   | None \<Rightarrow> [(sc_AgentName sc, sc)])
      in c\<lparr>cw_agentConfigs := AList.update (sc_Namespace sc) scMap (cw_agentConfigs c)\<rparr>)"

text \<open>
  The generation is retried at most ten times, unless the error is one of the user's. Each attempt sees
  the cluster as it is then: \<open>clusters\<close> are the clusters of the attempts that the context allows.
\<close>

definition user_error :: "gen_error \<Rightarrow> bool" where
  "user_error e = (case e of IsTrafficManager \<Rightarrow> True | ExposesAgentPort _ _ \<Rightarrow> True | BadAnnotation _ _ \<Rightarrow> True
     | BadMountPolicy _ \<Rightarrow> True | NoContainerPort _ \<Rightarrow> True | ServiceNotFound _ \<Rightarrow> False | ServiceError _ \<Rightarrow> False | NoLabels \<Rightarrow> False)"

datatype get_error = ConfigError string | GenError gen_error | Cancelled

fun generate_retry :: "nat \<Rightarrow> cluster list \<Rightarrow> workload \<Rightarrow> generator_config \<Rightarrow> (get_error + sidecar) option" where
  "generate_retry n [] wl gc = Some (Inl Cancelled)"
| "generate_retry n (cl # cls) wl gc =
     Option.bind (Generate cl wl None gc) (\<lambda>(r, gc').
       case r of
         Inr ac \<Rightarrow> Some (Inr ac)
       | Inl e \<Rightarrow> if user_error e \<or> n = 0 then Some (Inl (GenError e)) else generate_retry (n - 1) cls wl gc')"

definition GetOrGenerate ::
    "world \<Rightarrow> cluster list \<Rightarrow> workload \<Rightarrow> config_watcher \<Rightarrow> ((get_error + sidecar) \<times> config_watcher) option" where
  "GetOrGenerate w clusters wl c =
     (case Get (wl_Name wl) (wl_Namespace wl) c of
        Some ac \<Rightarrow> Some (Inr ac, c)
      | None \<Rightarrow>
          (case wo_generator w (wo_agentImage w) of
             Inl e \<Rightarrow> Some (Inl (ConfigError e), c)
           | Inr gc \<Rightarrow>
               map_option (\<lambda>r. case r of
                   Inl e \<Rightarrow> (Inl e, c)
                 | Inr ac \<Rightarrow>
                     (case map_of (cw_agentConfigs c) (wl_Namespace wl) of
                        None \<Rightarrow> (Inr ac, c\<lparr>cw_agentConfigs := AList.update (wl_Namespace wl) [(wl_Name wl, ac)] (cw_agentConfigs c)\<rparr>)
                      | Some scMap \<Rightarrow>
                          (case map_of scMap (wl_Name wl) of
                             Some existing \<Rightarrow> (Inr existing, c)
                           | None \<Rightarrow> (Inr ac, c\<lparr>cw_agentConfigs := AList.update (wl_Namespace wl) (AList.update (wl_Name wl) ac scMap) (cw_agentConfigs c)\<rparr>))))
                 (generate_retry 10 clusters wl gc)))"

subsection \<open>Inactive pods\<close>

definition Inactivate :: "nat \<Rightarrow> string \<Rightarrow> config_watcher \<Rightarrow> config_watcher" where
  "Inactivate now podID c =
     (case map_of (cw_inactivePods c) podID of
        Some _ \<Rightarrow> c
      | None \<Rightarrow> c\<lparr>cw_inactivePods := AList.update podID \<lparr>in_Time = now, in_deleted = False\<rparr> (cw_inactivePods c)\<rparr>)"

definition IsInactive :: "string \<Rightarrow> config_watcher \<Rightarrow> bool" where
  "IsInactive podID c = (map_of (cw_inactivePods c) podID \<noteq> None)"

definition isEvicted :: "string \<Rightarrow> config_watcher \<Rightarrow> bool" where
  "isEvicted podID c = (case map_of (cw_inactivePods c) podID of Some v \<Rightarrow> in_deleted v | None \<Rightarrow> False)"

text \<open>What each tick of the collector deletes, with the times in nanoseconds.\<close>

definition gc_inactivePods :: "nat \<Rightarrow> config_watcher \<Rightarrow> config_watcher" where
  "gc_inactivePods now c =
     c\<lparr>cw_inactivePods := filter (\<lambda>(k, v). \<not> 60000000000 < int now - int (in_Time v)) (cw_inactivePods c)\<rparr>"

section \<open>Eviction\<close>

datatype evict_error = BudgetError string | EvictError string

definition budget_text :: "string \<Rightarrow> string" where
  "budget_text n = ''cannot evict pod '' @ n @ '' as it would violate the pod's disruption budget''"

definition evictPod :: "world \<Rightarrow> pod \<Rightarrow> config_watcher \<Rightarrow> evict_error option \<times> config_watcher" where
  "evictPod w p c =
     (case wo_evict w p of
        EvictOk \<Rightarrow> (None, c\<lparr>cw_requests := cw_requests c @ [ReqEvict (po_Name p)]\<rparr>)
      | EvictBudget \<Rightarrow> (Some (BudgetError (po_Name p)), c)
      | EvictFailed e \<Rightarrow> (Some (EvictError e), c))"

text \<open>
  The polls and attempts that fit before the context ends. The first wait is for the number of replicas;
  then the eviction is tried until it does not fail for the sake of the disruption budget.
\<close>

fun waitForReplicaCount :: "(string + pod list) list \<Rightarrow> int \<Rightarrow> string option" where
  "waitForReplicaCount [] n = Some ''never scaled''"
| "waitForReplicaCount (Inl e # polls) n = Some e"
| "waitForReplicaCount (Inr ps # polls) n =
     (if int (length ps) = n \<and> \<not> list_ex (\<lambda>p. po_Phase p \<noteq> PodRunning) ps then None else waitForReplicaCount polls n)"

fun retry_evict :: "evict_result list \<Rightarrow> pod \<Rightarrow> config_watcher \<Rightarrow> string option \<times> config_watcher" where
  "retry_evict [] p c = (Some ''context canceled'', c)"
| "retry_evict (EvictOk # rs) p c = (None, c\<lparr>cw_requests := cw_requests c @ [ReqEvict (po_Name p)]\<rparr>)"
| "retry_evict (EvictFailed e # rs) p c = (Some e, c)"
| "retry_evict (EvictBudget # rs) p c = retry_evict rs p c"

definition retryEvictPod :: "world \<Rightarrow> workload \<Rightarrow> pod \<Rightarrow> int \<Rightarrow> config_watcher \<Rightarrow> string option \<times> config_watcher" where
  "retryEvictPod w wl p replicas c =
     (case waitForReplicaCount (wo_polls w wl) replicas of
        Some e \<Rightarrow> (Some e, c)
      | None \<Rightarrow> retry_evict (wo_retries w p) p c)"

definition scale_patch :: "int \<Rightarrow> string" where
  "scale_patch replicas = ''{'' @ [CHR 0x22] @ ''spec'' @ [CHR 0x22] @ '': {'' @ [CHR 0x22] @ ''replicas'' @ [CHR 0x22] @ '': '' @ signed_itoa replicas @ ''}}''"

definition scaleIt :: "world \<Rightarrow> workload \<Rightarrow> int \<Rightarrow> config_watcher \<Rightarrow> string option \<times> config_watcher" where
  "scaleIt w wl replicas c =
     (case wo_patch w wl (scale_patch replicas) of
        Some e \<Rightarrow> (Some (''unable to scale '' @ wl_Name wl @ '': '' @ e), c)
      | None \<Rightarrow> (None, c\<lparr>cw_requests := cw_requests c @ [ReqScale (wl_Name wl) replicas]\<rparr>))"

text \<open>The set is scaled back when the function returns, whatever became of the eviction.\<close>

definition triggerScalingEviction :: "world \<Rightarrow> workload \<Rightarrow> pod \<Rightarrow> config_watcher \<Rightarrow> string option \<times> config_watcher" where
  "triggerScalingEviction w wl p c =
     (let replicas = wo_replicas w wl in
      case scaleIt w wl (replicas + 1) c of
        (Some e, c) \<Rightarrow> (Some e, c)
      | (None, c) \<Rightarrow>
          (case retryEvictPod w wl p (replicas + 1) c of (r, c) \<Rightarrow> (r, snd (scaleIt w wl replicas c))))"

fun replace_all :: "char \<Rightarrow> string \<Rightarrow> string \<Rightarrow> string" where
  "replace_all c r [] = []"
| "replace_all c r (x # xs) = (if x = c then r else [x]) @ replace_all c r xs"

definition json_op :: "string \<Rightarrow> string \<Rightarrow> string \<Rightarrow> string" where
  "json_op op path val =
     (let q = (\<lambda>s. [CHR 0x22] @ s @ [CHR 0x22]) in
      ''{'' @ q ''op'' @ '': '' @ q op @ '', '' @ q ''path'' @ '': '' @ q path @ '', '' @ q ''value'' @ '': '' @ val @ ''}'')"

definition generateRestartAnnotationPatch :: "string \<Rightarrow> annotations \<Rightarrow> string" where
  "generateRestartAnnotationPatch now anns =
     (let basePointer = ''/spec/template/metadata/annotations'';
          pointer = basePointer @ ''/'' @ replace_all (CHR ''/'') ''~1'' RestartedAt;
          val = [CHR 0x22] @ now @ [CHR 0x22]
      in if map_of anns RestartedAt \<noteq> None then ''['' @ json_op ''replace'' pointer val @ '']''
         else if length anns = 0 then ''['' @ json_op ''add'' basePointer ''{}'' @ '', '' @ json_op ''add'' pointer val @ '']''
         else ''['' @ json_op ''add'' pointer val @ '']'')"

definition evictOrRollout ::
    "world \<Rightarrow> workload option \<Rightarrow> pod \<Rightarrow> nat \<Rightarrow> config_watcher \<Rightarrow> (string + bool) \<times> config_watcher" where
  "evictOrRollout w owl p counter c =
     (case evictPod w p c of
        (None, c) \<Rightarrow> (Inr False, c)
      | (Some (EvictError e), c) \<Rightarrow> (Inl (''failed to evict pod '' @ po_Name p @ '': '' @ e), c)
      | (Some (BudgetError n), c) \<Rightarrow>
          (case owl of
             None \<Rightarrow> (Inl (''failed to evict pod '' @ po_Name p @ '': '' @ budget_text n), c)
           | Some wl \<Rightarrow>
               if 0 < counter then (Inr False, c\<lparr>cw_requests := cw_requests c @ [ReqEvictLater (po_Name p)]\<rparr>)
               else if wl_Kind wl \<in> {''StatefulSet'', ''ReplicaSet''} then
                 (case triggerScalingEviction w wl p c of (Some e, c) \<Rightarrow> (Inl e, c) | (None, c) \<Rightarrow> (Inr False, c))
               else
                 (let patch = generateRestartAnnotationPatch (wo_rfc3339 w) (pt_Annotations (wl_PodTemplate wl)) in
                  case wo_patch w wl patch of
                    Some e \<Rightarrow> (Inl (''unable to patch '' @ wl_Name wl @ '': '' @ e), c)
                  | None \<Rightarrow> (Inr True, c\<lparr>cw_requests := cw_requests c @ [ReqPatch (wl_Name wl) patch]\<rparr>))))"

definition manual_pod :: "pod \<Rightarrow> bool" where
  "manual_pod p = (GetAnnotation (po_Annotations p) ManuallyInjected LegacyManuallyInjected = ''true'')"

definition mark_deleted :: "world \<Rightarrow> pod \<Rightarrow> config_watcher \<Rightarrow> config_watcher" where
  "mark_deleted w p c =
     c\<lparr>cw_inactivePods := AList.update (po_UID p) \<lparr>in_Time = wo_now w, in_deleted = True\<rparr> (cw_inactivePods c)\<rparr>"

fun evict_pods ::
    "world \<Rightarrow> workload option \<Rightarrow> pod list \<Rightarrow> bool \<Rightarrow> nat \<Rightarrow> config_watcher \<Rightarrow> string option \<times> config_watcher" where
  "evict_pods w wl [] didRollout counter c = (None, c)"
| "evict_pods w wl (p # ps) didRollout counter c =
     (if isEvicted (po_UID p) c then evict_pods w wl ps didRollout counter c
      else if manual_pod p then evict_pods w wl ps didRollout counter c
      else if didRollout then evict_pods w wl ps didRollout counter (mark_deleted w p c)
      else
        (case evictOrRollout w wl p counter c of
           (Inl e, c) \<Rightarrow> (Some e, c)
         | (Inr didRollout, c) \<Rightarrow> evict_pods w wl ps didRollout (counter + 1) (mark_deleted w p c)))"

definition evictPods :: "world \<Rightarrow> workload option \<Rightarrow> pod list \<Rightarrow> config_watcher \<Rightarrow> string option \<times> config_watcher" where
  "evictPods w wl ps c = evict_pods w wl ps False 0 c"

definition evictPodsWithAgentConfigMismatch ::
    "world \<Rightarrow> workload option \<Rightarrow> pod list \<Rightarrow> string \<Rightarrow> config_watcher \<Rightarrow> string option \<times> config_watcher" where
  "evictPodsWithAgentConfigMismatch w wl ps cfgJSON c =
     evictPods w wl (filter (\<lambda>p. go_lookup [] (po_Annotations p) Config \<noteq> cfgJSON) ps) c"

definition podIsPendingOrRunning :: "pod \<Rightarrow> bool" where
  "podIsPendingOrRunning p = (po_Phase p \<in> {PodPending, PodRunning})"

definition workloadPods :: "world \<Rightarrow> workload \<Rightarrow> string + pod list" where
  "workloadPods w wl = (case wo_selected w wl of Inl e \<Rightarrow> Inl e | Inr ps \<Rightarrow> Inr (filter podIsPendingOrRunning ps))"

definition EvictPodsWithAgentConfigMismatch ::
    "world \<Rightarrow> workload \<Rightarrow> sidecar \<Rightarrow> config_watcher \<Rightarrow> string option \<times> config_watcher" where
  "EvictPodsWithAgentConfigMismatch w wl sc c =
     (case fst (MarshalTight (wo_marshal w) sc) of
        Inl e \<Rightarrow> (Some e, c)
      | Inr cfgJSON \<Rightarrow>
          (case workloadPods w wl of
             Inl e \<Rightarrow> (Some e, c)
           | Inr ps \<Rightarrow> evictPodsWithAgentConfigMismatch w (Some wl) ps cfgJSON c))"

definition EvictPodsWithAgentConfig :: "world \<Rightarrow> workload \<Rightarrow> config_watcher \<Rightarrow> string option \<times> config_watcher" where
  "EvictPodsWithAgentConfig w wl c =
     (case workloadPods w wl of
        Inl e \<Rightarrow> (Some e, c)
      | Inr ps \<Rightarrow> evictPodsWithAgentConfigMismatch w (Some wl) ps [] c)"

text \<open>The pods of a namespace by workload, in the order in which the lister gives them.\<close>

record workload_key =
  wk_Name :: string
  wk_Namespace :: string
  wk_Kind :: string

definition workload_key_of :: "workload \<Rightarrow> workload_key" where
  "workload_key_of wl = \<lparr>wk_Name = wl_Name wl, wk_Namespace = wl_Namespace wl, wk_Kind = wl_Kind wl\<rparr>"

type_synonym wl_pods = "(workload_key \<times> (workload \<times> pod list)) list"

definition wlPods_add :: "workload \<Rightarrow> pod \<Rightarrow> wl_pods \<Rightarrow> wl_pods" where
  "wlPods_add wl p em =
     (case map_of em (workload_key_of wl) of
        Some (wl', ps) \<Rightarrow> AList.update (workload_key_of wl) (wl', ps @ [p]) em
      | None \<Rightarrow> AList.update (workload_key_of wl) (wl, [p]) em)"

definition WorkloadNameLabel :: string where "WorkloadNameLabel = DomainPrefix @ ''workloadName''"
definition WorkloadKindLabel :: string where "WorkloadKindLabel = DomainPrefix @ ''workloadKind''"

definition pod_workload :: "world \<Rightarrow> pod \<Rightarrow> k8s_error + workload" where
  "pod_workload w p =
     (case map_of (po_Labels p) WorkloadKindLabel of
        Some podKind \<Rightarrow>
          if podKind \<notin> set (wo_kinds w) then wo_workload w (go_lookup [] (po_Labels p) WorkloadNameLabel) (po_Namespace p) podKind
          else wo_owner w p
      | None \<Rightarrow> wo_owner w p)"

fun add_pods :: "world \<Rightarrow> pod list \<Rightarrow> wl_pods \<Rightarrow> k8s_error + wl_pods" where
  "add_pods w [] m = Inr m"
| "add_pods w (p # ps) m =
     (if \<not> podIsPendingOrRunning p then add_pods w ps m
      else (case pod_workload w p of
              Inl NotFound \<Rightarrow> add_pods w ps m
            | Inl e \<Rightarrow> Inl e
            | Inr wl \<Rightarrow> add_pods w ps (wlPods_add wl p m)))"

datatype list_error = ListError string | OwnerError k8s_error

definition podList :: "world \<Rightarrow> string \<Rightarrow> list_error + wl_pods" where
  "podList w ns =
     (case wo_listed w ns of
        Inl e \<Rightarrow> Inl (ListError e)
      | Inr ps \<Rightarrow> (case add_pods w ps [] of Inl e \<Rightarrow> Inl (OwnerError e) | Inr m \<Rightarrow> Inr m))"

fun evict_groups :: "world \<Rightarrow> wl_pods \<Rightarrow> config_watcher \<Rightarrow> string list \<times> config_watcher" where
  "evict_groups w [] c = ([], c)"
| "evict_groups w ((k, wl, ps) # gs) c =
     (case evictPodsWithAgentConfigMismatch w (Some wl) ps [] c of (e, c) \<Rightarrow>
        (case evict_groups w gs c of (es, c) \<Rightarrow> (case e of None \<Rightarrow> es | Some e \<Rightarrow> e # es, c)))"

definition EvictAllPodsWithAgentConfig :: "world \<Rightarrow> string \<Rightarrow> config_watcher \<Rightarrow> (list_error + string list) \<times> config_watcher" where
  "EvictAllPodsWithAgentConfig w ns c =
     (let c = c\<lparr>cw_agentConfigs := AList.delete ns (cw_agentConfigs c)\<rparr> in
      case podList w ns of
        Inl e \<Rightarrow> (Inl e, c)
      | Inr em \<Rightarrow> (case evict_groups w em c of (es, c) \<Rightarrow> (Inr es, c)))"

subsection \<open>Namespaces\<close>

text \<open>The informers of a namespace that is no longer managed are dropped with its configurations and agents.\<close>

definition deleteMapsAndRolloutNS :: "world \<Rightarrow> string \<Rightarrow> config_watcher \<Rightarrow> config_watcher" where
  "deleteMapsAndRolloutNS w ns c =
     (let c = snd (EvictAllPodsWithAgentConfig w ns c) in c\<lparr>cw_informers := filter ((\<noteq>) ns) (cw_informers c)\<rparr>)"

definition DeleteMapsAndRolloutAll :: "world \<Rightarrow> config_watcher \<Rightarrow> config_watcher" where
  "DeleteMapsAndRolloutAll w c =
     (if cw_running c then fold (deleteMapsAndRolloutNS w) (cw_informers c) (c\<lparr>cw_running := False\<rparr>) else c)"

text \<open>A namespace whose informers or watchers do not start is left out.\<close>

definition namespacesChanged :: "world \<Rightarrow> (string \<Rightarrow> bool) \<Rightarrow> string list \<Rightarrow> config_watcher \<Rightarrow> config_watcher" where
  "namespacesChanged w starts nss c =
     (let c = fold (\<lambda>ns c. if ns \<in> set (cw_informers c) then c
                           else c\<lparr>cw_running := True,
                                  cw_informers := (if starts ns then cw_informers c @ [ns] else cw_informers c)\<rparr>) nss c
      in fold (\<lambda>ns c. if ns \<in> set nss then c else deleteMapsAndRolloutNS w ns c) (cw_informers c) c)"

section \<open>Regeneration\<close>

record regen =
  rg_wls :: "(workload_key \<times> sidecar) list"
  rg_pods :: "pod list"
  rg_gc :: generator_config
  rg_cw :: config_watcher

text \<open>One pod of a workload: its configuration is generated anew, once for the workload.\<close>

definition regenerate_pod :: "world \<Rightarrow> workload \<Rightarrow> bool \<Rightarrow> pod \<Rightarrow> regen \<Rightarrow> regen option" where
  "regenerate_pod w wl configured p r =
     (case map_of (po_Annotations p) Config of
        None \<Rightarrow> Some r
      | Some cfgJSON \<Rightarrow>
          (case wo_unmarshal w cfgJSON of
             Inl e \<Rightarrow> Some r
           | Inr sc \<Rightarrow>
               if configured then
                 (let key = \<lparr>wk_Name = sc_WorkloadName sc, wk_Namespace = sc_Namespace sc, wk_Kind = sc_WorkloadKind sc\<rparr>;
                      differs = (\<lambda>newSc r. if newSc \<noteq> Some sc then r\<lparr>rg_pods := rg_pods r @ [p]\<rparr> else r)
                  in case map_of (rg_wls r) key of
                       Some newSc \<Rightarrow> Some (differs (Some newSc) r)
                     | None \<Rightarrow>
                         if sc_WorkloadKind sc \<in> set (wo_kinds w) then
                           Option.bind (Generate (wo_cluster w) wl (Some sc) (rg_gc r)) (\<lambda>(res, gc).
                             let r = r\<lparr>rg_gc := gc\<rparr> in
                             case res of
                               Inl e \<Rightarrow> Some r
                             | Inr newSc \<Rightarrow>
                                 Some (differs (Some newSc)
                                   (r\<lparr>rg_wls := AList.update key newSc (rg_wls r), rg_cw := cw_Store newSc (rg_cw r)\<rparr>)))
                         else Some (differs None r))
               else Some (r\<lparr>rg_cw := cw_Store sc (rg_cw r)\<rparr>)))"

fun regenerate_pods :: "world \<Rightarrow> workload \<Rightarrow> bool \<Rightarrow> pod list \<Rightarrow> regen \<Rightarrow> regen option" where
  "regenerate_pods w wl configured [] r = Some r"
| "regenerate_pods w wl configured (p # ps) r =
     Option.bind (regenerate_pod w wl configured p r) (regenerate_pods w wl configured ps)"

fun regenerate_groups :: "world \<Rightarrow> bool \<Rightarrow> wl_pods \<Rightarrow> generator_config \<Rightarrow> config_watcher \<Rightarrow> (generator_config \<times> config_watcher) option" where
  "regenerate_groups w configured [] gc c = Some (gc, c)"
| "regenerate_groups w configured ((k, wl, ps) # gs) gc c =
     Option.bind (regenerate_pods w wl configured ps \<lparr>rg_wls = [], rg_pods = [], rg_gc = gc, rg_cw = c\<rparr>) (\<lambda>r.
       regenerate_groups w configured gs (rg_gc r)
         (if 0 < length (rg_pods r) then snd (evictPods w (Some wl) (rg_pods r) (rg_cw r)) else rg_cw r))"

definition regenerateAgentConfigs ::
    "world \<Rightarrow> string \<Rightarrow> generator_config \<Rightarrow> config_watcher \<Rightarrow> (list_error option \<times> generator_config \<times> config_watcher) option" where
  "regenerateAgentConfigs w ns gc c =
     (case podList w ns of
        Inl e \<Rightarrow> Some (Some e, gc, c)
      | Inr em \<Rightarrow> map_option (\<lambda>r. (None, r)) (regenerate_groups w (cw_configured c) em gc c))"

fun regenerate_namespaces ::
    "world \<Rightarrow> string list \<Rightarrow> generator_config \<Rightarrow> config_watcher \<Rightarrow> (list_error option \<times> config_watcher) option" where
  "regenerate_namespaces w [] gc c = Some (None, c)"
| "regenerate_namespaces w (ns # nss) gc c =
     Option.bind (regenerateAgentConfigs w ns gc c) (\<lambda>(e, gc, c).
       case e of Some e \<Rightarrow> Some (Some e, c) | None \<Rightarrow> regenerate_namespaces w nss gc c)"

datatype regen_error = NoGenerator string | NoList list_error

definition RegenerateAgentMaps ::
    "world \<Rightarrow> string list \<Rightarrow> string \<Rightarrow> config_watcher \<Rightarrow> (regen_error option \<times> config_watcher) option" where
  "RegenerateAgentMaps w nss agentImage c =
     (case wo_generator w agentImage of
        Inl e \<Rightarrow> Some (Some (NoGenerator e), c)
      | Inr gc \<Rightarrow> map_option (\<lambda>(e, c). (map_option NoList e, c)) (regenerate_namespaces w nss gc c))"

section \<open>Watchers of services and workloads\<close>

definition references ::
    "world \<Rightarrow> k8s_service \<Rightarrow> bool \<Rightarrow> sidecar \<Rightarrow> workload option \<times> k8s_error option \<times> bool" where
  "references w svc trustUID ac =
     (if list_ex (\<lambda>cn. list_ex (\<lambda>ic. ic_ServiceUID ic = svc_UID svc) (cn_Intercepts cn)) (sc_Containers ac) then (None, None, True)
      else if trustUID then (None, None, False)
      else (case wo_workload w (sc_WorkloadName ac) (sc_Namespace ac) (sc_WorkloadKind ac) of
              Inl e \<Rightarrow> (None, Some e, False)
            | Inr wl \<Rightarrow> (Some wl, None, cl_matches (wo_cluster w) (svc_Selector svc) (pt_Labels (wl_PodTemplate wl)))))"

definition configsAffectedBySvc ::
    "world \<Rightarrow> string \<Rightarrow> k8s_service \<Rightarrow> bool \<Rightarrow> config_watcher \<Rightarrow> (k8s_error option \<times> workload option \<times> sidecar) list" where
  "configsAffectedBySvc w ns svc trustUID c =
     (case map_of (cw_agentConfigs c) ns of
        None \<Rightarrow> []
      | Some scMap \<Rightarrow>
          concat (map (\<lambda>(n, sc). case references w svc trustUID sc of (wl, e, ok) \<Rightarrow> if ok then [(e, wl, sc)] else []) scMap))"

definition contains_text :: "string \<Rightarrow> string \<Rightarrow> bool" where
  "contains_text s t = list_ex (\<lambda>i. has_prefix (drop i s) t) [0..<length s + 1]"

text \<open>A configuration that is generated again replaces the old one and its pods are evicted.\<close>

definition regenerate_entry ::
    "world \<Rightarrow> workload \<Rightarrow> sidecar option \<Rightarrow> string \<times> string \<Rightarrow> generator_config \<Rightarrow> config_watcher
     \<Rightarrow> (generator_config \<times> config_watcher) option" where
  "regenerate_entry w wl ac key gc c =
     map_option (\<lambda>(r, gc). case r of
         Inl e \<Rightarrow> (gc, if contains_text (wo_error_text w e) ''unable to find'' then cw_Delete (fst key) (snd key) c else c)
       | Inr acn \<Rightarrow> (gc, snd (EvictPodsWithAgentConfigMismatch w wl acn (cw_Store acn c))))
       (Generate (wo_cluster w) wl ac gc)"

fun update_affected ::
    "world \<Rightarrow> (k8s_error option \<times> workload option \<times> sidecar) list \<Rightarrow> generator_config \<Rightarrow> config_watcher \<Rightarrow> config_watcher option" where
  "update_affected w [] gc c = Some c"
| "update_affected w ((err, wl, ac) # axs) gc c =
     (case (case wl of
              Some wl \<Rightarrow> Inr wl
            | None \<Rightarrow> (case err of Some e \<Rightarrow> Inl e | None \<Rightarrow> wo_workload w (sc_WorkloadName ac) (sc_Namespace ac) (sc_WorkloadKind ac))) of
        Inl NotFound \<Rightarrow> update_affected w axs gc (cw_Delete (sc_AgentName ac) (sc_Namespace ac) c)
      | Inl e \<Rightarrow> update_affected w axs gc c
      | Inr wl \<Rightarrow>
          Option.bind (regenerate_entry w wl (Some ac) (sc_AgentName ac, sc_Namespace ac) gc c) (\<lambda>(gc, c). update_affected w axs gc c))"

definition updateSvc :: "world \<Rightarrow> string \<Rightarrow> k8s_service \<Rightarrow> bool \<Rightarrow> config_watcher \<Rightarrow> config_watcher option" where
  "updateSvc w ns svc trustUID c =
     (if wo_agentImage w = [] then Some c
      else (case wo_generator w (wo_agentImage w) of
              Inl e \<Rightarrow> Some c
            | Inr gc \<Rightarrow> update_affected w (configsAffectedBySvc w ns svc trustUID c) gc c))"

datatype svc_event = SvcAdd k8s_service | SvcDelete k8s_service | SvcUpdate k8s_service

definition watchServices :: "world \<Rightarrow> string \<Rightarrow> svc_event \<Rightarrow> config_watcher \<Rightarrow> config_watcher option" where
  "watchServices w ns ev c =
     (case ev of SvcAdd svc \<Rightarrow> updateSvc w ns svc False c | SvcDelete svc \<Rightarrow> updateSvc w ns svc True c | SvcUpdate svc \<Rightarrow> updateSvc w ns svc True c)"

definition updateWorkload :: "world \<Rightarrow> workload \<Rightarrow> workload option \<Rightarrow> bool \<Rightarrow> config_watcher \<Rightarrow> config_watcher option" where
  "updateWorkload w wl oldWl failed c =
     (let tpl = wl_PodTemplate wl; ia = GetAnnotation (pt_Annotations tpl) InjectTrafficAgent LegacyInjectTrafficAgent in
      if failed then Some c
      else if ia = [] then Some c
      else if (case oldWl of Some old \<Rightarrow> wo_same_template w (wl_PodTemplate old) tpl | None \<Rightarrow> False) then Some c
      else if ia = ''enabled'' then
        (if wl_Kind wl \<notin> set (wo_kinds w) then Some c
         else if wo_agentImage w = [] then Some c
         else (case wo_generator w (wo_agentImage w) of
                 Inl e \<Rightarrow> Some c
               | Inr gc \<Rightarrow>
                   map_option snd (regenerate_entry w wl
                     (case oldWl of Some _ \<Rightarrow> Get (wl_Name wl) (wl_Namespace wl) c | None \<Rightarrow> None) (wl_Name wl, wl_Namespace wl) gc c)))
      else if ia = ''false'' \<or> ia = ''disabled'' then
        Some (snd (EvictPodsWithAgentConfig w wl (cw_Delete (wl_Name wl) (wl_Namespace wl) c)))
      else Some c)"

datatype wl_event = WlAdd workload | WlDelete workload | WlUpdate workload workload

text \<open>Workloads that are owned by another object are left to their owner.\<close>

definition watchWorkloads ::
    "world \<Rightarrow> (workload \<Rightarrow> bool) \<Rightarrow> (workload \<Rightarrow> bool) \<Rightarrow> wl_event \<Rightarrow> config_watcher \<Rightarrow> config_watcher option" where
  "watchWorkloads w owned failed ev c =
     (case ev of
        WlAdd wl \<Rightarrow> if owned wl then Some c else updateWorkload w wl None (failed wl) c
      | WlDelete wl \<Rightarrow> Some (if owned wl then c else cw_Delete (wl_Name wl) (wl_Namespace wl) c)
      | WlUpdate old wl \<Rightarrow> if owned wl then Some c else updateWorkload w wl (Some old) (failed wl) c)"

section \<open>Evicted pods\<close>

text \<open>What the requests to the cluster leave alone.\<close>

definition only_requests :: "config_watcher \<Rightarrow> config_watcher \<Rightarrow> bool" where
  "only_requests c c' \<longleftrightarrow> (\<exists>rs. c' = c\<lparr>cw_requests := cw_requests c @ rs\<rparr>)"

lemma only_requests_refl [simp]: "only_requests c c"
  by (simp add: only_requests_def exI [of _ "[]"])

lemma only_requests_add [simp]: "only_requests c (c\<lparr>cw_requests := cw_requests c @ rs\<rparr>)"
  by (auto simp: only_requests_def)

lemma only_requests_trans: "only_requests a b \<Longrightarrow> only_requests b c \<Longrightarrow> only_requests a c"
  by (auto simp: only_requests_def)

lemma evictPod_requests: "evictPod w p c = (e, c') \<Longrightarrow> only_requests c c'"
  by (auto simp: evictPod_def split: evict_result.splits)

lemma retry_evict_requests: "retry_evict rs p c = (e, c') \<Longrightarrow> only_requests c c'"
  by (induction rs p c rule: retry_evict.induct) auto

lemma scaleIt_requests: "scaleIt w wl n c = (e, c') \<Longrightarrow> only_requests c c'"
  by (auto simp: scaleIt_def split: option.splits)

lemma triggerScalingEviction_requests:
  assumes "triggerScalingEviction w wl p c = (e, c')"
  shows "only_requests c c'"
proof -
  let ?n = "wo_replicas w wl"
  obtain e1 c1 where 1: "scaleIt w wl (?n + 1) c = (e1, c1)" by fastforce
  obtain e2 c2 where 2: "retryEvictPod w wl p (?n + 1) c1 = (e2, c2)" by fastforce
  obtain e3 c3 where 3: "scaleIt w wl ?n c2 = (e3, c3)" by fastforce
  have "only_requests c c1" by (rule scaleIt_requests [OF 1])
  moreover have "only_requests c1 c2" using 2 by (auto simp: retryEvictPod_def retry_evict_requests split: option.splits)
  moreover have "only_requests c2 c3" by (rule scaleIt_requests [OF 3])
  ultimately show ?thesis
    using assms 1 2 3 by (auto simp: triggerScalingEviction_def Let_def split: option.splits intro: only_requests_trans)
qed

lemma evictOrRollout_requests:
  assumes "evictOrRollout w wl p n c = (r, c')"
  shows "only_requests c c'"
proof -
  obtain e1 c1 where 1: "evictPod w p c = (e1, c1)" by fastforce
  note r1 = evictPod_requests [OF 1]
  have "only_requests c1 c'"
    using assms 1 triggerScalingEviction_requests
    by (auto simp: evictOrRollout_def Let_def split: option.splits evict_error.splits if_splits prod.splits)
  with r1 show ?thesis by (rule only_requests_trans)
qed

lemma only_requests_same:
  assumes "only_requests c c'"
  shows "isEvicted u c' = isEvicted u c" "IsInactive u c' = IsInactive u c" "cw_agentConfigs c' = cw_agentConfigs c"
    "cw_configured c' = cw_configured c" "cw_inactivePods c' = cw_inactivePods c"
  using assms by (auto simp: only_requests_def isEvicted_def IsInactive_def)

lemma mark_deleted_simps [simp]:
  "isEvicted u (mark_deleted w p c) \<longleftrightarrow> u = po_UID p \<or> isEvicted u c"
  "IsInactive u (mark_deleted w p c) \<longleftrightarrow> u = po_UID p \<or> IsInactive u c"
  "cw_agentConfigs (mark_deleted w p c) = cw_agentConfigs c"
  "cw_configured (mark_deleted w p c) = cw_configured c"
  by (auto simp: mark_deleted_def isEvicted_def IsInactive_def)

lemma evict_pods_frame:
  assumes "evict_pods w wl ps dr n c = (e, c')"
  shows "cw_agentConfigs c' = cw_agentConfigs c \<and> cw_configured c' = cw_configured c \<and> (isEvicted u c \<longrightarrow> isEvicted u c')
    \<and> (isEvicted u c' \<longrightarrow> isEvicted u c \<or> (\<exists>p\<in>set ps. po_UID p = u \<and> \<not> manual_pod p))"
  using assms
proof (induction ps arbitrary: dr n c)
  case (Cons p ps)
  obtain r c1 where 1: "evictOrRollout w wl p n c = (r, c1)" by fastforce
  note same = only_requests_same [OF evictOrRollout_requests [OF 1]]
  consider (skip) "isEvicted (po_UID p) c \<or> manual_pod p" | (mark) "\<not> manual_pod p" "evict_pods w wl ps dr n (mark_deleted w p c) = (e, c')"
    | (fail) "c' = c1" | (evict) b where "\<not> manual_pod p" "evict_pods w wl ps b (n + 1) (mark_deleted w p c1) = (e, c')"
    using Cons.prems 1 by (cases r) (auto split: if_splits)
  then show ?case
  proof cases
    case skip
    with Cons.prems have "evict_pods w wl ps dr n c = (e, c')" by (auto split: if_splits)
    from Cons.IH [OF this] show ?thesis by auto
  next
    case mark
    from Cons.IH [OF mark(2)] mark(1) show ?thesis by auto
  next
    case fail
    with same show ?thesis by simp
  next
    case evict
    from Cons.IH [OF evict(2)] evict(1) same show ?thesis by auto
  qed
qed simp

lemma evict_pods_done:
  assumes "evict_pods w wl ps dr n c = (None, c')" and "p \<in> set ps"
  shows "manual_pod p \<or> isEvicted (po_UID p) c'"
  using assms
proof (induction ps arbitrary: dr n c)
  case (Cons q ps)
  obtain r c1 where 1: "evictOrRollout w wl q n c = (r, c1)" by fastforce
  obtain b m c2 where rest: "evict_pods w wl ps b m c2 = (None, c')" "manual_pod q \<or> isEvicted (po_UID q) c2"
    using Cons.prems(1) 1 by (cases r) (auto split: if_splits)
  show ?case
  proof (cases "p = q")
    case True
    with rest(2) evict_pods_frame [OF rest(1), of "po_UID q"] show ?thesis by blast
  next
    case False
    with Cons.prems(2) Cons.IH [OF rest(1)] show ?thesis by simp
  qed
qed simp

lemma evict_pods_idle:
  "\<forall>p\<in>set ps. manual_pod p \<or> isEvicted (po_UID p) c \<Longrightarrow> evict_pods w wl ps dr n c = (None, c)"
  by (induction ps) auto

lemma evictPods_frame:
  assumes "evictPods w wl ps c = (e, c')"
  shows "cw_agentConfigs c' = cw_agentConfigs c" "cw_configured c' = cw_configured c" "isEvicted u c \<Longrightarrow> isEvicted u c'"
    "isEvicted u c' \<Longrightarrow> isEvicted u c \<or> (\<exists>p\<in>set ps. po_UID p = u \<and> \<not> manual_pod p)"
  using evict_pods_frame [OF assms [unfolded evictPods_def], of u] by blast+

section \<open>Keyed stores\<close>

text \<open>
  A store whose values carry their key: what a lookup returns after a value is put or a key deleted, and
  that every value is found under its own key.
\<close>

locale keyed_store =
  fixes get :: "'k \<Rightarrow> 's \<Rightarrow> 'v option" and put :: "'v \<Rightarrow> 's \<Rightarrow> 's" and del :: "'k \<Rightarrow> 's \<Rightarrow> 's" and key :: "'v \<Rightarrow> 'k"
  assumes get_put: "get k (put v s) = (if k = key v then Some v else get k s)"
    and get_del: "get k (del k' s) = (if k = k' then None else get k s)"
begin

definition keyed :: "'s \<Rightarrow> bool" where
  "keyed s \<longleftrightarrow> (\<forall>k v. get k s = Some v \<longrightarrow> key v = k)"

lemma keyed_put: "keyed s \<Longrightarrow> keyed (put v s)"
  by (simp add: keyed_def get_put)

lemma keyed_del: "keyed s \<Longrightarrow> keyed (del k s)"
  by (simp add: keyed_def get_del)

lemma keyed_cong: "(\<And>k. get k s' = get k s) \<Longrightarrow> keyed s' = keyed s"
  by (simp add: keyed_def)

lemma keyed_key: "keyed s \<Longrightarrow> get k s = Some v \<Longrightarrow> key v = k"
  by (simp add: keyed_def)

end

lemma Get_Store: "Get n ns (cw_Store sc c) = (if n = sc_AgentName sc \<and> ns = sc_Namespace sc then Some sc else Get n ns c)"
  by (auto simp: Get_def cw_Store_def Let_def split: option.splits)

lemma Get_Delete: "Get n ns (cw_Delete n' ns' c) = (if n = n' \<and> ns = ns' then None else Get n ns c)"
proof (cases "map_of (cw_agentConfigs c) ns'")
  case None
  then show ?thesis by (auto simp: Get_def cw_Delete_def delete_conv')
next
  case (Some m)
  have "map_of m k = None" if "AList.delete n' m = []" "k \<noteq> n'" for k
    using that delete_conv' [of n' m] by (metis fun_upd_apply map_of.simps(1))
  with Some show ?thesis by (auto simp: Get_def cw_Delete_def Let_def delete_conv' split: option.splits)
qed

lemma Get_only: "cw_agentConfigs c' = cw_agentConfigs c \<Longrightarrow> Get n ns c' = Get n ns c"
  by (simp add: Get_def)

interpretation cfgs: keyed_store "\<lambda>(n, ns). Get n ns" cw_Store "\<lambda>(n, ns). cw_Delete n ns" "\<lambda>sc. (sc_AgentName sc, sc_Namespace sc)"
  by unfold_locales (auto simp: Get_Store Get_Delete split: if_splits)

lemma Get_Update:
  assumes "cw_Update name ns updater c = (r, c')"
  shows "r = fst (updater (Get name ns c) c)"
    and "Get n m c' = (case r of Inl _ \<Rightarrow> Get n m c | Inr v \<Rightarrow> if n = name \<and> m = ns then v else Get n m c)"
  using assms by (auto simp: cw_Update_def Get_def delete_conv' update_conv' split: option.splits sum.splits prod.splits)

lemma Generate_key:
  assumes "Generate cl wl ex gc = Some (Inr sc, gc')"
  shows "sc_AgentName sc = wl_Name wl" "sc_Namespace sc = wl_Namespace wl" "sc_WorkloadKind sc = wl_Kind wl"
  using Generate_result [OF assms] by (auto simp: new_sidecar_def)

section \<open>The map stays keyed\<close>

abbreviation configs_keyed :: "config_watcher \<Rightarrow> bool" where "configs_keyed \<equiv> cfgs.keyed"

lemma configs_keyed_same: "cw_agentConfigs c' = cw_agentConfigs c \<Longrightarrow> configs_keyed c' = configs_keyed c"
  by (rule cfgs.keyed_cong) (auto simp: Get_def)

lemma EvictMismatch_frame:
  assumes "EvictPodsWithAgentConfigMismatch w wl sc c = (e, c')"
  shows "cw_agentConfigs c' = cw_agentConfigs c" "cw_configured c' = cw_configured c"
  using assms evictPods_frame(1,2)
  by (auto simp: EvictPodsWithAgentConfigMismatch_def evictPodsWithAgentConfigMismatch_def split: sum.splits)

lemma EvictConfig_frame:
  assumes "EvictPodsWithAgentConfig w wl c = (e, c')"
  shows "cw_agentConfigs c' = cw_agentConfigs c" "cw_configured c' = cw_configured c"
  using assms evictPods_frame(1,2)
  by (auto simp: EvictPodsWithAgentConfig_def evictPodsWithAgentConfigMismatch_def split: sum.splits)

lemma regenerate_entry_keyed:
  assumes "regenerate_entry w wl ac key gc c = Some (gc', c')" and "configs_keyed c"
  shows "configs_keyed c'"
proof -
  obtain r gc1 where g: "Generate (wo_cluster w) wl ac gc = Some (r, gc1)"
    using assms(1) by (auto simp: regenerate_entry_def)
  show ?thesis
  proof (cases r)
    case (Inl e)
    with assms g cfgs.keyed_del [OF assms(2), of key] show ?thesis
      by (auto simp: regenerate_entry_def case_prod_unfold split: if_splits)
  next
    case (Inr acn)
    obtain e c1 where ev: "EvictPodsWithAgentConfigMismatch w wl acn (cw_Store acn c) = (e, c1)" by fastforce
    from cfgs.keyed_put [OF assms(2), of acn] configs_keyed_same [OF EvictMismatch_frame(1) [OF ev]] Inr ev assms(1) g
    show ?thesis by (simp add: regenerate_entry_def)
  qed
qed

lemma update_affected_keyed:
  "update_affected w axs gc c = Some c' \<Longrightarrow> configs_keyed c \<Longrightarrow> configs_keyed c'"
proof (induction axs arbitrary: gc c)
  case (Cons ax axs)
  obtain err wl ac where ax: "ax = (err, wl, ac)" by (cases ax)
  let ?r = "case wl of Some wl \<Rightarrow> Inr wl
    | None \<Rightarrow> (case err of Some e \<Rightarrow> Inl e | None \<Rightarrow> wo_workload w (sc_WorkloadName ac) (sc_Namespace ac) (sc_WorkloadKind ac))"
  have del: "configs_keyed (cw_Delete (sc_AgentName ac) (sc_Namespace ac) c)"
    using cfgs.keyed_del [OF Cons.prems(2), of "(sc_AgentName ac, sc_Namespace ac)"] by simp
  consider (gone) "?r = Inl NotFound" | (err) m where "?r = Inl (ApiError m)" | (found) wl' where "?r = Inr wl'"
    by (cases ?r) (auto elim: k8s_error.exhaust)
  then show ?case
  proof cases
    case gone
    with Cons.prems(1) ax Cons.IH del show ?thesis by simp
  next
    case err
    with Cons.prems ax Cons.IH show ?thesis by simp
  next
    case found
    with Cons.prems(1) ax obtain gc1 c1 where
      e: "regenerate_entry w wl' (Some ac) (sc_AgentName ac, sc_Namespace ac) gc c = Some (gc1, c1)"
      and u: "update_affected w axs gc1 c1 = Some c'" by (auto split: bind_splits)
    from Cons.IH [OF u regenerate_entry_keyed [OF e Cons.prems(2)]] show ?thesis .
  qed
qed simp

lemma updateSvc_keyed: "updateSvc w ns svc trust c = Some c' \<Longrightarrow> configs_keyed c \<Longrightarrow> configs_keyed c'"
  by (auto simp: updateSvc_def update_affected_keyed split: if_splits sum.splits)

lemma updateWorkload_keyed:
  assumes "updateWorkload w wl old failed c = Some c'" and "configs_keyed c"
  shows "configs_keyed c'"
proof -
  obtain e c1 where ev: "EvictPodsWithAgentConfig w wl (cw_Delete (wl_Name wl) (wl_Namespace wl) c) = (e, c1)" by fastforce
  have "configs_keyed c1"
    using cfgs.keyed_del [OF assms(2), of "(wl_Name wl, wl_Namespace wl)"] configs_keyed_same [OF EvictConfig_frame(1) [OF ev]] by simp
  moreover have "configs_keyed c2" if "regenerate_entry w wl ac k gc c = Some (gc', c2)" for ac k gc gc' c2
    by (rule regenerate_entry_keyed [OF that assms(2)])
  ultimately show ?thesis
    using assms ev by (auto simp: updateWorkload_def Let_def split: if_splits sum.splits)
qed

lemma regenerate_pod_keyed:
  "regenerate_pod w wl configured p r = Some r' \<Longrightarrow> configs_keyed (rg_cw r) \<Longrightarrow> configs_keyed (rg_cw r')"
  by (auto simp: regenerate_pod_def Let_def cfgs.keyed_put split: option.splits sum.splits if_splits bind_splits prod.splits)

lemma regenerate_pods_keyed:
  "regenerate_pods w wl configured ps r = Some r' \<Longrightarrow> configs_keyed (rg_cw r) \<Longrightarrow> configs_keyed (rg_cw r')"
  by (induction ps arbitrary: r) (auto split: bind_splits dest: regenerate_pod_keyed)

lemma regenerate_groups_keyed:
  "regenerate_groups w configured gs gc c = Some (gc', c') \<Longrightarrow> configs_keyed c \<Longrightarrow> configs_keyed c'"
proof (induction gs arbitrary: gc c)
  case (Cons g gs)
  obtain k wl ps where g: "g = (k, wl, ps)" by (cases g)
  with Cons.prems(1) obtain r where
    r: "regenerate_pods w wl configured ps \<lparr>rg_wls = [], rg_pods = [], rg_gc = gc, rg_cw = c\<rparr> = Some r"
    and u: "regenerate_groups w configured gs (rg_gc r)
      (if 0 < length (rg_pods r) then snd (evictPods w (Some wl) (rg_pods r) (rg_cw r)) else rg_cw r) = Some (gc', c')"
    by (auto split: bind_splits)
  have "configs_keyed (rg_cw r)" using regenerate_pods_keyed [OF r] Cons.prems(2) by simp
  moreover have "configs_keyed (snd (evictPods w (Some wl) (rg_pods r) (rg_cw r))) = configs_keyed (rg_cw r)"
    by (rule configs_keyed_same, rule evictPods_frame(1), rule surjective_pairing)
  ultimately show ?case by (intro Cons.IH [OF u]) simp
qed simp

lemma RegenerateAgentMaps_keyed:
  assumes "RegenerateAgentMaps w nss img c = Some (e, c')" and "configs_keyed c"
  shows "configs_keyed c'"
proof -
  have "configs_keyed c'" if "regenerate_namespaces w nss gc c = Some (e', c')" for gc e'
    using that assms(2)
  proof (induction nss arbitrary: gc c)
    case (Cons ns nss)
    from Cons.prems(1) obtain e1 gc1 c1 where r: "regenerateAgentConfigs w ns gc c = Some (e1, gc1, c1)"
      and u: "e1 = None \<Longrightarrow> regenerate_namespaces w nss gc1 c1 = Some (e', c')" "e1 \<noteq> None \<Longrightarrow> c' = c1"
      by (auto split: bind_splits option.splits)
    have "configs_keyed c1"
      using r Cons.prems(2) regenerate_groups_keyed by (fastforce simp: regenerateAgentConfigs_def split: sum.splits)
    with u Cons.IH show ?case by (cases e1) auto
  qed simp
  with assms show ?thesis by (auto simp: RegenerateAgentMaps_def split: sum.splits)
qed

lemma generate_retry_key:
  "generate_retry n cls wl gc = Some (Inr ac) \<Longrightarrow> sc_AgentName ac = wl_Name wl \<and> sc_Namespace ac = wl_Namespace wl"
  by (induction n cls wl gc rule: generate_retry.induct) (auto split: bind_splits sum.splits if_splits dest: Generate_key)

lemma GetOrGenerate_keyed:
  assumes "GetOrGenerate w cls wl c = Some (r, c')" and "configs_keyed c"
  shows "configs_keyed c' \<and> (\<forall>ac. r = Inr ac \<longrightarrow> Get (wl_Name wl) (wl_Namespace wl) c' = Some ac)"
proof (cases "Get (wl_Name wl) (wl_Namespace wl) c")
  case (Some ac)
  with assms show ?thesis by (auto simp: GetOrGenerate_def)
next
  case None
  show ?thesis
  proof (cases "wo_generator w (wo_agentImage w)")
    case (Inl e)
    with assms None show ?thesis by (auto simp: GetOrGenerate_def)
  next
    case (Inr gc)
    with assms(1) None obtain res where g: "generate_retry 10 cls wl gc = Some res"
      by (auto simp: GetOrGenerate_def)
    show ?thesis
    proof (cases res)
      case (Inl e)
      with assms None Inr g show ?thesis by (auto simp: GetOrGenerate_def)
    next
      case (Inr ac)
      note key = generate_retry_key [OF g [unfolded Inr]]
      have "r = Inr ac \<and> c' = cw_Store ac c"
        using assms(1) None \<open>wo_generator w (wo_agentImage w) = Inr gc\<close> g Inr key
        by (cases "map_of (cw_agentConfigs c) (wl_Namespace wl)") (auto simp: GetOrGenerate_def cw_Store_def Get_def)
      with key cfgs.keyed_put [OF assms(2)] show ?thesis by (simp add: Get_Store)
    qed
  qed
qed

lemma EvictAll_keyed:
  assumes "EvictAllPodsWithAgentConfig w ns c = (r, c')" and "configs_keyed c"
  shows "configs_keyed c'" and "Get n ns c' = None"
proof -
  let ?c = "c\<lparr>cw_agentConfigs := AList.delete ns (cw_agentConfigs c)\<rparr>"
  have frame: "evict_groups w gs c1 = (es, c2) \<Longrightarrow> cw_agentConfigs c2 = cw_agentConfigs c1" for gs c1 es c2
    using evictPods_frame(1)
    by (induction gs arbitrary: c1 es c2) (fastforce simp: evictPodsWithAgentConfigMismatch_def split: prod.splits)+
  have same: "cw_agentConfigs c' = cw_agentConfigs ?c"
    using assms(1) frame by (fastforce simp: EvictAllPodsWithAgentConfig_def Let_def split: sum.splits prod.splits)
  have "Get k m ?c = (if m = ns then None else Get k m c)" for k m
    by (simp add: Get_def delete_conv')
  with assms(2) have "configs_keyed ?c" by (auto simp: cfgs.keyed_def split: if_splits)
  then show "configs_keyed c'" using configs_keyed_same [OF same] by simp
  show "Get n ns c' = None" using same by (simp add: Get_def delete_conv')
qed

lemma deleteMaps_keyed: "configs_keyed c \<Longrightarrow> configs_keyed (deleteMapsAndRolloutNS w ns c)"
proof -
  assume "configs_keyed c"
  with EvictAll_keyed(1) [of w ns c "fst (EvictAllPodsWithAgentConfig w ns c)"]
  have "configs_keyed (snd (EvictAllPodsWithAgentConfig w ns c))" by simp
  moreover have "cw_agentConfigs (deleteMapsAndRolloutNS w ns c) = cw_agentConfigs (snd (EvictAllPodsWithAgentConfig w ns c))"
    by (simp add: deleteMapsAndRolloutNS_def Let_def)
  ultimately show ?thesis using configs_keyed_same by blast
qed

lemma fold_keyed: "(\<And>x c. configs_keyed c \<Longrightarrow> configs_keyed (f x c)) \<Longrightarrow> configs_keyed c \<Longrightarrow> configs_keyed (fold f xs c)"
  by (induction xs arbitrary: c) auto

lemma namespacesChanged_keyed: "configs_keyed c \<Longrightarrow> configs_keyed (namespacesChanged w starts nss c)"
proof -
  assume k: "configs_keyed c"
  let ?f = "\<lambda>ns c. if ns \<in> set (cw_informers c) then c
    else c\<lparr>cw_running := True, cw_informers := (if starts ns then cw_informers c @ [ns] else cw_informers c)\<rparr>"
  have "cw_agentConfigs (?f x c) = cw_agentConfigs c" for x c by simp
  then have "configs_keyed (?f x c) = configs_keyed c" for x c by (rule configs_keyed_same)
  with k have "configs_keyed (fold ?f nss c)" by (intro fold_keyed) blast+
  moreover have "configs_keyed (if x \<in> set nss then c else deleteMapsAndRolloutNS w x c)" if "configs_keyed c" for x c
    using that by (simp add: deleteMaps_keyed)
  ultimately show ?thesis unfolding namespacesChanged_def Let_def by (rule fold_keyed [rotated])
qed

lemma DeleteAll_keyed: "configs_keyed c \<Longrightarrow> configs_keyed (DeleteMapsAndRolloutAll w c)"
proof -
  assume "configs_keyed c"
  moreover have "cw_agentConfigs (c\<lparr>cw_running := False\<rparr>) = cw_agentConfigs c" by simp
  ultimately have "configs_keyed (c\<lparr>cw_running := False\<rparr>)" using configs_keyed_same by blast
  with \<open>configs_keyed c\<close> show ?thesis by (simp add: DeleteMapsAndRolloutAll_def fold_keyed deleteMaps_keyed)
qed

text \<open>
  The states of the watcher. The cluster may be another one at every step. What the rest of the traffic
  manager does through \<open>Update\<close> keeps the name and the namespace of a configuration.
\<close>

inductive cw_reachable :: "config_watcher \<Rightarrow> bool" where
  new: "cw_reachable NewWatcher"
| svc: "cw_reachable c \<Longrightarrow> watchServices w ns sev c = Some c' \<Longrightarrow> cw_reachable c'"
| wl: "cw_reachable c \<Longrightarrow> watchWorkloads w owned failed wev c = Some c' \<Longrightarrow> cw_reachable c'"
| regenerate: "cw_reachable c \<Longrightarrow> RegenerateAgentMaps w nss img c = Some (e, c') \<Longrightarrow> cw_reachable c'"
| generate: "cw_reachable c \<Longrightarrow> GetOrGenerate w cls wl c = Some (r, c') \<Longrightarrow> cw_reachable c'"
| delete: "cw_reachable c \<Longrightarrow> cw_reachable (cw_Delete n ns c)"
| update: "cw_reachable c \<Longrightarrow> cw_Update n ns f c = (ur :: string + sidecar option, c')
    \<Longrightarrow> (\<And>sc. ur = Inr (Some sc) \<Longrightarrow> sc_AgentName sc = n \<and> sc_Namespace sc = ns) \<Longrightarrow> cw_reachable c'"
| evict_all: "cw_reachable c \<Longrightarrow> EvictAllPodsWithAgentConfig w ns c = (er, c') \<Longrightarrow> cw_reachable c'"
| evict: "cw_reachable c \<Longrightarrow> evictPods w owl ps c = (ev, c') \<Longrightarrow> cw_reachable c'"
| inactivate: "cw_reachable c \<Longrightarrow> cw_reachable (Inactivate now u c)"
| collect: "cw_reachable c \<Longrightarrow> cw_reachable (gc_inactivePods now c)"
| configured: "cw_reachable c \<Longrightarrow> cw_reachable (SetConfigured c)"
| namespaces: "cw_reachable c \<Longrightarrow> cw_reachable (namespacesChanged w starts nss c)"
| delete_all: "cw_reachable c \<Longrightarrow> cw_reachable (DeleteMapsAndRolloutAll w c)"

lemma reachable_keyed: "cw_reachable c \<Longrightarrow> configs_keyed c"
proof (induction rule: cw_reachable.induct)
  case new
  have "Get n ns NewWatcher = None" for n ns by (simp add: Get_def NewWatcher_def)
  then show ?case by (auto simp: cfgs.keyed_def)
next
  case (svc c w ns sev c')
  then show ?case using updateSvc_keyed by (auto simp: watchServices_def split: svc_event.splits)
next
  case (wl c w owned failed wev c')
  have "configs_keyed (cw_Delete n ns c)" for n ns using cfgs.keyed_del [OF wl.IH, of "(n, ns)"] by simp
  with wl show ?case using updateWorkload_keyed by (auto simp: watchWorkloads_def split: wl_event.splits if_splits)
next
  case (regenerate c w nss img e c')
  then show ?case using RegenerateAgentMaps_keyed by blast
next
  case (generate c w cls wl r c')
  then show ?case using GetOrGenerate_keyed by blast
next
  case (delete c n ns)
  then show ?case using cfgs.keyed_del [OF delete.IH, of "(n, ns)"] by simp
next
  case (update c n ns f ur c')
  then show ?case by (auto simp: cfgs.keyed_def Get_Update(2) [OF update.hyps(2)] split: sum.splits if_splits)
next
  case (evict_all c w ns er c')
  then show ?case using EvictAll_keyed(1) by blast
next
  case (evict c w owl ps ev c')
  then show ?case using configs_keyed_same [OF evictPods_frame(1) [OF evict.hyps(2)]] by simp
next
  case (inactivate c now u)
  have "cw_agentConfigs (Inactivate now u c) = cw_agentConfigs c" by (simp add: Inactivate_def split: option.split)
  from configs_keyed_same [OF this] inactivate.IH show ?case by simp
next
  case (collect c now)
  have "cw_agentConfigs (gc_inactivePods now c) = cw_agentConfigs c" by (simp add: gc_inactivePods_def)
  from configs_keyed_same [OF this] collect.IH show ?case by simp
next
  case (configured c)
  have "cw_agentConfigs (SetConfigured c) = cw_agentConfigs c" by (simp add: SetConfigured_def)
  from configs_keyed_same [OF this] configured.IH show ?case by simp
next
  case (namespaces c w starts nss)
  show ?case by (rule namespacesChanged_keyed [OF namespaces.IH])
next
  case (delete_all c w)
  show ?case by (rule DeleteAll_keyed [OF delete_all.IH])
qed

section \<open>A sample world\<close>

definition sample_pod :: "string \<Rightarrow> annotations \<Rightarrow> pod" where
  "sample_pod name anns =
     \<lparr>po_Name = name, po_Namespace = ''default'', po_UID = name, po_Labels = [], po_Annotations = anns, po_Phase = PodRunning\<rparr>"

text \<open>Its cluster refuses every eviction for the sake of a disruption budget and accepts every patch.\<close>

definition sample_world :: "pod list \<Rightarrow> world" where
  "sample_world ps =
     \<lparr>wo_cluster = sample_cluster, wo_generator = (\<lambda>_. Inr sample_config), wo_agentImage = ''img'', wo_kinds = [''Deployment''],
      wo_workload = (\<lambda>_ _ _. Inr (sample_workload [])), wo_owner = (\<lambda>_. Inr (sample_workload [])), wo_selected = (\<lambda>_. Inr ps),
      wo_listed = (\<lambda>_. Inr ps), wo_replicas = (\<lambda>_. 1), wo_evict = (\<lambda>_. EvictBudget), wo_retries = (\<lambda>_. []), wo_polls = (\<lambda>_. []),
      wo_patch = (\<lambda>_ _. None), wo_marshal = (\<lambda>sc. Inr (sc_AgentName sc)), wo_unmarshal = Inl, wo_same_template = (\<lambda>_ _. False),
      wo_error_text = (\<lambda>_. []), wo_now = 0, wo_rfc3339 = ''now''\<rparr>"

section \<open>Properties\<close>



text \<open>
  C21. When pods are evicted without an error, each of them is marked as evicted unless it is managed
  manually, no other pod is marked, no configuration is lost, and evicting them again sends nothing to
  the cluster, whatever the cluster would answer.
\<close>

theorem evictPods_settles:
  assumes "evictPods w wl ps c = (None, c')"
  shows "(\<forall>u. isEvicted u c' \<longleftrightarrow> isEvicted u c \<or> (\<exists>p\<in>set ps. po_UID p = u \<and> \<not> manual_pod p))
    \<and> cw_agentConfigs c' = cw_agentConfigs c \<and> evictPods w' wl' ps c' = (None, c')"
proof -
  have dn: "manual_pod p \<or> isEvicted (po_UID p) c'" if "p \<in> set ps" for p
    using evict_pods_done [OF assms [unfolded evictPods_def] that] .
  moreover have "evictPods w' wl' ps c' = (None, c')"
    unfolding evictPods_def by (rule evict_pods_idle) (use dn in blast)
  ultimately show ?thesis using evictPods_frame [OF assms] by blast
qed

theorem evictPods_settles_witness:
  "let ps = [sample_pod ''a'' [], sample_pod ''b'' [], sample_pod ''m'' [(ManuallyInjected, ''true'')]];
       (e, c) = evictPods (sample_world ps) (Some (sample_workload [])) ps NewWatcher
   in e = None \<and> length (cw_requests c) = 1 \<and> isEvicted ''a'' c \<and> isEvicted ''b'' c \<and> \<not> isEvicted ''m'' c
      \<and> evictPods (sample_world []) None ps c = (None, c)"
proof -
  let ?ps = "[sample_pod ''a'' [], sample_pod ''b'' [], sample_pod ''m'' [(ManuallyInjected, ''true'')]]"
  let ?r = "evictPods (sample_world ?ps) (Some (sample_workload [])) ?ps NewWatcher"
  have r: "fst ?r = None" "length (cw_requests (snd ?r)) = 1" "\<not> isEvicted ''m'' (snd ?r)" "\<not> manual_pod (?ps ! 0)" "\<not> manual_pod (?ps ! 1)"
    by code_simp+
  then have "?r = (None, snd ?r)" by (simp add: prod_eq_iff)
  from evictPods_settles [OF this, of "sample_world []" None] r show ?thesis
    by (simp add: case_prod_unfold Let_def sample_pod_def)
qed



section \<open>Changed services\<close>

text \<open>
  A service that is changed so that it selects the pods of a workload is not noticed: the handler of
  updates trusts the identity of the service, as the one of deletions does.
\<close>

lemma changed_service_ignored:
  assumes "\<And>n sc cn ic scMap. map_of (cw_agentConfigs c) ns = Some scMap \<Longrightarrow> (n, sc) \<in> set scMap \<Longrightarrow> cn \<in> set (sc_Containers sc)
      \<Longrightarrow> ic \<in> set (cn_Intercepts cn) \<Longrightarrow> ic_ServiceUID ic \<noteq> svc_UID svc"
  shows "watchServices w ns (SvcUpdate svc) c = Some c"
proof -
  have "configsAffectedBySvc w ns svc True c = []"
    using assms by (fastforce simp: configsAffectedBySvc_def references_def list_ex_iff split: option.split)
  then show ?thesis by (auto simp: watchServices_def updateSvc_def split: sum.split)
qed

end
