(* ===== verification/Manager_State.thy ===== *)
theory Manager_State
  imports Agent_Review Cache_Map Agent_Configs
begin

text \<open>
  The state of the traffic manager, \<^verbatim>\<open>cmd/traffic/cmd/manager/state\<close> (\<^verbatim>\<open>state.go\<close>, \<^verbatim>\<open>session.go\<close>,
  \<^verbatim>\<open>consumption.go\<close>, \<^verbatim>\<open>data.go\<close>) and \<^verbatim>\<open>managerutil/data.go\<close>: the sessions of clients and agents, the
  intercepts with their dispositions and finalizers, and the collection of what is gone.

  Intercepts and agents are in maps of theory \<open>Cache_Map\<close>, clients in an association list, and the agent
  configurations in a watcher of theory \<open>Agent_Configs\<close>. A stored intercept is an object that others may
  still hold when the map has replaced it, so it carries a reference. Equal messages are equal records.
  The sessions whose context was cancelled are listed. \<open>Range\<close> visits the keys the map has when it begins and reads the value when it visits one. A panic and
  a loop that does not end are \<open>None\<close>. Times are nanoseconds. Metrics of the monitoring are left out.
\<close>

section \<open>Messages and sessions\<close>

record mechanism =
  me_name :: string
  me_product :: string
  me_version :: string

record agent_info =
  ai_name :: string
  ai_kind :: string
  ai_namespace :: string
  ai_pod_name :: string
  ai_pod_ip :: string
  ai_pod_uid :: string
  ai_api_port :: i32
  ai_product :: string
  ai_version :: string
  ai_mechanisms :: "mechanism list"
  ai_environments :: "(string \<times> (string \<times> string) list) list"

record client_info =
  ci_name :: string
  ci_namespace :: string
  ci_install_id :: string
  ci_product :: string
  ci_version :: string

record client_session =
  cl_info :: client_info
  cl_id :: string
  cl_timestamp :: int
  cl_connectDuration :: int
  cl_lastUpdate :: int
  cl_FromClientBytes :: u64
  cl_ToClientBytes :: u64

record agent_session =
  ag_info :: agent_info
  ag_id :: string
  ag_timestamp :: int

definition newClientSessionState :: "string \<Rightarrow> client_info \<Rightarrow> int \<Rightarrow> client_session" where
  "newClientSessionState i ci now = \<lparr>cl_info = ci, cl_id = i, cl_timestamp = now, cl_connectDuration = 0,
     cl_lastUpdate = now, cl_FromClientBytes = 0, cl_ToClientBytes = 0\<rparr>"

definition newAgentSessionState :: "string \<Rightarrow> agent_info \<Rightarrow> int \<Rightarrow> agent_session" where
  "newAgentSessionState i ai now = \<lparr>ag_info = ai, ag_id = i, ag_timestamp = now\<rparr>"

definition Mark :: "int \<Rightarrow> int \<Rightarrow> bool \<times> int" where
  "Mark newMark oldMark = (if oldMark < newMark then (True, newMark) else (False, oldMark))"

definition ClientRemainTick :: int where "ClientRemainTick = 5000000000"
definition ConnectionStaleTimeout :: int where "ConnectionStaleTimeout = ClientRemainTick * 6"

definition AddTimeSpent :: "int \<Rightarrow> client_session \<Rightarrow> client_session" where
  "AddTimeSpent now m =
     (let timeSpent = now - cl_lastUpdate m;
          timeSpent = (if timeSpent > ConnectionStaleTimeout then ClientRemainTick else timeSpent)
      in m\<lparr>cl_lastUpdate := now, cl_connectDuration := cl_connectDuration m + timeSpent\<rparr>)"

section \<open>Compatible agents\<close>

definition agentHasMechanism :: "agent_info \<Rightarrow> string \<Rightarrow> bool" where
  "agentHasMechanism agent mechName = list_ex (\<lambda>m. me_name m = mechName) (ai_mechanisms agent)"

definition mechanismsAreTheSame :: "mechanism list \<Rightarrow> mechanism list \<Rightarrow> bool" where
  "mechanismsAreTheSame a b =
     (if length a \<noteq> length b \<or> length a = 0 then False
      else
        (let goldenMap = fold (\<lambda>m. AList.update (me_name m) m) a [] in
         if length goldenMap \<noteq> length a then False
         else list_all (\<lambda>m. case map_of goldenMap (me_name m) of
                               None \<Rightarrow> False
                             | Some golden \<Rightarrow> me_product golden = me_product m \<and> me_version golden = me_version m) b))"

definition AgentsAreCompatible :: "agent_info list \<Rightarrow> bool" where
  "AgentsAreCompatible agents =
     (case agents of
        [] \<Rightarrow> False
      | golden # rest \<Rightarrow>
          list_all (\<lambda>agent. ai_name golden = ai_name agent \<and> ai_product golden = ai_product agent
            \<and> ai_version golden = ai_version agent \<and> mechanismsAreTheSame (ai_mechanisms golden) (ai_mechanisms agent)) rest)"

section \<open>State\<close>

datatype finalizer = RestoreApp workload | DeleteIntercept string

record intercept_state =
  it_ref :: nat
  it_info :: intercept_info
  it_finalizers :: "finalizer list"

record mgr_state =
  ms_intercepts :: "(string, intercept_state) cache_map"
  ms_agents :: "(string, agent_session) cache_map"
  ms_clients :: "(string \<times> client_session) list"
  ms_configs :: config_watcher
  ms_ingress :: u64
  ms_egress :: u64
  ms_cancelled :: "string list"
  ms_refs :: nat

definition interceptEqual :: "intercept_state \<Rightarrow> intercept_state \<Rightarrow> bool" where
  "interceptEqual a b \<longleftrightarrow> it_info a = it_info b"

definition agentsEqual :: "agent_session \<Rightarrow> agent_session \<Rightarrow> bool" where
  "agentsEqual a b \<longleftrightarrow> ag_info a = ag_info b"

definition mgr_NewState :: mgr_state where
  "mgr_NewState = \<lparr>ms_intercepts = NewMap, ms_agents = NewMap, ms_clients = [], ms_configs = NewWatcher, ms_ingress = 0,
     ms_egress = 0, ms_cancelled = [], ms_refs = 0\<rparr>"

text \<open>The zero values that the maps hand to a computation for a key without a value.\<close>

definition zero_agent :: agent_session where
  "zero_agent = \<lparr>ag_info = \<lparr>ai_name = [], ai_kind = [], ai_namespace = [], ai_pod_name = [], ai_pod_ip = [], ai_pod_uid = [],
     ai_api_port = 0, ai_product = [], ai_version = [], ai_mechanisms = [], ai_environments = []\<rparr>, ag_id = [], ag_timestamp = 0\<rparr>"

definition zero_intercept :: intercept_state where
  "zero_intercept = \<lparr>it_ref = 0, it_info = zero_info, it_finalizers = []\<rparr>"

abbreviation icept_lookup :: "mgr_state \<Rightarrow> string \<Rightarrow> intercept_state option" where
  "icept_lookup s i \<equiv> map_of (cm_entries (ms_intercepts s)) i"

abbreviation agent_lookup :: "mgr_state \<Rightarrow> string \<Rightarrow> agent_session option" where
  "agent_lookup s i \<equiv> map_of (cm_entries (ms_agents s)) i"

text \<open>The agents that \<open>EachAgent\<close> visits, those of pods that are not inactive.\<close>

definition EachAgent :: "mgr_state \<Rightarrow> agent_session list" where
  "EachAgent s = filter (\<lambda>ag. \<not> IsInactive (ai_pod_uid (ag_info ag)) (ms_configs s)) (map snd (cm_entries (ms_agents s)))"

definition GetAgent :: "string \<Rightarrow> mgr_state \<Rightarrow> agent_session option" where
  "GetAgent i s =
     (case agent_lookup s i of
        Some ret \<Rightarrow> if \<not> IsInactive (ai_pod_uid (ag_info ret)) (ms_configs s) then Some ret else None
      | None \<Rightarrow> None)"

definition HasAgent :: "string \<Rightarrow> string \<Rightarrow> mgr_state \<Rightarrow> bool" where
  "HasAgent name ns s = list_ex (\<lambda>ag. ai_name (ag_info ag) = name \<and> ai_namespace (ag_info ag) = ns) (EachAgent s)"

definition checkAgentsForIntercept :: "intercept_info \<Rightarrow> mgr_state \<Rightarrow> disposition \<times> string" where
  "checkAgentsForIntercept cept s =
     (if ii_disposition cept \<in> {NO_CLIENT, NO_PORTS, BAD_ARGS, REMOVED} then (ii_disposition cept, ii_message cept)
      else
        (let agentName = sp_agent (ii_spec cept);
             agentList = map ag_info (filter (\<lambda>ag. ai_name (ag_info ag) = agentName \<and> ai_namespace (ag_info ag) = sp_namespace (ii_spec cept)) (EachAgent s))
         in if length agentList = 0 then (NO_AGENT, ''No agent found for '' @ quote agentName)
            else if \<not> AgentsAreCompatible agentList then (NO_AGENT, ''Agents for '' @ quote agentName @ '' are not consistent'')
            else if \<not> agentHasMechanism (agentList ! 0) (sp_mechanism (ii_spec cept)) then
              (NO_MECHANISM, ''Agents for '' @ quote agentName @ '' do not have mechanism '' @ quote (sp_mechanism (ii_spec cept)))
            else (UNSPECIFIED, [])))"

section \<open>Intercepts\<close>

text \<open>
  \<open>UpdateIntercept\<close> clones the intercept, applies the change, stamps it and swaps it in, until the swap
  succeeds.
\<close>

partial_function (option) UpdateIntercept ::
    "nat \<Rightarrow> string \<Rightarrow> (intercept_info \<Rightarrow> intercept_info) \<Rightarrow> mgr_state \<Rightarrow> (intercept_info option \<times> mgr_state) option" where
  "UpdateIntercept now interceptID apply_f s =
     (case icept_lookup s interceptID of
        None \<Rightarrow> Some (None, s)
      | Some cur \<Rightarrow>
          let newInfo = \<lparr>it_ref = ms_refs s, it_info = (apply_f (it_info cur))\<lparr>ii_modified_at := now\<rparr>, it_finalizers = it_finalizers cur\<rparr>;
              r = CompareAndSwap interceptEqual zero_intercept (ii_id (it_info newInfo)) cur newInfo (ms_intercepts s);
              s' = s\<lparr>ms_intercepts := snd r, ms_refs := ms_refs s + 1\<rparr>
          in if fst r then Some (Some (it_info newInfo), s') else UpdateIntercept now interceptID apply_f s')"

text \<open>The finalizer of an intercept restores the container that it may have replaced.\<close>

definition restore_updater ::
    "world \<Rightarrow> intercept_spec \<Rightarrow> workload \<Rightarrow> sidecar option \<Rightarrow> config_watcher \<Rightarrow> (string + sidecar option) \<times> config_watcher" where
  "restore_updater w spec wl osc c =
     (case osc of
        None \<Rightarrow> (Inr None, c)
      | Some sc \<Rightarrow>
          let (desiredPolicy, r) =
                (if sp_no_default_port spec
                 then (ReplacePolicyInactive, case FindContainer sc spec of Inl _ \<Rightarrow> None | Inr cn \<Rightarrow> Some cn)
                 else (ReplacePolicyIntercept, case icept_FindIntercept sc spec of Inl _ \<Rightarrow> None | Inr (cn, _) \<Rightarrow> Some cn))
          in case r of
               None \<Rightarrow> (Inr (Some sc), c)
             | Some cn \<Rightarrow>
                 if cn_Replace cn = desiredPolicy then (Inr (Some sc), c)
                 else
                   let sc' = sc\<lparr>sc_Containers := map (\<lambda>k. if k = cn then k\<lparr>cn_Replace := desiredPolicy\<rparr> else k) (sc_Containers sc)\<rparr>
                   in case EvictPodsWithAgentConfigMismatch w wl sc' c of
                        (None, c) \<Rightarrow> (Inr (Some sc'), c)
                      | (Some e, c) \<Rightarrow> (Inl e, c))"

definition restoreAppContainer :: "world \<Rightarrow> intercept_info \<Rightarrow> workload \<Rightarrow> mgr_state \<Rightarrow> mgr_state" where
  "restoreAppContainer w ii wl s =
     s\<lparr>ms_configs := snd (cw_Update (sp_agent (ii_spec ii)) (sp_namespace (ii_spec ii)) (restore_updater w (ii_spec ii) wl) (ms_configs s))\<rparr>"

definition run_finalizer :: "world \<Rightarrow> intercept_info \<Rightarrow> finalizer \<Rightarrow> mgr_state \<Rightarrow> mgr_state" where
  "run_finalizer w ii f s =
     (case f of
        RestoreApp wl \<Rightarrow> restoreAppContainer w ii wl s
      | DeleteIntercept i \<Rightarrow> s\<lparr>ms_intercepts := Delete interceptEqual zero_intercept i (ms_intercepts s)\<rparr>)"

definition terminate :: "world \<Rightarrow> intercept_state \<Rightarrow> mgr_state \<Rightarrow> mgr_state" where
  "terminate w is s = fold (run_finalizer w (it_info is)) (rev (it_finalizers is)) s"

definition RemoveIntercept :: "world \<Rightarrow> string \<Rightarrow> mgr_state \<Rightarrow> mgr_state" where
  "RemoveIntercept w interceptID s =
     (case LoadAndDelete interceptEqual zero_intercept interceptID (ms_intercepts s) of
        (Some is, m) \<Rightarrow> terminate w is (s\<lparr>ms_intercepts := m\<rparr>)
      | (None, m) \<Rightarrow> s\<lparr>ms_intercepts := m\<rparr>)"

definition range_intercepts ::
    "(string \<Rightarrow> intercept_info \<Rightarrow> mgr_state \<Rightarrow> mgr_state option) \<Rightarrow> mgr_state \<Rightarrow> mgr_state option" where
  "range_intercepts body s =
     fold_option (\<lambda>k s. case icept_lookup s k of None \<Rightarrow> Some s | Some v \<Rightarrow> body k (it_info v) s) (map fst (cm_entries (ms_intercepts s))) s"

section \<open>Removal of sessions\<close>

definition consolidate_one :: "nat \<Rightarrow> agent_session \<Rightarrow> string \<Rightarrow> intercept_info \<Rightarrow> mgr_state \<Rightarrow> mgr_state option" where
  "consolidate_one now agent interceptID cept s =
     (if ii_disposition cept = REMOVED \<or> ai_pod_ip (ag_info agent) \<noteq> ii_pod_ip cept then Some s
      else
        (case checkAgentsForIntercept cept s of (errCode, errMsg) \<Rightarrow>
           map_option snd (UpdateIntercept now interceptID
             (if errCode \<noteq> UNSPECIFIED
              then (\<lambda>i. i\<lparr>ii_pod_ip := [], ii_pod_name := [], ii_disposition := errCode, ii_message := errMsg\<rparr>)
              else (\<lambda>i. i\<lparr>ii_pod_ip := [], ii_pod_name := [], ii_disposition := WAITING\<rparr>)) s)))"

definition consolidateAgentSessionIntercepts :: "nat \<Rightarrow> agent_session \<Rightarrow> mgr_state \<Rightarrow> mgr_state option" where
  "consolidateAgentSessionIntercepts now agent = range_intercepts (consolidate_one now agent)"

definition removeAgentSession :: "nat \<Rightarrow> string \<Rightarrow> mgr_state \<Rightarrow> mgr_state option" where
  "removeAgentSession now i s =
     (case LoadAndDelete agentsEqual zero_agent i (ms_agents s) of
        (Some as, m) \<Rightarrow>
          consolidateAgentSessionIntercepts now as
            (s\<lparr>ms_agents := m, ms_configs := Inactivate now (ai_pod_uid (ag_info as)) (ms_configs s)\<rparr>)
      | (None, m) \<Rightarrow> Some (s\<lparr>ms_agents := m\<rparr>))"

text \<open>The part of an intercept's identifier after the colon goes to a finalizer; without a colon this panics.\<close>

definition gc_one :: "world \<Rightarrow> client_session \<Rightarrow> string \<Rightarrow> intercept_info \<Rightarrow> mgr_state \<Rightarrow> mgr_state option" where
  "gc_one w client interceptID cept s =
     (if ii_disposition cept = REMOVED then Some s
      else if si_session_id (ii_client_session cept) = cl_id client then
        (case index_byte (CHR '':'') interceptID of None \<Rightarrow> None | Some _ \<Rightarrow> Some (RemoveIntercept w interceptID s))
      else Some s)"

definition gcClientSessionIntercepts :: "world \<Rightarrow> client_session \<Rightarrow> mgr_state \<Rightarrow> mgr_state option" where
  "gcClientSessionIntercepts w client = range_intercepts (gc_one w client)"

definition removeClientSession :: "world \<Rightarrow> client_session \<Rightarrow> mgr_state \<Rightarrow> mgr_state option" where
  "removeClientSession w cs s =
     map_option (\<lambda>s. s\<lparr>ms_ingress := ms_ingress s + cl_FromClientBytes cs, ms_egress := ms_egress s + cl_ToClientBytes cs\<rparr>)
       (gcClientSessionIntercepts w cs (s\<lparr>ms_cancelled := cl_id cs # ms_cancelled s\<rparr>))"

definition RemoveSession :: "world \<Rightarrow> nat \<Rightarrow> string \<Rightarrow> mgr_state \<Rightarrow> mgr_state option" where
  "RemoveSession w now i s =
     (case map_of (ms_clients s) i of
        Some cs \<Rightarrow> removeClientSession w cs (s\<lparr>ms_clients := AList.delete i (ms_clients s)\<rparr>)
      | None \<Rightarrow> removeAgentSession now i s)"

text \<open>The collectors of sessions remove those that a condition holds of.\<close>

definition remove_clients :: "world \<Rightarrow> (client_session \<Rightarrow> bool) \<Rightarrow> mgr_state \<Rightarrow> mgr_state option" where
  "remove_clients w P s =
     fold_option (\<lambda>(i, cs) s. if P cs then removeClientSession w cs (s\<lparr>ms_clients := AList.delete i (ms_clients s)\<rparr>) else Some s) (ms_clients s) s"

definition remove_agents :: "nat \<Rightarrow> (agent_session \<Rightarrow> bool) \<Rightarrow> mgr_state \<Rightarrow> mgr_state option" where
  "remove_agents now P s =
     fold_option (\<lambda>(i, ag) s. if P ag then removeAgentSession now i s else Some s) (cm_entries (ms_agents s)) s"

definition expireSessions :: "world \<Rightarrow> nat \<Rightarrow> int \<Rightarrow> int \<Rightarrow> mgr_state \<Rightarrow> mgr_state option" where
  "expireSessions w now clientMoment agentMoment s =
     Option.bind (remove_clients w (\<lambda>cs. cl_timestamp cs < clientMoment) s) (remove_agents now (\<lambda>ag. ag_timestamp ag < agentMoment))"

definition pruneSessions :: "world \<Rightarrow> nat \<Rightarrow> string list \<Rightarrow> mgr_state \<Rightarrow> mgr_state option" where
  "pruneSessions w now nss s =
     Option.bind (remove_clients w (\<lambda>cs. ci_namespace (cl_info cs) \<notin> set nss) s)
       (remove_agents now (\<lambda>ag. ai_namespace (ag_info ag) \<notin> set nss))"

text \<open>One tick of the session collector: after a sleep the marks are moved by the time that was slept.\<close>

definition session_tick :: "world \<Rightarrow> int \<Rightarrow> int \<Rightarrow> int \<Rightarrow> mgr_state \<Rightarrow> mgr_state option" where
  "session_tick w clientTTL lastTick now s =
     (let tickInterval = 5000000000; diff = now - lastTick - tickInterval;
          s = (if diff > tickInterval
               then s\<lparr>ms_clients := map (\<lambda>(i, cs). (i, cs\<lparr>cl_timestamp := cl_timestamp cs + diff\<rparr>)) (ms_clients s),
                      ms_agents := (ms_agents s)\<lparr>cm_entries := map (\<lambda>(i, ag). (i, ag\<lparr>ag_timestamp := ag_timestamp ag + diff\<rparr>)) (cm_entries (ms_agents s))\<rparr>\<rparr>
               else s)
      in expireSessions w (nat now) (now - clientTTL) (now - 70000000000) s)"

section \<open>Arrival of sessions\<close>

definition addClient :: "string \<Rightarrow> client_info \<Rightarrow> int \<Rightarrow> mgr_state \<Rightarrow> mgr_state option" where
  "addClient i client now s =
     (case map_of (ms_clients s) i of
        Some _ \<Rightarrow> None
      | None \<Rightarrow> Some (s\<lparr>ms_clients := AList.update i (newClientSessionState i client now) (ms_clients s)\<rparr>))"

definition RestoreAgents :: "agent_info list \<Rightarrow> int \<Rightarrow> mgr_state \<Rightarrow> mgr_state" where
  "RestoreAgents agents now s =
     fold (\<lambda>ai s. let i = ''agent:'' @ ai_pod_uid ai in
             s\<lparr>ms_agents := snd (LoadOrCompute agentsEqual zero_agent i (newAgentSessionState i ai now) (ms_agents s))\<rparr>) agents s"

definition rearrange_one :: "nat \<Rightarrow> string \<Rightarrow> intercept_info \<Rightarrow> mgr_state \<Rightarrow> mgr_state option" where
  "rearrange_one now interceptID cept s =
     (if ii_disposition cept = REMOVED then Some s
      else
        (case checkAgentsForIntercept cept s of (errCode, errMsg) \<Rightarrow>
           if errCode \<noteq> UNSPECIFIED then
             map_option snd (UpdateIntercept now interceptID (\<lambda>i. i\<lparr>ii_disposition := errCode, ii_message := errMsg\<rparr>) s)
           else if ii_disposition cept = NO_AGENT then
             map_option snd (UpdateIntercept now interceptID (\<lambda>i. i\<lparr>ii_disposition := WAITING, ii_message := []\<rparr>) s)
           else Some s))"

definition RestoreAgent :: "nat \<Rightarrow> string \<Rightarrow> agent_info \<Rightarrow> mgr_state \<Rightarrow> (string \<times> mgr_state) option" where
  "RestoreAgent now i agent s =
     (case LoadOrStore agentsEqual zero_agent i (newAgentSessionState i agent (int now)) (ms_agents s) of
        ((_, True), m) \<Rightarrow> Some ([], s\<lparr>ms_agents := m\<rparr>)
      | ((_, False), m) \<Rightarrow> map_option (\<lambda>s. (i, s)) (range_intercepts (rearrange_one now) (s\<lparr>ms_agents := m\<rparr>)))"

definition AddAgent :: "nat \<Rightarrow> agent_info \<Rightarrow> mgr_state \<Rightarrow> ((string + string) \<times> mgr_state) option" where
  "AddAgent now agent s =
     (if IsInactive (ai_pod_uid agent) (ms_configs s) then Some (Inl ''inactivated pod'', s)
      else map_option (\<lambda>(i, s). (Inr i, s)) (RestoreAgent now (''agent:'' @ ai_pod_uid agent) agent s))"

text \<open>The channel of a session, by whether it is closed.\<close>

definition SessionDone :: "string \<Rightarrow> mgr_state \<Rightarrow> bool option" where
  "SessionDone i s =
     (if map_of (ms_clients s) i \<noteq> None \<or> agent_lookup s i \<noteq> None then Some (i \<in> set (ms_cancelled s)) else None)"

definition AddSessionConsumptionMetrics :: "string \<Rightarrow> u64 \<Rightarrow> u64 \<Rightarrow> mgr_state \<Rightarrow> mgr_state" where
  "AddSessionConsumptionMetrics i ingress egress s =
     (case map_of (ms_clients s) i of
        None \<Rightarrow> s
      | Some cs \<Rightarrow>
          s\<lparr>ms_clients := AList.update i (cs\<lparr>cl_FromClientBytes := cl_FromClientBytes cs + ingress,
                                              cl_ToClientBytes := cl_ToClientBytes cs + egress\<rparr>) (ms_clients s)\<rparr>)"

section \<open>Queries\<close>

definition IsChildIntercept :: "intercept_spec \<Rightarrow> bool" where
  "IsChildIntercept spec = has_prefix (sp_client spec) ''child ''"

definition interceptNeedsDialWatcherOnAllPods :: "intercept_spec \<Rightarrow> bool" where
  "interceptNeedsDialWatcherOnAllPods spec =
     (if IsChildIntercept spec \<or> sp_replace spec then False
      else if sp_mechanism spec = ''http'' then True
      else 0 < length (sp_header_filters spec) \<or> 0 < length (sp_path_filters spec))"

definition IsInterceptedBy :: "string \<Rightarrow> string \<Rightarrow> string \<Rightarrow> string \<Rightarrow> mgr_state \<Rightarrow> bool" where
  "IsInterceptedBy podIPStr agentName ns client s =
     list_ex (\<lambda>(i, it). let ii = it_info it in
         if si_session_id (ii_client_session ii) \<noteq> client \<or> ii_disposition ii \<noteq> ACTIVE then False
         else if sp_namespace (ii_spec ii) \<noteq> ns \<or> sp_agent (ii_spec ii) \<noteq> agentName then False
         else if ii_pod_ip ii = podIPStr then True
         else interceptNeedsDialWatcherOnAllPods (ii_spec ii)) (cm_entries (ms_intercepts s))"

definition CountActiveInterceptsForWorkload :: "string \<Rightarrow> string \<Rightarrow> mgr_state \<Rightarrow> nat" where
  "CountActiveInterceptsForWorkload name ns s =
     length (LoadMatching (\<lambda>_ it. ii_disposition (it_info it) = ACTIVE \<and> sp_agent (ii_spec (it_info it)) = name
        \<and> sp_namespace (ii_spec (it_info it)) = ns) (ms_intercepts s))"

section \<open>Well-formed states\<close>

interpretation clients: keyed_store "\<lambda>i s. map_of (ms_clients s) i" "\<lambda>cs s. s\<lparr>ms_clients := AList.update (cl_id cs) cs (ms_clients s)\<rparr>"
  "\<lambda>i s. s\<lparr>ms_clients := AList.delete i (ms_clients s)\<rparr>" cl_id
  by unfold_locales (simp_all add: update_conv' delete_conv')

definition icepts :: "mgr_state \<Rightarrow> string \<Rightarrow> (intercept_info \<times> finalizer list) option" where
  "icepts s k = map_option (\<lambda>it. (it_info it, it_finalizers it)) (icept_lookup s k)"

definition mgr_wf :: "mgr_state \<Rightarrow> bool" where
  "mgr_wf s \<longleftrightarrow>
     maps_wf (cm_entries (ms_intercepts s)) \<and> maps_wf (cm_entries (ms_agents s)) \<and> maps_wf (ms_clients s)
     \<and> (\<forall>k ii fs. icepts s k = Some (ii, fs) \<longrightarrow> ii_id ii = k \<and> CHR '':'' \<in> set k)
     \<and> (\<forall>i ag. agent_lookup s i = Some ag \<longrightarrow> ag_id ag = i)
     \<and> (\<forall>i cs. map_of (ms_clients s) i = Some cs \<longrightarrow> cl_id cs = i)"

text \<open>What a change of the intercepts alone leaves as it is.\<close>

definition same_frame :: "mgr_state \<Rightarrow> mgr_state \<Rightarrow> bool" where
  "same_frame s s' \<longleftrightarrow>
     ms_agents s' = ms_agents s \<and> ms_clients s' = ms_clients s \<and> ms_configs s' = ms_configs s \<and> ms_ingress s' = ms_ingress s
     \<and> ms_egress s' = ms_egress s \<and> ms_cancelled s' = ms_cancelled s"

lemma same_frame_refl [simp]: "same_frame s s"
  by (simp add: same_frame_def)

lemma same_frame_trans: "same_frame a b \<Longrightarrow> same_frame b c \<Longrightarrow> same_frame a c"
  by (simp add: same_frame_def)

lemma check_frame: "same_frame s s' \<Longrightarrow> checkAgentsForIntercept ii s' = checkAgentsForIntercept ii s"
  by (simp add: checkAgentsForIntercept_def EachAgent_def same_frame_def)

lemma icepts_wf: "mgr_wf s \<Longrightarrow> icepts s k = Some (ii, fs) \<Longrightarrow> ii_id ii = k"
  by (simp add: mgr_wf_def)

section \<open>Maps of the state\<close>

lemma entries_Compute_update:
  assumes "map_of (cm_entries m) k = Some cur" and "f cur True = (new, UpdateOp)"
  shows "cm_entries (Compute equal zero k f m) = (if equal new cur then cm_entries m else AList.update k new (cm_entries m))"
  using assms by (simp add: Compute_def markSubscribers_def)

lemma CompareAndSwap_hits:
  assumes "map_of (cm_entries m) k = Some cur" and "equal cur cur"
  shows "fst (CompareAndSwap equal zero k cur new m)"
    and "cm_entries (snd (CompareAndSwap equal zero k cur new m)) = (if equal new cur then cm_entries m else AList.update k new (cm_entries m))"
  using assms entries_Compute_update [OF assms(1)] by (simp_all add: CompareAndSwap_def)

lemma LoadOrStore_fresh:
  assumes "map_of (cm_entries m) k = None"
  shows "fst (LoadOrStore equal zero k v m) = (v, False)" "cm_entries (snd (LoadOrStore equal zero k v m)) = cm_entries m @ [(k, v)]"
proof -
  have "AList.update k v (cm_entries m) = cm_entries m @ [(k, v)]"
    by (rule update_fresh) (use assms in \<open>simp add: map_of_eq_None_iff\<close>)
  then show "fst (LoadOrStore equal zero k v m) = (v, False)" "cm_entries (snd (LoadOrStore equal zero k v m)) = cm_entries m @ [(k, v)]"
    using assms by (simp_all add: LoadOrStore_def Compute_def markSubscribers_def)
qed

lemma entries_delete:
  "cm_entries (Compute equal zero k (\<lambda>v l. (v, if l then DeleteOp else CancelOp)) m) = AList.delete k (cm_entries m)"
  by (auto simp: Compute_def markSubscribers_def delete_id map_of_eq_None_iff split: option.splits)

lemma LoadAndDelete_result:
  "fst (LoadAndDelete equal zero k m) = map_of (cm_entries m) k"
  "cm_entries (snd (LoadAndDelete equal zero k m)) = AList.delete k (cm_entries m)"
  by (simp_all add: LoadAndDelete_def entries_delete)

lemma entries_Delete: "cm_entries (Delete equal zero k m) = AList.delete k (cm_entries m)"
  by (simp add: Delete_def entries_delete)

text \<open>An update of an intercept under its own identifier swaps at the first attempt.\<close>

lemma UpdateIntercept_returns:
  assumes "mgr_wf s" and "icepts s i = Some (ii, fs)" and "\<And>x. ii_id (f x) = ii_id x"
  obtains s' where "UpdateIntercept now i f s = Some (Some ((f ii)\<lparr>ii_modified_at := now\<rparr>), s')" and "same_frame s s'" and "mgr_wf s'"
    and "\<And>k. icepts s' k = (if k = i then Some ((f ii)\<lparr>ii_modified_at := now\<rparr>, fs) else icepts s k)"
    and "map fst (cm_entries (ms_intercepts s')) = map fst (cm_entries (ms_intercepts s))"
proof -
  from assms(2) obtain cur where cur: "icept_lookup s i = Some cur" "it_info cur = ii" "it_finalizers cur = fs"
    by (auto simp: icepts_def)
  have ident: "ii_id ii = i" by (rule icepts_wf [OF assms(1,2)])
  define new where "new = \<lparr>it_ref = ms_refs s, it_info = (f ii)\<lparr>ii_modified_at := now\<rparr>, it_finalizers = fs\<rparr>"
  have nid: "ii_id (it_info new) = i" using assms(3) ident by (simp add: new_def)
  define r where "r = CompareAndSwap interceptEqual zero_intercept i cur new (ms_intercepts s)"
  have r: "fst r" "cm_entries (snd r) = (if interceptEqual new cur then cm_entries (ms_intercepts s) else AList.update i new (cm_entries (ms_intercepts s)))"
    unfolding r_def by (rule CompareAndSwap_hits [OF cur(1)], simp add: interceptEqual_def)+
  let ?s = "s\<lparr>ms_intercepts := snd r, ms_refs := ms_refs s + 1\<rparr>"
  have u: "UpdateIntercept now i f s = Some (Some (it_info new), ?s)"
    using cur r(1) nid by (subst UpdateIntercept.simps) (simp add: Let_def new_def [symmetric] r_def [symmetric])
  have look: "map_option (\<lambda>it. (it_info it, it_finalizers it)) (map_of (cm_entries (snd r)) k) = (if k = i then Some (it_info new, fs) else icepts s k)" for k
    using cur by (auto simp: r(2) icepts_def interceptEqual_def new_def)
  have ki: "i \<in> fst ` set (cm_entries (ms_intercepts s))"
    using map_of_SomeD [OF cur(1)] by force
  have keys: "map fst (cm_entries (snd r)) = map fst (cm_entries (ms_intercepts s))"
    using ki by (simp add: r(2) update_keys image_iff)
  have look': "icepts ?s k = (if k = i then Some (it_info new, fs) else icepts s k)" for k
    using look by (simp add: icepts_def)
  have "CHR '':'' \<in> set i" using assms(1,2) by (simp add: mgr_wf_def)
  then have wf: "mgr_wf ?s"
    using assms(1) nid keys unfolding mgr_wf_def look' maps_wf_def by simp
  show thesis
    by (rule that [of ?s]) (use u wf look' keys in \<open>simp_all add: new_def same_frame_def\<close>)
qed

lemma UpdateIntercept_step:
  assumes "mgr_wf s" and "icepts s i = Some (ii, fs)" and "\<And>x. ii_id (f x) = ii_id x" and "g = (f ii)\<lparr>ii_modified_at := now\<rparr>"
  shows "\<exists>s'. map_option snd (UpdateIntercept now i f s) = Some s' \<and> same_frame s s' \<and> mgr_wf s'
    \<and> (\<forall>k. icepts s' k = (if k = i then Some (g, fs) else icepts s k))"
  by (rule UpdateIntercept_returns [OF assms(1-3), of now]) (use assms(4) in auto)

section \<open>Visiting all intercepts\<close>

text \<open>
  A visitor that changes the visited intercept only, by a function of it and of what stays as it is,
  changes all intercepts by this function.
\<close>

definition pointwise :: "mgr_state \<Rightarrow> (intercept_info \<Rightarrow> intercept_info) \<Rightarrow> (string \<Rightarrow> intercept_info \<Rightarrow> mgr_state \<Rightarrow> mgr_state option) \<Rightarrow> bool" where
  "pointwise s g body \<longleftrightarrow>
     (\<forall>k ii fs s1. same_frame s s1 \<and> mgr_wf s1 \<and> icepts s1 k = Some (ii, fs) \<longrightarrow>
        (\<exists>s2. body k ii s1 = Some s2 \<and> same_frame s1 s2 \<and> mgr_wf s2
          \<and> (\<forall>j. icepts s2 j = (if j = k then Some (g ii, fs) else icepts s1 j))))"

lemma visit_pointwise:
  assumes "pointwise s g body" and "same_frame s s1" and "mgr_wf s1" and "distinct ks"
  shows "\<exists>s2. fold_option (\<lambda>k s. case icept_lookup s k of None \<Rightarrow> Some s | Some v \<Rightarrow> body k (it_info v) s) ks s1 = Some s2
    \<and> same_frame s s2 \<and> mgr_wf s2
    \<and> (\<forall>j. icepts s2 j = (if j \<in> set ks then map_option (\<lambda>(ii, fs). (g ii, fs)) (icepts s1 j) else icepts s1 j))"
  using assms(2-4)
proof (induction ks arbitrary: s1)
  case (Cons k ks)
  show ?case
  proof (cases "icept_lookup s1 k")
    case None
    then have "icepts s1 k = None" by (simp add: icepts_def)
    with None Cons.IH [OF Cons.prems(1,2)] Cons.prems(3) show ?thesis by auto
  next
    case (Some v)
    then have v: "icepts s1 k = Some (it_info v, it_finalizers v)" by (simp add: icepts_def)
    with assms(1) Cons.prems obtain s2 where b: "body k (it_info v) s1 = Some s2" "same_frame s1 s2" "mgr_wf s2"
      "\<And>j. icepts s2 j = (if j = k then Some (g (it_info v), it_finalizers v) else icepts s1 j)"
      unfolding pointwise_def by blast
    from Cons.IH [OF same_frame_trans [OF Cons.prems(1) b(2)] b(3)] Cons.prems(3) b v Some show ?thesis by auto
  qed
qed simp

lemma range_pointwise:
  assumes "pointwise s g body" and "mgr_wf s"
  shows "\<exists>s'. range_intercepts body s = Some s' \<and> same_frame s s' \<and> mgr_wf s'
    \<and> (\<forall>k. icepts s' k = map_option (\<lambda>(ii, fs). (g ii, fs)) (icepts s k))"
proof -
  have "distinct (map fst (cm_entries (ms_intercepts s)))" using assms(2) by (simp add: mgr_wf_def maps_wf_def)
  from visit_pointwise [OF assms(1) same_frame_refl assms(2) this] obtain s' where
    r: "range_intercepts body s = Some s'" "same_frame s s'" "mgr_wf s'"
      "\<And>j. icepts s' j = (if j \<in> set (map fst (cm_entries (ms_intercepts s))) then map_option (\<lambda>(ii, fs). (g ii, fs)) (icepts s j) else icepts s j)"
    unfolding range_intercepts_def by blast
  have "icepts s j = None" if "j \<notin> set (map fst (cm_entries (ms_intercepts s)))" for j
    using that by (simp add: icepts_def map_of_eq_None_iff)
  with r show ?thesis by auto
qed

section \<open>Agents that leave and arrive\<close>

text \<open>What the loss of the agent with the given address makes of an intercept, with the remaining agents of the state.\<close>

definition released :: "nat \<Rightarrow> string \<Rightarrow> mgr_state \<Rightarrow> intercept_info \<Rightarrow> intercept_info" where
  "released now ip s ii =
     (if ii_disposition ii = REMOVED \<or> ip \<noteq> ii_pod_ip ii then ii
      else
        (case checkAgentsForIntercept ii s of (c, m) \<Rightarrow>
           (if c \<noteq> UNSPECIFIED then ii\<lparr>ii_pod_ip := [], ii_pod_name := [], ii_disposition := c, ii_message := m\<rparr>
            else ii\<lparr>ii_pod_ip := [], ii_pod_name := [], ii_disposition := WAITING\<rparr>)\<lparr>ii_modified_at := now\<rparr>))"

lemma consolidate_pointwise: "pointwise s (released now (ai_pod_ip (ag_info ag)) s) (consolidate_one now ag)"
  unfolding pointwise_def
proof (intro allI impI, elim conjE)
  fix k ii fs s1
  assume a: "same_frame s s1" "mgr_wf s1" "icepts s1 k = Some (ii, fs)"
  let ?ip = "ai_pod_ip (ag_info ag)"
  obtain c m where c: "checkAgentsForIntercept ii s = (c, m)" by fastforce
  show "\<exists>s2. consolidate_one now ag k ii s1 = Some s2 \<and> same_frame s1 s2 \<and> mgr_wf s2
      \<and> (\<forall>j. icepts s2 j = (if j = k then Some (released now ?ip s ii, fs) else icepts s1 j))"
  proof (cases "ii_disposition ii = REMOVED \<or> ?ip \<noteq> ii_pod_ip ii")
    case True
    with a show ?thesis by (auto simp: consolidate_one_def released_def)
  next
    case False
    let ?f = "if c \<noteq> UNSPECIFIED then (\<lambda>i. i\<lparr>ii_pod_ip := [], ii_pod_name := [], ii_disposition := c, ii_message := m\<rparr>)
      else (\<lambda>i. i\<lparr>ii_pod_ip := [], ii_pod_name := [], ii_disposition := WAITING\<rparr>)"
    have b: "consolidate_one now ag k ii s1 = map_option snd (UpdateIntercept now k ?f s1)"
      using False by (simp add: consolidate_one_def check_frame [OF a(1)] c)
    have "ii_id (?f x) = ii_id x" for x by simp
    moreover have "released now ?ip s ii = (?f ii)\<lparr>ii_modified_at := now\<rparr>" using False c by (simp add: released_def)
    ultimately show ?thesis unfolding b by (rule UpdateIntercept_step [OF a(2,3)])
  qed
qed

definition rearranged :: "nat \<Rightarrow> mgr_state \<Rightarrow> intercept_info \<Rightarrow> intercept_info" where
  "rearranged now s ii =
     (case checkAgentsForIntercept ii s of (c, m) \<Rightarrow>
        if ii_disposition ii = REMOVED then ii
        else if c \<noteq> UNSPECIFIED then ii\<lparr>ii_disposition := c, ii_message := m, ii_modified_at := now\<rparr>
        else if ii_disposition ii = NO_AGENT then ii\<lparr>ii_disposition := WAITING, ii_message := [], ii_modified_at := now\<rparr>
        else ii)"

lemma rearrange_pointwise: "pointwise s (rearranged now s) (rearrange_one now)"
  unfolding pointwise_def
proof (intro allI impI, elim conjE)
  fix k ii fs s1
  assume a: "same_frame s s1" "mgr_wf s1" "icepts s1 k = Some (ii, fs)"
  obtain c m where c: "checkAgentsForIntercept ii s = (c, m)" by fastforce
  have c1: "checkAgentsForIntercept ii s1 = (c, m)" using c check_frame [OF a(1)] by simp
  let ?g = "rearranged now s ii"
  let ?T = "\<exists>s2. rearrange_one now k ii s1 = Some s2 \<and> same_frame s1 s2 \<and> mgr_wf s2
      \<and> (\<forall>j. icepts s2 j = (if j = k then Some (?g, fs) else icepts s1 j))"
  have keep: ?T if "rearrange_one now k ii s1 = Some s1" "?g = ii" using that a by auto
  have change: ?T if "rearrange_one now k ii s1 = map_option snd (UpdateIntercept now k f s1)" "\<And>x. ii_id (f x) = ii_id x"
      "?g = (f ii)\<lparr>ii_modified_at := now\<rparr>" for f
    using UpdateIntercept_step [OF a(2,3) that(2,3)] unfolding that(1) .
  show ?T
  proof (cases "ii_disposition ii = REMOVED \<or> c = UNSPECIFIED \<and> ii_disposition ii \<noteq> NO_AGENT")
    case True
    then show ?T by (intro keep) (auto simp: rearrange_one_def rearranged_def c c1)
  next
    case False
    let ?f = "if c \<noteq> UNSPECIFIED then (\<lambda>i. i\<lparr>ii_disposition := c, ii_message := m\<rparr>) else (\<lambda>i. i\<lparr>ii_disposition := WAITING, ii_message := []\<rparr>)"
    from False show ?T by (intro change [of ?f]) (auto simp: rearrange_one_def rearranged_def c c1)
  qed
qed

lemma mgr_wf_agents:
  "mgr_wf s \<Longrightarrow> maps_wf (cm_entries m) \<Longrightarrow> (\<And>i ag. map_of (cm_entries m) i = Some ag \<Longrightarrow> ag_id ag = i) \<Longrightarrow>
   mgr_wf (s\<lparr>ms_agents := m, ms_configs := c\<rparr>)"
  by (simp add: mgr_wf_def icepts_def)

lemma mgr_wf_agents_only:
  "mgr_wf s \<Longrightarrow> maps_wf (cm_entries m) \<Longrightarrow> (\<And>i ag. map_of (cm_entries m) i = Some ag \<Longrightarrow> ag_id ag = i) \<Longrightarrow>
   mgr_wf (s\<lparr>ms_agents := m\<rparr>)"
  by (simp add: mgr_wf_def icepts_def)

lemma mgr_wf_agent_id: "mgr_wf s \<Longrightarrow> agent_lookup s i = Some ag \<Longrightarrow> ag_id ag = i"
  by (simp only: mgr_wf_def)

lemma icepts_agents [simp]: "icepts (s\<lparr>ms_agents := m\<rparr>) = icepts s" "icepts (s\<lparr>ms_configs := c\<rparr>) = icepts s"
  by (simp_all add: icepts_def fun_eq_iff)

lemma removeAgentSession_result:
  fixes now :: nat
  assumes "mgr_wf s" and "agent_lookup s i = Some ag"
  defines "s1 \<equiv> s\<lparr>ms_agents := snd (LoadAndDelete agentsEqual zero_agent i (ms_agents s)),
      ms_configs := Inactivate now (ai_pod_uid (ag_info ag)) (ms_configs s)\<rparr>"
  shows "\<exists>s'. removeAgentSession now i s = Some s' \<and> same_frame s1 s' \<and> mgr_wf s'
    \<and> (\<forall>k. icepts s' k = map_option (\<lambda>(ii, fs). (released now (ai_pod_ip (ag_info ag)) s1 ii, fs)) (icepts s k))"
proof -
  have "mgr_wf s1"
    unfolding s1_def using assms(1) mgr_wf_agent_id [OF assms(1)]
    by (intro mgr_wf_agents) (auto simp: LoadAndDelete_result maps_wf_def mgr_wf_def distinct_delete delete_conv' split: if_splits)
  from range_pointwise [OF consolidate_pointwise this, of now ag] obtain s' where
    "consolidateAgentSessionIntercepts now ag s1 = Some s'" "same_frame s1 s'" "mgr_wf s'"
    "\<And>k. icepts s' k = map_option (\<lambda>(ii, fs). (released now (ai_pod_ip (ag_info ag)) s1 ii, fs)) (icepts s1 k)"
    unfolding consolidateAgentSessionIntercepts_def by blast
  moreover have "removeAgentSession now i s = consolidateAgentSessionIntercepts now ag s1"
    using assms(2) by (simp add: removeAgentSession_def s1_def LoadAndDelete_def)
  moreover have "icepts s1 = icepts s" by (simp add: s1_def)
  ultimately show ?thesis by auto
qed

lemma RestoreAgent_result:
  fixes now :: nat and ai :: agent_info
  assumes "mgr_wf s" and "agent_lookup s i = None"
  defines "s1 \<equiv> s\<lparr>ms_agents := snd (LoadOrStore agentsEqual zero_agent i (newAgentSessionState i ai (int now)) (ms_agents s))\<rparr>"
  shows "\<exists>s'. RestoreAgent now i ai s = Some (i, s') \<and> same_frame s1 s' \<and> mgr_wf s'
    \<and> (\<forall>k. icepts s' k = map_option (\<lambda>(ii, fs). (rearranged now s1 ii, fs)) (icepts s k))
    \<and> cm_entries (ms_agents s') = cm_entries (ms_agents s) @ [(i, newAgentSessionState i ai (int now))]"
proof -
  let ?m = "snd (LoadOrStore agentsEqual zero_agent i (newAgentSessionState i ai (int now)) (ms_agents s))"
  have m: "cm_entries ?m = cm_entries (ms_agents s) @ [(i, newAgentSessionState i ai (int now))]"
    by (rule LoadOrStore_fresh(2) [OF assms(2)])
  have "maps_wf (cm_entries ?m)"
    using assms(1,2) unfolding m by (auto simp: mgr_wf_def maps_wf_def map_of_eq_None_iff)
  moreover have "ag_id ag = j" if "map_of (cm_entries ?m) j = Some ag" for j ag
    using that mgr_wf_agent_id [OF assms(1), of j ag] unfolding m by (auto simp: newAgentSessionState_def split: option.splits if_splits)
  ultimately have "mgr_wf s1" unfolding s1_def by (intro mgr_wf_agents_only [OF assms(1)])
  from range_pointwise [OF rearrange_pointwise this, of now] obtain s' where
    "range_intercepts (rearrange_one now) s1 = Some s'" "same_frame s1 s'" "mgr_wf s'"
    "\<And>k. icepts s' k = map_option (\<lambda>(ii, fs). (rearranged now s1 ii, fs)) (icepts s1 k)" by blast
  moreover have "RestoreAgent now i ai s = map_option (\<lambda>s. (i, s)) (range_intercepts (rearrange_one now) s1)"
    using assms(2) by (simp add: RestoreAgent_def s1_def LoadOrStore_def)
  moreover have "icepts s1 = icepts s" "ms_agents s1 = ?m" by (simp_all add: s1_def)
  ultimately show ?thesis using m by (auto simp: same_frame_def)
qed

section \<open>Clients that leave\<close>

text \<open>
  The part of an identifier before the first colon is the session that the intercept belongs to. The
  finalizers of an intercept only delete intercepts of the same session.
\<close>

definition session_of :: "string \<Rightarrow> string" where
  "session_of k = takeWhile ((\<noteq>) (CHR '':'')) k"

definition owned :: "mgr_state \<Rightarrow> bool" where
  "owned s \<longleftrightarrow> (\<forall>k ii fs. icepts s k = Some (ii, fs) \<longrightarrow> si_session_id (ii_client_session ii) = session_of k
     \<and> (\<forall>i. DeleteIntercept i \<in> set fs \<longrightarrow> session_of i = session_of k))"

text \<open>What the removal of intercepts of one session leaves as it is.\<close>

definition drops :: "string \<Rightarrow> mgr_state \<Rightarrow> mgr_state \<Rightarrow> bool" where
  "drops sid s s' \<longleftrightarrow>
     ms_agents s' = ms_agents s \<and> ms_clients s' = ms_clients s \<and> ms_ingress s' = ms_ingress s \<and> ms_egress s' = ms_egress s
     \<and> ms_cancelled s' = ms_cancelled s \<and> maps_wf (cm_entries (ms_intercepts s'))
     \<and> (\<forall>k. icepts s' k = icepts s k \<or> session_of k = sid \<and> icepts s' k = None)"

lemma drops_refl: "mgr_wf s \<Longrightarrow> drops sid s s"
  by (simp add: drops_def mgr_wf_def)

lemma drops_trans:
  assumes "drops sid a b" and "drops sid b c"
  shows "drops sid a c"
proof -
  have "icepts c k = icepts a k \<or> session_of k = sid \<and> icepts c k = None" for k
    using assms by (cases "icepts c k = icepts b k") (auto simp: drops_def)
  with assms show ?thesis by (simp add: drops_def)
qed

lemma drops_Some:
  assumes "drops sid s s'" and "icepts s' k = Some x"
  shows "icepts s k = Some x"
proof -
  have "icepts s' k = icepts s k \<or> session_of k = sid \<and> icepts s' k = None" using assms(1) by (simp add: drops_def)
  with assms(2) show ?thesis by auto
qed

lemma drops_wf:
  assumes "drops sid s s'" and "mgr_wf s"
  shows "mgr_wf s'"
proof -
  have "ii_id ii = k \<and> CHR '':'' \<in> set k" if "icepts s' k = Some (ii, fs)" for k ii fs
    using drops_Some [OF assms(1) that] assms(2) by (simp add: mgr_wf_def)
  moreover have "ms_agents s' = ms_agents s" "ms_clients s' = ms_clients s" "maps_wf (cm_entries (ms_intercepts s'))"
    using assms(1) by (simp_all add: drops_def)
  ultimately show ?thesis using assms(2) unfolding mgr_wf_def by auto
qed

lemma drops_owned: "drops sid s s' \<Longrightarrow> owned s \<Longrightarrow> owned s'"
  unfolding owned_def using drops_Some by blast

lemma drop_key:
  assumes "mgr_wf s" and "cm_entries m = AList.delete k (cm_entries (ms_intercepts s))" and "session_of k = sid"
  shows "drops sid s (s\<lparr>ms_intercepts := m\<rparr>)" "icepts (s\<lparr>ms_intercepts := m\<rparr>) k = None"
  using assms by (auto simp: drops_def icepts_def mgr_wf_def maps_wf_def distinct_delete delete_conv')

lemma run_finalizer_drops:
  assumes "mgr_wf s" and "\<And>i. f = DeleteIntercept i \<Longrightarrow> session_of i = sid"
  shows "drops sid s (run_finalizer w ii f s)"
proof (cases f)
  case (RestoreApp wl)
  with assms(1) show ?thesis by (simp add: run_finalizer_def restoreAppContainer_def drops_def mgr_wf_def)
next
  case (DeleteIntercept i)
  with drop_key(1) [where k = i and sid = sid, OF assms(1) entries_Delete] assms(2) show ?thesis by (simp add: run_finalizer_def)
qed

lemma run_finalizers_drop:
  assumes "mgr_wf s" and "\<And>i. DeleteIntercept i \<in> set fs \<Longrightarrow> session_of i = sid"
  shows "drops sid s (fold (run_finalizer w ii) fs s)"
  using assms
proof (induction fs arbitrary: s)
  case (Cons f fs)
  have d: "drops sid s (run_finalizer w ii f s)" by (rule run_finalizer_drops) (use Cons.prems in auto)
  from Cons.IH [OF drops_wf [OF d Cons.prems(1)]] Cons.prems(2) drops_trans [OF d] show ?case by simp
qed (simp add: drops_refl)

lemma RemoveIntercept_drops:
  assumes "mgr_wf s" and "owned s"
  shows "drops (session_of k) s (RemoveIntercept w k s)" and "icepts (RemoveIntercept w k s) k = None"
proof -
  let ?m = "snd (LoadAndDelete interceptEqual zero_intercept k (ms_intercepts s))"
  let ?s = "s\<lparr>ms_intercepts := ?m\<rparr>"
  note d = drop_key [where m = ?m and k = k, OF assms(1) LoadAndDelete_result(2) refl]
  have r: "RemoveIntercept w k s = (case icept_lookup s k of None \<Rightarrow> ?s | Some it \<Rightarrow> terminate w it ?s)"
    by (simp add: RemoveIntercept_def LoadAndDelete_def split: option.split)
  have t: "drops (session_of k) ?s (terminate w it ?s)" if "icept_lookup s k = Some it" for it
    unfolding terminate_def using assms(2) that
    by (intro run_finalizers_drop drops_wf [OF d(1) assms(1)]) (auto simp: owned_def icepts_def)
  show "drops (session_of k) s (RemoveIntercept w k s)"
    using d(1) drops_trans [OF d(1) t] by (auto simp: r split: option.split)
  show "icepts (RemoveIntercept w k s) k = None"
  proof (cases "icept_lookup s k")
    case (Some it)
    from drops_Some [OF t [OF Some]] d(2) show ?thesis unfolding r Some option.case by (metis not_Some_eq)
  qed (simp add: r d(2))
qed

lemma gc_visit:
  assumes "mgr_wf s" and "owned s"
  shows "\<exists>s'. fold_option (\<lambda>k s. case icept_lookup s k of None \<Rightarrow> Some s | Some v \<Rightarrow> gc_one w cs k (it_info v) s) ks s = Some s'
    \<and> drops (cl_id cs) s s'
    \<and> (\<forall>k\<in>set ks. \<forall>ii fs. icepts s' k = Some (ii, fs) \<longrightarrow> ii_disposition ii = REMOVED \<or> si_session_id (ii_client_session ii) \<noteq> cl_id cs)"
  using assms
proof (induction ks arbitrary: s)
  case (Cons k ks)
  let ?left = "\<lambda>s k. \<forall>ii fs. icepts s k = Some (ii, fs) \<longrightarrow> ii_disposition ii = REMOVED \<or> si_session_id (ii_client_session ii) \<noteq> cl_id cs"
  obtain s1 where s1: "(case icept_lookup s k of None \<Rightarrow> Some s | Some v \<Rightarrow> gc_one w cs k (it_info v) s) = Some s1"
    "drops (cl_id cs) s s1" "?left s1 k"
  proof (cases "icept_lookup s k")
    case None
    with that [of s] drops_refl [OF Cons.prems(1)] show ?thesis by (simp add: icepts_def)
  next
    case (Some v)
    let ?ii = "it_info v"
    have v: "icepts s k = Some (?ii, it_finalizers v)" using Some by (simp add: icepts_def)
    show ?thesis
    proof (cases "ii_disposition ?ii = REMOVED \<or> si_session_id (ii_client_session ?ii) \<noteq> cl_id cs")
      case True
      with that [of s] drops_refl [OF Cons.prems(1)] Some v show ?thesis by (auto simp: gc_one_def)
    next
      case False
      have "CHR '':'' \<in> set k" using Cons.prems(1) v by (simp add: mgr_wf_def)
      then obtain n where "index_byte (CHR '':'') k = Some n" by (cases "index_byte (CHR '':'') k") auto
      moreover have "session_of k = cl_id cs" using Cons.prems(2) v False by (simp add: owned_def)
      ultimately show ?thesis
        using that [of "RemoveIntercept w k s"] RemoveIntercept_drops [OF Cons.prems, where k = k and w = w] Some False by (auto simp: gc_one_def)
    qed
  qed
  from Cons.IH [OF drops_wf [OF s1(2) Cons.prems(1)] drops_owned [OF s1(2) Cons.prems(2)]] obtain s2 where
    s2: "fold_option (\<lambda>k s. case icept_lookup s k of None \<Rightarrow> Some s | Some v \<Rightarrow> gc_one w cs k (it_info v) s) ks s1 = Some s2"
      "drops (cl_id cs) s1 s2" "\<forall>k\<in>set ks. ?left s2 k" by blast
  have "icepts s2 k = icepts s1 k \<or> icepts s2 k = None" using s2(2) by (auto simp: drops_def)
  with s1(3) have "?left s2 k" by auto
  with s1 s2 drops_trans [OF s1(2) s2(2)] show ?case by auto
qed (simp add: drops_refl)

text \<open>No intercept of the session is left, other than those that were marked as removed before.\<close>

definition session_gone :: "string \<Rightarrow> mgr_state \<Rightarrow> bool" where
  "session_gone sid s \<longleftrightarrow> (\<forall>k ii fs. icepts s k = Some (ii, fs) \<longrightarrow> ii_disposition ii = REMOVED \<or> si_session_id (ii_client_session ii) \<noteq> sid)"

lemma drops_gone: "drops sid' s s' \<Longrightarrow> session_gone sid s \<Longrightarrow> session_gone sid s'"
  unfolding session_gone_def using drops_Some by blast

lemma icepts_frame [simp]:
  "icepts (s\<lparr>ms_ingress := a, ms_egress := b\<rparr>) = icepts s" "icepts (s\<lparr>ms_cancelled := c\<rparr>) = icepts s" "icepts (s\<lparr>ms_clients := d\<rparr>) = icepts s"
  by (simp_all add: icepts_def fun_eq_iff)

lemma gcClientSessionIntercepts_result:
  assumes "mgr_wf s" and "owned s"
  shows "\<exists>s'. gcClientSessionIntercepts w cs s = Some s' \<and> drops (cl_id cs) s s' \<and> session_gone (cl_id cs) s'"
proof -
  from gc_visit [OF assms, of w cs "map fst (cm_entries (ms_intercepts s))"] obtain s' where
    r: "gcClientSessionIntercepts w cs s = Some s'" "drops (cl_id cs) s s'"
      "\<And>k ii fs. k \<in> set (map fst (cm_entries (ms_intercepts s))) \<Longrightarrow> icepts s' k = Some (ii, fs) \<Longrightarrow>
         ii_disposition ii = REMOVED \<or> si_session_id (ii_client_session ii) \<noteq> cl_id cs"
    unfolding gcClientSessionIntercepts_def range_intercepts_def by blast
  have "k \<in> set (map fst (cm_entries (ms_intercepts s)))" if "icepts s' k = Some x" for k x
    using drops_Some [OF r(2) that] by (force simp: icepts_def dest: map_of_SomeD)
  with r show ?thesis unfolding session_gone_def by blast
qed

lemma removeClientSession_result:
  assumes "mgr_wf s" and "owned s"
  shows "\<exists>s'. removeClientSession w cs s = Some s' \<and> mgr_wf s' \<and> owned s' \<and> session_gone (cl_id cs) s'
    \<and> (\<forall>k. icepts s' k = icepts s k \<or> session_of k = cl_id cs \<and> icepts s' k = None)
    \<and> ms_agents s' = ms_agents s \<and> ms_clients s' = ms_clients s \<and> ms_cancelled s' = cl_id cs # ms_cancelled s
    \<and> ms_ingress s' = ms_ingress s + cl_FromClientBytes cs \<and> ms_egress s' = ms_egress s + cl_ToClientBytes cs"
proof -
  let ?s = "s\<lparr>ms_cancelled := cl_id cs # ms_cancelled s\<rparr>"
  have ok: "mgr_wf ?s" "owned ?s" using assms by (simp_all add: mgr_wf_def owned_def)
  from gcClientSessionIntercepts_result [OF ok] obtain s1 where
    1: "gcClientSessionIntercepts w cs ?s = Some s1" "drops (cl_id cs) ?s s1" "session_gone (cl_id cs) s1" by blast
  let ?s2 = "s1\<lparr>ms_ingress := ms_ingress s1 + cl_FromClientBytes cs, ms_egress := ms_egress s1 + cl_ToClientBytes cs\<rparr>"
  have "mgr_wf ?s2" "owned ?s2" "session_gone (cl_id cs) ?s2"
    using drops_wf [OF 1(2) ok(1)] drops_owned [OF 1(2) ok(2)] 1(3) by (simp_all add: mgr_wf_def owned_def session_gone_def)
  moreover have "removeClientSession w cs s = Some ?s2" by (simp add: removeClientSession_def 1(1))
  moreover have "icepts ?s2 k = icepts s k \<or> session_of k = cl_id cs \<and> icepts ?s2 k = None" for k
    using 1(2) by (auto simp: drops_def)
  ultimately show ?thesis using 1(2) by (intro exI [of _ ?s2]) (simp add: drops_def)
qed

lemma mgr_wf_clients:
  "mgr_wf s \<Longrightarrow> maps_wf cs \<Longrightarrow> (\<And>i c. map_of cs i = Some c \<Longrightarrow> cl_id c = i) \<Longrightarrow> mgr_wf (s\<lparr>ms_clients := cs\<rparr>)"
  by (simp add: mgr_wf_def)

lemma mgr_wf_client_id: "mgr_wf s \<Longrightarrow> map_of (ms_clients s) i = Some c \<Longrightarrow> cl_id c = i"
  by (simp only: mgr_wf_def)

lemma drop_client_wf:
  assumes "mgr_wf s" and "owned s"
  shows "mgr_wf (s\<lparr>ms_clients := AList.delete i (ms_clients s)\<rparr>)" "owned (s\<lparr>ms_clients := AList.delete i (ms_clients s)\<rparr>)"
proof -
  have "clients.keyed s" using mgr_wf_client_id [OF assms(1)] by (simp add: clients.keyed_def)
  from clients.keyed_key [OF clients.keyed_del [OF this, of i]]
  have "cl_id c = j" if "map_of (AList.delete i (ms_clients s)) j = Some c" for j c using that by simp
  then show "mgr_wf (s\<lparr>ms_clients := AList.delete i (ms_clients s)\<rparr>)"
    using assms(1) by (intro mgr_wf_clients) (simp_all add: mgr_wf_def maps_wf_def distinct_delete)
  show "owned (s\<lparr>ms_clients := AList.delete i (ms_clients s)\<rparr>)" using assms(2) by (simp add: owned_def)
qed

lemma addClient_wf:
  assumes "mgr_wf s" and "owned s" and "addClient i ci now s = Some s'"
  shows "mgr_wf s'" "owned s'"
proof -
  let ?cs = "newClientSessionState i ci now"
  have s': "s' = s\<lparr>ms_clients := AList.update i ?cs (ms_clients s)\<rparr>"
    using assms(3) by (simp add: addClient_def split: option.splits)
  have i: "cl_id ?cs = i" by (simp add: newClientSessionState_def)
  have "clients.keyed s" using mgr_wf_client_id [OF assms(1)] by (simp add: clients.keyed_def)
  from clients.keyed_key [OF clients.keyed_put [OF this, of ?cs]]
  have "cl_id c = j" if "map_of (AList.update i ?cs (ms_clients s)) j = Some c" for j c using that i by simp
  then show "mgr_wf s'"
    unfolding s' using assms(1) by (intro mgr_wf_clients) (simp_all add: mgr_wf_def maps_wf_def distinct_update)
  show "owned s'" unfolding s' using assms(2) by (simp add: owned_def)
qed

lemma remove_clients_visit:
  assumes "mgr_wf s" and "owned s" and "\<And>i cs. (i, cs) \<in> set ps \<Longrightarrow> cl_id cs = i"
  shows "\<exists>s'. fold_option (\<lambda>(i, cs) s. if P cs then removeClientSession w cs (s\<lparr>ms_clients := AList.delete i (ms_clients s)\<rparr>) else Some s) ps s = Some s'
    \<and> mgr_wf s' \<and> owned s' \<and> ms_agents s' = ms_agents s
    \<and> ms_clients s' = filter (\<lambda>(i, _). \<not> (\<exists>cs. (i, cs) \<in> set ps \<and> P cs)) (ms_clients s)
    \<and> (\<forall>i cs. (i, cs) \<in> set ps \<and> P cs \<longrightarrow> session_gone i s')
    \<and> (\<forall>k. icepts s' k = icepts s k \<or> (\<exists>cs. (session_of k, cs) \<in> set ps \<and> P cs) \<and> icepts s' k = None)"
  using assms
proof (induction ps arbitrary: s)
  case (Cons p ps)
  obtain i cs where p: "p = (i, cs)" by (cases p)
  have ids: "\<And>i cs. (i, cs) \<in> set ps \<Longrightarrow> cl_id cs = i" "cl_id cs = i" using Cons.prems(3) p by auto
  show ?case
  proof (cases "P cs")
    case False
    then have eq: "(j, c) \<in> set (p # ps) \<and> P c \<longleftrightarrow> (j, c) \<in> set ps \<and> P c" for j c using p by auto
    from Cons.IH [OF Cons.prems(1,2) ids(1)] False show ?thesis unfolding eq by (simp add: p)
  next
    case True
    let ?s = "s\<lparr>ms_clients := AList.delete i (ms_clients s)\<rparr>"
    from removeClientSession_result [OF drop_client_wf [OF Cons.prems(1,2), of i], of w cs] obtain s1 where
      1: "removeClientSession w cs ?s = Some s1" "mgr_wf s1" "owned s1" "session_gone i s1" "ms_agents s1 = ms_agents s"
        "ms_clients s1 = AList.delete i (ms_clients s)"
      and 2: "\<And>k. icepts s1 k = icepts s k \<or> session_of k = i \<and> icepts s1 k = None"
      using ids(2) by auto
    from Cons.IH [OF 1(2,3) ids(1)] obtain s2 where
      3: "fold_option (\<lambda>(i, cs) s. if P cs then removeClientSession w cs (s\<lparr>ms_clients := AList.delete i (ms_clients s)\<rparr>) else Some s) ps s1 = Some s2"
        "mgr_wf s2" "owned s2" "ms_agents s2 = ms_agents s1"
        "ms_clients s2 = filter (\<lambda>(i, _). \<not> (\<exists>cs. (i, cs) \<in> set ps \<and> P cs)) (ms_clients s1)"
        "\<And>i cs. (i, cs) \<in> set ps \<Longrightarrow> P cs \<Longrightarrow> session_gone i s2"
      and 4: "\<And>k. icepts s2 k = icepts s1 k \<or> (\<exists>cs. (session_of k, cs) \<in> set ps \<and> P cs) \<and> icepts s2 k = None"
      by blast
    have some: "icepts s2 k = Some x \<Longrightarrow> icepts s1 k = Some x" for k x using 4 [of k] by auto
    have "session_gone i s2" using 1(4) some unfolding session_gone_def by blast
    moreover have "ms_clients s2 = filter (\<lambda>(j, _). \<not> (\<exists>cs'. (j, cs') \<in> set (p # ps) \<and> P cs')) (ms_clients s)"
      unfolding 3(5) 1(6) AList.delete_eq filter_filter using p True by (intro filter_cong) auto
    moreover have "icepts s2 k = icepts s k \<or> (\<exists>cs. (session_of k, cs) \<in> set (p # ps) \<and> P cs) \<and> icepts s2 k = None" for k
      using 2 [of k] 4 [of k] p True by auto
    ultimately show ?thesis using 1 3 p True by (intro exI [of _ s2]) auto
  qed
qed simp

section \<open>Sessions that expire\<close>

text \<open>What the loss of agents leaves of an intercept.\<close>

definition kept :: "intercept_info \<Rightarrow> intercept_info \<Rightarrow> bool" where
  "kept ii ii' \<longleftrightarrow> ii_id ii' = ii_id ii \<and> ii_spec ii' = ii_spec ii \<and> ii_client_session ii' = ii_client_session ii
     \<and> (ii_disposition ii' = REMOVED \<longleftrightarrow> ii_disposition ii = REMOVED) \<and> (ii_pod_ip ii' = ii_pod_ip ii \<or> ii_pod_ip ii' = [])"

lemma kept_refl [simp]: "kept ii ii"
  by (simp add: kept_def)

lemma kept_trans: "kept a b \<Longrightarrow> kept b c \<Longrightarrow> kept a c"
  by (auto simp: kept_def)

lemma check_not_removed: "ii_disposition ii \<noteq> REMOVED \<Longrightarrow> fst (checkAgentsForIntercept ii s) \<noteq> REMOVED"
  by (auto simp: checkAgentsForIntercept_def Let_def)

lemma released_kept: "kept ii (released now ip s ii)"
  and released_ip: "ip \<noteq> [] \<Longrightarrow> ii_disposition (released now ip s ii) \<noteq> REMOVED \<Longrightarrow> ii_pod_ip (released now ip s ii) \<noteq> ip"
  using check_not_removed [of ii s] by (auto simp: released_def kept_def split: prod.splits)

definition all_kept :: "mgr_state \<Rightarrow> mgr_state \<Rightarrow> bool" where
  "all_kept s s' \<longleftrightarrow> (\<forall>k. rel_option (\<lambda>(ii, fs) (ii', fs'). kept ii ii' \<and> fs' = fs) (icepts s k) (icepts s' k))"

lemma all_kept_refl [simp]: "all_kept s s"
  by (auto simp: all_kept_def intro!: option.rel_refl)

lemma all_kept_Some:
  assumes "all_kept s s'" and "icepts s' k = Some (ii', fs)"
  obtains ii where "icepts s k = Some (ii, fs)" and "kept ii ii'"
proof -
  have "rel_option (\<lambda>(ii, fs) (ii', fs'). kept ii ii' \<and> fs' = fs) (icepts s k) (Some (ii', fs))"
    using assms by (metis all_kept_def)
  then show thesis using that by (auto simp: option_rel_Some2)
qed

lemma all_kept_trans:
  assumes "all_kept a b" and "all_kept b c"
  shows "all_kept a c"
  unfolding all_kept_def
proof
  fix k
  have "rel_option (\<lambda>(ii, fs) (ii', fs'). kept ii ii' \<and> fs' = fs) (icepts a k) (icepts b k)"
    "rel_option (\<lambda>(ii, fs) (ii', fs'). kept ii ii' \<and> fs' = fs) (icepts b k) (icepts c k)"
    using assms by (simp_all add: all_kept_def)
  then show "rel_option (\<lambda>(ii, fs) (ii', fs'). kept ii ii' \<and> fs' = fs) (icepts a k) (icepts c k)"
    by (cases "icepts a k"; cases "icepts b k"; cases "icepts c k") (auto intro: kept_trans)
qed

lemma all_kept_owned: "all_kept s s' \<Longrightarrow> owned s \<Longrightarrow> owned s'"
  unfolding owned_def by (auto elim!: all_kept_Some simp: kept_def)

lemma all_kept_gone:
  assumes "all_kept s s'" and "session_gone sid s"
  shows "session_gone sid s'"
  unfolding session_gone_def
proof (intro allI impI)
  fix k ii fs
  assume "icepts s' k = Some (ii, fs)"
  from all_kept_Some [OF assms(1) this] obtain ii0 where k: "icepts s k = Some (ii0, fs)" "kept ii0 ii" .
  from assms(2) k(1) have "ii_disposition ii0 = REMOVED \<or> si_session_id (ii_client_session ii0) \<noteq> sid"
    unfolding session_gone_def by blast
  with k(2) show "ii_disposition ii = REMOVED \<or> si_session_id (ii_client_session ii) \<noteq> sid" by (simp add: kept_def)
qed

definition ip_free :: "string \<Rightarrow> mgr_state \<Rightarrow> bool" where
  "ip_free ip s \<longleftrightarrow> (\<forall>k ii fs. icepts s k = Some (ii, fs) \<longrightarrow> ii_disposition ii = REMOVED \<or> ii_pod_ip ii \<noteq> ip)"

lemma all_kept_free:
  assumes "all_kept s s'" and "ip \<noteq> []" and "ip_free ip s"
  shows "ip_free ip s'"
  unfolding ip_free_def
proof (intro allI impI)
  fix k ii fs
  assume "icepts s' k = Some (ii, fs)"
  from all_kept_Some [OF assms(1) this] obtain ii0 where k: "icepts s k = Some (ii0, fs)" "kept ii0 ii" .
  from assms(3) k(1) have "ii_disposition ii0 = REMOVED \<or> ii_pod_ip ii0 \<noteq> ip" unfolding ip_free_def by blast
  with k(2) assms(2) show "ii_disposition ii = REMOVED \<or> ii_pod_ip ii \<noteq> ip" by (auto simp: kept_def)
qed

lemma removeAgentSession_kept:
  assumes "mgr_wf s" and "agent_lookup s i = Some ag"
  shows "\<exists>s'. removeAgentSession now i s = Some s' \<and> mgr_wf s' \<and> all_kept s s' \<and> ms_clients s' = ms_clients s
    \<and> ms_cancelled s' = ms_cancelled s \<and> cm_entries (ms_agents s') = AList.delete i (cm_entries (ms_agents s))
    \<and> (ai_pod_ip (ag_info ag) \<noteq> [] \<longrightarrow> ip_free (ai_pod_ip (ag_info ag)) s')"
proof -
  let ?ip = "ai_pod_ip (ag_info ag)"
  let ?s1 = "s\<lparr>ms_agents := snd (LoadAndDelete agentsEqual zero_agent i (ms_agents s)),
      ms_configs := Inactivate now (ai_pod_uid (ag_info ag)) (ms_configs s)\<rparr>"
  from removeAgentSession_result [OF assms, of now] obtain s' where
    r: "removeAgentSession now i s = Some s'" "same_frame ?s1 s'" "mgr_wf s'"
      "\<And>k. icepts s' k = map_option (\<lambda>(ii, fs). (released now ?ip ?s1 ii, fs)) (icepts s k)" by blast
  have "all_kept s s'"
    unfolding all_kept_def r(4) by (auto simp: option.rel_map released_kept intro!: option.rel_refl)
  moreover have "ip_free ?ip s'" if "?ip \<noteq> []"
    unfolding ip_free_def r(4) using released_ip [OF that] by auto
  ultimately show ?thesis using r by (auto simp: same_frame_def LoadAndDelete_result)
qed

lemma remove_agents_visit:
  assumes "mgr_wf s" and "\<And>i ag. (i, ag) \<in> set ps \<Longrightarrow> agent_lookup s i = Some ag" and "distinct (map fst ps)"
  shows "\<exists>s'. fold_option (\<lambda>(i, ag) s. if P ag then removeAgentSession now i s else Some s) ps s = Some s'
    \<and> mgr_wf s' \<and> all_kept s s' \<and> ms_clients s' = ms_clients s \<and> ms_cancelled s' = ms_cancelled s
    \<and> cm_entries (ms_agents s') = filter (\<lambda>(i, _). \<not> (\<exists>ag. (i, ag) \<in> set ps \<and> P ag)) (cm_entries (ms_agents s))
    \<and> (\<forall>i ag. (i, ag) \<in> set ps \<and> P ag \<and> ai_pod_ip (ag_info ag) \<noteq> [] \<longrightarrow> ip_free (ai_pod_ip (ag_info ag)) s')"
  using assms
proof (induction ps arbitrary: s)
  case (Cons p ps)
  obtain i ag where p: "p = (i, ag)" by (cases p)
  show ?case
  proof (cases "P ag")
    case False
    then have eq: "(j, c) \<in> set (p # ps) \<and> P c \<longleftrightarrow> (j, c) \<in> set ps \<and> P c" for j c using p by auto
    have "\<And>i ag. (i, ag) \<in> set ps \<Longrightarrow> agent_lookup s i = Some ag" "distinct (map fst ps)" using Cons.prems by auto
    from Cons.IH [OF Cons.prems(1) this] False show ?thesis
      unfolding eq conj_assoc [symmetric] by (simp add: p)
  next
    case True
    have "agent_lookup s i = Some ag" using Cons.prems(2) p by simp
    from removeAgentSession_kept [OF Cons.prems(1) this, of now] obtain s1 where
      1: "removeAgentSession now i s = Some s1" "mgr_wf s1" "all_kept s s1" "ms_clients s1 = ms_clients s" "ms_cancelled s1 = ms_cancelled s"
        "cm_entries (ms_agents s1) = AList.delete i (cm_entries (ms_agents s))"
        "ai_pod_ip (ag_info ag) \<noteq> [] \<Longrightarrow> ip_free (ai_pod_ip (ag_info ag)) s1" by blast
    have pre: "agent_lookup s1 j = Some a" if "(j, a) \<in> set ps" for j a
    proof -
      have "j \<noteq> i" using that Cons.prems(3) p by (force simp: image_iff)
      then show ?thesis using Cons.prems(2) [of j a] that by (simp add: 1(6) delete_conv')
    qed
    have "distinct (map fst ps)" using Cons.prems(3) by simp
    from Cons.IH [OF 1(2) pre this] obtain s2 where
      2: "fold_option (\<lambda>(i, ag) s. if P ag then removeAgentSession now i s else Some s) ps s1 = Some s2" "mgr_wf s2" "all_kept s1 s2"
        "ms_clients s2 = ms_clients s1" "ms_cancelled s2 = ms_cancelled s1"
        "cm_entries (ms_agents s2) = filter (\<lambda>(i, _). \<not> (\<exists>ag. (i, ag) \<in> set ps \<and> P ag)) (cm_entries (ms_agents s1))"
        "\<And>i ag. (i, ag) \<in> set ps \<Longrightarrow> P ag \<Longrightarrow> ai_pod_ip (ag_info ag) \<noteq> [] \<Longrightarrow> ip_free (ai_pod_ip (ag_info ag)) s2" by blast
    have "cm_entries (ms_agents s2) = filter (\<lambda>(j, _). \<not> (\<exists>a. (j, a) \<in> set (p # ps) \<and> P a)) (cm_entries (ms_agents s))"
      unfolding 2(6) 1(6) AList.delete_eq filter_filter using p True by (intro filter_cong) auto
    with 1 2 p True all_kept_trans [OF 1(3) 2(3)] all_kept_free [OF 2(3)] show ?thesis by (intro exI [of _ s2]) auto
  qed
qed simp

lemma collect_sessions:
  assumes "mgr_wf s" and "owned s"
  shows "\<exists>s'. Option.bind (remove_clients w P s) (remove_agents now Q) = Some s' \<and> mgr_wf s' \<and> owned s'
    \<and> ms_clients s' = filter (\<lambda>(i, cs). \<not> P cs) (ms_clients s)
    \<and> cm_entries (ms_agents s') = filter (\<lambda>(i, ag). \<not> Q ag) (cm_entries (ms_agents s))
    \<and> (\<forall>i cs. map_of (ms_clients s) i = Some cs \<and> P cs \<longrightarrow> session_gone i s')
    \<and> (\<forall>i ag. agent_lookup s i = Some ag \<and> Q ag \<and> ai_pod_ip (ag_info ag) \<noteq> [] \<longrightarrow> ip_free (ai_pod_ip (ag_info ag)) s')"
proof -
  have wf: "distinct (map fst (ms_clients s))" "distinct (map fst (cm_entries (ms_agents s)))"
    using assms(1) by (simp_all add: mgr_wf_def maps_wf_def)
  have "cl_id cs = i" if "(i, cs) \<in> set (ms_clients s)" for i cs
    using mgr_wf_client_id [OF assms(1)] map_of_is_SomeI [OF wf(1) that] by blast
  from remove_clients_visit [OF assms this, of "ms_clients s" P w] obtain s1 where
    1: "remove_clients w P s = Some s1" "mgr_wf s1" "owned s1" "ms_agents s1 = ms_agents s"
      "ms_clients s1 = filter (\<lambda>(i, _). \<not> (\<exists>cs. (i, cs) \<in> set (ms_clients s) \<and> P cs)) (ms_clients s)"
      "\<And>i cs. (i, cs) \<in> set (ms_clients s) \<Longrightarrow> P cs \<Longrightarrow> session_gone i s1"
    unfolding remove_clients_def by blast
  have "agent_lookup s1 i = Some ag" if "(i, ag) \<in> set (cm_entries (ms_agents s1))" for i ag
    using that wf(2) by (simp add: 1(4))
  from remove_agents_visit [OF 1(2) this, of "cm_entries (ms_agents s1)" Q now] wf(2) 1(4) obtain s2 where
    2: "remove_agents now Q s1 = Some s2" "mgr_wf s2" "all_kept s1 s2" "ms_clients s2 = ms_clients s1"
      "cm_entries (ms_agents s2) = filter (\<lambda>(i, _). \<not> (\<exists>ag. (i, ag) \<in> set (cm_entries (ms_agents s)) \<and> Q ag)) (cm_entries (ms_agents s))"
      "\<And>i ag. (i, ag) \<in> set (cm_entries (ms_agents s)) \<Longrightarrow> Q ag \<Longrightarrow> ai_pod_ip (ag_info ag) \<noteq> [] \<Longrightarrow> ip_free (ai_pod_ip (ag_info ag)) s2"
    unfolding remove_agents_def by auto
  have uniq: "filter (\<lambda>(i, _). \<not> (\<exists>x. (i, x) \<in> set xs \<and> R x)) xs = filter (\<lambda>(i, x). \<not> R x) xs" if "distinct (map fst xs)"
    for xs :: "(string \<times> 'x) list" and R
    using eq_key_imp_eq_value [OF that] by (intro filter_cong) auto
  have cl: "ms_clients s2 = filter (\<lambda>(i, cs). \<not> P cs) (ms_clients s)" unfolding 2(4) 1(5) by (rule uniq [OF wf(1)])
  have ag: "cm_entries (ms_agents s2) = filter (\<lambda>(i, ag). \<not> Q ag) (cm_entries (ms_agents s))" unfolding 2(5) by (rule uniq [OF wf(2)])
  have "session_gone i s2" if "map_of (ms_clients s) i = Some cs" "P cs" for i cs
    using all_kept_gone [OF 2(3) 1(6) [OF map_of_SomeD [OF that(1)] that(2)]] .
  moreover have "ip_free (ai_pod_ip (ag_info ag)) s2" if "agent_lookup s i = Some ag" "Q ag" "ai_pod_ip (ag_info ag) \<noteq> []" for i ag
    using 2(6) [OF map_of_SomeD [OF that(1)] that(2,3)] .
  ultimately show ?thesis using 1(1) 2(1,2) all_kept_owned [OF 2(3) 1(3)] cl ag by (intro exI [of _ s2]) auto
qed

section \<open>Mechanisms\<close>

lemma fold_update_fresh:
  "distinct (map f xs) \<Longrightarrow> f ` set xs \<inter> fst ` set m = {} \<Longrightarrow> fold (\<lambda>x. AList.update (f x) x) xs m = m @ map (\<lambda>x. (f x, x)) xs"
proof (induction xs arbitrary: m)
  case (Cons x xs)
  have "AList.update (f x) x m = m @ [(f x, x)]" by (rule update_fresh) (use Cons.prems in auto)
  moreover have "f ` set xs \<inter> fst ` set (m @ [(f x, x)]) = {}" using Cons.prems by auto
  ultimately show ?case using Cons by simp
qed simp

lemma map_of_names: "distinct (map f xs) \<Longrightarrow> map_of (map (\<lambda>x. (f x, x)) xs) k = Some y \<longleftrightarrow> y \<in> set xs \<and> f y = k"
  by (subst map_of_eq_Some_iff) (auto simp: comp_def)

lemma mechanisms_same_set:
  assumes a: "distinct (map me_name a)" and b: "distinct (map me_name b)"
  shows "mechanismsAreTheSame a b \<longleftrightarrow> a \<noteq> [] \<and> set a = set b"
proof -
  let ?m = "map (\<lambda>x. (me_name x, x)) a"
  have m: "fold (\<lambda>m. AList.update (me_name m) m) a [] = ?m" using fold_update_fresh [OF a, of "[]"] by simp
  have one: "(case map_of ?m (me_name x) of None \<Rightarrow> False
      | Some g \<Rightarrow> me_product g = me_product x \<and> me_version g = me_version x) \<longleftrightarrow> x \<in> set a" for x
  proof (cases "map_of ?m (me_name x)")
    case None
    then have "x \<notin> set a" by (force simp: map_of_eq_None_iff)
    with None show ?thesis by simp
  next
    case (Some g)
    then have g: "g \<in> set a" "me_name g = me_name x" using map_of_names [OF a] by auto
    have "x \<in> set a \<Longrightarrow> g = x" using g inj_onD [OF _ g(2) g(1)] a by (simp add: distinct_map)
    moreover have "me_product g = me_product x \<and> me_version g = me_version x \<Longrightarrow> g = x" using g(2) by (simp add: mechanism.equality)
    ultimately show ?thesis using g(1) Some by auto
  qed
  have eq: "mechanismsAreTheSame a b \<longleftrightarrow> length a = length b \<and> a \<noteq> [] \<and> set b \<subseteq> set a"
    by (auto simp: mechanismsAreTheSame_def m one list_all_iff)
  have da: "distinct a" "distinct b" using a b by (simp_all add: distinct_map)
  have "set b = set a" if "length a = length b" "set b \<subseteq> set a"
    using that da by (intro card_subset_eq) (simp_all add: distinct_card)
  moreover have "length a = length b" if "set a = set b" using that da distinct_card by metis
  ultimately show ?thesis unfolding eq by blast
qed

text \<open>
  Only the names of the first list are checked to be distinct, so the answer depends on the order of the
  agents, which is the order of a map.
\<close>

lemma mechanisms_one_sided:
  "\<exists>x y. mechanismsAreTheSame [x, y] [x, x] \<and> \<not> mechanismsAreTheSame [x, x] [x, y]"
  by (intro exI [of _ "\<lparr>me_name = ''tcp'', me_product = ''p'', me_version = ''1''\<rparr>"]
      exI [of _ "\<lparr>me_name = ''http'', me_product = ''p'', me_version = ''1''\<rparr>"]) (simp add: mechanismsAreTheSame_def)

section \<open>A sample state\<close>

definition sample_icept :: "string \<Rightarrow> string \<Rightarrow> finalizer list \<Rightarrow> intercept_state" where
  "sample_icept k ip fs =
     \<lparr>it_ref = 0, it_info = zero_info\<lparr>ii_id := k, ii_disposition := ACTIVE, ii_pod_ip := ip,
        ii_spec := zero_spec\<lparr>sp_agent := ''echo'', sp_namespace := ''default'', sp_mechanism := ''tcp''\<rparr>,
        ii_client_session := \<lparr>si_session_id = session_of k, si_manager_install_id = [], si_install_id = None\<rparr>\<rparr>, it_finalizers = fs\<rparr>"

definition sample_client :: "string \<Rightarrow> int \<Rightarrow> client_session" where
  "sample_client i ts =
     (newClientSessionState i \<lparr>ci_name = i, ci_namespace = ''default'', ci_install_id = i, ci_product = ''p'', ci_version = ''2.6.0''\<rparr> ts)
       \<lparr>cl_FromClientBytes := 10\<rparr>"

definition sample_agent_session :: "string \<Rightarrow> string \<Rightarrow> int \<Rightarrow> agent_session" where
  "sample_agent_session uid ip ts =
     \<lparr>ag_info = \<lparr>ai_name = ''echo'', ai_kind = ''Deployment'', ai_namespace = ''default'', ai_pod_name = uid, ai_pod_ip = ip, ai_pod_uid = uid,
        ai_api_port = 0, ai_product = ''p'', ai_version = ''1'', ai_mechanisms = [\<lparr>me_name = ''tcp'', me_product = ''p'', me_version = ''1''\<rparr>],
        ai_environments = []\<rparr>, ag_id = ''agent:'' @ uid, ag_timestamp = ts\<rparr>"

definition sample_mgr :: mgr_state where
  "sample_mgr =
     mgr_NewState
       \<lparr>ms_intercepts := NewMap\<lparr>cm_entries := [(''c1:web'', sample_icept ''c1:web'' ''10.0.0.1'' [DeleteIntercept ''c1:web-80'']),
          (''c1:web-80'', sample_icept ''c1:web-80'' ''10.0.0.1'' []), (''c2:api'', sample_icept ''c2:api'' ''10.0.0.1'' [])]\<rparr>,
        ms_agents := NewMap\<lparr>cm_entries := [(''agent:a'', sample_agent_session ''a'' ''10.0.0.1'' 0), (''agent:b'', sample_agent_session ''b'' ''10.0.0.2'' 9)]\<rparr>,
        ms_clients := [(''c1'', sample_client ''c1'' 0), (''c2'', sample_client ''c2'' 9)]\<rparr>"

lemma icepts_sample: "icepts sample_mgr k = map_option (\<lambda>it. (it_info it, it_finalizers it))
    (map_of [(''c1:web'', sample_icept ''c1:web'' ''10.0.0.1'' [DeleteIntercept ''c1:web-80'']),
       (''c1:web-80'', sample_icept ''c1:web-80'' ''10.0.0.1'' []), (''c2:api'', sample_icept ''c2:api'' ''10.0.0.1'' [])] k)"
  by (simp add: icepts_def sample_mgr_def)

lemma sample_mgr_ok: "mgr_wf sample_mgr" "owned sample_mgr"
proof -
  show "mgr_wf sample_mgr"
    unfolding mgr_wf_def icepts_sample
    by (auto simp: sample_mgr_def maps_wf_def sample_icept_def sample_agent_session_def sample_client_def newClientSessionState_def split: if_splits)
  show "owned sample_mgr"
    unfolding owned_def icepts_sample by (auto simp: sample_icept_def session_of_def split: if_splits)
qed

section \<open>Properties\<close>

text \<open>
  C24. The collector of sessions returns and removes exactly the clients and agents that were not marked
  since the given moments. No intercept of a removed client is left, and none names the pod of a removed
  agent.
\<close>

theorem expireSessions_exact:
  assumes "mgr_wf s" and "owned s"
  shows "\<exists>s'. expireSessions w now clientMoment agentMoment s = Some s' \<and> mgr_wf s' \<and> owned s'
    \<and> ms_clients s' = filter (\<lambda>(i, cs). \<not> cl_timestamp cs < clientMoment) (ms_clients s)
    \<and> cm_entries (ms_agents s') = filter (\<lambda>(i, ag). \<not> ag_timestamp ag < agentMoment) (cm_entries (ms_agents s))
    \<and> (\<forall>i cs. map_of (ms_clients s) i = Some cs \<and> cl_timestamp cs < clientMoment \<longrightarrow> session_gone i s')
    \<and> (\<forall>i ag. agent_lookup s i = Some ag \<and> ag_timestamp ag < agentMoment \<and> ai_pod_ip (ag_info ag) \<noteq> [] \<longrightarrow> ip_free (ai_pod_ip (ag_info ag)) s')"
  using collect_sessions [OF assms, of w "\<lambda>cs. cl_timestamp cs < clientMoment" now "\<lambda>ag. ag_timestamp ag < agentMoment"]
  unfolding expireSessions_def .

theorem expireSessions_exact_witness:
  "\<exists>s'. expireSessions (sample_world []) 1 5 5 sample_mgr = Some s' \<and> map fst (ms_clients s') = [''c2'']
     \<and> map fst (cm_entries (ms_agents s')) = [''agent:b''] \<and> session_gone ''c1'' s' \<and> ip_free ''10.0.0.1'' s'"
proof -
  have c: "ms_clients sample_mgr = [(''c1'', sample_client ''c1'' 0), (''c2'', sample_client ''c2'' 9)]"
    and a: "cm_entries (ms_agents sample_mgr) = [(''agent:a'', sample_agent_session ''a'' ''10.0.0.1'' 0), (''agent:b'', sample_agent_session ''b'' ''10.0.0.2'' 9)]"
    by (simp_all add: sample_mgr_def)
  have t: "cl_timestamp (sample_client i n) = n" "ag_timestamp (sample_agent_session u ip n) = n" "ai_pod_ip (ag_info (sample_agent_session u ip n)) = ip" for i n u ip
    by (simp_all add: sample_client_def newClientSessionState_def sample_agent_session_def)
  from expireSessions_exact [OF sample_mgr_ok, of "sample_world []" 1 5 5] show ?thesis
    by (auto simp: c a t dest: spec [of _ "''agent:a''"])
qed

text \<open>
  C25. When a client departs, its session is cancelled and its intercepts are gone, the intercepts of all
  other clients are as before, and the bytes it sent and received are added to the totals.
\<close>

theorem client_departure:
  assumes "mgr_wf s" and "owned s" and "map_of (ms_clients s) i = Some cs"
  shows "\<exists>s'. RemoveSession w now i s = Some s' \<and> mgr_wf s' \<and> owned s' \<and> session_gone i s' \<and> map_of (ms_clients s') i = None
    \<and> i \<in> set (ms_cancelled s')
    \<and> (\<forall>k ii fs. icepts s k = Some (ii, fs) \<and> si_session_id (ii_client_session ii) \<noteq> i \<longrightarrow> icepts s' k = Some (ii, fs))
    \<and> ms_ingress s' = ms_ingress s + cl_FromClientBytes cs \<and> ms_egress s' = ms_egress s + cl_ToClientBytes cs"
proof -
  let ?s = "s\<lparr>ms_clients := AList.delete i (ms_clients s)\<rparr>"
  have i: "cl_id cs = i" by (rule mgr_wf_client_id [OF assms(1,3)])
  from removeClientSession_result [OF drop_client_wf [OF assms(1,2), of i], of w cs] obtain s' where
    r: "removeClientSession w cs ?s = Some s'" "mgr_wf s'" "owned s'" "session_gone i s'"
      "\<And>k. icepts s' k = icepts s k \<or> session_of k = i \<and> icepts s' k = None"
      "ms_clients s' = AList.delete i (ms_clients s)" "ms_cancelled s' = i # ms_cancelled s"
      "ms_ingress s' = ms_ingress s + cl_FromClientBytes cs" "ms_egress s' = ms_egress s + cl_ToClientBytes cs"
    using i by auto
  have "icepts s' k = Some (ii, fs)" if "icepts s k = Some (ii, fs)" "si_session_id (ii_client_session ii) \<noteq> i" for k ii fs
    using r(5) [of k] that assms(2) by (auto simp: owned_def)
  with r assms(3) show ?thesis by (auto simp: RemoveSession_def delete_conv')
qed

theorem client_departure_witness:
  "\<exists>s'. RemoveSession (sample_world []) 1 ''c1'' sample_mgr = Some s' \<and> session_gone ''c1'' s' \<and> icepts s' ''c2:api'' \<noteq> None \<and> ms_ingress s' = 10"
proof -
  have c: "map_of (ms_clients sample_mgr) ''c1'' = Some (sample_client ''c1'' 0)" "ms_ingress sample_mgr = 0" "cl_FromClientBytes (sample_client ''c1'' 0) = 10"
    by (simp_all add: sample_mgr_def mgr_NewState_def sample_client_def)
  have "icepts sample_mgr ''c2:api'' = Some (it_info (sample_icept ''c2:api'' ''10.0.0.1'' []), [])"
    "si_session_id (ii_client_session (it_info (sample_icept ''c2:api'' ''10.0.0.1'' []))) \<noteq> ''c1''"
    by (simp_all add: icepts_sample sample_icept_def session_of_def)
  with client_departure [OF sample_mgr_ok c(1), of "sample_world []" 1] c(2,3) show ?thesis by fastforce
qed



section \<open>States that are not left, channels that are not closed\<close>

text \<open>An intercept that lacks a mechanism stays so, although the agent that arrives has it.\<close>

lemma no_mechanism_stays:
  "ii_disposition ii = NO_MECHANISM \<Longrightarrow> fst (checkAgentsForIntercept ii s) = UNSPECIFIED \<Longrightarrow> rearranged now s ii = ii"
  by (auto simp: rearranged_def split: prod.splits)

text \<open>The channel of an agent's session is not closed when the session is removed.\<close>

lemma agent_channel_stays_open:
  assumes "mgr_wf s" and "agent_lookup s i = Some ag" and "removeAgentSession now i s = Some s'"
  shows "ms_cancelled s' = ms_cancelled s"
  using removeAgentSession_kept [OF assms(1,2), of now] assms(3) by auto

text \<open>An identifier without a colon, which only a reconnecting client can bring, makes its removal panic.\<close>

lemma gc_without_colon:
  "CHR '':'' \<notin> set k \<Longrightarrow> ii_disposition ii \<noteq> REMOVED \<Longrightarrow> si_session_id (ii_client_session ii) = cl_id cs \<Longrightarrow> gc_one w cs k ii s = None"
  using index_byte_None [of "CHR '':''" k] by (auto simp: gc_one_def split: option.splits)

end
