(* ===== verification/Netip_Text.thy ===== *)
theory Netip_Text
  imports Netip
begin

text \<open>
  The text form of the addresses of Go's package \<open>net/netip\<close>: \<open>ParseAddr\<close>, \<open>Addr.String\<close> and
  \<open>Addr.MarshalBinary\<close>, with the fact that an IPv4 address reads back from its text.
\<close>

text \<open>\<open>netip.ParseAddr\<close>, with the zone of an IPv6 address beside it.\<close>

definition parse_octet :: "string \<Rightarrow> byte option" where
  "parse_octet s =
     (if s = [] \<or> \<not> list_all is_digit s \<or> (1 < length s \<and> hd s = CHR ''0'') \<or> 255 < digits_val s then None
      else Some (of_nat (digits_val s)))"

definition parseIPv4Fields :: "string \<Rightarrow> byte list option" where
  "parseIPv4Fields s =
     (let parts = map parse_octet (split_byte (CHR ''.'') s) in
      if length parts = 4 \<and> None \<notin> set parts then Some (map the parts) else None)"

definition hex_val :: "char \<Rightarrow> nat option" where
  "hex_val c =
     (let n = of_char c :: nat in
      if is_digit c then Some (digit_val c) else if 97 \<le> n \<and> n \<le> 102 then Some (n - 87)
      else if 65 \<le> n \<and> n \<le> 70 then Some (n - 55) else None)"

fun parse_groups :: "nat \<Rightarrow> string \<Rightarrow> byte list \<Rightarrow> nat option \<Rightarrow> (byte list \<times> nat option \<times> string) option" where
  "parse_groups 0 s ip ellipsis = Some (ip, ellipsis, s)"
| "parse_groups (Suc n) s ip ellipsis =
     (let digits = takeWhile (\<lambda>c. hex_val c \<noteq> None) s; rest = dropWhile (\<lambda>c. hex_val c \<noteq> None) s;
          acc = foldl (\<lambda>a c. 16 * a + the (hex_val c)) 0 digits in
      if 4 < length digits \<or> digits = [] then None
      else if rest \<noteq> [] \<and> hd rest = CHR ''.'' then
        (if (ellipsis = None \<and> length ip \<noteq> 12) \<or> 12 < length ip then None
         else map_option (\<lambda>b. (ip @ b, ellipsis, [])) (parseIPv4Fields s))
      else
        (let ip = ip @ [of_nat (acc div 256), of_nat (acc mod 256)] in
         if rest = [] then Some (ip, ellipsis, [])
         else if hd rest \<noteq> CHR '':'' \<or> length rest = 1 then None
         else if hd (tl rest) = CHR '':'' then
           (if ellipsis \<noteq> None then None
            else if tl (tl rest) = [] then Some (ip, Some (length ip), [])
            else parse_groups n (tl (tl rest)) ip (Some (length ip)))
         else parse_groups n (tl rest) ip ellipsis))"

definition parseIPv6 :: "string \<Rightarrow> (addr \<times> string) option" where
  "parseIPv6 txt =
     (let (s, zone, ok) = (case index_byte (CHR ''%'') txt of None \<Rightarrow> (txt, [], True) | Some i \<Rightarrow> (take i txt, drop (i + 1) txt, i + 1 < length txt));
          lead = has_prefix s ''::'';
          r = (if lead then (if length s = 2 then Some ([], Some 0, []) else parse_groups 8 (drop 2 s) [] (Some 0)) else parse_groups 8 s [] None)
      in if \<not> ok then None
         else case r of
           None \<Rightarrow> None
         | Some (ip, ellipsis, rest) \<Rightarrow>
             if rest \<noteq> [] then None
             else (case ellipsis of
                     None \<Rightarrow> if length ip < 16 then None else Some (Addr6 (be_word ip), zone)
                   | Some e \<Rightarrow>
                       if 16 \<le> length ip then None
                       else Some (Addr6 (be_word (take e ip @ replicate (16 - length ip) 0 @ drop e ip)), zone)))"

definition ParseAddr :: "string \<Rightarrow> (addr \<times> string) option" where
  "ParseAddr s =
     (case find (\<lambda>c. c = CHR ''.'' \<or> c = CHR '':'' \<or> c = CHR ''%'') s of
        None \<Rightarrow> None
      | Some c \<Rightarrow>
          if c = CHR ''.'' then map_option (\<lambda>b. (Addr4 (be_word b), [])) (parseIPv4Fields s)
          else if c = CHR '':'' then parseIPv6 s
          else None)"

definition MarshalBinary :: "addr \<times> string \<Rightarrow> byte list" where
  "MarshalBinary a = as_slice (fst a) @ map (\<lambda>c. of_nat (of_char c)) (snd a)"

text \<open>\<open>netip.Addr.String\<close>: an IPv6 address has its longest run of at least two zero groups shortened.\<close>

definition hex_text :: "nat \<Rightarrow> string" where
  "hex_text n =
     (if n < 16 then [hex_digit n] else if n < 256 then [hex_digit (n div 16), hex_digit (n mod 16)]
      else if n < 4096 then [hex_digit (n div 256), hex_digit (n div 16 mod 16), hex_digit (n mod 16)]
      else [hex_digit (n div 4096), hex_digit (n div 256 mod 16), hex_digit (n div 16 mod 16), hex_digit (n mod 16)])"

definition zero_run :: "nat list \<Rightarrow> nat \<Rightarrow> nat" where
  "zero_run gs i = length (takeWhile (\<lambda>g. g = 0) (drop i gs))"

definition longest_run :: "nat list \<Rightarrow> nat \<times> nat" where
  "longest_run gs = foldl (\<lambda>(b, l) i. if l < zero_run gs i \<and> 2 \<le> zero_run gs i then (i, zero_run gs i) else (b, l)) (0, 0) [0..<length gs]"

fun pairs16 :: "byte list \<Rightarrow> nat list" where
  "pairs16 (a # b # r) = (unat a * 256 + unat b) # pairs16 r"
| "pairs16 _ = []"

fun Addr_String :: "addr \<Rightarrow> string" where
  "Addr_String NoAddr = ''invalid IP''"
| "Addr_String (Addr4 w) = join_byte (CHR ''.'') (map (\<lambda>b. itoa (unat b)) (be_bytes 4 w))"
| "Addr_String (Addr6 w) =
     (if drop_bit 32 w = 0xffff then ''::ffff:'' @ join_byte (CHR ''.'') (map (\<lambda>b. itoa (unat b)) (be_bytes 4 (ucast w :: u32)))
      else
        (let gs = pairs16 (be_bytes 16 w); (b, l) = longest_run gs in
         if l = 0 then join_byte (CHR '':'') (map hex_text gs)
         else join_byte (CHR '':'') (map hex_text (take b gs)) @ ''::'' @ join_byte (CHR '':'') (map hex_text (drop (b + l) gs))))"

text \<open>\<open>netip.ParsePrefix\<close>: no zone, and a length in decimal digits without leading zeros or sign.\<close>

definition ParsePrefix :: "string \<Rightarrow> prefix option" where
  "ParsePrefix s =
     (case last_index_byte (CHR ''/'') s of
        None \<Rightarrow> None
      | Some i \<Rightarrow>
          (let bitsStr = drop (i + 1) s in
           case ParseAddr (take i s) of
             None \<Rightarrow> None
           | Some (a, zone) \<Rightarrow>
               if zone \<noteq> [] then None
               else if 1 < length bitsStr \<and> (\<not> is_digit (hd bitsStr) \<or> hd bitsStr = CHR ''0'') then None
               else (case atoi bitsStr of
                       None \<Rightarrow> None
                     | Some b \<Rightarrow> if b < 0 \<or> int (bit_len a) < b then None else Some (prefix_from a b))))"

section \<open>Reading back an IPv4 address\<close>

lemma itoa_no_leading_zero: "1 < length (itoa n) \<Longrightarrow> hd (itoa n) \<noteq> CHR ''0''"
proof (induction n rule: itoa.induct)
  case (1 n)
  show ?case
  proof (cases "n < 10")
    case True
    with 1 show ?thesis by (subst (asm) itoa.simps) simp
  next
    case False
    have "hd (itoa (n div 10)) \<noteq> CHR ''0''"
    proof (cases "1 < length (itoa (n div 10))")
      case True
      with 1 False show ?thesis by simp
    next
      case short: False
      then have "n div 10 < 10"
        by (subst (asm) itoa.simps) (auto split: if_splits)
      moreover from False have "n div 10 \<noteq> 0" by simp
      ultimately show ?thesis
        using digit_val_char [of "n div 10"] by (subst itoa.simps) (auto simp: digit_val_def)
    qed
    with False show ?thesis by (subst itoa.simps) simp
  qed
qed

lemma parse_octet_itoa [codec]: "parse_octet (itoa (unat (b :: byte))) = Some b"
proof -
  have "unat b < 256" using unsigned_less [of b, where 'a = nat] by simp
  then show ?thesis using itoa_no_leading_zero by (auto simp: parse_octet_def)
qed

lemma itoa_no_dot [simp]: "CHR ''.'' \<notin> set (itoa n)"
  using itoa_chars [of "CHR ''.''" n] by (auto simp: is_digit_def)

definition dotted :: "byte list \<Rightarrow> string" where
  "dotted bs = join_byte (CHR ''.'') (map (\<lambda>b. itoa (unat b)) bs)"

lemma parseIPv4Fields_dotted [codec]: "length bs = 4 \<Longrightarrow> parseIPv4Fields (dotted bs) = Some bs"
  by (subgoal_tac "bs \<noteq> []") (auto simp: parseIPv4Fields_def dotted_def split_join_byte parse_octet_itoa comp_def)

lemma find_append: "find P (xs @ ys) = (case find P xs of None \<Rightarrow> find P ys | Some x \<Rightarrow> Some x)"
  by (induction xs) auto

lemma ParseAddr_dotted [codec]:
  assumes "length bs = 4"
  shows "ParseAddr (dotted bs) = Some (Addr4 (be_word bs), [])"
proof -
  from assms obtain b c d e where bs: "bs = [b, c, d, e]"
    by (auto simp: length_Suc_conv eval_nat_numeral)
  have "find (\<lambda>c. c = CHR ''.'' \<or> c = CHR '':'' \<or> c = CHR ''%'') (itoa n) = None" for n
    using itoa_chars [of "CHR ''%''" n] itoa_no_sep [of n] itoa_no_dot [of n] by (auto simp: find_None_iff is_digit_def)
  then have "find (\<lambda>c. c = CHR ''.'' \<or> c = CHR '':'' \<or> c = CHR ''%'') (dotted bs) = Some (CHR ''.'')"
    by (simp add: bs dotted_def find_append)
  then show ?thesis
    using parseIPv4Fields_dotted [OF assms] by (simp add: ParseAddr_def)
qed

lemma ParseAddr_Addr_String [codec]: "ParseAddr (Addr_String (Addr4 w)) = Some (Addr4 w, [])"
  using ParseAddr_dotted [of "be_bytes 4 w"] be_word_be_bytes [where n = 4 and w = w] by (simp add: dotted_def)

end
