(* ===== verification/Manager_Intercepts.thy ===== *)
theory Manager_Intercepts
  imports Manager_State Netip_Text
begin

text \<open>
  The creation of intercepts in the traffic manager, \<^verbatim>\<open>cmd/traffic/cmd/manager/state/intercept.go\<close> with
  \<^verbatim>\<open>RestoreIntercepts\<close> of \<^verbatim>\<open>state.go\<close> and the event filter of \<^verbatim>\<open>pkg/eventwatch\<close>: the preparation of an intercept,
  the checks of its ports and of conflicts with others, the wait for an agent, and the storing of the
  intercept with its children and finalizers.

  An error is a value; the text of an error inside another message is left out. What
  other goroutines do to the state while an operation runs is an argument: functions that are applied
  between its steps. A wait takes the events of its channels in the order in which they are received,
  and is \<open>None\<close> when they end before it returns. The logs that a wait reads are left out.
\<close>

section \<open>Errors and surroundings\<close>

datatype grpc_code = CodeCanceled | CodeInvalidArgument | CodeNotFound | CodeAlreadyExists | CodeFailedPrecondition | CodeInternal

record k8s_event =
  ev_Type :: string
  ev_Reason :: string
  ev_Note :: string
  ev_Kind :: string
  ev_Name :: string

datatype wait_error = CreateClosed | Terminal string | DeltaClosed string string | WaitEnded bool string string "k8s_event list"

datatype mgr_error =
    StatusErr grpc_code string | PlainErr string | K8sErr k8s_error | GenErr gen_error | FindErr find_error
  | FindContainerErr find_container_error | WaitErr wait_error | PortErr port_error | UserErr mgr_error

datatype category = CatUser | CatUnknown

fun GetCategory :: "mgr_error \<Rightarrow> category" where
  "GetCategory (UserErr e) = CatUser"
| "GetCategory (GenErr e) = (if user_error e then CatUser else CatUnknown)"
| "GetCategory (WaitErr (Terminal _)) = CatUser"
| "GetCategory (WaitErr (WaitEnded _ _ _ _)) = CatUser"
| "GetCategory (FindErr _) = CatUser"
| "GetCategory (FindContainerErr _) = CatUser"
| "GetCategory _ = CatUnknown"

definition User_New :: "mgr_error \<Rightarrow> mgr_error" where
  "User_New e = (if GetCategory e = CatUser then e else UserErr e)"

fun is_status :: "mgr_error \<Rightarrow> bool" where
  "is_status (StatusErr _ _) = True"
| "is_status (WaitErr (DeltaClosed _ _)) = True"
| "is_status (UserErr e) = is_status e"
| "is_status _ = False"

record create_request =
  cir_session :: session_info
  cir_spec :: intercept_spec

record prepared_intercept =
  pi_error :: "mgr_error option"
  pi_error_category :: "category option"
  pi_namespace :: string
  pi_service_uid :: string
  pi_service_name :: string
  pi_service_port_name :: string
  pi_service_port :: i32
  pi_workload_kind :: string
  pi_agent_image :: string
  pi_protocol :: string
  pi_container_name :: string
  pi_container_port :: i32
  pi_pod_ports :: "string list"
  pi_service_ips :: "byte list list"

definition zero_prepared :: prepared_intercept where
  "zero_prepared = \<lparr>pi_error = None, pi_error_category = None, pi_namespace = [], pi_service_uid = [], pi_service_name = [],
     pi_service_port_name = [], pi_service_port = 0, pi_workload_kind = [], pi_agent_image = [], pi_protocol = [],
     pi_container_name = [], pi_container_port = 0, pi_pod_ports = [], pi_service_ips = []\<rparr>"

record mgr_env =
  en_world :: world
  en_rx :: regexps
  en_InterceptAllowGlobal :: bool
  en_InterceptInactiveBlockTimeout :: int
  en_AgentInjectorEnabled :: bool
  en_WatchWarnings :: "string \<Rightarrow> string \<Rightarrow> string option"
  en_services :: "string \<Rightarrow> string \<Rightarrow> (string list \<times> string) option"
  en_now :: nat

abbreviation en_is_label :: "mgr_env \<Rightarrow> string \<Rightarrow> bool" where
  "en_is_label en \<equiv> cl_is_label (wo_cluster (en_world en))"

section \<open>Addresses of services\<close>

definition serviceIPs :: "mgr_env \<Rightarrow> string \<Rightarrow> string \<Rightarrow> byte list list" where
  "serviceIPs en serviceName ns =
     (if serviceName = [] then []
      else (case en_services en ns serviceName of
              None \<Rightarrow> []
            | Some (ips, ip) \<Rightarrow>
                (let sips = (if length ips = 0 then [ip] else ips) in
                 map MarshalBinary (List.map_filter ParseAddr sips))))"

section \<open>Ports of a request\<close>

definition prepareAllContainerPorts :: "container \<Rightarrow> prepared_intercept \<Rightarrow> prepared_intercept" where
  "prepareAllContainerPorts cn pi =
     (case PortUniqueIntercepts cn of
        [] \<Rightarrow> pi
      | i0 # rest \<Rightarrow>
          pi\<lparr>pi_container_port := ucast (ic_ContainerPort i0), pi_protocol := Proto_String (ic_Protocol i0),
             pi_pod_ports := (if rest = [] then pi_pod_ports pi
               else map (\<lambda>ic. itoa (unat (ic_ContainerPort ic)) @ '':'' @ itoa (unat (ic_ContainerPort ic)) @ ''/''
                          @ Proto_String (ic_Protocol ic)) rest)\<rparr>)"

text \<open>
  The loop over the port mappings of the request, with the container ports and the targets used so far;
  the first element of the result are the qualified mappings.
\<close>

definition find_for_mapping ::
    "mgr_env \<Rightarrow> sidecar \<Rightarrow> container option \<Rightarrow> intercept_spec \<Rightarrow> string \<Rightarrow> mgr_error + intercept" where
  "find_for_mapping en ac cn spec pm =
     (let from = PortMapping_From (en_is_label en) pm in
      case cn of
        Some cn \<Rightarrow> (case FindContainerIntercept cn from of Inl e \<Rightarrow> Inl (FindContainerErr e) | Inr ic \<Rightarrow> Inr ic)
      | None \<Rightarrow> (case FindIntercept ac (sp_service_name spec) (sp_container_name spec) from of
                   Inl e \<Rightarrow> Inl (FindErr e) | Inr (_, ic) \<Rightarrow> Inr ic))"

definition container_port_of :: "intercept \<Rightarrow> port_and_proto" where
  "container_port_of ic = \<lparr>Port = ic_ContainerPort ic, Proto = ic_Protocol ic\<rparr>"

fun check_mappings ::
    "mgr_env \<Rightarrow> sidecar \<Rightarrow> container option \<Rightarrow> intercept_spec \<Rightarrow> string list \<Rightarrow> port_and_proto list \<Rightarrow> port_and_proto list
     \<Rightarrow> mgr_error + (string list \<times> port_and_proto list)" where
  "check_mappings en ac cn spec [] containerPorts uniqueTargets = Inr ([], containerPorts)"
| "check_mappings en ac cn spec (pm # pms) containerPorts uniqueTargets =
     (case find_for_mapping en ac cn spec pm of
        Inl e \<Rightarrow> Inl e
      | Inr pmIc \<Rightarrow>
          (let to = ToAsNumeric (en_is_label en) pm; from = container_port_of pmIc in
           if to \<in> set uniqueTargets then Inl (PlainErr (''multiple port definitions targeting '' @ PortAndProto_String to))
           else if from \<in> set containerPorts then
             Inl (PlainErr (''multiple port definitions using container port '' @ PortAndProto_String from))
           else (case check_mappings en ac cn spec pms (containerPorts @ [from]) (uniqueTargets @ [to]) of
                   Inl e \<Rightarrow> Inl e
                 | Inr (podPorts, cps) \<Rightarrow> Inr ((itoa (unat (ic_ContainerPort pmIc)) @ '':'' @ PortAndProto_String to) # podPorts, cps))))"

definition checkPortConsistency ::
    "mgr_env \<Rightarrow> sidecar \<Rightarrow> container option \<Rightarrow> intercept \<Rightarrow> intercept_spec \<Rightarrow> mgr_error + (string list \<times> port_and_proto list)" where
  "checkPortConsistency en ac cn ic spec =
     (if length (sp_pod_ports spec) = 0 then Inr ([], [container_port_of ic])
      else check_mappings en ac cn spec (sp_pod_ports spec) [container_port_of ic]
             [\<lparr>Port = ucast (sp_target_port spec), Proto = ic_Protocol ic\<rparr>])"

section \<open>Conflicts with other intercepts\<close>

definition port_text :: "intercept_spec \<Rightarrow> string" where
  "port_text oSpec =
     (if sp_service_uid oSpec = [] then
        ''container '' @ sp_container_name oSpec @ '', port '' @ signed_itoa (sint (sp_container_port oSpec))
      else if sint (sp_service_port oSpec) > 0 then ''port '' @ signed_itoa (sint (sp_service_port oSpec))
      else ''port '' @ quote (sp_service_port_name oSpec))"

definition client_inactive :: "mgr_env \<Rightarrow> mgr_state \<Rightarrow> intercept_info \<Rightarrow> bool" where
  "client_inactive en s ii =
     (case map_of (ms_clients s) (si_session_id (ii_client_session ii)) of
        None \<Rightarrow> True
      | Some cs \<Rightarrow> int (en_now en) - cl_timestamp cs > en_InterceptInactiveBlockTimeout en)"

text \<open>The loop over the potential conflicts, with the intercepts to override and the messages for them.\<close>

fun collect_overrides ::
    "mgr_env \<Rightarrow> mgr_state \<Rightarrow> client_session \<Rightarrow> intercept_spec \<Rightarrow> intercept_info list \<Rightarrow> (string \<times> string) list
     \<Rightarrow> mgr_error + (string \<times> string) list" where
  "collect_overrides en s client spec [] overrides = Inr overrides"
| "collect_overrides en s client spec (otherIc # rest) overrides =
     (let oSpec = ii_spec otherIc; port = port_text oSpec; explain = ExplainConflict (en_rx en) spec oSpec in
      if \<not> IsInConflict (en_rx en) spec oSpec then collect_overrides en s client spec rest overrides
      else if client_inactive en s otherIc then
        collect_overrides en s client spec rest
          (AList.update (ii_id otherIc)
            (''conflict with intercept '' @ cl_id client @ '':'' @ sp_name spec @ '' on '' @ port @ '' created by client ''
              @ quote (sp_client spec) @ '': '' @ explain) overrides)
      else Inl (PlainErr (''conflict with intercept '' @ ii_id otherIc @ '' on '' @ port @ '' created by client ''
              @ quote (sp_client oSpec) @ '': '' @ explain)))"

definition potential_conflicts :: "sidecar \<Rightarrow> port_and_proto list \<Rightarrow> mgr_state \<Rightarrow> intercept_info list" where
  "potential_conflicts ac containerPorts s =
     map (\<lambda>(_, it). it_info it)
       (LoadMatching (\<lambda>_ it. PotentialConflict (sc_AgentName ac) (sc_Namespace ac) containerPorts (it_info it)) (ms_intercepts s))"

definition override_one :: "mgr_env \<Rightarrow> string \<times> string \<Rightarrow> mgr_state \<Rightarrow> mgr_state option" where
  "override_one en o_msg s =
     map_option snd (UpdateIntercept (en_now en) (fst o_msg) (\<lambda>i. i\<lparr>ii_disposition := AGENT_ERROR, ii_message := snd o_msg\<rparr>) s)"

definition checkInterceptConflicts ::
    "mgr_env \<Rightarrow> sidecar \<Rightarrow> client_session \<Rightarrow> port_and_proto list \<Rightarrow> intercept_spec \<Rightarrow> mgr_state
     \<Rightarrow> (mgr_error option \<times> mgr_state) option" where
  "checkInterceptConflicts en ac client containerPorts spec s =
     (if sp_wiretap spec then Some (None, s)
      else (case collect_overrides en s client spec (potential_conflicts ac containerPorts s) [] of
              Inl e \<Rightarrow> Some (Some e, s)
            | Inr overrides \<Rightarrow> map_option (Pair None) (fold_option (override_one en) overrides s)))"

definition checkInterceptConsistency ::
    "mgr_env \<Rightarrow> sidecar \<Rightarrow> container option \<Rightarrow> create_request \<Rightarrow> client_session \<Rightarrow> prepared_intercept \<Rightarrow> mgr_state
     \<Rightarrow> ((mgr_error + prepared_intercept) \<times> mgr_state) option" where
  "checkInterceptConsistency en ac cn cr client pi s =
     (let spec = cir_spec cr; portID = sp_port_identifier spec in
      if \<not> en_InterceptAllowGlobal en \<and> (sp_replace spec \<or> \<not> (sp_wiretap spec \<or> sp_mechanism spec = ''http'')) then
        Some (Inl (PlainErr ''global TCP/UDP intercepts and replaces are disabled. Use --http-header or --http-path-* flags for HTTP intercepts''), s)
      else
        (case (case cn of
                 Some cn \<Rightarrow> (case FindContainerIntercept cn portID of Inl e \<Rightarrow> Inl (FindContainerErr e) | Inr ic \<Rightarrow> Inr (cn, ic))
               | None \<Rightarrow> (case FindIntercept ac (pi_service_name pi) (pi_container_name pi) portID of
                            Inl e \<Rightarrow> Inl (FindErr e) | Inr r \<Rightarrow> Inr r)) of
           Inl e \<Rightarrow> Some (Inl e, s)
         | Inr (fcn, ic) \<Rightarrow>
             (case checkPortConsistency en ac cn ic spec of
                Inl e \<Rightarrow> Some (Inl e, s)
              | Inr (podPorts, containerPorts) \<Rightarrow>
                  Option.bind (checkInterceptConflicts en ac client containerPorts spec s) (\<lambda>(err, s).
                    case err of
                      Some e \<Rightarrow> Some (Inl e, s)
                    | None \<Rightarrow>
                        Some (Inr (pi\<lparr>pi_container_name := cn_Name fcn, pi_service_uid := ic_ServiceUID ic,
                               pi_service_name := ic_ServiceName ic, pi_service_port_name := ic_ServicePortName ic,
                               pi_protocol := Proto_String (ic_Protocol ic), pi_container_port := ucast (ic_ContainerPort ic),
                               pi_service_port := ucast (ic_ServicePort ic), pi_pod_ports := podPorts\<rparr>), s)))))"

section \<open>Agent configurations\<close>

definition workload_String :: "workload \<Rightarrow> string" where
  "workload_String wl = wl_Kind wl @ '' '' @ wl_Name wl @ ''.'' @ wl_Namespace wl"

definition isExtended :: "intercept_spec \<Rightarrow> bool" where
  "isExtended spec = (sp_mechanism spec \<noteq> ''tcp'' \<and> sp_mechanism spec \<noteq> ''http'')"

definition ValidateAgentImage :: "string \<Rightarrow> bool \<Rightarrow> mgr_error option" where
  "ValidateAgentImage agentImage extended =
     (if agentImage = [] then
        Some (UserErr (PlainErr ''intercepts are disabled because the traffic-manager is unable to determine what image to use for injected traffic-agents.''))
      else if extended then
        Some (UserErr (PlainErr ''traffic-manager does not support intercepts that require an extended traffic-agent''))
      else None)"

definition checkInterceptAnnotations :: "workload \<Rightarrow> mgr_error + bool" where
  "checkInterceptAnnotations wl =
     (let pod = wl_PodTemplate wl; a = pt_Annotations pod;
          manuallyManaged = (GetAnnotation a ManuallyInjected LegacyManuallyInjected = ''true'');
          ia = GetAnnotation a InjectTrafficAgent LegacyInjectTrafficAgent
      in if ia \<notin> {[], ''enabled'', ''false'', ''disabled''} then
           Inl (UserErr (PlainErr (ia @ '' is not a valid value for the '' @ wl_Name wl @ ''.'' @ wl_Namespace wl @ ''/'' @ InjectTrafficAgent @ '' annotation'')))
         else if \<not> manuallyManaged then Inr (ia = [] \<or> ia = ''enabled'')
         else if list_ex (\<lambda>cn. kc_Name cn = ContainerName) (pt_Containers pod) then Inr True
         else Inl (UserErr (PlainErr (''annotation '' @ wl_Name wl @ ''.'' @ wl_Namespace wl @ ''/'' @ ManuallyInjected @ ''=true but pod has no traffic-agent container''))))"

definition createAgentConfig :: "mgr_env \<Rightarrow> workload \<Rightarrow> string \<Rightarrow> (mgr_error + sidecar) option" where
  "createAgentConfig en wl agentImage =
     (case wo_generator (en_world en) agentImage of
        Inl e \<Rightarrow> Some (Inl (PlainErr e))
      | Inr gc \<Rightarrow>
          map_option (\<lambda>(r, _). case r of Inl e \<Rightarrow> Inl (GenErr e) | Inr sc \<Rightarrow> Inr sc) (Generate (wo_cluster (en_world en)) wl None gc))"

definition set_replace :: "replace_policy \<Rightarrow> container \<Rightarrow> sidecar \<Rightarrow> sidecar" where
  "set_replace rp cn sc = sc\<lparr>sc_Containers := map (\<lambda>k. if k = cn then k\<lparr>cn_Replace := rp\<rparr> else k) (sc_Containers sc)\<rparr>"

definition spec_container :: "sidecar \<Rightarrow> intercept_spec \<Rightarrow> mgr_error + container" where
  "spec_container sc spec =
     (if sp_no_default_port spec then (case FindContainer sc spec of Inl e \<Rightarrow> Inl (FindContainerErr e) | Inr cn \<Rightarrow> Inr cn)
      else (case icept_FindIntercept sc spec of Inl e \<Rightarrow> Inl (FindErr e) | Inr (cn, _) \<Rightarrow> Inr cn))"

text \<open>What the update of the stored configuration makes of it; \<open>created\<close> is a newly generated one.\<close>

definition agent_config_updater ::
    "string \<Rightarrow> intercept_spec option \<Rightarrow> replace_policy \<Rightarrow> (mgr_error + sidecar) \<Rightarrow> sidecar option \<Rightarrow> mgr_error + sidecar option" where
  "agent_config_updater agentImage spec rp created osc =
     (case (case osc of Some sc \<Rightarrow> Inr (sc\<lparr>sc_AgentImage := agentImage\<rparr>) | None \<Rightarrow> created) of
        Inl e \<Rightarrow> Inl e
      | Inr sc \<Rightarrow>
          (case spec of
             None \<Rightarrow> Inr (Some sc)
           | Some spec \<Rightarrow> (case spec_container sc spec of Inl e \<Rightarrow> Inl e | Inr cn \<Rightarrow> Inr (Some (set_replace rp cn sc)))))"

definition getOrCreateAgentConfig ::
    "mgr_env \<Rightarrow> workload \<Rightarrow> bool \<Rightarrow> bool \<Rightarrow> intercept_spec option \<Rightarrow> replace_policy \<Rightarrow> mgr_state
     \<Rightarrow> ((mgr_error + sidecar) \<times> mgr_state) option" where
  "getOrCreateAgentConfig en wl extended dryRun spec rp s =
     (case checkInterceptAnnotations wl of
        Inl e \<Rightarrow> Some (Inl e, s)
      | Inr enabled \<Rightarrow>
          if \<not> enabled then Some (Inl (UserErr (PlainErr (workload_String wl @ '' is not interceptable''))), s)
          else
            (let agentImage = wo_agentImage (en_world en); osc = Get (wl_Name wl) (wl_Namespace wl) (ms_configs s) in
             case ValidateAgentImage agentImage extended of
               Some e \<Rightarrow> Some (Inl e, s)
             | None \<Rightarrow>
                 Option.bind (case osc of Some sc \<Rightarrow> Some (Inr sc) | None \<Rightarrow> createAgentConfig en wl agentImage) (\<lambda>created.
                   if dryRun then Some (created, s)
                   else
                     (case cw_Update (wl_Name wl) (wl_Namespace wl) (\<lambda>o_sc c. (agent_config_updater agentImage spec rp created o_sc, c))
                             (ms_configs s) of
                        (Inl e, c) \<Rightarrow> Some (Inl e, s\<lparr>ms_configs := c\<rparr>)
                      | (Inr (Some sc), c) \<Rightarrow> Some (Inr sc, s\<lparr>ms_configs := c\<rparr>)
                      | (Inr None, c) \<Rightarrow> None))))"

section \<open>Waiting for an agent\<close>

definition transientNotes :: "string list" where
  "transientNotes = [''waiting for ephemeral volume'', ''unbound immediate PersistentVolumeClaims'', ''skip schedule deleting pod'',
     ''nodes are available'', ''running Bind plugin'']"

definition IsTerminal :: "k8s_event \<Rightarrow> bool" where
  "IsTerminal e =
     (if ev_Reason e = ''BackOff'' then True
      else if ev_Reason e \<in> {''Failed'', ''FailedCreate'', ''FailedScheduling''} then
        \<not> (ev_Type e = ''Warning'' \<and> list_ex (contains_text (ev_Note e)) transientNotes)
      else False)"

definition terminal_text :: "k8s_event \<Rightarrow> string" where
  "terminal_text fe =
     (if ev_Reason fe = ''BackOff'' then
        ev_Note fe @ [CHR 0x0A] @ ''The logs of '' @ ev_Kind fe @ '' '' @ ev_Name fe @ '' might provide more details''
      else if ev_Reason fe \<in> {''Failed'', ''FailedCreate'', ''FailedScheduling''} then
        ev_Note fe @ [CHR 0x0A] @ ''Hint: if the error mentions resource quota, the traffic-agent's requested resources can be configured by providing values to telepresence helm install''
      else ev_Note fe)"

datatype wait_event =
    FailedEvent k8s_event | FailedClosed | AgentDelta "(string \<times> agent_session) list" | AgentsClosed | CtxDone bool

text \<open>Before each event other goroutines may change the state.\<close>

fun waitForAgents ::
    "sidecar \<Rightarrow> k8s_event list \<Rightarrow> ((mgr_state \<Rightarrow> mgr_state) \<times> wait_event) list \<Rightarrow> mgr_state
     \<Rightarrow> ((wait_error + agent_session list) \<times> mgr_state) option" where
  "waitForAgents ac fes [] s = None"
| "waitForAgents ac fes ((others, ev) # evs) s =
     (let s = others s in
      case ev of
        FailedClosed \<Rightarrow> Some (Inl CreateClosed, s)
      | FailedEvent fe \<Rightarrow>
          if \<not> IsTerminal fe then waitForAgents ac (fes @ [fe]) evs s
          else Some (Inl (Terminal (terminal_text fe)), s)
      | AgentsClosed \<Rightarrow> Some (Inl (DeltaClosed (sc_AgentName ac) (sc_Namespace ac)), s)
      | AgentDelta upserts \<Rightarrow>
          (case find (\<lambda>(_, a). \<not> IsInactive (ai_pod_uid (ag_info a)) (ms_configs s)) upserts of
             Some (_, a) \<Rightarrow> Some (Inr [a], s)
           | None \<Rightarrow> waitForAgents ac fes evs s)
      | CtxDone deadline \<Rightarrow> Some (Inl (WaitEnded deadline (sc_AgentName ac) (sc_Namespace ac) fes), s))"

definition LoadMatchingAgents :: "(agent_session \<Rightarrow> bool) \<Rightarrow> mgr_state \<Rightarrow> agent_session list" where
  "LoadMatchingAgents f s =
     map snd (LoadMatching (\<lambda>_ ag. \<not> IsInactive (ai_pod_uid (ag_info ag)) (ms_configs s) \<and> f ag) (ms_agents s))"

definition sortAgents :: "agent_session list \<Rightarrow> agent_session list" where
  "sortAgents = sort_key (\<lambda>a. map (of_char :: char \<Rightarrow> nat) (ai_pod_name (ag_info a)))"

definition dropAgentConfig :: "workload \<Rightarrow> mgr_state \<Rightarrow> mgr_state" where
  "dropAgentConfig wl s = s\<lparr>ms_configs := cw_Delete (wl_Name wl) (wl_Namespace wl) (ms_configs s)\<rparr>"

definition ensureAgent ::
    "mgr_env \<Rightarrow> ((mgr_state \<Rightarrow> mgr_state) \<times> wait_event) list \<Rightarrow> workload \<Rightarrow> bool \<Rightarrow> bool \<Rightarrow> intercept_spec option \<Rightarrow> replace_policy \<Rightarrow> mgr_state
     \<Rightarrow> ((mgr_error + (sidecar \<times> agent_session list)) \<times> mgr_state) option" where
  "ensureAgent en evs wl extended dryRun spec rp s =
     (if cl_matches (wo_cluster (en_world en)) TrafficManagerSelector (wl_Labels wl) then
        Some (Inl (StatusErr CodeFailedPrecondition (workload_String wl @ '' is the Telepresence Traffic Manager. It can not have a traffic-agent'')), s)
      else if \<not> en_AgentInjectorEnabled en then
        (case map_of (pt_Annotations (wl_PodTemplate wl)) Config of
           None \<Rightarrow> Some (Inl (StatusErr CodeFailedPrecondition (''agent-injector is disabled and no agent has been added manually for '' @ workload_String wl)), s)
         | Some cfgJSON \<Rightarrow>
             (case wo_unmarshal (en_world en) cfgJSON of
                Inl e \<Rightarrow> Some (Inl (PlainErr e), s)
              | Inr sc \<Rightarrow>
                  Some (Inr (sc, sortAgents (LoadMatchingAgents (\<lambda>ag. ai_name (ag_info ag) = sc_AgentName sc \<and> ai_namespace (ag_info ag) = sc_Namespace sc) s)), s)))
      else if dryRun then
        map_option (\<lambda>(r, s). (case r of Inl e \<Rightarrow> Inl e | Inr sc \<Rightarrow> Inr (sc, []), s)) (getOrCreateAgentConfig en wl extended dryRun spec rp s)
      else
        (case en_WatchWarnings en (wl_Namespace wl) (wl_Name wl) of
           Some e \<Rightarrow> Some (Inl (PlainErr e), s)
         | None \<Rightarrow>
             Option.bind (getOrCreateAgentConfig en wl extended dryRun spec rp s) (\<lambda>(r, s).
               case r of
                 Inl e \<Rightarrow> Some (Inl e, s)
               | Inr sc \<Rightarrow>
                   (case EvictPodsWithAgentConfigMismatch (en_world en) wl sc (ms_configs s) of (err, c) \<Rightarrow>
                      let s = s\<lparr>ms_configs := c\<rparr> in
                      case err of
                        Some e \<Rightarrow> Some (Inl (PlainErr e), s)
                      | None \<Rightarrow>
                          map_option (\<lambda>(r, s). case r of
                              Inl e \<Rightarrow> (Inl (WaitErr e), dropAgentConfig wl s)
                            | Inr as \<Rightarrow> (Inr (sc, sortAgents as), s))
                            (waitForAgents sc [] evs s)))))"

section \<open>Preparation\<close>

fun find_workload :: "world \<Rightarrow> string \<Rightarrow> string \<Rightarrow> string list \<Rightarrow> mgr_error + workload" where
  "find_workload w name ns [] = Inl (UserErr (K8sErr NotFound))"
| "find_workload w name ns (ek # eks) =
     (case wo_workload w name ns ek of
        Inr wl \<Rightarrow> Inr wl
      | Inl NotFound \<Rightarrow> find_workload w name ns eks
      | Inl e \<Rightarrow> Inl (K8sErr e))"

definition requested_workload :: "mgr_env \<Rightarrow> intercept_spec \<Rightarrow> mgr_error + workload" where
  "requested_workload en spec =
     (let w = en_world en; kind = sp_workload_kind spec in
      if kind = [] then find_workload w (sp_agent spec) (sp_namespace spec) (wo_kinds w)
      else if kind \<notin> set (wo_kinds w) then Inl (UserErr (PlainErr (''The '' @ kind @ '' kind is an not enabled workload kind'')))
      else (case wo_workload w (sp_agent spec) (sp_namespace spec) kind of
              Inr wl \<Rightarrow> Inr wl
            | Inl NotFound \<Rightarrow> Inl (UserErr (K8sErr NotFound))
            | Inl e \<Rightarrow> Inl (K8sErr e)))"

definition spec_policy :: "intercept_spec \<Rightarrow> replace_policy" where
  "spec_policy spec = (if sp_replace spec then ReplacePolicyContainer else ReplacePolicyIntercept)"

definition interceptError :: "mgr_error \<Rightarrow> mgr_error + prepared_intercept" where
  "interceptError e =
     (if is_status e then Inl e else Inr (zero_prepared\<lparr>pi_error := Some e, pi_error_category := Some (GetCategory e)\<rparr>))"

definition mark_client :: "int \<Rightarrow> string \<Rightarrow> mgr_state \<Rightarrow> mgr_state" where
  "mark_client now i s =
     s\<lparr>ms_clients := map (\<lambda>(k, cs). (k, if k = i then cs\<lparr>cl_timestamp := snd (Mark now (cl_timestamp cs))\<rparr> else cs)) (ms_clients s)\<rparr>"

definition prepare_ports ::
    "mgr_env \<Rightarrow> sidecar \<Rightarrow> create_request \<Rightarrow> client_session \<Rightarrow> prepared_intercept \<Rightarrow> mgr_state
     \<Rightarrow> ((mgr_error + prepared_intercept) \<times> mgr_state) option" where
  "prepare_ports en ac cr client pi s =
     (let spec = cir_spec cr in
      if sp_no_default_port spec then
        (case FindContainer ac spec of
           Inl e \<Rightarrow> Some (Inl (FindContainerErr e), s)
         | Inr cn \<Rightarrow>
             (let pi = pi\<lparr>pi_container_name := cn_Name cn, pi_service_name := []\<rparr> in
              if sp_port_identifier spec = ''all'' then Some (Inr (prepareAllContainerPorts cn pi), s)
              else if sp_port_identifier spec \<noteq> [] then checkInterceptConsistency en ac (Some cn) cr client pi s
              else Some (Inr pi, s)))
      else checkInterceptConsistency en ac None cr client pi s)"

definition PrepareIntercept ::
    "mgr_env \<Rightarrow> create_request \<Rightarrow> client_session \<Rightarrow> mgr_state \<Rightarrow> ((mgr_error + prepared_intercept) \<times> mgr_state) option" where
  "PrepareIntercept en cr client s =
     (let spec = cir_spec cr in
      case requested_workload en spec of
        Inl e \<Rightarrow> Some (interceptError e, s)
      | Inr wl \<Rightarrow>
          Option.bind (ensureAgent en [] wl (isExtended spec) True (Some spec) (spec_policy spec) s) (\<lambda>(r, s).
            case r of
              Inl e \<Rightarrow> Some (interceptError e, s)
            | Inr (ac, _) \<Rightarrow>
                map_option (\<lambda>(r, s). case r of
                    Inl e \<Rightarrow> (interceptError (User_New e), s)
                  | Inr pi \<Rightarrow> (Inr (pi\<lparr>pi_service_ips := serviceIPs en (pi_service_name pi) (sc_Namespace ac)\<rparr>),
                              mark_client (int (en_now en)) (cl_id client) s))
                  (prepare_ports en ac cr client
                    (zero_prepared\<lparr>pi_namespace := sc_Namespace ac, pi_agent_image := sc_AgentImage ac, pi_workload_kind := sc_WorkloadKind ac,
                       pi_container_name := sp_container_name spec, pi_service_name := sp_service_name spec\<rparr>) s)))"

section \<open>Creation\<close>

definition NewInterceptInfo :: "mgr_env \<Rightarrow> string \<Rightarrow> create_request \<Rightarrow> intercept_info" where
  "NewInterceptInfo en i cir = zero_info\<lparr>ii_spec := cir_spec cir, ii_disposition := WAITING, ii_message := ''Waiting for Agent approval'',
     ii_id := i, ii_client_session := cir_session cir, ii_modified_at := en_now en\<rparr>"

text \<open>The new intercept is an object with a reference of its own.\<close>

definition addIntercept :: "mgr_env \<Rightarrow> string \<Rightarrow> create_request \<Rightarrow> mgr_state \<Rightarrow> (mgr_error + intercept_state) \<times> mgr_state" where
  "addIntercept en i cir s =
     (let info = NewInterceptInfo en i cir;
          (errCode, errMsg) = checkAgentsForIntercept info s;
          info = (if errCode \<noteq> UNSPECIFIED then info\<lparr>ii_disposition := errCode, ii_message := errMsg\<rparr> else info);
          is = \<lparr>it_ref = ms_refs s, it_info = info, it_finalizers = []\<rparr>;
          s = s\<lparr>ms_refs := ms_refs s + 1\<rparr>
      in case LoadOrStore interceptEqual zero_intercept i is (ms_intercepts s) of
           ((existing, True), m) \<Rightarrow>
             if ii_disposition (it_info existing) \<noteq> REMOVED then
               (Inl (StatusErr CodeAlreadyExists (''Intercept named '' @ quote (sp_name (ii_spec info)) @ '' already exists'')), s)
             else (Inr is, s\<lparr>ms_intercepts := cache_Store interceptEqual zero_intercept i is (ms_intercepts s)\<rparr>)
         | ((_, False), m) \<Rightarrow> (Inr is, s\<lparr>ms_intercepts := m\<rparr>))"

text \<open>A finalizer goes to the object, which the map may no longer hold.\<close>

definition addFinalizer :: "nat \<Rightarrow> finalizer \<Rightarrow> mgr_state \<Rightarrow> mgr_state" where
  "addFinalizer ref f s =
     s\<lparr>ms_intercepts := (ms_intercepts s)\<lparr>cm_entries := map (\<lambda>(k, it). (k, if it_ref it = ref then it\<lparr>it_finalizers := it_finalizers it @ [f]\<rparr> else it))
        (cm_entries (ms_intercepts s))\<rparr>\<rparr>"

definition AddInterceptFinalizer :: "string \<Rightarrow> finalizer \<Rightarrow> mgr_state \<Rightarrow> mgr_state" where
  "AddInterceptFinalizer i f s = (case icept_lookup s i of None \<Rightarrow> s | Some is \<Rightarrow> addFinalizer (it_ref is) f s)"

text \<open>The conversion of a byte to a string is the UTF-8 text of the code point with that number.\<close>

definition string_of_byte :: "byte \<Rightarrow> string" where
  "string_of_byte b =
     (let n = unat b in
      if n < 128 then [char_of n] else [char_of (192 + n div 64), char_of (128 + n mod 64)])"

definition child_request :: "mgr_env \<Rightarrow> create_request \<Rightarrow> string \<Rightarrow> u16 \<Rightarrow> port_and_proto \<Rightarrow> create_request" where
  "child_request en cir pm from to =
     (let spec = cir_spec cir in
      cir\<lparr>cir_spec := spec\<lparr>sp_name := sp_name spec @ ''-'' @ itoa (unat from) @ ''-'' @ to_lower (string_of_byte (Proto to)),
        sp_pod_ports := [], sp_local_ports := [], sp_service_uid := [], sp_service_port_name := [], sp_service_port := 0,
        sp_protocol := string_of_byte (Proto to), sp_container_port := ucast from,
        sp_port_identifier := PortIdentifier_String (PortMapping_From (en_is_label en) pm),
        sp_target_port := ucast (Port (ToAsNumeric (en_is_label en) pm)),
        sp_client := ''child '' @ pm @ '' '' @ sp_name spec @ '' '' @ sp_client spec\<rparr>\<rparr>)"

definition intercept_id :: "create_request \<Rightarrow> string" where
  "intercept_id cir = si_session_id (cir_session cir) @ '':'' @ sp_name (cir_spec cir)"

text \<open>\<open>others i\<close> is what other goroutines do before the \<open>i\<close>-th child is added.\<close>

fun add_children ::
    "mgr_env \<Rightarrow> (nat \<Rightarrow> mgr_state \<Rightarrow> mgr_state) \<Rightarrow> create_request \<Rightarrow> nat \<Rightarrow> nat \<Rightarrow> string list \<Rightarrow> mgr_state \<Rightarrow> mgr_error option \<times> mgr_state" where
  "add_children en others cir ref i [] s = (None, others i s)"
| "add_children en others cir ref i (pm # pms) s =
     (let s = others i s in
      case FromNumberAndTo pm of
        Inl e \<Rightarrow> (Some (StatusErr CodeInternal (''invalid pod_port '' @ quote pm)), s)
      | Inr (from, to) \<Rightarrow>
          (let child = child_request en cir pm from to in
           case addIntercept en (intercept_id child) child s of
             (Inl e, s) \<Rightarrow> (Some e, s)
           | (Inr _, s) \<Rightarrow> add_children en others cir ref (i + 1) pms (addFinalizer ref (DeleteIntercept (intercept_id child)) s)))"

definition AddIntercept ::
    "mgr_env \<Rightarrow> ((mgr_state \<Rightarrow> mgr_state) \<times> wait_event) list \<Rightarrow> (nat \<Rightarrow> mgr_state \<Rightarrow> mgr_state) \<Rightarrow> create_request \<Rightarrow> mgr_state
     \<Rightarrow> ((mgr_error + (client_session \<times> intercept_info)) \<times> mgr_state) option" where
  "AddIntercept en evs others cir s =
     (let sessionID = si_session_id (cir_session cir); spec = cir_spec cir in
      case map_of (ms_clients s) sessionID of
        None \<Rightarrow> Some (Inl (StatusErr CodeNotFound (''session '' @ quote sessionID @ '' not found'')), s)
      | Some client \<Rightarrow>
          (case wo_workload (en_world en) (sp_agent spec) (sp_namespace spec) (sp_workload_kind spec) of
             Inl NotFound \<Rightarrow> Some (Inl (StatusErr CodeNotFound []), s)
           | Inl (ApiError e) \<Rightarrow> Some (Inl (StatusErr CodeInternal e), s)
           | Inr wl \<Rightarrow>
               map_option (\<lambda>(r, s).
                 case r of
                   Inl e \<Rightarrow> (Inl e, s)
                 | Inr _ \<Rightarrow>
                     (case addIntercept en (intercept_id cir) cir s of
                        (Inl e, s) \<Rightarrow> (Inl e, s)
                      | (Inr is, s) \<Rightarrow>
                          (case add_children en others cir (it_ref is) 0 (sp_pod_ports spec) s of
                             (Some e, s) \<Rightarrow> (Inl e, s)
                           | (None, s) \<Rightarrow> (Inr (client, it_info is), AddInterceptFinalizer (intercept_id cir) (RestoreApp wl) s))))
                 (ensureAgent en evs wl (isExtended spec) False (Some spec) (spec_policy spec) s)))"

definition GetParentIntercept :: "string \<Rightarrow> intercept_spec \<Rightarrow> mgr_state \<Rightarrow> intercept_state option" where
  "GetParentIntercept sessionID spec s =
     (let childCols = split_byte (CHR '' '') (sp_client spec) in
      if length childCols \<noteq> 4 then None else icept_lookup s (sessionID @ '':'' @ childCols ! 2))"

section \<open>Restoring\<close>

definition restore_one :: "mgr_env \<Rightarrow> intercept_info \<Rightarrow> mgr_state \<times> intercept_info list \<Rightarrow> mgr_state \<times> intercept_info list" where
  "restore_one en ii sc =
     (let (s, addedChildren) = sc; spec = ii_spec ii;
          child = IsChildIntercept spec;
          fs = (if child then []
                else (case wo_workload (en_world en) (sp_agent spec) (sp_namespace spec) (sp_workload_kind spec) of
                        Inr wl \<Rightarrow> [RestoreApp wl] | Inl _ \<Rightarrow> []))
      in case LoadOrCompute interceptEqual zero_intercept (ii_id ii) \<lparr>it_ref = ms_refs s, it_info = ii, it_finalizers = fs\<rparr> (ms_intercepts s) of
           ((_, loaded), m) \<Rightarrow>
             (s\<lparr>ms_intercepts := m, ms_refs := ms_refs s + 1\<rparr>, if \<not> loaded \<and> child then addedChildren @ [ii] else addedChildren))"

definition RestoreIntercepts :: "mgr_env \<Rightarrow> intercept_info list \<Rightarrow> mgr_state \<Rightarrow> mgr_state" where
  "RestoreIntercepts en intercepts s =
     (case fold (restore_one en) intercepts (s, []) of (s, addedChildren) \<Rightarrow>
        fold (\<lambda>ii s. case GetParentIntercept (si_session_id (ii_client_session ii)) (ii_spec ii) s of
                       Some parent \<Rightarrow> addFinalizer (it_ref parent) (DeleteIntercept (ii_id ii)) s
                     | None \<Rightarrow> s) addedChildren s)"

definition EnsureAgent ::
    "mgr_env \<Rightarrow> ((mgr_state \<Rightarrow> mgr_state) \<times> wait_event) list \<Rightarrow> string \<Rightarrow> string \<Rightarrow> mgr_state
     \<Rightarrow> ((mgr_error + agent_session list) \<times> mgr_state) option" where
  "EnsureAgent en evs n ns s =
     (case wo_workload (en_world en) n ns [] of
        Inl NotFound \<Rightarrow> Some (Inl (UserErr (K8sErr NotFound)), s)
      | Inl e \<Rightarrow> Some (Inl (K8sErr e), s)
      | Inr wl \<Rightarrow>
          map_option (\<lambda>(r, s). (case r of Inl e \<Rightarrow> Inl e | Inr (_, as) \<Rightarrow> Inr as, s))
            (ensureAgent en evs wl False False None ReplacePolicyInactive s))"

section \<open>Resolving conflicts\<close>

definition clash :: "mgr_env \<Rightarrow> sidecar \<Rightarrow> port_and_proto list \<Rightarrow> intercept_spec \<Rightarrow> intercept_info \<Rightarrow> bool" where
  "clash en ac cps spec ii \<longleftrightarrow> PotentialConflict (sc_AgentName ac) (sc_Namespace ac) cps ii \<and> IsInConflict (en_rx en) spec (ii_spec ii)"

lemma collect_overrides_Inl:
  "collect_overrides en s client spec iis ov = Inl e \<Longrightarrow>
   \<exists>ii\<in>set iis. IsInConflict (en_rx en) spec (ii_spec ii) \<and> \<not> client_inactive en s ii"
  by (induction iis arbitrary: ov) (auto simp: Let_def split: if_splits)

lemma collect_overrides_Inr:
  "collect_overrides en s client spec iis ov = Inr ov' \<Longrightarrow>
   (\<forall>ii\<in>set iis. IsInConflict (en_rx en) spec (ii_spec ii) \<longrightarrow> client_inactive en s ii)
   \<and> fst ` set ov' = fst ` set ov \<union> ii_id ` {ii \<in> set iis. IsInConflict (en_rx en) spec (ii_spec ii)}
   \<and> (distinct (map fst ov) \<longrightarrow> distinct (map fst ov'))"
proof (induction iis arbitrary: ov)
  case (Cons ii iis)
  show ?case
  proof (cases "IsInConflict (en_rx en) spec (ii_spec ii)")
    case False
    with Cons.prems have "collect_overrides en s client spec iis ov = Inr ov'" by (simp add: Let_def)
    from Cons.IH [OF this] False show ?thesis by auto
  next
    case True
    with Cons.prems obtain msg where c: "client_inactive en s ii" "collect_overrides en s client spec iis (AList.update (ii_id ii) msg ov) = Inr ov'"
      by (auto simp: Let_def split: if_splits)
    from Cons.IH [OF c(2)] c(1) True show ?thesis
      by (auto simp: dom_update distinct_update)
  qed
qed simp

lemma potential_conflicts_icepts:
  assumes "mgr_wf s"
  shows "ii \<in> set (potential_conflicts ac cps s) \<longleftrightarrow>
    PotentialConflict (sc_AgentName ac) (sc_Namespace ac) cps ii \<and> (\<exists>k fs. icepts s k = Some (ii, fs))"
proof -
  have d: "distinct (map fst (cm_entries (ms_intercepts s)))" using assms by (simp add: mgr_wf_def maps_wf_def)
  have "(\<exists>k fs. icepts s k = Some (ii, fs)) \<longleftrightarrow> (\<exists>k it. (k, it) \<in> set (cm_entries (ms_intercepts s)) \<and> it_info it = ii)"
    using d by (auto simp: icepts_def)
  then show ?thesis by (auto simp: potential_conflicts_def LoadMatching_def)
qed

definition overridden :: "nat \<Rightarrow> string \<Rightarrow> intercept_info \<Rightarrow> intercept_info" where
  "overridden now msg ii = ii\<lparr>ii_disposition := AGENT_ERROR, ii_message := msg, ii_modified_at := now\<rparr>"

lemma fold_overrides:
  assumes "mgr_wf s" and "distinct (map fst ov)" and "\<And>k. k \<in> fst ` set ov \<Longrightarrow> icepts s k \<noteq> None"
  shows "\<exists>s'. fold_option (override_one en) ov s = Some s' \<and> same_frame s s' \<and> mgr_wf s'
    \<and> (\<forall>k. icepts s' k = (case map_of ov k of None \<Rightarrow> icepts s k | Some m \<Rightarrow> map_option (\<lambda>(ii, fs). (overridden (en_now en) m ii, fs)) (icepts s k)))"
  using assms
proof (induction ov arbitrary: s)
  case (Cons om ov)
  obtain i m where om: "om = (i, m)" by fastforce
  from Cons.prems(3) [of i] obtain ii fs where ii: "icepts s i = Some (ii, fs)" by (auto simp: om)
  obtain s1 where s1: "override_one en om s = Some s1" "same_frame s s1" "mgr_wf s1"
    "\<And>k. icepts s1 k = (if k = i then Some (overridden (en_now en) m ii, fs) else icepts s k)"
    using UpdateIntercept_step [OF Cons.prems(1) ii, of "\<lambda>x. x\<lparr>ii_disposition := AGENT_ERROR, ii_message := m\<rparr>" "overridden (en_now en) m ii" "en_now en"]
    by (auto simp: override_one_def om overridden_def)
  have "\<And>k. k \<in> fst ` set ov \<Longrightarrow> icepts s1 k \<noteq> None" using s1(4) Cons.prems(3) by auto
  with Cons.IH [OF s1(3)] Cons.prems(2) obtain s2 where s2: "fold_option (override_one en) ov s1 = Some s2" "same_frame s1 s2" "mgr_wf s2"
    "\<And>k. icepts s2 k = (case map_of ov k of None \<Rightarrow> icepts s1 k | Some m \<Rightarrow> map_option (\<lambda>(ii, fs). (overridden (en_now en) m ii, fs)) (icepts s1 k))"
    by auto
  have "map_of ov i = None" using Cons.prems(2) by (simp add: om map_of_eq_None_iff)
  with s1 s2 ii same_frame_trans [OF s1(2) s2(2)] show ?case by (auto simp: om split: option.splits)
qed simp

text \<open>
  What the check for conflicts does: it fails exactly when an active client holds an intercept that
  clashes, and then changes nothing; otherwise every clashing intercept is put in error, and the others
  are as they were.
\<close>

lemma conflicts_result:
  assumes "mgr_wf s" and "\<not> sp_wiretap spec"
  shows "\<exists>err s'. checkInterceptConflicts en ac client cps spec s = Some (err, s') \<and> mgr_wf s' \<and> same_frame s s'
    \<and> (err \<noteq> None \<longleftrightarrow> (\<exists>k ii fs. icepts s k = Some (ii, fs) \<and> clash en ac cps spec ii \<and> \<not> client_inactive en s ii))
    \<and> (if err \<noteq> None then s' = s
       else (\<forall>k. \<exists>msg. icepts s' k = map_option (\<lambda>(ii, fs). (if clash en ac cps spec ii then overridden (en_now en) msg ii else ii, fs)) (icepts s k)))"
proof (cases "collect_overrides en s client spec (potential_conflicts ac cps s) []")
  case (Inl e)
  from collect_overrides_Inl [OF this] potential_conflicts_icepts [OF assms(1)] Inl assms show ?thesis
    by (fastforce simp: checkInterceptConflicts_def clash_def)
next
  case (Inr ov)
  note c = collect_overrides_Inr [OF Inr]
  have keys: "k \<in> fst ` set ov \<longleftrightarrow> (\<exists>ii fs. icepts s k = Some (ii, fs) \<and> clash en ac cps spec ii)" for k
  proof -
    have "k \<in> fst ` set ov \<longleftrightarrow> (\<exists>ii k' fs. icepts s k' = Some (ii, fs) \<and> clash en ac cps spec ii \<and> k = ii_id ii)"
      using c potential_conflicts_icepts [OF assms(1), of _ ac cps] by (auto simp: clash_def)
    then show ?thesis using icepts_wf [OF assms(1)] by metis
  qed
  from fold_overrides [OF assms(1), of ov en] c keys obtain s' where s': "fold_option (override_one en) ov s = Some s'" "same_frame s s'" "mgr_wf s'"
    "\<And>k. icepts s' k = (case map_of ov k of None \<Rightarrow> icepts s k | Some m \<Rightarrow> map_option (\<lambda>(ii, fs). (overridden (en_now en) m ii, fs)) (icepts s k))"
    by auto
  have each: "\<exists>msg. icepts s' k = map_option (\<lambda>(ii, fs). (if clash en ac cps spec ii then overridden (en_now en) msg ii else ii, fs)) (icepts s k)" for k
  proof (cases "map_of ov k")
    case None
    then have "\<not> (\<exists>ii fs. icepts s k = Some (ii, fs) \<and> clash en ac cps spec ii)" using keys [of k] by (simp add: map_of_eq_None_iff)
    with None show ?thesis by (cases "icepts s k") (auto simp: s'(4))
  next
    case (Some m)
    from map_of_SomeD [OF this] keys [of k] have "\<exists>ii fs. icepts s k = Some (ii, fs) \<and> clash en ac cps spec ii" by force
    with Some show ?thesis by (auto simp: s'(4))
  qed
  have none: "\<not> (\<exists>k ii fs. icepts s k = Some (ii, fs) \<and> clash en ac cps spec ii \<and> \<not> client_inactive en s ii)"
    using c potential_conflicts_icepts [OF assms(1), of _ ac cps] by (auto simp: clash_def)
  from s'(1-3) each none assms(2) Inr show ?thesis
    by (auto simp: checkInterceptConflicts_def)
qed

section \<open>Qualified port mappings\<close>

text \<open>A mapping that the preparation prints is one that the creation reads.\<close>

lemma FromNumberAndTo_print:
  assumes "Port to \<noteq> 0" and "supported (Proto to)"
  shows "FromNumberAndTo (itoa (unat (n :: u16)) @ '':'' @ PortAndProto_String to) = Inr (n, to :: port_and_proto)"
proof -
  let ?d = "itoa (unat n)"
  obtain i where i: "length ?d = Suc i" by (cases ?d) auto
  have sep: "index_byte (CHR '':'') (?d @ '':'' @ PortAndProto_String to) = Some (Suc i)"
    using i index_byte_append [OF itoa_no_sep(2)] by simp
  have u: "unat n < 2 ^ 16" using unsigned_less [of n, where 'a = nat] by simp
  have "parse_uint 16 ?d = Some (unat n)" using u by (simp add: parse_uint_itoa)
  with sep i ParsePortAndProto_String [OF assms] show ?thesis by (simp add: FromNumberAndTo_def)
qed

definition mapping_text :: "mgr_env \<Rightarrow> string \<Rightarrow> intercept \<Rightarrow> string" where
  "mapping_text en pm ic = itoa (unat (ic_ContainerPort ic)) @ '':'' @ PortAndProto_String (ToAsNumeric (en_is_label en) pm)"

lemma check_mappings_result:
  assumes "check_mappings en ac cn spec pms cps ts = Inr (pps, cps')" and "distinct cps" and "distinct ts"
  shows "\<exists>ics. list_all2 (\<lambda>pm ic. find_for_mapping en ac cn spec pm = Inr ic) pms ics \<and> cps' = cps @ map container_port_of ics
    \<and> distinct cps' \<and> distinct (ts @ map (ToAsNumeric (en_is_label en)) pms) \<and> pps = map2 (mapping_text en) pms ics"
  using assms
proof (induction pms arbitrary: cps ts pps)
  case (Cons pm pms)
  from Cons.prems(1) obtain ic pps' where ic: "find_for_mapping en ac cn spec pm = Inr ic"
    "ToAsNumeric (en_is_label en) pm \<notin> set ts" "container_port_of ic \<notin> set cps"
    "check_mappings en ac cn spec pms (cps @ [container_port_of ic]) (ts @ [ToAsNumeric (en_is_label en) pm]) = Inr (pps', cps')"
    "pps = mapping_text en pm ic # pps'"
    by (auto simp: Let_def mapping_text_def split: sum.splits if_splits)
  from Cons.IH [OF ic(4)] Cons.prems(2,3) ic(2,3) obtain ics where
    "list_all2 (\<lambda>pm ic. find_for_mapping en ac cn spec pm = Inr ic) pms ics" "cps' = (cps @ [container_port_of ic]) @ map container_port_of ics"
    "distinct cps'" "distinct ((ts @ [ToAsNumeric (en_is_label en) pm]) @ map (ToAsNumeric (en_is_label en)) pms)" "pps' = map2 (mapping_text en) pms ics"
    by auto
  with ic(1,5) show ?case by (intro exI [of _ "ic # ics"]) auto
qed simp

section \<open>Storing an intercept\<close>

text \<open>The references of the stored intercepts are their own.\<close>

definition refs_ok :: "mgr_state \<Rightarrow> bool" where
  "refs_ok s \<longleftrightarrow>
     (\<forall>k it. icept_lookup s k = Some it \<longrightarrow> it_ref it < ms_refs s)
     \<and> (\<forall>k k' it it'. icept_lookup s k = Some it \<and> icept_lookup s k' = Some it' \<and> it_ref it = it_ref it' \<longrightarrow> k = k')"

lemma refs_ok_less: "refs_ok s \<Longrightarrow> icept_lookup s k = Some it \<Longrightarrow> it_ref it < ms_refs s"
  by (auto simp: refs_ok_def)

lemma refs_ok_inj: "refs_ok s \<Longrightarrow> icept_lookup s k = Some it \<Longrightarrow> icept_lookup s k' = Some it' \<Longrightarrow> it_ref it = it_ref it' \<Longrightarrow> k = k'"
  by (auto simp: refs_ok_def)

lemma entries_Compute_store:
  "(case map_of (cm_entries m) k of None \<Rightarrow> True | Some cur \<Rightarrow> \<not> equal v cur) \<Longrightarrow>
   cm_entries (Compute equal zero k (\<lambda>_ _. (v, UpdateOp)) m) = AList.update k v (cm_entries m)"
  by (auto simp: Compute_def markSubscribers_def split: option.splits)

definition new_intercept :: "mgr_env \<Rightarrow> create_request \<Rightarrow> mgr_state \<Rightarrow> intercept_info" where
  "new_intercept en cir s =
     (let info = NewInterceptInfo en (intercept_id cir) cir; (c, m) = checkAgentsForIntercept info s
      in if c \<noteq> UNSPECIFIED then info\<lparr>ii_disposition := c, ii_message := m\<rparr> else info)"

lemma check_never_removed: "ii_disposition ii = WAITING \<Longrightarrow> fst (checkAgentsForIntercept ii s) \<noteq> REMOVED"
  by (simp add: checkAgentsForIntercept_def Let_def)

lemma new_intercept_simps:
  "ii_id (new_intercept en cir s) = intercept_id cir" "ii_disposition (new_intercept en cir s) \<noteq> REMOVED"
  "ii_spec (new_intercept en cir s) = cir_spec cir" "ii_client_session (new_intercept en cir s) = cir_session cir"
  using check_never_removed [of "NewInterceptInfo en (intercept_id cir) cir" s]
  by (auto simp: new_intercept_def NewInterceptInfo_def Let_def split: prod.splits)

lemma addIntercept_cases:
  obtains (exists) old where "icept_lookup s (intercept_id cir) = Some old" "ii_disposition (it_info old) \<noteq> REMOVED"
      "addIntercept en (intercept_id cir) cir s = (Inl (StatusErr CodeAlreadyExists (''Intercept named '' @ quote (sp_name (cir_spec cir)) @ '' already exists'')),
         s\<lparr>ms_refs := ms_refs s + 1\<rparr>)"
  | (stored) s' where "addIntercept en (intercept_id cir) cir s = (Inr \<lparr>it_ref = ms_refs s, it_info = new_intercept en cir s, it_finalizers = []\<rparr>, s')"
      "\<And>old. icept_lookup s (intercept_id cir) = Some old \<Longrightarrow> ii_disposition (it_info old) = REMOVED"
      "cm_entries (ms_intercepts s') = AList.update (intercept_id cir) \<lparr>it_ref = ms_refs s, it_info = new_intercept en cir s, it_finalizers = []\<rparr> (cm_entries (ms_intercepts s))"
      "ms_refs s' = ms_refs s + 1" "same_frame s s'"
proof -
  let ?i = "intercept_id cir" and ?n = "\<lparr>it_ref = ms_refs s, it_info = new_intercept en cir s, it_finalizers = []\<rparr>"
  let ?m = "ms_intercepts s"
  obtain c m where c: "checkAgentsForIntercept (NewInterceptInfo en ?i cir) s = (c, m)" by fastforce
  have spec: "sp_name (ii_spec (new_intercept en cir s)) = sp_name (cir_spec cir)" by (simp add: new_intercept_simps)
  have info: "(if c \<noteq> UNSPECIFIED then (NewInterceptInfo en ?i cir)\<lparr>ii_disposition := c, ii_message := m\<rparr> else NewInterceptInfo en ?i cir) = new_intercept en cir s"
    by (simp add: new_intercept_def c)
  have a: "addIntercept en ?i cir s = (case LoadOrStore interceptEqual zero_intercept ?i ?n ?m of
      ((existing, True), m) \<Rightarrow>
        if ii_disposition (it_info existing) \<noteq> REMOVED then
          (Inl (StatusErr CodeAlreadyExists (''Intercept named '' @ quote (sp_name (cir_spec cir)) @ '' already exists'')), s\<lparr>ms_refs := ms_refs s + 1\<rparr>)
        else (Inr ?n, s\<lparr>ms_refs := ms_refs s + 1, ms_intercepts := cache_Store interceptEqual zero_intercept ?i ?n ?m\<rparr>)
    | ((_, False), m) \<Rightarrow> (Inr ?n, s\<lparr>ms_refs := ms_refs s + 1, ms_intercepts := m\<rparr>))"
    unfolding addIntercept_def Let_def c prod.case info spec by (simp split: prod.split bool.split)
  show thesis
  proof (cases "icept_lookup s ?i")
    case None
    then show thesis
      by (intro stored [of "s\<lparr>ms_refs := ms_refs s + 1, ms_intercepts := snd (LoadOrStore interceptEqual zero_intercept ?i ?n ?m)\<rparr>"])
        (simp_all add: a LoadOrStore_def Compute_def markSubscribers_def same_frame_def)
  next
    case (Some old)
    show thesis
    proof (cases "ii_disposition (it_info old) = REMOVED")
      case True
      then have "\<not> interceptEqual ?n old" using new_intercept_simps(2) [of en cir s] by (auto simp: interceptEqual_def)
      with Some have "cm_entries (cache_Store interceptEqual zero_intercept ?i ?n ?m) = AList.update ?i ?n (cm_entries ?m)"
        unfolding cache_Store_def by (intro entries_Compute_store) simp
      with Some True show thesis
        by (intro stored [of "s\<lparr>ms_refs := ms_refs s + 1, ms_intercepts := cache_Store interceptEqual zero_intercept ?i ?n ?m\<rparr>"])
          (simp_all add: a LoadOrStore_def same_frame_def)
    next
      case False
      with Some show thesis by (intro exists) (simp_all add: a LoadOrStore_def)
    qed
  qed
qed

lemma addIntercept_ok:
  assumes "addIntercept en (intercept_id cir) cir s = (Inr is, s')" and "mgr_wf s" and "refs_ok s"
  shows "icept_lookup s' (intercept_id cir) = Some is" "it_info is = new_intercept en cir s" "it_finalizers is = []" "refs_ok s'" "mgr_wf s'"
    "same_frame s s'" "\<And>k. icepts s' k = (if k = intercept_id cir then Some (new_intercept en cir s, []) else icepts s k)"
    "\<And>ii fs. icepts s (intercept_id cir) = Some (ii, fs) \<Longrightarrow> ii_disposition ii = REMOVED"
    "\<And>k. k \<noteq> intercept_id cir \<Longrightarrow> icept_lookup s' k = icept_lookup s k"
proof -
  let ?i = "intercept_id cir"
  have r: "is = \<lparr>it_ref = ms_refs s, it_info = new_intercept en cir s, it_finalizers = []\<rparr>"
    "\<And>old. icept_lookup s ?i = Some old \<Longrightarrow> ii_disposition (it_info old) = REMOVED"
    "cm_entries (ms_intercepts s') = AList.update ?i is (cm_entries (ms_intercepts s))" "ms_refs s' = ms_refs s + 1" "same_frame s s'"
    using assms(1) by (cases rule: addIntercept_cases [of s cir en]; simp)+
  have look: "icept_lookup s' k = (if k = ?i then Some is else icept_lookup s k)" for k
    by (simp add: r(3) update_conv')
  show "icept_lookup s' ?i = Some is" "it_info is = new_intercept en cir s" "it_finalizers is = []" "same_frame s s'"
    "\<And>k. k \<noteq> ?i \<Longrightarrow> icept_lookup s' k = icept_lookup s k"
    using r(1,5) look by auto
  show ic: "\<And>k. icepts s' k = (if k = ?i then Some (new_intercept en cir s, []) else icepts s k)"
    using look by (simp add: icepts_def r(1))
  show "\<And>ii fs. icepts s ?i = Some (ii, fs) \<Longrightarrow> ii_disposition ii = REMOVED" using r(2) by (auto simp: icepts_def)
  have less: "it_ref it < ms_refs s" if "icept_lookup s k = Some it" for k it by (rule refs_ok_less [OF assms(3) that])
  have ref: "it_ref is = ms_refs s" by (simp add: r(1))
  show "refs_ok s'"
    unfolding refs_ok_def
  proof (intro conjI allI impI)
    fix k it assume "icept_lookup s' k = Some it"
    then show "it_ref it < ms_refs s'" using less [of k it] ref by (auto simp: look r(4) split: if_splits)
  next
    fix k k' it it' assume "icept_lookup s' k = Some it \<and> icept_lookup s' k' = Some it' \<and> it_ref it = it_ref it'"
    then show "k = k'" using less [of k it] less [of k' it'] ref refs_ok_inj [OF assms(3), of k it k' it'] by (auto simp: look split: if_splits)
  qed
  have f: "ms_agents s' = ms_agents s" "ms_clients s' = ms_clients s" using r(5) by (simp_all add: same_frame_def)
  have "CHR '':'' \<in> set ?i" by (simp add: intercept_id_def)
  moreover have "maps_wf (cm_entries (ms_intercepts s'))"
    using assms(2) by (simp add: r(3) mgr_wf_def maps_wf_def distinct_update)
  ultimately show "mgr_wf s'"
    using assms(2) unfolding mgr_wf_def ic f by (auto simp: new_intercept_simps split: if_splits)
qed

lemma map_of_addFinalizer:
  "icept_lookup (addFinalizer ref f s) k =
     map_option (\<lambda>it. if it_ref it = ref then it\<lparr>it_finalizers := it_finalizers it @ [f]\<rparr> else it) (icept_lookup s k)"
proof -
  have "map_of (map (\<lambda>(k, it). (k, g it)) xs) k = map_option g (map_of xs k)" for g :: "intercept_state \<Rightarrow> intercept_state" and xs
    by (induction xs) auto
  then show ?thesis by (simp add: addFinalizer_def)
qed

lemma addFinalizer_ok:
  assumes "icept_lookup s i = Some it" and "mgr_wf s" and "refs_ok s"
  shows "\<And>k. icepts (addFinalizer (it_ref it) f s) k = (if k = i then Some (it_info it, it_finalizers it @ [f]) else icepts s k)"
    "refs_ok (addFinalizer (it_ref it) f s)" "mgr_wf (addFinalizer (it_ref it) f s)" "same_frame s (addFinalizer (it_ref it) f s)"
    "\<exists>it'. icept_lookup (addFinalizer (it_ref it) f s) i = Some it' \<and> it_ref it' = it_ref it \<and> it_info it' = it_info it \<and> it_finalizers it' = it_finalizers it @ [f]"
proof -
  let ?s = "addFinalizer (it_ref it) f s"
  show ic: "icepts ?s k = (if k = i then Some (it_info it, it_finalizers it @ [f]) else icepts s k)" for k
    using assms(1) refs_ok_inj [OF assms(3) assms(1), of k]
    by (cases "icept_lookup s k") (auto simp: icepts_def map_of_addFinalizer)
  show fr: "same_frame s ?s" by (simp add: same_frame_def addFinalizer_def)
  have refs: "ms_refs ?s = ms_refs s" by (simp add: addFinalizer_def)
  show "refs_ok ?s"
    using assms(3) unfolding refs_ok_def map_of_addFinalizer refs by (fastforce split: if_splits)
  have keys: "map fst (cm_entries (ms_intercepts ?s)) = map fst (cm_entries (ms_intercepts s))"
    by (simp add: addFinalizer_def split_def)
  have "icepts s i = Some (it_info it, it_finalizers it)" using assms(1) by (simp add: icepts_def)
  then show "mgr_wf ?s"
    using assms(2) fr unfolding mgr_wf_def ic maps_wf_def keys same_frame_def by auto
  show "\<exists>it'. icept_lookup ?s i = Some it' \<and> it_ref it' = it_ref it \<and> it_info it' = it_info it \<and> it_finalizers it' = it_finalizers it @ [f]"
    using assms(1) by (simp add: map_of_addFinalizer)
qed

text \<open>The identifier of the child for a port mapping.\<close>

definition child_id :: "mgr_env \<Rightarrow> create_request \<Rightarrow> string \<Rightarrow> string" where
  "child_id en cir pm = (case FromNumberAndTo pm of Inl _ \<Rightarrow> [] | Inr (from, to) \<Rightarrow> intercept_id (child_request en cir pm from to))"

definition live :: "mgr_state \<Rightarrow> string \<Rightarrow> bool" where
  "live s k = (case icepts s k of Some (ii, _) \<Rightarrow> ii_disposition ii \<noteq> REMOVED | None \<Rightarrow> False)"

lemma live_iff: "live s k \<longleftrightarrow> (\<exists>ii fs. icepts s k = Some (ii, fs) \<and> ii_disposition ii \<noteq> REMOVED)"
  by (simp add: live_def split: option.split)

lemma child_session [simp]: "cir_session (child_request en cir pm from to) = cir_session cir"
  by (simp add: child_request_def Let_def)

definition children_added :: "mgr_env \<Rightarrow> create_request \<Rightarrow> string \<Rightarrow> intercept_state \<Rightarrow> string list \<Rightarrow> mgr_state \<Rightarrow> mgr_state \<Rightarrow> bool" where
  "children_added en cir p it pms s s' \<longleftrightarrow>
     (\<exists>it'. icept_lookup s' p = Some it' \<and> it_info it' = it_info it \<and> it_finalizers it' = it_finalizers it @ map (\<lambda>pm. DeleteIntercept (child_id en cir pm)) pms)
     \<and> distinct (map (child_id en cir) pms) \<and> (\<forall>pm\<in>set pms. \<not> live s (child_id en cir pm) \<and> live s' (child_id en cir pm))
     \<and> (\<forall>k. k \<noteq> p \<and> k \<notin> child_id en cir ` set pms \<longrightarrow> icepts s' k = icepts s k) \<and> mgr_wf s' \<and> refs_ok s' \<and> same_frame s s'"

text \<open>One more child in front of the others.\<close>

lemma children_added_Cons:
  assumes a: "addIntercept en (intercept_id child) child s = (Inr st, s1)" "child_id en cir pm = intercept_id child"
    and s: "mgr_wf s" "refs_ok s" and p: "icept_lookup s p = Some it" "ii_disposition (it_info it) \<noteq> REMOVED"
    and rest: "\<And>it2. icept_lookup (addFinalizer (it_ref it) (DeleteIntercept (child_id en cir pm)) s1) p = Some it2 \<Longrightarrow> it_ref it2 = it_ref it \<Longrightarrow>
      it_info it2 = it_info it \<Longrightarrow> mgr_wf (addFinalizer (it_ref it) (DeleteIntercept (child_id en cir pm)) s1) \<Longrightarrow>
      refs_ok (addFinalizer (it_ref it) (DeleteIntercept (child_id en cir pm)) s1) \<Longrightarrow>
      children_added en cir p it2 pms (addFinalizer (it_ref it) (DeleteIntercept (child_id en cir pm)) s1) s'"
  shows "children_added en cir p it (pm # pms) s s'"
proof -
  let ?c = "child_id en cir pm"
  note a = addIntercept_ok [OF a(1) s, folded a(2)]
  have p0: "icepts s p = Some (it_info it, it_finalizers it)" using p by (simp add: icepts_def)
  have new: "\<not> live s ?c" using a(8) by (auto simp: live_iff)
  with p0 p(2) have cp: "?c \<noteq> p" by (auto simp: live_iff)
  with a(9) [of p] p(1) have p1: "icept_lookup s1 p = Some it" by auto
  note f = addFinalizer_ok [OF p1 a(5,4), of "DeleteIntercept ?c"]
  let ?s2 = "addFinalizer (it_ref it) (DeleteIntercept ?c) s1"
  from f(5) obtain it2 where it2: "icept_lookup ?s2 p = Some it2" "it_ref it2 = it_ref it" "it_info it2 = it_info it"
    "it_finalizers it2 = it_finalizers it @ [DeleteIntercept ?c]" by auto
  have l2: "live ?s2 k \<longleftrightarrow> k = ?c \<or> live s k" if "k \<noteq> p" for k
    using that a(7) f(1) new_intercept_simps(2) by (auto simp: live_iff)
  have lp: "live ?s2 p" using p0 p(2) f(1) by (auto simp: live_iff)
  have ih: "\<exists>it'. icept_lookup s' p = Some it' \<and> it_info it' = it_info it \<and> it_finalizers it' = it_finalizers it2 @ map (\<lambda>pm. DeleteIntercept (child_id en cir pm)) pms"
    "distinct (map (child_id en cir) pms)" "\<And>q. q \<in> set pms \<Longrightarrow> \<not> live ?s2 (child_id en cir q) \<and> live s' (child_id en cir q)"
    "\<And>k. k \<noteq> p \<Longrightarrow> k \<notin> child_id en cir ` set pms \<Longrightarrow> icepts s' k = icepts ?s2 k" "mgr_wf s'" "refs_ok s'" "same_frame ?s2 s'"
    using rest [OF it2(1-3) f(3,2)] it2(3) by (auto simp: children_added_def)
  have notc: "?c \<notin> child_id en cir ` set pms" using ih(3) l2 [OF cp] by fastforce
  have kids: "\<not> live s (child_id en cir q) \<and> live s' (child_id en cir q)" if "q \<in> set pms" for q
    using ih(3) [OF that] l2 [of "child_id en cir q"] lp by (cases "child_id en cir q = p") auto
  have "live s' ?c" using ih(4) [OF cp notc] l2 [OF cp] by (simp add: live_iff)
  moreover have "icepts s' k = icepts s k" if "k \<noteq> p" "k \<noteq> ?c" "k \<notin> child_id en cir ` set pms" for k
    using ih(4) [of k] f(1) [of k] a(7) [of k] that by simp
  moreover have "same_frame s s'" using same_frame_trans [OF same_frame_trans [OF a(6) f(4)] ih(7)] .
  ultimately show ?thesis using ih(1,2,5,6) it2(4) notc new kids by (simp add: children_added_def)
qed

lemma add_children_ok:
  assumes "add_children en (\<lambda>_ s. s) cir (it_ref it) n pms s = (None, s')" and "mgr_wf s" and "refs_ok s"
    and "icept_lookup s p = Some it" and "ii_disposition (it_info it) \<noteq> REMOVED"
  shows "children_added en cir p it pms s s'"
  using assms
proof (induction pms arbitrary: n s it)
  case Nil
  then show ?case by (simp add: children_added_def)
next
  case (Cons pm pms)
  from Cons.prems(1) obtain fr tt st s1 where c: "FromNumberAndTo pm = Inr (fr, tt)"
    "addIntercept en (intercept_id (child_request en cir pm fr tt)) (child_request en cir pm fr tt) s = (Inr st, s1)"
    "add_children en (\<lambda>_ s. s) cir (it_ref it) (n + 1) pms (addFinalizer (it_ref it) (DeleteIntercept (child_id en cir pm)) s1) = (None, s')"
    by (auto simp: Let_def child_id_def split: sum.splits prod.splits)
  show ?case
  proof (rule children_added_Cons [OF c(2) _ Cons.prems(2-5)])
    show "child_id en cir pm = intercept_id (child_request en cir pm fr tt)" by (simp add: child_id_def c(1))
  next
    fix it2 assume "icept_lookup (addFinalizer (it_ref it) (DeleteIntercept (child_id en cir pm)) s1) p = Some it2" "it_ref it2 = it_ref it" "it_info it2 = it_info it"
      "mgr_wf (addFinalizer (it_ref it) (DeleteIntercept (child_id en cir pm)) s1)" "refs_ok (addFinalizer (it_ref it) (DeleteIntercept (child_id en cir pm)) s1)"
    with Cons.IH [of it2 "n + 1"] c(3) Cons.prems(5) show "children_added en cir p it2 pms (addFinalizer (it_ref it) (DeleteIntercept (child_id en cir pm)) s1) s'"
      by simp
  qed
qed

section \<open>Removing an intercept with its children\<close>

lemma icepts_delete: "cm_entries m = AList.delete i (cm_entries (ms_intercepts s)) \<Longrightarrow> icepts (s\<lparr>ms_intercepts := m\<rparr>) k = (if k = i then None else icepts s k)"
  by (simp add: icepts_def delete_conv')

lemma run_finalizers_icepts: "icepts (fold (run_finalizer w ii) fs s) k = (if DeleteIntercept k \<in> set fs then None else icepts s k)"
proof (induction fs arbitrary: s)
  case (Cons f fs)
  have "icepts (run_finalizer w ii f s) k = (if f = DeleteIntercept k then None else icepts s k)"
    by (cases f) (simp_all add: run_finalizer_def restoreAppContainer_def icepts_delete [OF entries_Delete])
  with Cons.IH show ?case by auto
qed simp

lemma RemoveIntercept_icepts:
  assumes "icept_lookup s p = Some it"
  shows "icepts (RemoveIntercept w p s) k = (if k = p \<or> DeleteIntercept k \<in> set (it_finalizers it) then None else icepts s k)"
proof -
  have "RemoveIntercept w p s = terminate w it (s\<lparr>ms_intercepts := snd (LoadAndDelete interceptEqual zero_intercept p (ms_intercepts s))\<rparr>)"
    using assms by (simp add: RemoveIntercept_def LoadAndDelete_def)
  then show ?thesis by (simp add: terminate_def run_finalizers_icepts icepts_delete [OF LoadAndDelete_result(2)])
qed

lemma AddInterceptFinalizer_ok:
  assumes "icept_lookup s i = Some it" and "mgr_wf s" and "refs_ok s"
  obtains it' where "icept_lookup (AddInterceptFinalizer i f s) i = Some it'" "it_info it' = it_info it" "it_finalizers it' = it_finalizers it @ [f]"
    "\<And>k. k \<noteq> i \<Longrightarrow> icepts (AddInterceptFinalizer i f s) k = icepts s k"
  using addFinalizer_ok [OF assms, of f] assms(1) unfolding AddInterceptFinalizer_def by auto

section \<open>A sample environment\<close>

definition sample_env :: mgr_env where
  "sample_env =
     \<lparr>en_world = (sample_world [])\<lparr>wo_workload := \<lambda>_ _ _. Inr (sample_workload [(Config, ''{}'')]),
        wo_unmarshal := \<lambda>_. Inr (new_sidecar sample_config (sample_workload []) [])\<rparr>,
      en_rx = \<lparr>rx_compiles = \<lambda>_. False, rx_match = \<lambda>_ _. False\<rparr>, en_InterceptAllowGlobal = True,
      en_InterceptInactiveBlockTimeout = 10, en_AgentInjectorEnabled = False, en_WatchWarnings = (\<lambda>_ _. None), en_services = (\<lambda>_ _. None),
      en_now = 15\<rparr>"

definition sample_request :: create_request where
  "sample_request =
     \<lparr>cir_session = \<lparr>si_session_id = ''c1'', si_manager_install_id = [], si_install_id = None\<rparr>,
      cir_spec = zero_spec\<lparr>sp_name := ''web'', sp_client := ''me'', sp_agent := ''echo'', sp_namespace := ''default'', sp_mechanism := ''tcp'',
        sp_pod_ports := [''8081:9091''], sp_container_port := 8080, sp_target_port := 8080\<rparr>\<rparr>"

definition sample_clients :: mgr_state where
  "sample_clients = mgr_NewState\<lparr>ms_clients := [(''c1'', sample_client ''c1'' 0)]\<rparr>"

lemma sample_clients_ok: "mgr_wf sample_clients" "refs_ok sample_clients" "icepts sample_clients k = None"
  by (simp_all add: sample_clients_def mgr_wf_def refs_ok_def icepts_def mgr_NewState_def NewMap_def maps_wf_def sample_client_def newClientSessionState_def)

definition sample_port :: "u16 \<Rightarrow> intercept" where
  "sample_port p =
     \<lparr>ic_ContainerPortName = [], ic_ServiceName = [], ic_ServiceUID = [], ic_ServicePortName = [], ic_TargetPortNumeric = False,
      ic_Protocol = ProtoTCP, ic_AppProtocol = [], ic_Headless = False, ic_ContainerPort = p, ic_ServicePort = 0, ic_AgentPort = 9900\<rparr>"

definition sample_ports_container :: container where
  "sample_ports_container =
     \<lparr>cn_Name = ''app'', cn_Intercepts = [sample_port 8080, sample_port 8081], cn_EnvPrefix = ''A_'', cn_MountPoint = [], cn_Mounts = None,
      cn_MountPaths = [], cn_Replace = ReplacePolicyIntercept\<rparr>"

definition sample_ports_config :: sidecar where
  "sample_ports_config = new_sidecar sample_config (sample_workload []) [sample_ports_container]"

section \<open>Properties\<close>

text \<open>
  C27. The check for conflicts returns, and it fails exactly when a client that was active within the
  timeout holds an intercept of the same agent and port that can take the same requests; then nothing
  is changed. Otherwise no such intercept is left, because those of inactive clients are put in error,
  and every other intercept is as it was.
\<close>

theorem conflicts_resolved:
  assumes "mgr_wf s" and "\<not> sp_wiretap spec"
  shows "\<exists>err s'. checkInterceptConflicts en ac client cps spec s = Some (err, s')
    \<and> (err \<noteq> None \<longleftrightarrow> (\<exists>k ii fs. icepts s k = Some (ii, fs) \<and> clash en ac cps spec ii \<and> \<not> client_inactive en s ii))
    \<and> (err \<noteq> None \<longrightarrow> s' = s)
    \<and> (err = None \<longrightarrow> (\<forall>k ii fs. icepts s' k = Some (ii, fs) \<longrightarrow> \<not> clash en ac cps spec ii))
    \<and> (\<forall>k ii fs. icepts s k = Some (ii, fs) \<and> \<not> clash en ac cps spec ii \<longrightarrow> icepts s' k = Some (ii, fs))"
proof -
  from conflicts_result [OF assms, of en ac client cps] obtain err s' where r:
    "checkInterceptConflicts en ac client cps spec s = Some (err, s')"
    "err \<noteq> None \<longleftrightarrow> (\<exists>k ii fs. icepts s k = Some (ii, fs) \<and> clash en ac cps spec ii \<and> \<not> client_inactive en s ii)"
    "if err \<noteq> None then s' = s
     else (\<forall>k. \<exists>msg. icepts s' k = map_option (\<lambda>(ii, fs). (if clash en ac cps spec ii then overridden (en_now en) msg ii else ii, fs)) (icepts s k))"
    by blast
  have no: "\<not> clash en ac cps spec (overridden now msg ii)" for now msg ii
    by (simp add: clash_def PotentialConflict_def overridden_def)
  have left: "\<not> clash en ac cps spec ii" if e: "err = None" and k: "icepts s' k = Some (ii, fs)" for k ii fs
  proof -
    from r(3) e obtain msg where "icepts s' k = map_option (\<lambda>(ii, fs). (if clash en ac cps spec ii then overridden (en_now en) msg ii else ii, fs)) (icepts s k)"
      by auto
    with k obtain ii' where "ii = (if clash en ac cps spec ii' then overridden (en_now en) msg ii' else ii')" by (cases "icepts s k") auto
    with no show ?thesis by simp
  qed
  have keep: "icepts s' k = Some (ii, fs)" if "icepts s k = Some (ii, fs)" "\<not> clash en ac cps spec ii" for k ii fs
    using r(3) that by (cases "err = None") (auto dest!: spec [of _ k])
  from r left keep show ?thesis by auto
qed

theorem conflicts_resolved_witness:
  "\<exists>s'. checkInterceptConflicts sample_env (new_sidecar sample_config (sample_workload []) []) (sample_client ''c2'' 9)
     [\<lparr>Port = 0, Proto = ProtoTCP\<rparr>] zero_spec (sample_mgr\<lparr>ms_clients := []\<rparr>) = Some (None, s')"
proof -
  let ?s = "sample_mgr\<lparr>ms_clients := []\<rparr>"
  have wf: "mgr_wf ?s" using sample_mgr_ok(1) by (simp add: mgr_wf_def icepts_def maps_wf_def)
  have "client_inactive sample_env ?s ii" for ii by (simp add: client_inactive_def)
  with conflicts_resolved [OF wf, of zero_spec sample_env "new_sidecar sample_config (sample_workload []) []" "sample_client ''c2'' 9" "[\<lparr>Port = 0, Proto = ProtoTCP\<rparr>]"]
  show ?thesis by (auto simp: zero_spec_def)
qed



text \<open>
  C28. A created intercept and its children are stored together and leave together: while no other
  goroutine interferes, the removal of the intercept removes exactly the intercept and the children that
  its creation added, whatever the intercepts of others are.
\<close>

theorem intercept_family:
  assumes "map_of (ms_clients s) (si_session_id (cir_session cir)) = Some client"
    and "wo_workload (en_world en) (sp_agent (cir_spec cir)) (sp_namespace (cir_spec cir)) (sp_workload_kind (cir_spec cir)) = Inr wl"
    and "ensureAgent en evs wl (isExtended (cir_spec cir)) False (Some (cir_spec cir)) (spec_policy (cir_spec cir)) s = Some (Inr r, s1)"
    and "mgr_wf s1" and "refs_ok s1" and "AddIntercept en evs (\<lambda>_ s. s) cir s = Some (Inr (c, ii), s')"
  shows "live s' (intercept_id cir) \<and> (\<forall>pm\<in>set (sp_pod_ports (cir_spec cir)). live s' (child_id en cir pm))
    \<and> (\<forall>k. icepts (RemoveIntercept w (intercept_id cir) s') k =
         (if k = intercept_id cir \<or> k \<in> child_id en cir ` set (sp_pod_ports (cir_spec cir)) then None else icepts s1 k))"
proof -
  let ?i = "intercept_id cir" and ?pms = "sp_pod_ports (cir_spec cir)"
  from assms obtain it s2 s3 where a: "addIntercept en ?i cir s1 = (Inr it, s2)" "add_children en (\<lambda>_ s. s) cir (it_ref it) 0 ?pms s2 = (None, s3)"
    "s' = AddInterceptFinalizer ?i (RestoreApp wl) s3"
    by (auto simp: AddIntercept_def Let_def split: sum.splits prod.splits option.splits)
  note b = addIntercept_ok [OF a(1) assms(4,5)]
  have "ii_disposition (it_info it) \<noteq> REMOVED" by (simp add: b(2) new_intercept_simps)
  from add_children_ok [OF a(2) b(5,4,1) this] obtain it3 where c: "icept_lookup s3 ?i = Some it3" "it_info it3 = it_info it"
    "it_finalizers it3 = map (\<lambda>pm. DeleteIntercept (child_id en cir pm)) ?pms" "mgr_wf s3" "refs_ok s3"
    "\<And>pm. pm \<in> set ?pms \<Longrightarrow> \<not> live s2 (child_id en cir pm) \<and> live s3 (child_id en cir pm)"
    "\<And>k. k \<noteq> ?i \<Longrightarrow> k \<notin> child_id en cir ` set ?pms \<Longrightarrow> icepts s3 k = icepts s2 k"
    using b(3) by (auto simp: children_added_def)
  from AddInterceptFinalizer_ok [OF c(1,4,5)] obtain it4 where d: "icept_lookup s' ?i = Some it4" "it_info it4 = it_info it3"
    "it_finalizers it4 = it_finalizers it3 @ [RestoreApp wl]" "\<And>k. k \<noteq> ?i \<Longrightarrow> icepts s' k = icepts s3 k"
    unfolding a(3) by metis
  have live: "live s' ?i" using d(1,2) c(2) b(2) new_intercept_simps(2) by (auto simp: live_iff icepts_def)
  moreover have "live s' (child_id en cir pm)" if "pm \<in> set ?pms" for pm
    using c(6) [OF that] d(4) live by (cases "child_id en cir pm = ?i") (auto simp: live_iff)
  moreover have "icepts (RemoveIntercept w ?i s') k = (if k = ?i \<or> k \<in> child_id en cir ` set ?pms then None else icepts s1 k)" for k
    unfolding RemoveIntercept_icepts [OF d(1)] using d(3,4) c(3,7) b(7) by auto
  ultimately show ?thesis by blast
qed

theorem intercept_family_witness:
  "case AddIntercept sample_env [] (\<lambda>_ s. s) sample_request sample_clients of
     Some (Inr _, s') \<Rightarrow> live s' ''c1:web'' \<and> live s' (child_id sample_env sample_request ''8081:9091'')
       \<and> icepts (RemoveIntercept (sample_world []) ''c1:web'' s') (child_id sample_env sample_request ''8081:9091'') = None
   | _ \<Rightarrow> False"
proof -
  let ?wl = "sample_workload [(Config, ''{}'')]" and ?cir = sample_request
  let ?ens = "ensureAgent sample_env [] ?wl (isExtended (cir_spec ?cir)) False (Some (cir_spec ?cir)) (spec_policy (cir_spec ?cir)) sample_clients"
  have c: "map_of (ms_clients sample_clients) (si_session_id (cir_session ?cir)) = Some (sample_client ''c1'' 0)"
    by (simp add: sample_clients_def sample_request_def)
  have w: "wo_workload (en_world sample_env) n ns k = Inr ?wl" for n ns k by (simp add: sample_env_def)
  have m: "\<not> cl_matches (wo_cluster (en_world sample_env)) TrafficManagerSelector (wl_Labels ?wl)"
    by (simp add: sample_env_def sample_world_def sample_cluster_def sample_workload_def TrafficManagerSelector_def)
  have e: "\<exists>r. ?ens = Some (Inr r, sample_clients)"
    using m by (simp add: ensureAgent_def) (simp add: sample_env_def sample_workload_def)
  then obtain r where r: "?ens = Some (Inr r, sample_clients)" by blast
  have "case AddIntercept sample_env [] (\<lambda>_ s. s) ?cir sample_clients of Some (Inr _, _) \<Rightarrow> True | _ \<Rightarrow> False" by code_simp
  then obtain cl ii s' where a: "AddIntercept sample_env [] (\<lambda>_ s. s) ?cir sample_clients = Some (Inr (cl, ii), s')"
    by (auto split: option.splits prod.splits sum.splits)
  have i: "intercept_id ?cir = ''c1:web''" "sp_pod_ports (cir_spec ?cir) = [''8081:9091'']" by (simp_all add: sample_request_def intercept_id_def)
  from intercept_family [OF c w r sample_clients_ok(1,2) a, of "sample_world []"] show ?thesis by (simp add: a i)
qed

text \<open>
  C30. A child for a pod port whose target is not TCP never matches the port of the traffic agent that it
  is meant for: the creation writes the number of the protocol as a character instead of its name, which
  is read back as TCP.
\<close>

theorem child_protocol_lost:
  assumes "supported (Proto to)"
  shows "FromK8sProtocol (sp_protocol (cir_spec (child_request en cir pm from to))) = ProtoTCP
    \<and> (\<forall>ic ics. ic_Protocol ic = Proto to \<longrightarrow>
         MatchForSpec (ic # ics) (cir_spec (child_request en cir pm from to)) = Some (Proto to = ProtoTCP \<and> from = ic_ContainerPort ic))"
proof -
  have "FromK8sProtocol (string_of_byte (Proto to)) = ProtoTCP"
    using assms by (auto simp: supported_def string_of_byte_def FromK8sProtocol_def ParseProto_def to_lower_def)
  moreover have "ucast (ucast from :: i32) = (from :: u16)" by (rule bit_word_eqI) (simp add: bit_simps)
  ultimately show ?thesis by (auto simp: child_request_def Let_def MatchForSpec_def first_of_def)
qed

theorem child_protocol_lost_witness:
  "MatchForSpec [(sample_port 8081)\<lparr>ic_Protocol := ProtoUDP\<rparr>]
     (cir_spec (child_request sample_env sample_request ''8081:9091/UDP'' 8081 \<lparr>Port = 9091, Proto = ProtoUDP\<rparr>)) = Some False"
  using child_protocol_lost [of "\<lparr>Port = 9091, Proto = ProtoUDP\<rparr>" sample_env sample_request "''8081:9091/UDP''" 8081] by (simp add: supported_def)

section \<open>Children that stay\<close>

text \<open>
  A review of the new intercept by its agent that arrives before the first child is added replaces the
  stored object, so the finalizer that removes the child goes to an object that is no longer stored, and
  the child outlives its parent.
\<close>

declare UpdateIntercept.simps [code]

lemma child_outlives_parent:
  "case AddIntercept sample_env [] (\<lambda>_ s. the (map_option snd (UpdateIntercept 16 ''c1:web'' (\<lambda>i. i\<lparr>ii_disposition := ACTIVE\<rparr>) s))) sample_request sample_clients of
     Some (Inr _, s') \<Rightarrow> live (RemoveIntercept (sample_world []) ''c1:web'' s') (child_id sample_env sample_request ''8081:9091'')
   | _ \<Rightarrow> False"
  by code_simp

text \<open>The parent of a child is not found when the name of the client has a space.\<close>

lemma parent_not_found:
  assumes "CHR '' '' \<in> set (sp_client (cir_spec cir))" and "CHR '' '' \<notin> set pm" and "CHR '' '' \<notin> set (sp_name (cir_spec cir))"
  shows "GetParentIntercept sid (cir_spec (child_request en cir pm from to)) s = None"
proof -
  have split1: "split_byte (CHR '' '') (a @ CHR '' '' # b) = a # split_byte (CHR '' '') b" if "CHR '' '' \<notin> set a" for a b
    using that by (rule split_byte_append)
  obtain a b where ab: "sp_client (cir_spec cir) = a @ CHR '' '' # b" "CHR '' '' \<notin> set a" using split_list_first [OF assms(1)] by auto
  have "length (split_byte (CHR '' '') b) \<noteq> 0" by simp
  then have "length (split_byte (CHR '' '') (sp_client (cir_spec (child_request en cir pm from to)))) \<noteq> 4"
    using split1 [of "''child''"] split1 [OF assms(2)] split1 [OF assms(3)] split1 [OF ab(2)]
    by (simp add: child_request_def Let_def ab(1))
  then show ?thesis by (simp add: GetParentIntercept_def Let_def)
qed

end
