(* ===== verification/Dns_Proxy.thy ===== *)
theory Dns_Proxy
  imports Netip_Text Go_Maps "HOL-Library.Monad_Syntax"
begin

text \<open>
  The package \<^verbatim>\<open>pkg/dnsproxy\<close>: resource records and their query types, the address behind a reverse
  lookup name (\<open>PtrAddress\<close>), the lookup of a name with the resolver of the host (\<open>Lookup\<close>) and the reader
  and writer of \<^verbatim>\<open>resolv.conf\<close> files.

  A record has the header of the package \<^verbatim>\<open>miekg/dns\<close> and its data; numbers of types and response codes
  are those of that package. The resolver of Go's package \<open>net\<close> is a record of functions, the answers of
  the network. \<open>None\<close> is a panic (a slice out of range).

  Main facts: \<open>PtrAddress\<close> inverts the reverse notation of IPv4 and IPv6 addresses; every record a
  lookup returns carries the name and type asked for; a file written by \<open>WriteTo\<close> is read back as it was;
  an SRV lookup panics exactly if its name is just a service and a protocol and the first lookup fails.
\<close>

section \<open>Types, codes and records\<close>

definition TypeNone :: u16 where "TypeNone = 0"
definition TypeA :: u16 where "TypeA = 1"
definition TypeNS :: u16 where "TypeNS = 2"
definition TypeCNAME :: u16 where "TypeCNAME = 5"
definition TypePTR :: u16 where "TypePTR = 12"
definition TypeMX :: u16 where "TypeMX = 15"
definition TypeTXT :: u16 where "TypeTXT = 16"
definition TypeAAAA :: u16 where "TypeAAAA = 28"
definition TypeSRV :: u16 where "TypeSRV = 33"
definition ClassINET :: u16 where "ClassINET = 1"

lemmas dns_types = TypeNone_def TypeA_def TypeNS_def TypeCNAME_def TypePTR_def TypeMX_def TypeTXT_def
  TypeAAAA_def TypeSRV_def

definition RcodeSuccess :: int where "RcodeSuccess = 0"
definition RcodeServerFailure :: int where "RcodeServerFailure = 2"
definition RcodeNameError :: int where "RcodeNameError = 3"
definition RcodeNotImplemented :: int where "RcodeNotImplemented = 4"
definition RcodeRefused :: int where "RcodeRefused = 5"

lemmas rcodes = RcodeSuccess_def RcodeServerFailure_def RcodeNameError_def RcodeNotImplemented_def RcodeRefused_def

datatype rr_data =
    RR_A "byte list"
  | RR_AAAA "byte list"
  | RR_PTR string
  | RR_CNAME string
  | RR_MX u16 string
  | RR_NS string
  | RR_SRV string u16 u16 u16
  | RR_TXT "string list"
  | RR_Other string

record rr_header =
  rh_Name :: string
  rh_Rrtype :: u16
  rh_Class :: u16
  rh_Ttl :: u32

record rr =
  rr_hdr :: rr_header
  rr_data :: rr_data

type_synonym RRs = "rr list"

definition dnsTTL :: u32 where "dnsTTL = 4"

definition SupportedType :: "u16 \<Rightarrow> bool" where
  "SupportedType qType \<longleftrightarrow> qType \<in> {TypeA, TypeAAAA, TypePTR, TypeCNAME, TypeMX, TypeNS, TypeSRV, TypeTXT}"

definition IsEmptyName :: "rr \<Rightarrow> bool" where
  "IsEmptyName r = (case rr_data r of RR_A a \<Rightarrow> length a = 0 | RR_AAAA a \<Rightarrow> length a = 0 | _ \<Rightarrow> False)"

definition PruneEmptyNames :: "RRs \<Rightarrow> RRs" where
  "PruneEmptyNames a = filter (\<lambda>r. \<not> IsEmptyName r) a"

definition NewHeader :: "string \<Rightarrow> u16 \<Rightarrow> rr_header" where
  "NewHeader qName qType = \<lparr>rh_Name = qName, rh_Rrtype = qType, rh_Class = ClassINET, rh_Ttl = dnsTTL\<rparr>"

section \<open>Reverse lookup names\<close>

definition arpaV4 :: string where "arpaV4 = ''.in-addr.arpa.''"
definition arpaV6 :: string where "arpaV6 = ''.ip6.arpa.''"

definition nibbleToInt :: "string \<Rightarrow> byte option" where
  "nibbleToInt v =
     (if length v \<noteq> 1 then None
      else (let hd = of_char (v ! 0) :: nat in
            if 48 \<le> hd \<and> hd \<le> 57 then Some (of_nat (hd - 48))
            else if 65 \<le> hd \<and> hd \<le> 70 then Some (of_nat (10 + hd - 65))
            else if 97 \<le> hd \<and> hd \<le> 102 then Some (of_nat (10 + hd - 97))
            else None))"

unbundle bit_operations_syntax

fun put_nibbles :: "nat \<Rightarrow> string list \<Rightarrow> byte list \<Rightarrow> byte list option" where
  "put_nibbles i [] ip = Some ip"
| "put_nibbles i (nb # hds) ip =
     (case nibbleToInt nb of
        None \<Rightarrow> None
      | Some d \<Rightarrow>
          (let b = 15 - i div 2 in
           put_nibbles (i + 1) hds (if odd i then ip[b := (ip ! b) OR push_bit 4 d] else ip[b := d])))"

datatype dns_err =
    ErrDeadlineExceeded
  | ErrCanceled
  | DNSError bool bool bool
  | ErrText string
  | StatusDeadlineExceeded
  | StatusCanceled
  | StatusUnavailable
  | StatusInternal
  | StatusUnimplemented

text \<open>\<open>DNSError\<close> has the flags \<open>IsNotFound\<close>, \<open>IsTemporary\<close> and \<open>IsTimeout\<close>. An address has its zone beside it.\<close>

definition PtrAddress :: "string \<Rightarrow> dns_err + (addr \<times> string)" where
  "PtrAddress ad =
     (case ParseAddr ad of
        Some a \<Rightarrow> Inr a
      | None \<Rightarrow>
          if has_suffix ad arpaV4 then
            (let ix = take (length ad - length arpaV4) ad in
             case ParseAddr ix of
               Some (Addr4 w, _) \<Rightarrow> Inr (Addr4 (be_word (rev (be_bytes 4 w))), [])
             | _ \<Rightarrow> Inl (ErrText ''not a valid IP (v4) prefixing .in-addr.arpa''))
          else if has_suffix ad arpaV6 then
            (let hds = split_byte (CHR ''.'') (take (length ad - length arpaV6) ad) in
             if length hds \<noteq> 32 then Inl (ErrText ''expected 32 nibbles to prefix .ip6.arpa'')
             else (case put_nibbles 0 hds (replicate 16 0) of
                     None \<Rightarrow> Inl (ErrText ''expected 32 nibbles to prefix .ip6.arpa'')
                   | Some ip \<Rightarrow> Inr (Addr6 (be_word ip), [])))
          else Inl (ErrText ''neither a valid IP-address or a valid reverse notation''))"

section \<open>Lookups\<close>

text \<open>The resolver of the host; a network is one of \<open>ip\<close>, \<open>ip4\<close>, \<open>ip6\<close>.\<close>

record resolver =
  rs_LookupIP :: "string \<Rightarrow> string \<Rightarrow> dns_err + byte list list"
  rs_LookupAddr :: "string \<Rightarrow> dns_err + string list"
  rs_LookupCNAME :: "string \<Rightarrow> dns_err + string"
  rs_LookupMX :: "string \<Rightarrow> dns_err + (u16 \<times> string) list"
  rs_LookupNS :: "string \<Rightarrow> dns_err + string list"
  rs_LookupSRV :: "string \<Rightarrow> dns_err + (string \<times> u16 \<times> u16 \<times> u16) list"
  rs_LookupTXT :: "string \<Rightarrow> dns_err + string list"

text \<open>A resolver that finds nothing.\<close>

definition empty_resolver :: resolver where
  "empty_resolver =
     \<lparr>rs_LookupIP = (\<lambda>_ _. Inl (DNSError True False False)), rs_LookupAddr = (\<lambda>_. Inl (DNSError True False False)),
      rs_LookupCNAME = (\<lambda>_. Inl (DNSError True False False)), rs_LookupMX = (\<lambda>_. Inl (DNSError True False False)),
      rs_LookupNS = (\<lambda>_. Inl (DNSError True False False)), rs_LookupSRV = (\<lambda>_. Inl (DNSError True False False)),
      rs_LookupTXT = (\<lambda>_. Inl (DNSError True False False))\<rparr>"

text \<open>\<open>s[:len(s)-1]\<close> panics on the empty string.\<close>

definition but_last :: "string \<Rightarrow> string option" where
  "but_last s = (if s = [] then None else Some (butlast s))"

definition useLookupName :: "string \<Rightarrow> string \<Rightarrow> (string \<times> bool) option" where
  "useLookupName qName noSearchDomain =
     (if noSearchDomain \<noteq> [] \<and> has_suffix qName noSearchDomain then Some (qName, True)
      else do {
        name \<leftarrow> but_last qName;
        let dots = length (filter (\<lambda>c. c = CHR ''.'') name);
        Some (name, dots = 0 \<or> 3 < dots)
      })"

definition lookupIP :: "string \<Rightarrow> string \<Rightarrow> string \<Rightarrow> resolver \<Rightarrow> (dns_err + byte list list) option" where
  "lookupIP network qName noSearchDomain r = do {
     (name, final) \<leftarrow> useLookupName qName noSearchDomain;
     let res = rs_LookupIP r network name;
     let res = (if isl res \<and> \<not> final then rs_LookupIP r network qName else res);
     Some (if res = Inr [] then Inl (DNSError True False False) else res)
   }"

fun MakeDNSError :: "dns_err \<Rightarrow> int \<times> dns_err option" where
  "MakeDNSError ErrDeadlineExceeded = (RcodeNameError, Some StatusDeadlineExceeded)"
| "MakeDNSError ErrCanceled = (RcodeNameError, Some StatusCanceled)"
| "MakeDNSError (DNSError notFound temporary timeout) =
     (if notFound then (RcodeNameError, None)
      else if temporary then (RcodeNameError, Some StatusUnavailable)
      else if timeout then (RcodeNameError, Some StatusDeadlineExceeded)
      else (RcodeServerFailure, Some StatusInternal))"
| "MakeDNSError err = (RcodeServerFailure, Some StatusInternal)"

type_synonym dns_result = "RRs \<times> int \<times> dns_err option"

definition makeError :: "dns_err \<Rightarrow> dns_result" where
  "makeError err = ([], MakeDNSError err)"

text \<open>\<open>net.IP.To4\<close> and \<open>To16\<close>.\<close>

definition ip_To4 :: "byte list \<Rightarrow> byte list option" where
  "ip_To4 ip =
     (if length ip = 4 then Some ip
      else if length ip = 16 \<and> take 12 ip = replicate 10 0 @ [255, 255] then Some (drop 12 ip) else None)"

definition ip_To16 :: "byte list \<Rightarrow> byte list option" where
  "ip_To16 ip =
     (if length ip = 4 then Some (replicate 10 0 @ [255, 255] @ ip) else if length ip = 16 then Some ip else None)"

text \<open>\<open>net.IP.String\<close> of an address with 4 or 16 bytes.\<close>

definition ip_String :: "byte list \<Rightarrow> string" where
  "ip_String ip =
     (case ip_To4 ip of
        Some ip4 \<Rightarrow> Addr_String (Addr4 (be_word ip4))
      | None \<Rightarrow> if ip = [] then ''<nil>'' else Addr_String (Addr6 (be_word ip)))"

fun index_of :: "'a list \<Rightarrow> 'a list \<Rightarrow> nat option" where
  "index_of [] pat = (if pat = [] then Some 0 else None)"
| "index_of (c # s) pat = (if has_prefix (c # s) pat then Some 0 else map_option Suc (index_of s pat))"

definition svcFQN :: "string \<Rightarrow> resolver \<Rightarrow> string option" where
  "svcFQN name r =
     (let parts = split_byte (CHR ''.'') name in
      if \<not> (2 < length parts \<and> has_prefix (parts ! 0) ''_'' \<and> has_prefix (parts ! 1) ''_'') then Some []
      else do {
        let svcName = join_byte (CHR ''.'') (drop 2 parts);
        host \<leftarrow> but_last svcName;
        Some (case rs_LookupIP r ''ip'' host of
                Inr (ip # _) \<Rightarrow>
                  (case rs_LookupAddr r (ip_String ip) of
                     Inr (fqn # _) \<Rightarrow>
                       (case index_of fqn svcName of
                          None \<Rightarrow> []
                        | Some ix \<Rightarrow> parts ! 0 @ ''.'' @ parts ! 1 @ ''.'' @ drop ix fqn)
                   | _ \<Rightarrow> [])
              | _ \<Rightarrow> [])
      })"

definition answer_with :: "string \<Rightarrow> u16 \<Rightarrow> ('a \<Rightarrow> rr_data) \<Rightarrow> dns_err + 'a list \<Rightarrow> dns_result" where
  "answer_with qName qType mk res =
     (case res of
        Inl err \<Rightarrow> makeError err
      | Inr xs \<Rightarrow> (map (\<lambda>x. \<lparr>rr_hdr = NewHeader qName qType, rr_data = mk x\<rparr>) xs, RcodeSuccess, None))"

definition lookup_SRV :: "resolver \<Rightarrow> string \<Rightarrow> string \<Rightarrow> (dns_result + (string \<times> u16 \<times> u16 \<times> u16) list) option" where
  "lookup_SRV r qName name =
     (case rs_LookupSRV r name of
        Inr srvs \<Rightarrow> Some (Inr srvs)
      | Inl err \<Rightarrow>
          (let failed = makeError err in
           if fst (snd failed) \<noteq> RcodeNameError then Some (Inl failed)
           else do {
             fqn \<leftarrow> svcFQN qName r;
             Some (if fqn = [] \<or> fqn = qName then Inl failed
                   else (case rs_LookupSRV r fqn of Inl _ \<Rightarrow> Inl failed | Inr srvs \<Rightarrow> Inr srvs))
           }))"

definition dns_Lookup :: "resolver \<Rightarrow> u16 \<Rightarrow> string \<Rightarrow> string \<Rightarrow> dns_result option" where
  "dns_Lookup r qType qName noSearchDomain =
     (if qType = TypeA then do {
        res \<leftarrow> lookupIP ''ip4'' qName noSearchDomain r;
        Some (answer_with qName qType RR_A (map_sum id (List.map_filter ip_To4) res))
      }
      else if qType = TypeAAAA then do {
        res \<leftarrow> lookupIP ''ip6'' qName noSearchDomain r;
        Some (answer_with qName qType RR_AAAA (map_sum id (List.map_filter ip_To16) res))
      }
      else if qType = TypePTR then
        Some (case PtrAddress qName of
                Inl err \<Rightarrow> makeError err
              | Inr (ip, zone) \<Rightarrow>
                  answer_with qName qType RR_PTR
                    (rs_LookupAddr r (if zone = [] then Addr_String ip else Addr_String ip @ ''%'' @ zone)))
      else if qType = TypeCNAME then do {
        (name, final) \<leftarrow> useLookupName qName noSearchDomain;
        let res = rs_LookupCNAME r name;
        let res = (if isl res \<and> \<not> final then rs_LookupCNAME r qName else res);
        Some (answer_with qName qType RR_CNAME (map_sum id (\<lambda>target. [target]) res))
      }
      else if qType = TypeMX then do {
        name \<leftarrow> but_last qName;
        Some (answer_with qName qType (\<lambda>(pref, host). RR_MX pref host) (rs_LookupMX r name))
      }
      else if qType = TypeNS then do {
        name \<leftarrow> but_last qName;
        Some (answer_with qName qType RR_NS (rs_LookupNS r name))
      }
      else if qType = TypeSRV then do {
        name \<leftarrow> but_last qName;
        res \<leftarrow> lookup_SRV r qName name;
        Some (case res of
                Inl failed \<Rightarrow> failed
              | Inr srvs \<Rightarrow> answer_with qName qType (\<lambda>(t, port, prio, weight). RR_SRV t port prio weight) (Inr srvs))
      }
      else if qType = TypeTXT then
        Some (answer_with qName qType RR_TXT (map_sum id (\<lambda>names. [names]) (rs_LookupTXT r qName)))
      else Some ([], RcodeNotImplemented, Some StatusUnimplemented))"

section \<open>Resolver files\<close>

record ResolveFile =
  rf_Port :: int
  rf_Domain :: string
  rf_Nameservers :: "string list"
  rf_Search :: "string list"
  rf_SortList :: "string list"
  rf_Options :: "string list"

definition empty_file :: ResolveFile where
  "empty_file = \<lparr>rf_Port = 0, rf_Domain = [], rf_Nameservers = [], rf_Search = [], rf_SortList = [], rf_Options = []\<rparr>"

text \<open>\<open>strings.Fields\<close> on ASCII text.\<close>

fun split_spaces :: "string \<Rightarrow> string list" where
  "split_spaces [] = [[]]"
| "split_spaces (x # xs) =
     (if is_space x then [] # split_spaces xs
      else (case split_spaces xs of [] \<Rightarrow> [[x]] | w # ws \<Rightarrow> (x # w) # ws))"

definition fields :: "string \<Rightarrow> string list" where
  "fields s = filter (\<lambda>w. w \<noteq> []) (split_spaces s)"

definition newline :: char where "newline = CHR 0x0A"

text \<open>
  The lines a \<open>bufio.Scanner\<close> yields: without the line feed and one carriage return before it, no last
  empty line, and nothing from a line on that does not fit the buffer of 64 KiB.
\<close>

definition scan_lines :: "string \<Rightarrow> string list" where
  "scan_lines t =
     (let ls = split_byte newline t; ls = (if last ls = [] then butlast ls else ls) in
      map (\<lambda>l. trim_suffix l [CHR 0x0D]) (takeWhile (\<lambda>l. length l < 65536) ls))"

datatype rf_err = MustHaveValue string nat | NotValidInteger string nat | NotRecognized string nat

definition parse_file_line :: "nat \<Rightarrow> string \<Rightarrow> ResolveFile \<Rightarrow> rf_err + ResolveFile" where
  "parse_file_line line text rf =
     (let txt = trim_space text in
      if length txt = 0 \<or> txt ! 0 = CHR ''#'' \<or> txt ! 0 = CHR '';'' then Inr rf
      else (let fs = fields txt; fc = length fs; key = fs ! 0; val = fs ! 1 in
        if fc = 0 then Inr rf
        else if fc = 1 then Inl (MustHaveValue key line)
        else if key = ''port'' then
          (if fc \<noteq> 2 then Inl (MustHaveValue key line)
           else (case atoi val of
                   None \<Rightarrow> Inl (NotValidInteger key line)
                 | Some p \<Rightarrow> Inr (rf\<lparr>rf_Port := p\<rparr>)))
        else if key = ''domain'' then
          (if fc \<noteq> 2 then Inl (MustHaveValue key line) else Inr (rf\<lparr>rf_Domain := val\<rparr>))
        else if key = ''nameserver'' then
          (if fc \<noteq> 2 then Inl (MustHaveValue key line)
           else Inr (rf\<lparr>rf_Nameservers := rf_Nameservers rf @ [val]\<rparr>))
        else if key = ''search'' then Inr (rf\<lparr>rf_Search := drop 1 fs\<rparr>)
        else if key = ''sortlist'' then Inr (rf\<lparr>rf_SortList := drop 1 fs\<rparr>)
        else if key = ''options'' then Inr (rf\<lparr>rf_Options := drop 1 fs\<rparr>)
        else Inl (NotRecognized key line)))"

fun parse_file_lines :: "nat \<Rightarrow> string list \<Rightarrow> ResolveFile \<Rightarrow> rf_err + ResolveFile" where
  "parse_file_lines line [] rf = Inr rf"
| "parse_file_lines line (l # ls) rf =
     (case parse_file_line (line + 1) l rf of
        Inl e \<Rightarrow> Inl e
      | Inr rf \<Rightarrow> parse_file_lines (line + 1) ls rf)"

definition ParseResolveFile :: "string \<Rightarrow> rf_err + ResolveFile" where
  "ParseResolveFile rdr = parse_file_lines 0 (scan_lines rdr) empty_file"

definition ResolveFile_Equals :: "ResolveFile option \<Rightarrow> ResolveFile option \<Rightarrow> bool" where
  "ResolveFile_Equals r p =
     (case (r, p) of
        (Some r, Some p) \<Rightarrow>
          rf_Port r = rf_Port p \<and> rf_Domain r = rf_Domain p \<and> rf_Nameservers r = rf_Nameservers p
          \<and> rf_Search r = rf_Search p \<and> rf_SortList r = rf_SortList p \<and> rf_Options r = rf_Options p
      | (r, p) \<Rightarrow> r = None \<and> p = None)"

abbreviation text_line :: "string list \<Rightarrow> string" where
  "text_line ws \<equiv> join_byte (CHR '' '') ws @ [newline]"

definition WriteTo :: "ResolveFile \<Rightarrow> string" where
  "WriteTo r =
     ''# Generated by telepresence'' @ [newline, newline]
     @ (if 0 < rf_Port r then text_line [''port'', itoa (nat (rf_Port r))] else [])
     @ (if rf_Domain r \<noteq> [] then text_line [''domain'', rf_Domain r] else [])
     @ concat (map (\<lambda>ns. text_line [''nameserver'', ns]) (rf_Nameservers r))
     @ (if 0 < length (rf_Search r) then text_line (''search'' # rf_Search r) else [])
     @ (if 0 < length (rf_Options r) then text_line (''options'' # rf_Options r) else [])
     @ (if 0 < length (rf_SortList r) then text_line (''sortlist'' # rf_SortList r) else [])"

section \<open>Reverse names read back\<close>

definition reverse4 :: "u32 \<Rightarrow> string" where
  "reverse4 w = dotted (rev (be_bytes 4 w)) @ arpaV4"

definition nibbles :: "byte list \<Rightarrow> string list" where
  "nibbles bs = concat (map (\<lambda>b. [[hex_digit (unat b mod 16)], [hex_digit (unat b div 16)]]) (rev bs))"

definition reverse6 :: "u128 \<Rightarrow> string" where
  "reverse6 w = join_byte (CHR ''.'') (nibbles (be_bytes 16 w)) @ arpaV6"

definition reverse_name :: "addr \<Rightarrow> string" where
  "reverse_name a = (case a of NoAddr \<Rightarrow> [] | Addr4 w \<Rightarrow> reverse4 w | Addr6 w \<Rightarrow> reverse6 w)"

lemma nibbleToInt_hex: "n < 16 \<Longrightarrow> nibbleToInt [hex_digit n] = Some (of_nat n)"
  by (auto simp: nibbleToInt_def hex_digit_def Let_def)

lemma hex_digit_no_sep: "n < 16 \<Longrightarrow> hex_digit n \<notin> {CHR ''.'', CHR '':'', CHR ''%''}"
  by (auto simp: hex_digit_def dest!: arg_cong [of _ _ "of_char :: char \<Rightarrow> nat"])

lemma join_byte_append:
  "xs \<noteq> [] \<Longrightarrow> ys \<noteq> [] \<Longrightarrow> join_byte c (xs @ ys) = join_byte c xs @ c # join_byte c ys"
  by (induction c xs rule: join_byte.induct) (auto simp: neq_Nil_conv)

lemma join_byte_Cons: "ys \<noteq> [] \<Longrightarrow> join_byte c (y # ys) = y @ c # join_byte c ys"
  by (cases ys) auto

lemma ParseAddr_arpa:
  assumes ws: "ws \<noteq> []" "\<forall>w\<in>set ws. w \<noteq> [] \<and> CHR ''.'' \<notin> set w \<and> CHR '':'' \<notin> set w \<and> CHR ''%'' \<notin> set w"
    and n: "length ws + length (split_byte (CHR ''.'') sfx) \<noteq> 4"
  shows "ParseAddr (join_byte (CHR ''.'') ws @ CHR ''.'' # sfx) = None"
proof -
  have sp: "split_byte (CHR ''.'') (join_byte (CHR ''.'') ws @ CHR ''.'' # sfx) = ws @ split_byte (CHR ''.'') sfx"
    if "ws \<noteq> []" "\<forall>w\<in>set ws. CHR ''.'' \<notin> set w" for ws
    using that by (induction "CHR ''.''" ws rule: join_byte.induct) (auto simp: split_byte_append)
  obtain w vs where wv: "ws = w # vs" using ws by (cases ws) auto
  have "find (\<lambda>c. c = CHR ''.'' \<or> c = CHR '':'' \<or> c = CHR ''%'') w = None"
    using ws by (auto simp: wv find_None_iff)
  then have hd: "find (\<lambda>c. c = CHR ''.'' \<or> c = CHR '':'' \<or> c = CHR ''%'') (join_byte (CHR ''.'') ws @ CHR ''.'' # sfx) = Some (CHR ''.'')"
    by (cases vs) (simp_all add: wv find_append)
  show ?thesis
    using n ws by (simp add: ParseAddr_def hd parseIPv4Fields_def sp)
qed

lemma nibbles_byte:
  "(of_nat (unat b mod 16) :: byte) OR push_bit 4 (of_nat (unat b div 16)) = b"
proof -
  have "(of_nat (unat b mod 16) :: byte) = take_bit 4 b"
    by (rule word_unat_eq_iff [THEN iffD2]) (simp add: unsigned_of_nat unsigned_take_bit_eq take_bit_eq_mod mod_mod_cancel unat_mod_distrib)
  moreover have "(of_nat (unat b div 16) :: byte) = drop_bit 4 b"
  proof -
    have "unat b div 16 < 256" using unsigned_less [of b, where 'a = nat] by simp
    then show ?thesis
      by (intro word_unat_eq_iff [THEN iffD2]) (simp add: unat_of_nat_small unsigned_drop_bit_eq drop_bit_eq_div unsigned_take_bit_eq unat_div_distrib)
  qed
  moreover have "take_bit 4 b OR push_bit 4 (drop_bit 4 b) = b"
  proof (rule bit_word_eqI)
    fix n assume "n < LENGTH(8)"
    then show "bit (take_bit 4 b OR push_bit 4 (drop_bit 4 b)) n = bit b n"
      by (cases "n < 4") (auto simp: bit_simps not_less)
  qed
  ultimately show ?thesis by simp
qed

lemma put_nibbles_bytes:
  assumes "k + length rb \<le> 16"
  shows "put_nibbles (2 * k) (concat (map (\<lambda>b. [[hex_digit (unat b mod 16)], [hex_digit (unat b div 16)]]) rb))
           (replicate (16 - k) 0 @ written) = Some (replicate (16 - k - length rb) 0 @ rev rb @ written)"
  using assms
proof (induction rb arbitrary: k written)
  case (Cons b rb)
  have lt: "unat b mod 16 < 16" "unat b div 16 < 16" using unsigned_less [of b, where 'a = nat] by auto
  have rep: "replicate (16 - k) (0 :: byte) = replicate (15 - k) 0 @ [0]"
    using Cons.prems by (simp add: Suc_diff_le replicate_append_same flip: replicate_Suc)
  have "put_nibbles (2 * Suc k) (concat (map (\<lambda>b. [[hex_digit (unat b mod 16)], [hex_digit (unat b div 16)]]) rb))
          (replicate (16 - Suc k) 0 @ b # written) = Some (replicate (16 - Suc k - length rb) 0 @ rev rb @ b # written)"
    by (rule Cons.IH) (use Cons.prems in simp)
  then show ?case
    by (simp add: nibbleToInt_hex lt Let_def rep nth_append list_update_append nibbles_byte)
qed simp

lemma length_nibbles: "length (nibbles bs) = 2 * length bs"
  by (induction bs) (auto simp: nibbles_def)

lemma nibbles_plain:
  "w \<in> set (nibbles bs) \<Longrightarrow> w \<noteq> [] \<and> CHR ''.'' \<notin> set w \<and> CHR '':'' \<notin> set w \<and> CHR ''%'' \<notin> set w"
proof -
  assume "w \<in> set (nibbles bs)"
  then obtain b where w: "w = [hex_digit (unat (b :: byte) mod 16)] \<or> w = [hex_digit (unat b div 16)]"
    by (auto simp: nibbles_def)
  have "unat b mod 16 < 16" "unat b div 16 < 16" using unsigned_less [of b, where 'a = nat] by auto
  then show ?thesis using w hex_digit_no_sep [of "unat b mod 16"] hex_digit_no_sep [of "unat b div 16"] by auto
qed

lemma PtrAddress_reverse6: "PtrAddress (reverse6 w) = Inr (Addr6 w, [])"
proof -
  have n: "length (nibbles (be_bytes 16 w)) = 32" by (simp add: length_nibbles)
  then have ne: "nibbles (be_bytes 16 w) \<noteq> []" by auto
  have none: "ParseAddr (reverse6 w) = None"
    using ParseAddr_arpa [OF ne, of "''ip6.arpa.''"] nibbles_plain n by (auto simp: reverse6_def arpaV6_def)
  have "put_nibbles 0 (nibbles (be_bytes 16 w)) (replicate 16 0) = Some (be_bytes 16 w)"
    using put_nibbles_bytes [of 0 "rev (be_bytes 16 w)" "[]"] by (simp add: nibbles_def)
  moreover have "\<not> has_suffix (reverse6 w) arpaV4"
    by (auto simp: reverse6_def arpaV4_def arpaV6_def has_suffix_iff append_eq_append_conv2 append_eq_Cons_conv Cons_eq_append_conv)
  moreover have "take (length (reverse6 w) - length arpaV6) (reverse6 w) = join_byte (CHR ''.'') (nibbles (be_bytes 16 w))"
    by (simp add: reverse6_def)
  moreover have "split_byte (CHR ''.'') (join_byte (CHR ''.'') (nibbles (be_bytes 16 w))) = nibbles (be_bytes 16 w)"
    by (rule split_join_byte) (use ne nibbles_plain in auto)
  moreover have "has_suffix (reverse6 w) arpaV6" by (simp add: reverse6_def)
  ultimately show ?thesis
    using none n be_word_be_bytes [where n = 16 and w = w] by (simp add: PtrAddress_def)
qed

lemma PtrAddress_reverse4: "PtrAddress (reverse4 w) = Inr (Addr4 w, [])"
proof -
  let ?ws = "map (\<lambda>b. itoa (unat b)) (rev (be_bytes 4 w))"
  have "ParseAddr (join_byte (CHR ''.'') ?ws @ CHR ''.'' # ''in-addr.arpa.'') = None"
  proof (rule ParseAddr_arpa)
    show "?ws \<noteq> []" by (auto dest: arg_cong [of _ _ length])
    show "\<forall>w\<in>set ?ws. w \<noteq> [] \<and> CHR ''.'' \<notin> set w \<and> CHR '':'' \<notin> set w \<and> CHR ''%'' \<notin> set w"
      using itoa_chars [of "CHR ''%''"] by (auto simp: is_digit_def)
  qed simp
  then have none: "ParseAddr (reverse4 w) = None" by (simp add: reverse4_def dotted_def arpaV4_def)
  have "ParseAddr (dotted (rev (be_bytes 4 w))) = Some (Addr4 (be_word (rev (be_bytes 4 w))), [])"
    by (rule ParseAddr_dotted) simp
  moreover have "be_bytes 4 (be_word (rev (be_bytes 4 w)) :: u32) = rev (be_bytes 4 w)"
    by (rule be_bytes_be_word) auto
  ultimately show ?thesis
    using none be_word_be_bytes [where n = 4 and w = w] by (simp add: PtrAddress_def reverse4_def)
qed

section \<open>Written files read back\<close>

definition is_word :: "string \<Rightarrow> bool" where
  "is_word w \<longleftrightarrow> w \<noteq> [] \<and> list_all (\<lambda>c. \<not> is_space c) w"

lemma split_spaces_append:
  "list_all (\<lambda>c. \<not> is_space c) w \<Longrightarrow> is_space x \<Longrightarrow> split_spaces (w @ x # s) = w # split_spaces s"
  by (induction w) auto

lemma split_spaces_word: "list_all (\<lambda>c. \<not> is_space c) w \<Longrightarrow> split_spaces w = [w]"
  by (induction w) auto

lemma fields_join: "list_all is_word ws \<Longrightarrow> fields (join_byte (CHR '' '') ws) = ws"
proof (induction "CHR '' ''" ws rule: join_byte.induct)
  case (3 w v vs)
  then show ?case by (auto simp: fields_def is_word_def split_spaces_append is_space_def)
qed (auto simp: fields_def is_word_def split_spaces_word)

lemma join_byte_ends:
  assumes "list_all is_word ws" and "ws \<noteq> []"
  shows "join_byte (CHR '' '') ws \<noteq> [] \<and> hd (join_byte (CHR '' '') ws) = hd (hd ws)
    \<and> last (join_byte (CHR '' '') ws) = last (last ws)"
  using assms by (induction "CHR '' ''" ws rule: join_byte.induct) (auto simp: is_word_def)

lemma trim_space_id: "s \<noteq> [] \<Longrightarrow> \<not> is_space (hd s) \<Longrightarrow> \<not> is_space (last s) \<Longrightarrow> trim_space s = s"
  using dropWhile_eq_self_iff [of is_space s] dropWhile_eq_self_iff [of is_space "rev s"]
  by (simp add: trim_space_def hd_rev)

lemma is_word_hd_last: "is_word w \<Longrightarrow> \<not> is_space (hd w) \<and> \<not> is_space (last w)"
  by (auto simp: is_word_def list_all_iff)

lemma trim_space_join:
  assumes "list_all is_word ws" and "ws \<noteq> []"
  shows "trim_space (join_byte (CHR '' '') ws) = join_byte (CHR '' '') ws"
proof (rule trim_space_id)
  have "is_word (hd ws)" "is_word (last ws)" using assms by (auto simp: list_all_iff)
  then show "\<not> is_space (hd (join_byte (CHR '' '') ws))" "\<not> is_space (last (join_byte (CHR '' '') ws))"
    using join_byte_ends [OF assms] is_word_hd_last by auto
qed (use join_byte_ends [OF assms] in auto)

lemma parse_words:
  assumes "list_all is_word (key # vs)" and "vs \<noteq> []" and "hd key \<noteq> CHR ''#''" and "hd key \<noteq> CHR '';''"
  shows "parse_file_line n (join_byte (CHR '' '') (key # vs)) rf =
    (if key = ''port'' then
       (if length vs \<noteq> 1 then Inl (MustHaveValue key n)
        else (case atoi (hd vs) of None \<Rightarrow> Inl (NotValidInteger key n) | Some p \<Rightarrow> Inr (rf\<lparr>rf_Port := p\<rparr>)))
     else if key = ''domain'' then (if length vs \<noteq> 1 then Inl (MustHaveValue key n) else Inr (rf\<lparr>rf_Domain := hd vs\<rparr>))
     else if key = ''nameserver'' then
       (if length vs \<noteq> 1 then Inl (MustHaveValue key n) else Inr (rf\<lparr>rf_Nameservers := rf_Nameservers rf @ [hd vs]\<rparr>))
     else if key = ''search'' then Inr (rf\<lparr>rf_Search := vs\<rparr>)
     else if key = ''sortlist'' then Inr (rf\<lparr>rf_SortList := vs\<rparr>)
     else if key = ''options'' then Inr (rf\<lparr>rf_Options := vs\<rparr>)
     else Inl (NotRecognized key n))"
proof -
  let ?s = "join_byte (CHR '' '') (key # vs)"
  have "trim_space ?s = ?s" "fields ?s = key # vs"
    by (rule trim_space_join, use assms in simp_all) (rule fields_join, use assms in simp)
  moreover have "?s \<noteq> []" "?s ! 0 = hd key"
    using join_byte_ends [of "key # vs"] assms by (auto simp: hd_conv_nth)
  ultimately show ?thesis
    using assms by (cases vs) (simp_all add: parse_file_line_def Let_def split: option.split)
qed

definition file_words :: "ResolveFile \<Rightarrow> string list list" where
  "file_words r =
     (if 0 < rf_Port r then [[''port'', itoa (nat (rf_Port r))]] else [])
     @ (if rf_Domain r \<noteq> [] then [[''domain'', rf_Domain r]] else [])
     @ map (\<lambda>ns. [''nameserver'', ns]) (rf_Nameservers r)
     @ (if rf_Search r \<noteq> [] then [''search'' # rf_Search r] else [])
     @ (if rf_Options r \<noteq> [] then [''options'' # rf_Options r] else [])
     @ (if rf_SortList r \<noteq> [] then [''sortlist'' # rf_SortList r] else [])"

lemma WriteTo_words:
  "WriteTo r = concat (map (\<lambda>l. l @ [newline]) (''# Generated by telepresence'' # [] # map (join_byte (CHR '' '')) (file_words r)))"
  by (simp add: WriteTo_def file_words_def comp_def)

lemma split_lines:
  "\<forall>l\<in>set ls. newline \<notin> set l \<Longrightarrow> split_byte newline (concat (map (\<lambda>l. l @ [newline]) ls)) = ls @ [[]]"
  by (induction ls) (auto simp: split_byte_append)

lemma scan_lines_written:
  assumes "\<forall>l\<in>set ls. newline \<notin> set l \<and> CHR 0x0D \<notin> set l \<and> length l < 65536"
  shows "scan_lines (concat (map (\<lambda>l. l @ [newline]) ls)) = ls"
proof -
  have "trim_suffix l [CHR 0x0D] = l" if "l \<in> set ls" for l
    using assms that by (auto simp: trim_suffix_def has_suffix_iff)
  then have "map (\<lambda>l. trim_suffix l [CHR 0x0D]) ls = ls" by (rule map_idI)
  moreover have "takeWhile (\<lambda>l. length l < 65536) ls = ls"
    using assms by (intro takeWhile_eq_all_conv [THEN iffD2]) auto
  moreover have "split_byte newline (concat (map (\<lambda>l. l @ [newline]) ls)) = ls @ [[]]"
    by (rule split_lines) (use assms in blast)
  ultimately show ?thesis
    unfolding scan_lines_def Let_def by (simp only: last_snoc butlast_snoc refl if_True)
qed

lemma parse_file_lines_append:
  "parse_file_lines n (xs @ ys) rf =
     (case parse_file_lines n xs rf of Inl e \<Rightarrow> Inl e | Inr rf \<Rightarrow> parse_file_lines (n + length xs) ys rf)"
  by (induction xs arbitrary: n rf) (auto split: sum.split)

definition file_wf :: "ResolveFile \<Rightarrow> bool" where
  "file_wf r \<longleftrightarrow> 0 \<le> rf_Port r \<and> rf_Port r < 2 ^ 63 \<and> (rf_Domain r \<noteq> [] \<longrightarrow> is_word (rf_Domain r))
     \<and> list_all is_word (rf_Nameservers r) \<and> list_all is_word (rf_Search r)
     \<and> list_all is_word (rf_Options r) \<and> list_all is_word (rf_SortList r)
     \<and> list_all (\<lambda>ws. length (join_byte (CHR '' '') ws) < 65536) (file_words r)"

lemma is_word_itoa [simp]: "is_word (itoa n)"
proof -
  have "\<not> is_space c" if "is_digit c" for c
    using that by (auto simp: is_digit_def is_space_def)
  then show ?thesis using itoa_chars [of _ n] by (auto simp: is_word_def list_all_iff)
qed

lemma is_word_keys:
  "is_word ''nameserver''" "is_word ''port''" "is_word ''domain''" "is_word ''search''" "is_word ''options''" "is_word ''sortlist''"
  by (simp_all add: is_word_def is_space_def)

lemma file_words_words: "file_wf r \<Longrightarrow> ws \<in> set (file_words r) \<Longrightarrow> list_all is_word ws \<and> ws \<noteq> []"
  using is_word_keys by (auto simp: file_words_def file_wf_def list_all_iff split: if_splits)

lemma join_byte_set: "set (join_byte c ws) \<subseteq> insert c (\<Union> (set ` set ws))"
  by (induction c ws rule: join_byte.induct) auto

lemma join_words_no_break:
  assumes "list_all is_word ws"
  shows "newline \<notin> set (join_byte (CHR '' '') ws) \<and> CHR 0x0D \<notin> set (join_byte (CHR '' '') ws)"
proof -
  have "c \<notin> \<Union> (set ` set ws)" if "is_space c" for c
    using assms that by (auto simp: is_word_def list_all_iff)
  moreover have "is_space newline" "is_space (CHR 0x0D)" "newline \<noteq> CHR '' ''"
    by (simp_all add: newline_def is_space_def)
  ultimately show ?thesis using join_byte_set [of "CHR '' ''" ws] by auto
qed

lemma parse_nameservers:
  "list_all is_word nss \<Longrightarrow>
     parse_file_lines n (map (\<lambda>ns. join_byte (CHR '' '') [''nameserver'', ns]) nss) rf =
       Inr (rf\<lparr>rf_Nameservers := rf_Nameservers rf @ nss\<rparr>)"
proof (induction nss arbitrary: n rf)
  case (Cons ns nss)
  with is_word_keys parse_words [of "''nameserver''" "[ns]" "n + 1" rf] show ?case by simp
qed simp

abbreviation words_lines :: "string list list \<Rightarrow> string list" where
  "words_lines \<equiv> map (join_byte (CHR '' ''))"

lemma parse_one: "parse_file_lines n [l] rf = parse_file_line (n + 1) l rf"
  by (simp split: sum.split)

lemma parse_file_sections:
  assumes "file_wf r"
  shows "parse_file_lines n (words_lines (if 0 < rf_Port r then [[''port'', itoa (nat (rf_Port r))]] else [])) rf
      = Inr (if 0 < rf_Port r then rf\<lparr>rf_Port := rf_Port r\<rparr> else rf)"
    and "parse_file_lines n (words_lines (if rf_Domain r \<noteq> [] then [[''domain'', rf_Domain r]] else [])) rf
      = Inr (if rf_Domain r \<noteq> [] then rf\<lparr>rf_Domain := rf_Domain r\<rparr> else rf)"
    and "parse_file_lines n (words_lines (if rf_Search r \<noteq> [] then [''search'' # rf_Search r] else [])) rf
      = Inr (if rf_Search r \<noteq> [] then rf\<lparr>rf_Search := rf_Search r\<rparr> else rf)"
    and "parse_file_lines n (words_lines (if rf_Options r \<noteq> [] then [''options'' # rf_Options r] else [])) rf
      = Inr (if rf_Options r \<noteq> [] then rf\<lparr>rf_Options := rf_Options r\<rparr> else rf)"
    and "parse_file_lines n (words_lines (if rf_SortList r \<noteq> [] then [''sortlist'' # rf_SortList r] else [])) rf
      = Inr (if rf_SortList r \<noteq> [] then rf\<lparr>rf_SortList := rf_SortList r\<rparr> else rf)"
proof -
  have a: "atoi (itoa (nat (rf_Port r))) = Some (rf_Port r)"
    using assms atoi_itoa [of "nat (rf_Port r)"] by (simp add: file_wf_def nat_less_iff)
  have w: "rf_Domain r \<noteq> [] \<longrightarrow> is_word (rf_Domain r)" "list_all is_word (rf_Search r)"
    "list_all is_word (rf_Options r)" "list_all is_word (rf_SortList r)"
    using assms by (simp_all add: file_wf_def)
  have one: "words_lines [ws] = [join_byte (CHR '' '') ws]" for ws by simp
  show "parse_file_lines n (words_lines (if 0 < rf_Port r then [[''port'', itoa (nat (rf_Port r))]] else [])) rf
      = Inr (if 0 < rf_Port r then rf\<lparr>rf_Port := rf_Port r\<rparr> else rf)"
    using a is_word_keys parse_words [of "''port''" "[itoa (nat (rf_Port r))]" "n + 1" rf]
    by (simp add: one parse_one del: parse_file_lines.simps(2) join_byte.simps)
  show "parse_file_lines n (words_lines (if rf_Domain r \<noteq> [] then [[''domain'', rf_Domain r]] else [])) rf
      = Inr (if rf_Domain r \<noteq> [] then rf\<lparr>rf_Domain := rf_Domain r\<rparr> else rf)"
    using w is_word_keys parse_words [of "''domain''" "[rf_Domain r]" "n + 1" rf]
    by (simp add: one parse_one del: parse_file_lines.simps(2) join_byte.simps)
  show "parse_file_lines n (words_lines (if rf_Search r \<noteq> [] then [''search'' # rf_Search r] else [])) rf
      = Inr (if rf_Search r \<noteq> [] then rf\<lparr>rf_Search := rf_Search r\<rparr> else rf)"
    using w is_word_keys parse_words [of "''search''" "rf_Search r" "n + 1" rf]
    by (simp add: one parse_one del: parse_file_lines.simps(2) join_byte.simps)
  show "parse_file_lines n (words_lines (if rf_Options r \<noteq> [] then [''options'' # rf_Options r] else [])) rf
      = Inr (if rf_Options r \<noteq> [] then rf\<lparr>rf_Options := rf_Options r\<rparr> else rf)"
    using w is_word_keys parse_words [of "''options''" "rf_Options r" "n + 1" rf]
    by (simp add: one parse_one del: parse_file_lines.simps(2) join_byte.simps)
  show "parse_file_lines n (words_lines (if rf_SortList r \<noteq> [] then [''sortlist'' # rf_SortList r] else [])) rf
      = Inr (if rf_SortList r \<noteq> [] then rf\<lparr>rf_SortList := rf_SortList r\<rparr> else rf)"
    using w is_word_keys parse_words [of "''sortlist''" "rf_SortList r" "n + 1" rf]
    by (simp add: one parse_one del: parse_file_lines.simps(2) join_byte.simps)
qed

lemma parse_file_words:
  assumes "file_wf r"
  shows "parse_file_lines n (words_lines (file_words r)) empty_file = Inr r"
proof -
  have ns: "parse_file_lines n (words_lines (map (\<lambda>ns. [''nameserver'', ns]) (rf_Nameservers r))) rf
      = Inr (rf\<lparr>rf_Nameservers := rf_Nameservers rf @ rf_Nameservers r\<rparr>)" for n rf
    using assms parse_nameservers [of "rf_Nameservers r" n rf] by (simp add: file_wf_def comp_def)
  have "parse_file_lines n (words_lines (file_words r)) empty_file =
    Inr (let f = empty_file; f = (if 0 < rf_Port r then f\<lparr>rf_Port := rf_Port r\<rparr> else f);
             f = (if rf_Domain r \<noteq> [] then f\<lparr>rf_Domain := rf_Domain r\<rparr> else f);
             f = f\<lparr>rf_Nameservers := rf_Nameservers f @ rf_Nameservers r\<rparr>;
             f = (if rf_Search r \<noteq> [] then f\<lparr>rf_Search := rf_Search r\<rparr> else f);
             f = (if rf_Options r \<noteq> [] then f\<lparr>rf_Options := rf_Options r\<rparr> else f) in
         if rf_SortList r \<noteq> [] then f\<lparr>rf_SortList := rf_SortList r\<rparr> else f)"
    unfolding file_words_def map_append parse_file_lines_append parse_file_sections [OF assms] ns Let_def sum.case ..
  also have "\<dots> = Inr r"
  proof -
    have "0 \<le> rf_Port r" using assms by (simp add: file_wf_def)
    then show ?thesis by (cases r) (auto simp: empty_file_def Let_def)
  qed
  finally show ?thesis .
qed

section \<open>Properties\<close>

text \<open>
  C38. The address that a reverse lookup asks for is read back from the name in the domains
  \<^verbatim>\<open>in-addr.arpa\<close> and \<^verbatim>\<open>ip6.arpa\<close>, for every IPv4 and every IPv6 address.
\<close>

theorem PtrAddress_reverse:
  "PtrAddress (reverse4 v) = Inr (Addr4 v, []) \<and> PtrAddress (reverse6 w) = Inr (Addr6 w, [])"
  by (simp add: PtrAddress_reverse4 PtrAddress_reverse6)

text \<open>
  A resolver file written by \<open>WriteTo\<close> is read back as it was, provided its names are words, its port is
  not negative and no line is longer than the buffer of the reader.
\<close>

lemma resolve_file_roundtrip:
  assumes "file_wf r"
  shows "ParseResolveFile (WriteTo r) = Inr r"
proof -
  let ?ls = "''# Generated by telepresence'' # [] # words_lines (file_words r)"
  have "scan_lines (WriteTo r) = ?ls"
    unfolding WriteTo_words
  proof (rule scan_lines_written)
    have "newline \<notin> set l \<and> CHR 0x0D \<notin> set l \<and> length l < 65536" if "l \<in> set (words_lines (file_words r))" for l
      using that assms file_words_words [OF assms] join_words_no_break by (auto simp: file_wf_def list_all_iff)
    moreover have "newline \<notin> set ''# Generated by telepresence''" by (simp add: newline_def)
    ultimately show "\<forall>l\<in>set ?ls. newline \<notin> set l \<and> CHR 0x0D \<notin> set l \<and> length l < 65536" by auto
  qed
  moreover have "parse_file_line n ''# Generated by telepresence'' rf = Inr rf" "parse_file_line n [] rf = Inr rf" for n rf
  proof -
    have "trim_space ''# Generated by telepresence'' = ''# Generated by telepresence''"
      by (rule trim_space_id) (simp_all add: is_space_def)
    then show "parse_file_line n ''# Generated by telepresence'' rf = Inr rf" by (simp add: parse_file_line_def)
  qed (simp add: parse_file_line_def trim_space_def)
  ultimately show ?thesis
    by (simp add: ParseResolveFile_def parse_file_words [OF assms])
qed

text \<open>Every record of an answer has the header asked for, and an answer with records is a success.\<close>

lemma answer_with_headers:
  assumes "answer_with qName qType mk res = (rrs, rc, err)"
  shows "(\<forall>r\<in>set rrs. rr_hdr r = NewHeader qName qType) \<and> (rrs \<noteq> [] \<longrightarrow> rc = RcodeSuccess \<and> err = None)"
  using assms by (auto simp: answer_with_def makeError_def split: sum.splits)

lemma dns_Lookup_headers:
  assumes "dns_Lookup r qType qName noSearchDomain = Some (rrs, rc, err)"
  shows "(\<forall>r\<in>set rrs. rr_hdr r = NewHeader qName qType) \<and> (rrs \<noteq> [] \<longrightarrow> rc = RcodeSuccess \<and> err = None)"
proof -
  have failed: "failed = (rrs, rc, err) \<Longrightarrow> rrs = []" if "lookup_SRV r q n = Some (Inl failed)" for q n failed
    using that by (auto simp: lookup_SRV_def makeError_def Let_def split: sum.splits if_splits bind_splits)
  show ?thesis
    using assms unfolding dns_Lookup_def
    by (auto simp: makeError_def Let_def dest: answer_with_headers failed split: if_splits bind_splits sum.splits prod.splits)
qed

lemma join_byte_Nil: "ws \<noteq> [] \<Longrightarrow> join_byte c ws = [] \<longleftrightarrow> ws = [[]]"
  by (cases "(c, ws)" rule: join_byte.cases) auto

definition bare_service :: "string \<Rightarrow> bool" where
  "bare_service name \<longleftrightarrow>
     (\<exists>s p. CHR ''.'' \<notin> set s \<and> CHR ''.'' \<notin> set p \<and> name = ''_'' @ s @ ''._'' @ p @ ''.'')"

lemma svcFQN_None: "svcFQN name r = None \<longleftrightarrow> bare_service name"
  (is "?l \<longleftrightarrow> ?r")
proof
  assume ?l
  then have l: "2 < length (split_byte (CHR ''.'') name)" "has_prefix (split_byte (CHR ''.'') name ! 0) ''_''"
    "has_prefix (split_byte (CHR ''.'') name ! 1) ''_''" "join_byte (CHR ''.'') (drop 2 (split_byte (CHR ''.'') name)) = []"
    by (auto simp: svcFQN_def but_last_def Let_def split: if_splits)
  obtain a b ws where ws: "split_byte (CHR ''.'') name = a # b # ws" "ws \<noteq> []"
    using l(1) by (cases "split_byte (CHR ''.'') name"; cases "tl (split_byte (CHR ''.'') name)") auto
  with l have "ws = [[]]" by (simp add: join_byte_Nil)
  moreover obtain s p where "a = ''_'' @ s" "b = ''_'' @ p" using l ws by (auto simp: has_prefix_iff)
  moreover have "CHR ''.'' \<notin> set a" "CHR ''.'' \<notin> set b"
    using split_byte_parts [of _ "CHR ''.''" name] ws by auto
  moreover have "name = join_byte (CHR ''.'') (a # b # ws)" using join_split_byte [of "CHR ''.''" name] ws by simp
  ultimately show ?r by (auto simp: bare_service_def)
next
  assume ?r
  then obtain s p where sp: "CHR ''.'' \<notin> set s" "CHR ''.'' \<notin> set p" "name = (''_'' @ s) @ CHR ''.'' # (''_'' @ p) @ CHR ''.'' # []"
    by (auto simp: bare_service_def)
  have "split_byte (CHR ''.'') name = [''_'' @ s, ''_'' @ p, []]"
    unfolding sp(3) using sp(1,2) by (subst split_byte_append, simp, subst split_byte_append) simp_all
  then show ?l by (simp add: svcFQN_def but_last_def has_prefix_iff)
qed

text \<open>
  C39. The lookup of an SRV record panics exactly if the name is empty, or if it consists of a service and
  a protocol only (\<^verbatim>\<open>_service._proto.\<close>) and the first lookup does not find it: the name of the host that is
  searched next is then empty, and its last character is cut off.
\<close>

theorem SRV_lookup_panics_iff:
  "dns_Lookup r TypeSRV qName noSearchDomain = None \<longleftrightarrow>
     qName = [] \<or> (\<exists>err. rs_LookupSRV r (butlast qName) = Inl err \<and> fst (MakeDNSError err) = RcodeNameError)
       \<and> bare_service qName"
  unfolding svcFQN_None [symmetric, of qName r]
  by (auto simp: dns_Lookup_def lookup_SRV_def but_last_def makeError_def dns_types Let_def split: sum.splits bind_splits if_splits)

end
