(* ===== verification/Manager_Service.thy ===== *)
theory Manager_Service
  imports Manager_Intercepts Dns_Proxy
begin

text \<open>
  The handlers of the traffic manager's service, \<^verbatim>\<open>cmd/traffic/cmd/manager/service.go\<close> with the validators of
  \<^verbatim>\<open>data.go\<close>, on top of the state of theories \<open>Manager_State\<close> and \<open>Manager_Intercepts\<close>: arrival and return of
  clients and agents, the review of intercepts, the file with the states of agents, what the watchers
  send, and the lookup of names.

  The version parser (\<^verbatim>\<open>blang/semver\<close>), the YAML codec of the state file and the resolvers are parameters, as
  are new session identifiers. Metrics are left out. A time is a number of nanoseconds, the zero time 0.
\<close>

section \<open>Surroundings and state\<close>

record svc_env =
  se_mgr :: mgr_env
  se_managed :: "string list"
  se_semver :: "string \<Rightarrow> string + (nat \<times> nat)"
  se_installID :: string
  se_excluded :: "string list"
  se_AgentMaxIdleTime :: int
  se_ManagerNamespace :: string
  se_marshal :: "(string \<times> int) list \<Rightarrow> string"
  se_unmarshal :: "string \<Rightarrow> string + (string \<times> int) list"
  se_getWorkload :: "string \<Rightarrow> string \<Rightarrow> k8s_error + workload"
  se_ServiceIP :: "byte list option"
  se_serviceNameNs :: string
  se_serviceNameFQN :: string
  se_dotClusterDomain :: string
  se_LookupNetIP :: "string \<Rightarrow> string option + addr list"
  se_resolver :: resolver
  se_now :: nat

record svc_state =
  ss_state :: mgr_state
  ss_agentStateYaml :: string
  ss_tmConfigMapUpdated :: bool

section \<open>Validation\<close>

definition validateClient :: "svc_env \<Rightarrow> client_info \<Rightarrow> string" where
  "validateClient en client =
     (if ci_name client = [] then ''name must not be empty''
      else if ci_namespace client = [] then ''namespace must not be empty''
      else if ci_install_id client = [] then ''install ID must not be empty''
      else if ci_product client = [] then ''product must not be empty''
      else if ci_version client = [] then ''version must not be empty''
      else (case se_semver en (trim_prefix (ci_version client) ''v'') of
              Inl e \<Rightarrow> e
            | Inr (major, minor) \<Rightarrow>
                if major < 2 \<or> major = 2 \<and> minor < 6 then ''client version must be at least 2.6.0'' else []))"

definition validateMechanism :: "mechanism \<Rightarrow> string" where
  "validateMechanism m =
     (if me_name m = [] then ''name must not be empty''
      else if me_product m = [] then ''product must not be empty''
      else if me_version m = [] then ''version must not be empty''
      else [])"

fun validate_mechanisms :: "nat \<Rightarrow> mechanism list \<Rightarrow> string" where
  "validate_mechanisms idx [] = []"
| "validate_mechanisms idx (m # ms) =
     (let msg = validateMechanism m in
      if msg \<noteq> [] then ''mechanism '' @ itoa (idx + 1) @ '': '' @ msg else validate_mechanisms (idx + 1) ms)"

definition validateAgent :: "agent_info \<Rightarrow> string" where
  "validateAgent agent =
     (if ai_name agent = [] then ''name must not be empty''
      else if ai_namespace agent = [] then ''namespace must not be empty''
      else if ai_product agent = [] then ''product must not be empty''
      else if ai_version agent = [] then ''version must not be empty''
      else if length (ai_mechanisms agent) = 0 then ''mechanisms must not be empty''
      else validate_mechanisms 0 (ai_mechanisms agent))"

definition validateIntercept :: "intercept_spec \<Rightarrow> string" where
  "validateIntercept spec =
     (if sp_client spec = [] then ''client must not be empty''
      else if sp_agent spec = [] then ''agent must not be empty''
      else if sp_namespace spec = [] then ''namespace must not be empty''
      else if sp_mechanism spec = [] then ''mechanism must not be empty''
      else [])"

section \<open>Sessions\<close>

definition ensureClientSession :: "session_info \<Rightarrow> mgr_state \<Rightarrow> mgr_error + client_session" where
  "ensureClientSession si s =
     (case map_of (ms_clients s) (si_session_id si) of
        None \<Rightarrow> Inl (StatusErr CodeNotFound (''Client session '' @ quote (si_session_id si) @ '' not found''))
      | Some cs \<Rightarrow> Inr cs)"

definition managedTargetNamespace :: "svc_env \<Rightarrow> client_session \<Rightarrow> string \<Rightarrow> mgr_error + string" where
  "managedTargetNamespace en client ns =
     (let ns = (if ns = [] then ci_namespace (cl_info client) else ns) in
      if ns \<notin> set (se_managed en) then
        Inl (StatusErr CodeFailedPrecondition (''namespace '' @ ns @ '' is not managed by this traffic-manager''))
      else Inr ns)"

definition not_managed :: "string \<Rightarrow> mgr_error" where
  "not_managed ns = StatusErr CodeFailedPrecondition (''namespace '' @ ns @ '' is not managed'')"

definition ArriveAsClient ::
    "svc_env \<Rightarrow> string \<Rightarrow> client_info \<Rightarrow> mgr_state \<Rightarrow> ((mgr_error + session_info) \<times> mgr_state) option" where
  "ArriveAsClient en uuid client s =
     (if ci_namespace client \<notin> set (se_managed en) then Some (Inl (not_managed (ci_namespace client)), s)
      else if validateClient en client \<noteq> [] then Some (Inl (StatusErr CodeInvalidArgument (validateClient en client)), s)
      else map_option (Pair (Inr \<lparr>si_session_id = uuid, si_manager_install_id = se_installID en, si_install_id = Some (ci_install_id client)\<rparr>))
             (addClient uuid client (int (se_now en)) s))"

text \<open>\<open>others\<close> is what other goroutines do between the lookup of the session and its creation.\<close>

definition ReconnectClient ::
    "svc_env \<Rightarrow> (mgr_state \<Rightarrow> mgr_state) \<Rightarrow> string \<Rightarrow> client_info \<Rightarrow> agent_info list \<Rightarrow> intercept_info list \<Rightarrow> mgr_state
     \<Rightarrow> (mgr_error option \<times> mgr_state) option" where
  "ReconnectClient en others sessionID client agents intercepts s =
     (if map_of (ms_clients s) sessionID \<noteq> None then Some (None, s)
      else if ci_namespace client \<notin> set (se_managed en) then Some (Some (not_managed (ci_namespace client)), s)
      else if validateClient en client \<noteq> [] then Some (Some (StatusErr CodeInvalidArgument (validateClient en client)), s)
      else
        map_option (\<lambda>s.
            (None, RestoreIntercepts (se_mgr en) (filter (\<lambda>ii. sp_namespace (ii_spec ii) \<in> set (se_managed en)) intercepts)
                     (RestoreAgents (filter (\<lambda>ai. ai_namespace ai \<in> set (se_managed en)) agents) (int (se_now en)) s)))
          (addClient sessionID client (int (se_now en)) (others s)))"

definition removeExcludedEnvVars :: "svc_env \<Rightarrow> (string \<times> string) list \<Rightarrow> (string \<times> string) list" where
  "removeExcludedEnvVars en envVars = fold AList.delete (se_excluded en) envVars"

definition ArriveAsAgent :: "svc_env \<Rightarrow> agent_info \<Rightarrow> mgr_state \<Rightarrow> ((mgr_error + session_info) \<times> mgr_state) option" where
  "ArriveAsAgent en agent s =
     (if validateAgent agent \<noteq> [] then Some (Inl (StatusErr CodeInvalidArgument (validateAgent agent)), s)
      else
        map_option (\<lambda>(r, s).
            (case r of
               Inl e \<Rightarrow> Inl (PlainErr e)
             | Inr i \<Rightarrow> Inr \<lparr>si_session_id = i, si_manager_install_id = se_installID en, si_install_id = None\<rparr>, s))
          (AddAgent (se_now en)
             (agent\<lparr>ai_environments := map (\<lambda>(cn, e). (cn, removeExcludedEnvVars en e)) (ai_environments agent)\<rparr>) s))"

definition ReconnectAgent :: "svc_env \<Rightarrow> string \<Rightarrow> agent_info \<Rightarrow> mgr_state \<Rightarrow> mgr_state option" where
  "ReconnectAgent en sessionID agent s = map_option snd (RestoreAgent (se_now en) sessionID agent s)"

section \<open>Intercepts\<close>

definition svc_PrepareIntercept ::
    "svc_env \<Rightarrow> create_request \<Rightarrow> mgr_state \<Rightarrow> ((mgr_error + prepared_intercept) \<times> mgr_state) option" where
  "svc_PrepareIntercept en request s =
     (case ensureClientSession (cir_session request) s of
        Inl e \<Rightarrow> Some (Inl e, s)
      | Inr client \<Rightarrow>
          (case managedTargetNamespace en client (sp_namespace (cir_spec request)) of
             Inl e \<Rightarrow> Some (Inl e, s)
           | Inr ns \<Rightarrow> PrepareIntercept (se_mgr en) (request\<lparr>cir_spec := (cir_spec request)\<lparr>sp_namespace := ns\<rparr>\<rparr>) client s))"

definition CreateIntercept ::
    "svc_env \<Rightarrow> ((mgr_state \<Rightarrow> mgr_state) \<times> wait_event) list \<Rightarrow> (nat \<Rightarrow> mgr_state \<Rightarrow> mgr_state) \<Rightarrow> create_request \<Rightarrow> mgr_state
     \<Rightarrow> ((mgr_error + intercept_info) \<times> mgr_state) option" where
  "CreateIntercept en evs others ciReq s =
     (case ensureClientSession (cir_session ciReq) s of
        Inl e \<Rightarrow> Some (Inl e, s)
      | Inr client \<Rightarrow>
          (case managedTargetNamespace en client (sp_namespace (cir_spec ciReq)) of
             Inl e \<Rightarrow> Some (Inl e, s)
           | Inr ns \<Rightarrow>
               (let ciReq = ciReq\<lparr>cir_spec := (cir_spec ciReq)\<lparr>sp_namespace := ns\<rparr>\<rparr>; val = validateIntercept (cir_spec ciReq) in
                if val \<noteq> [] then Some (Inl (StatusErr CodeInvalidArgument val), s)
                else map_option (\<lambda>(r, s). case r of
                         Inl e \<Rightarrow> (Inl e, s)
                       | Inr (client, info) \<Rightarrow> (Inr info, mark_client (int (se_now en)) (cl_id client) s))
                       (AddIntercept (se_mgr en) evs others ciReq s))))"

definition MakeInterceptID :: "string \<Rightarrow> string \<Rightarrow> mgr_state \<Rightarrow> mgr_error + string" where
  "MakeInterceptID sessionID name s =
     (if sessionID = [] then Inr name
      else if map_of (ms_clients s) sessionID = None then
        Inl (StatusErr CodeNotFound (''Client session '' @ quote sessionID @ '' not found''))
      else Inr (sessionID @ '':'' @ name))"

definition svc_RemoveIntercept :: "world \<Rightarrow> session_info \<Rightarrow> string \<Rightarrow> mgr_state \<Rightarrow> mgr_error option \<times> mgr_state" where
  "svc_RemoveIntercept w si name s =
     (case ensureClientSession si s of
        Inl e \<Rightarrow> (Some e, s)
      | Inr _ \<Rightarrow> (None, RemoveIntercept w (si_session_id si @ '':'' @ name) s))"

definition GetIntercept :: "string \<Rightarrow> string \<Rightarrow> mgr_state \<Rightarrow> mgr_error + intercept_info" where
  "GetIntercept sessionID name s =
     (case MakeInterceptID sessionID name s of
        Inl e \<Rightarrow> Inl e
      | Inr interceptID \<Rightarrow>
          (case icept_lookup s interceptID of
             Some it \<Rightarrow> Inr (it_info it)
           | None \<Rightarrow> Inl (StatusErr CodeNotFound (''Intercept named '' @ quote name @ '' not found''))))"

definition reviewed :: "svc_env \<Rightarrow> mgr_state \<Rightarrow> agent_info \<Rightarrow> review_request \<Rightarrow> intercept_info \<Rightarrow> intercept_info" where
  "reviewed en s agent rv ii =
     (if sp_namespace (ii_spec ii) \<noteq> ai_namespace agent \<or> sp_agent (ii_spec ii) \<noteq> ai_name agent then ii
      else if IsInactive (ai_pod_uid agent) (ms_configs s) then ii
      else if ii_disposition ii = NO_AGENT \<or> ii_disposition ii = WAITING then
        ii\<lparr>ii_disposition := rv_disposition rv, ii_message := rv_message rv, ii_pod_ip := rv_pod_ip rv, ii_pod_name := ai_pod_name agent,
           ii_ftp_port := rv_ftp_port rv, ii_sftp_port := rv_sftp_port rv, ii_mount_point := rv_mount_point rv,
           ii_mechanism_args_desc := rv_mechanism_args_desc rv, ii_environment := removeExcludedEnvVars en (rv_environment rv),
           ii_mounts := rv_mounts rv\<rparr>
      else ii)"

definition ReviewIntercept :: "svc_env \<Rightarrow> string \<Rightarrow> review_request \<Rightarrow> mgr_state \<Rightarrow> (mgr_error option \<times> mgr_state) option" where
  "ReviewIntercept en sessionID rv s =
     (case GetAgent sessionID s of
        None \<Rightarrow> Some (None, s)
      | Some agent \<Rightarrow>
          map_option (\<lambda>(r, s). case r of
              None \<Rightarrow> (Some (StatusErr CodeNotFound (''Intercept with ID '' @ quote (rv_id rv) @ '' not found for this session'')), s)
            | Some _ \<Rightarrow> (None, s))
            (UpdateIntercept (se_now en) (rv_id rv) (reviewed en s (ag_info agent) rv) s))"

section \<open>The states of agents\<close>

definition WorkloadKey_String :: "workload_key \<Rightarrow> string" where
  "WorkloadKey_String k = wk_Kind k @ ''.'' @ wk_Name k @ ''.'' @ wk_Namespace k"

type_synonym agent_states = "(workload_key \<times> int) list"

text \<open>The keys of the file are the texts of the workload keys; two keys with the same text are one entry.\<close>

definition AgentStateFile_raw :: "agent_states \<Rightarrow> (string \<times> int) list" where
  "AgentStateFile_raw f = fold (\<lambda>(k, v). AList.update (WorkloadKey_String k) v) f []"

fun AgentStateFile_parse :: "(string \<times> int) list \<Rightarrow> agent_states \<Rightarrow> string + agent_states" where
  "AgentStateFile_parse [] f = Inr f"
| "AgentStateFile_parse ((keyStr, v) # raw) f =
     (case split_byte (CHR ''.'') keyStr of
        [kind, name, ns] \<Rightarrow> AgentStateFile_parse raw (AList.update \<lparr>wk_Name = name, wk_Namespace = ns, wk_Kind = kind\<rparr> v f)
      | _ \<Rightarrow> Inl (''invalid key format: '' @ keyStr))"

definition AgentStateFile_Unmarshal :: "svc_env \<Rightarrow> string \<Rightarrow> string + agent_states" where
  "AgentStateFile_Unmarshal en data =
     (case se_unmarshal en data of Inl e \<Rightarrow> Inl e | Inr raw \<Rightarrow> AgentStateFile_parse raw [])"

abbreviation active_intercepts :: "workload_key \<Rightarrow> svc_state \<Rightarrow> nat" where
  "active_intercepts k s \<equiv> CountActiveInterceptsForWorkload (wk_Name k) (wk_Namespace k) (ss_state s)"

definition UpdateLastEngagementTime :: "svc_env \<Rightarrow> workload_key \<Rightarrow> svc_state \<Rightarrow> string option \<times> svc_state" where
  "UpdateLastEngagementTime en k s =
     (case (if ss_agentStateYaml s \<noteq> [] then AgentStateFile_Unmarshal en (ss_agentStateYaml s) else Inr []) of
        Inl e \<Rightarrow> (Some (''error unmarshalling agent states: '' @ e), s)
      | Inr f \<Rightarrow>
          if ss_agentStateYaml s \<noteq> [] \<and> go_lookup 0 f k \<noteq> 0 \<and> active_intercepts k s = 0 then (None, s)
          else (None, s\<lparr>ss_agentStateYaml := se_marshal en (AgentStateFile_raw (AList.update k (int (se_now en)) f)), ss_tmConfigMapUpdated := True\<rparr>))"

definition removeUnusedAgent :: "svc_env \<Rightarrow> workload_key \<Rightarrow> svc_state \<Rightarrow> mgr_error option \<times> svc_state" where
  "removeUnusedAgent en k s =
     (if se_AgentMaxIdleTime en = 0 then (None, s)
      else if active_intercepts k s \<noteq> 0 then (None, s)
      else (case AgentStateFile_Unmarshal en (ss_agentStateYaml s) of
              Inl e \<Rightarrow> (Some (PlainErr (''err in unmarshalling YAML: '' @ e)), s)
            | Inr f \<Rightarrow>
                (case map_of f k of
                   None \<Rightarrow> (Some (PlainErr (''error in looking up workload key '' @ WorkloadKey_String k @ '' in agentStateFile, err: %!w(<nil>)'')), s)
                 | Some t \<Rightarrow>
                     if t = 0 then (None, s)
                     else if int (se_now en) - t > se_AgentMaxIdleTime en then
                       (case se_getWorkload en (wk_Name k) (wk_Namespace k) of
                          Inl _ \<Rightarrow> (Some (StatusErr CodeNotFound (''Workload '' @ wk_Name k @ ''.'' @ wk_Namespace k @ '' not found'')), s)
                        | Inr wl \<Rightarrow>
                            (case EvictPodsWithAgentConfig (en_world (se_mgr en)) wl (cw_Delete (wl_Name wl) (wk_Namespace k) (ms_configs (ss_state s))) of
                               (e, c) \<Rightarrow>
                                 (map_option (\<lambda>e. StatusErr CodeInternal (''unable to delete agent for workload '' @ wl_Name wl @ ''.'' @ wk_Namespace k @ '': '' @ e)) e,
                                  s\<lparr>ss_state := (ss_state s)\<lparr>ms_configs := c\<rparr>\<rparr>)))
                     else (None, s))))"

text \<open>The mark of an agent is its object's, so the watchers of the map are not told.\<close>

definition mark_agent :: "int \<Rightarrow> string \<Rightarrow> mgr_state \<Rightarrow> mgr_state" where
  "mark_agent now i s =
     s\<lparr>ms_agents := (ms_agents s)\<lparr>cm_entries := map (\<lambda>(k, ag). (k, if k = i then ag\<lparr>ag_timestamp := snd (Mark now (ag_timestamp ag))\<rparr> else ag))
        (cm_entries (ms_agents s))\<rparr>\<rparr>"

definition Remain :: "svc_env \<Rightarrow> string \<Rightarrow> int option \<Rightarrow> svc_state \<Rightarrow> mgr_error option \<times> svc_state" where
  "Remain en sessionID lastActivity s =
     (case GetAgent sessionID (ss_state s) of
        None \<Rightarrow>
          (case map_of (ms_clients (ss_state s)) sessionID of
             None \<Rightarrow> (Some (StatusErr CodeNotFound (''Session '' @ quote sessionID @ '' not found'')), s)
           | Some client \<Rightarrow>
               (let m = mark_client (case lastActivity of Some la \<Rightarrow> la | None \<Rightarrow> int (se_now en)) sessionID (ss_state s) in
                (None, s\<lparr>ss_state := m\<lparr>ms_clients := map (\<lambda>(k, cs). (k, if k = sessionID then AddTimeSpent (int (se_now en)) cs else cs)) (ms_clients m)\<rparr>\<rparr>)))
      | Some agent \<Rightarrow>
          (let k = \<lparr>wk_Name = ai_name (ag_info agent), wk_Namespace = ai_namespace (ag_info agent), wk_Kind = ai_kind (ag_info agent)\<rparr>;
               s = snd (UpdateLastEngagementTime en k (s\<lparr>ss_state := mark_agent (int (se_now en)) sessionID (ss_state s)\<rparr>))
           in removeUnusedAgent en k s))"

fun uninstall_workloads :: "world \<Rightarrow> string \<Rightarrow> workload list \<Rightarrow> mgr_state \<Rightarrow> mgr_error option \<times> mgr_state" where
  "uninstall_workloads w ns [] s = (None, s)"
| "uninstall_workloads w ns (wl # wls) s =
     (case EvictPodsWithAgentConfig w wl (cw_Delete (wl_Name wl) ns (ms_configs s)) of
        (Some e, c) \<Rightarrow> (Some (StatusErr CodeInternal (''unable to delete agent for workload '' @ wl_Name wl @ ''.'' @ ns @ '': '' @ e)), s\<lparr>ms_configs := c\<rparr>)
      | (None, c) \<Rightarrow> uninstall_workloads w ns wls (s\<lparr>ms_configs := c\<rparr>))"

definition UninstallAgents :: "svc_env \<Rightarrow> string \<Rightarrow> string list \<Rightarrow> mgr_state \<Rightarrow> mgr_error option \<times> mgr_state" where
  "UninstallAgents en sessionID agents s =
     (let w = en_world (se_mgr en) in
      case map_of (ms_clients s) sessionID of
        None \<Rightarrow> (Some (StatusErr CodeNotFound (''Client session '' @ quote sessionID @ '' not found'')), s)
      | Some client \<Rightarrow>
          (let ns = ci_namespace (cl_info client) in
           if length agents = 0 then
             (case EvictAllPodsWithAgentConfig w ns (ms_configs s) of
                (r, c) \<Rightarrow> (if r = Inr [] then None else Some (StatusErr CodeInternal ''unable to delete pods with agent''), s\<lparr>ms_configs := c\<rparr>))
           else (case find (\<lambda>a. isl (se_getWorkload en a ns)) agents of
                   Some a \<Rightarrow> (Some (StatusErr CodeNotFound (''Workload '' @ a @ ''.'' @ ns @ '' not found'')), s)
                 | None \<Rightarrow> uninstall_workloads w ns (map (\<lambda>a. projr (se_getWorkload en a ns)) agents) s)))"

section \<open>Watchers\<close>

datatype watcher = AnyWatcher | AgentWatcher agent_session | ClientWatcher

text \<open>The filter of a watcher of intercepts, by its session; that of an agent reads the state when it is applied.\<close>

definition watchIntercepts :: "string \<Rightarrow> mgr_state \<Rightarrow> mgr_error + watcher" where
  "watchIntercepts sessionID s =
     (if sessionID = [] then Inr AnyWatcher
      else if SessionDone sessionID s = None then Inl (StatusErr CodeNotFound (''session '' @ quote sessionID @ '' not found''))
      else (case GetAgent sessionID s of Some agent \<Rightarrow> Inr (AgentWatcher agent) | None \<Rightarrow> Inr ClientWatcher))"

fun intercept_filter :: "watcher \<Rightarrow> string \<Rightarrow> mgr_state \<Rightarrow> intercept_info \<Rightarrow> bool" where
  "intercept_filter AnyWatcher sid s info = (ii_disposition info \<noteq> REMOVED \<and> \<not> IsChildIntercept (ii_spec info))"
| "intercept_filter (AgentWatcher agent) sid s info =
     (if sp_namespace (ii_spec info) \<noteq> ai_namespace (ag_info agent) \<or> sp_agent (ii_spec info) \<noteq> ai_name (ag_info agent) then False
      else if GetAgent sid s = None then False
      else ii_disposition info \<in> {WAITING, ACTIVE, AGENT_ERROR, REMOVED})"
| "intercept_filter ClientWatcher sid s info =
     (si_session_id (ii_client_session info) = sid \<and> ii_disposition info \<noteq> REMOVED \<and> \<not> IsChildIntercept (ii_spec info))"

record agent_pod_info =
  ap_pod_id :: string
  ap_pod_name :: string
  ap_namespace :: string
  ap_pod_ip :: "byte list"
  ap_api_port :: i32
  ap_intercepted :: bool
  ap_workload_name :: string

definition agent_pod_info_of :: "string \<Rightarrow> mgr_state \<Rightarrow> addr \<Rightarrow> agent_session \<Rightarrow> agent_pod_info" where
  "agent_pod_info_of client s aip ag =
     (let a = ag_info ag in
      \<lparr>ap_pod_id = ai_pod_uid a, ap_pod_name = ai_pod_name a, ap_namespace = ai_namespace a, ap_pod_ip = as_slice aip, ap_api_port = ai_api_port a,
       ap_intercepted = IsInterceptedBy (Addr_String aip) (ai_name a) (ai_namespace a) client s, ap_workload_name = ai_name a\<rparr>)"

text \<open>
  The snapshot that is sent after a change, if any: the comparison with the last one is of pointers to
  new objects, so only two empty snapshots are equal.
\<close>

definition watchAgentPods_changed ::
    "string \<Rightarrow> mgr_state \<Rightarrow> agent_session list \<Rightarrow> agent_pod_info list \<Rightarrow> agent_pod_info list option \<times> agent_pod_info list" where
  "watchAgentPods_changed client s sessions lastAgents =
     (let agents = map (\<lambda>a. agent_pod_info_of client s (case ParseAddr (ai_pod_ip (ag_info a)) of Some (x, _) \<Rightarrow> x | None \<Rightarrow> NoAddr) a)
                     (filter (\<lambda>a. \<not> IsInactive (ai_pod_uid (ag_info a)) (ms_configs s)) sessions)
      in if lastAgents = [] \<and> agents = [] then (None, lastAgents) else (Some agents, agents))"

definition zero_pod_info :: agent_pod_info where
  "zero_pod_info = \<lparr>ap_pod_id = [], ap_pod_name = [], ap_namespace = [], ap_pod_ip = [], ap_api_port = 0, ap_intercepted = False,
     ap_workload_name = []\<rparr>"

definition agentPods_delta ::
    "string \<Rightarrow> mgr_state \<Rightarrow> (string, agent_session) delta \<Rightarrow> (string, agent_pod_info) cache_map \<Rightarrow> (string, agent_pod_info) cache_map" where
  "agentPods_delta client s d m =
     fold (\<lambda>(k, _). Delete (=) zero_pod_info k) (dl_Removals d)
       (fold (\<lambda>(k, a) m.
           if IsInactive (ai_pod_uid (ag_info a)) (ms_configs s) then m
           else (case ParseAddr (ai_pod_ip (ag_info a)) of
                   None \<Rightarrow> m
                 | Some (aip, _) \<Rightarrow> cache_Store (=) zero_pod_info k (agent_pod_info_of client s aip a) m)) (dl_Upserts d) m)"

definition refreshIntercepted :: "string \<Rightarrow> mgr_state \<Rightarrow> (string, agent_pod_info) cache_map \<Rightarrow> (string, agent_pod_info) cache_map" where
  "refreshIntercepted client s m =
     fold (\<lambda>(k, a) m.
         if IsInactive (ap_pod_id a) (ms_configs s) then m
         else
           (let aip = (case addr_from_slice (ap_pod_ip a) of Some x \<Rightarrow> x | None \<Rightarrow> NoAddr);
                intercepted = IsInterceptedBy (Addr_String aip) (ap_workload_name a) (ap_namespace a) client s
            in Compute (=) zero_pod_info k (\<lambda>a loaded. if loaded \<and> ap_intercepted a \<noteq> intercepted
                 then (a\<lparr>ap_intercepted := intercepted\<rparr>, UpdateOp) else (a, CancelOp)) m)) (cm_entries m) m"

text \<open>The snapshot of the active agents, in the order of their sessions; an unchanged one is not sent again.\<close>

definition watchAgents_changed ::
    "config_watcher \<Rightarrow> (string \<times> agent_session) list \<Rightarrow> agent_info list option \<Rightarrow> agent_info list option \<times> agent_info list option" where
  "watchAgents_changed c snapshot lastSnap =
     (let agents = map (\<lambda>(_, ag). ag_info ag) (filter (\<lambda>(_, ag). \<not> IsInactive (ai_pod_uid (ag_info ag)) c)
                     (sort_key (\<lambda>(i, _). map (of_char :: char \<Rightarrow> nat) i) snapshot))
      in if lastSnap = Some agents then (None, lastSnap) else (Some agents, Some agents))"

definition agent_info_delta :: "(string, agent_session) delta \<Rightarrow> (string \<times> agent_info) list \<times> string list" where
  "agent_info_delta d = (map (\<lambda>(k, v). (k, ag_info v)) (dl_Upserts d), rev (map fst (dl_Removals d)))"

definition intercept_info_delta :: "(string, intercept_state) delta \<Rightarrow> (string \<times> intercept_info) list \<times> string list" where
  "intercept_info_delta d = (map (\<lambda>(k, v). (k, it_info v)) (dl_Upserts d), KeySlice (dl_Removals d))"

definition intercept_snapshot :: "(string \<times> intercept_state) list \<Rightarrow> intercept_info list" where
  "intercept_snapshot m = sort_key (\<lambda>ii. map (of_char :: char \<Rightarrow> nat) (ii_id ii)) (map (\<lambda>(_, it). it_info it) m)"

fun managed_namespaces :: "svc_env \<Rightarrow> client_session \<Rightarrow> string list \<Rightarrow> mgr_error + string list" where
  "managed_namespaces en client [] = Inr []"
| "managed_namespaces en client (ns # nss) =
     (case managedTargetNamespace en client ns of
        Inl e \<Rightarrow> Inl e
      | Inr n \<Rightarrow> (case managed_namespaces en client nss of Inl e \<Rightarrow> Inl e | Inr ns' \<Rightarrow> Inr (n # ns')))"

definition agentPodNamespaces :: "svc_env \<Rightarrow> client_session \<Rightarrow> string list \<Rightarrow> mgr_error + string list" where
  "agentPodNamespaces en client nss =
     (case managed_namespaces en client (if length nss = 0 then [[]] else nss) of
        Inl e \<Rightarrow> Inl e
      | Inr nss \<Rightarrow> Inr (remdups_adj (sort_key (map (of_char :: char \<Rightarrow> nat)) nss)))"

section \<open>Names\<close>

text \<open>Indexing is in range wherever the function reads a byte.\<close>

definition hasDomainSuffix :: "string \<Rightarrow> string \<Rightarrow> bool" where
  "hasDomainSuffix name suffix =
     (let sl = length suffix; nl = length name in
      if sl = 0 then False
      else if nl < sl then False
      else if name ! (nl - 1) \<noteq> CHR ''.'' then False
      else
        (let sfp = nl - sl in
         if suffix ! (sl - 1) \<noteq> CHR ''.'' \<and> sfp = 0 then False
         else
           (let (sfp, name) = (if suffix ! (sl - 1) \<noteq> CHR ''.'' then (sfp - 1, take (nl - 1) name) else (sfp, name)) in
            if sfp = 0 then name = suffix
            else name ! (sfp - 1) = CHR ''.'' \<and> drop sfp name = suffix)))"

definition dots :: "string \<Rightarrow> nat" where
  "dots name = length (filter (\<lambda>c. c = CHR ''.'') name)"

definition svc_Lookup :: "svc_env \<Rightarrow> session_info \<Rightarrow> string \<Rightarrow> mgr_state \<Rightarrow> mgr_error + byte list list" where
  "svc_Lookup en si qname s =
     (case ensureClientSession si s of
        Inl e \<Rightarrow> Inl e
      | Inr client \<Rightarrow>
          if se_ServiceIP en \<noteq> None \<and> (qname = se_serviceNameNs en \<or> qname = se_serviceNameFQN en) then
            Inr [case addr_from_slice (the (se_ServiceIP en)) of Some a \<Rightarrow> as_slice a | None \<Rightarrow> []]
          else if length qname < 2 \<or> last qname \<noteq> CHR ''.'' then Inl (StatusErr CodeInvalidArgument ''empty name'')
          else
            (let ns = ci_namespace (cl_info client);
                 name = (if dots qname = 1 \<and> ns \<noteq> se_ManagerNamespace en then qname @ ns else butlast qname)
             in case se_LookupNetIP en name of
                  Inl (Some e) \<Rightarrow> Inl (PlainErr e)
                | Inl None \<Rightarrow> Inr []
                | Inr ips \<Rightarrow> Inr (map (\<lambda>ip. as_slice (if is4in6 ip then unmap ip else ip)) ips)))"

definition resolveSelfDNS :: "svc_env \<Rightarrow> byte list \<Rightarrow> u16 \<Rightarrow> string \<Rightarrow> RRs" where
  "resolveSelfDNS en svcIP qType name =
     (let hdr = \<lparr>rh_Name = name, rh_Rrtype = qType, rh_Class = ClassINET, rh_Ttl = 0\<rparr>;
          ip4 = (case ip_To4 svcIP of None \<Rightarrow> [] | Some ip \<Rightarrow> ip)
      in if qType = TypeA then [\<lparr>rr_hdr = hdr, rr_data = RR_A ip4\<rparr>]
         else if qType = TypeAAAA then
           [\<lparr>rr_hdr = hdr,
             rr_data = RR_AAAA (if ip_To4 svcIP = None then (case ip_To16 svcIP of None \<Rightarrow> [] | Some ip \<Rightarrow> ip) else [])\<rparr>]
         else if qType = TypeCNAME then [\<lparr>rr_hdr = hdr, rr_data = RR_CNAME (se_serviceNameFQN en)\<rparr>]
         else [])"

definition rename_rrs :: "string \<Rightarrow> RRs \<Rightarrow> RRs" where
  "rename_rrs qName rrs = map (\<lambda>r. r\<lparr>rr_hdr := (rr_hdr r)\<lparr>rh_Name := qName\<rparr>\<rparr>) rrs"

definition lookupFromManager :: "svc_env \<Rightarrow> string \<Rightarrow> u16 \<Rightarrow> string \<Rightarrow> string \<Rightarrow> mgr_state \<Rightarrow> (RRs \<times> int) option" where
  "lookupFromManager en sessionID qType qName noSearchDomain s =
     (let client = map_of (ms_clients s) sessionID;
          ns = (case client of Some c \<Rightarrow> ci_namespace (cl_info c) | None \<Rightarrow> []);
          nDots = (case client of Some _ \<Rightarrow> dots qName | None \<Rightarrow> 0);
          restore1 = (client \<noteq> None \<and> nDots = 1 \<and> ns \<noteq> se_ManagerNamespace en);
          name1 = (if restore1 then qName @ ns @ ''.'' else qName)
      in do {
        (rrs, rCode, err) \<leftarrow> dns_Lookup (se_resolver en) qType name1 noSearchDomain;
        let again = (err = None \<and> rCode = RcodeNameError \<and> client \<noteq> None \<and> 1 < nDots \<and> ns \<noteq> se_ManagerNamespace en
                     \<and> \<not> has_suffix name1 (se_dotClusterDomain en) \<and> \<not> hasDomainSuffix name1 ns);
        (rrs, rCode, err) \<leftarrow>
          (if again then dns_Lookup (se_resolver en) qType (name1 @ ns @ ''.'') noSearchDomain else Some (rrs, rCode, err));
        Some (if err \<noteq> None then ([], rCode)
              else (if restore1 \<or> again then rename_rrs qName rrs else rrs, rCode))
      })"

text \<open>The records and the code that \<open>LookupDNS\<close> packs into its answer.\<close>

definition LookupDNS :: "svc_env \<Rightarrow> string \<Rightarrow> u16 \<Rightarrow> string \<Rightarrow> mgr_state \<Rightarrow> (RRs \<times> int) option" where
  "LookupDNS en sessionID qType name s =
     (case se_ServiceIP en of
        Some svcIP \<Rightarrow>
          if (name = se_serviceNameNs en \<or> name = se_serviceNameFQN en) \<and> resolveSelfDNS en svcIP qType name \<noteq> [] then
            Some (resolveSelfDNS en svcIP qType name, RcodeSuccess)
          else lookupFromManager en sessionID qType name (se_dotClusterDomain en) s
      | None \<Rightarrow> lookupFromManager en sessionID qType name (se_dotClusterDomain en) s)"

text \<open>Whatever name the search went through, an answer is for the name that was asked.\<close>

lemma lookupFromManager_names:
  assumes "lookupFromManager en sessionID qType qName noSearchDomain s = Some (rrs, rCode)"
  shows "\<forall>r\<in>set rrs. rh_Name (rr_hdr r) = qName"
  using assms unfolding lookupFromManager_def Let_def
  by (auto simp: rename_rrs_def NewHeader_def dest!: dns_Lookup_headers split: if_splits bind_splits)

lemma LookupDNS_names:
  assumes "LookupDNS en sessionID qType qName s = Some (rrs, rCode)"
  shows "\<forall>r\<in>set rrs. rh_Name (rr_hdr r) = qName"
  using assms lookupFromManager_names [of en sessionID qType qName "se_dotClusterDomain en" s rrs rCode]
  by (auto simp: LookupDNS_def resolveSelfDNS_def Let_def split: option.splits if_splits)

section \<open>Suffixes of names\<close>

lemma suffix_after_dot:
  assumes "d \<noteq> []" and "length d \<le> length name"
  shows "(name = d \<or> (\<exists>p. name = p @ ''.'' @ d)) \<longleftrightarrow>
    drop (length name - length d) name = d \<and> (length name = length d \<or> name ! (length name - length d - 1) = CHR ''.'')"
proof
  assume "name = d \<or> (\<exists>p. name = p @ ''.'' @ d)"
  then show "drop (length name - length d) name = d \<and> (length name = length d \<or> name ! (length name - length d - 1) = CHR ''.'')"
    by (auto simp: nth_append)
next
  let ?k = "length name - length d"
  assume r: "drop ?k name = d \<and> (length name = length d \<or> name ! (?k - 1) = CHR ''.'')"
  show "name = d \<or> (\<exists>p. name = p @ ''.'' @ d)"
  proof (cases "length name = length d")
    case True
    with r show ?thesis by simp
  next
    case False
    with assms(2) obtain j where j: "?k = Suc j" by (metis Suc_pred diff_is_0_eq le_neq_implies_less linorder_not_le neq0_conv)
    then have "name = take j name @ name ! j # drop (Suc j) name" by (intro id_take_nth_drop) linarith
    with r False j show ?thesis by (metis append_Cons append_Nil diff_Suc_1)
  qed
qed

text \<open>
  A name has a domain suffix, in the sense of the search for names, exactly if the suffix is not
  empty and the name is the suffix, or ends with a dot and the suffix, where the suffix is completed by
  a final dot if it has none.
\<close>

lemma hasDomainSuffix_iff:
  "hasDomainSuffix name suffix \<longleftrightarrow>
     suffix \<noteq> [] \<and> (let d = (if last suffix = CHR ''.'' then suffix else suffix @ ''.'') in name = d \<or> (\<exists>p. name = p @ ''.'' @ d))"
proof (cases "suffix = [] \<or> length name < length suffix")
  case True
  then show ?thesis by (auto simp: hasDomainSuffix_def Let_def)
next
  case False
  then have ne: "suffix \<noteq> []" "name \<noteq> []" and le: "length suffix \<le> length name" by auto
  have l: "name ! (length name - 1) = last name" "suffix ! (length suffix - 1) = last suffix"
    using ne by (simp_all add: last_conv_nth)
  show ?thesis
  proof (cases "last suffix = CHR ''.''")
    case True
    have "last name = CHR ''.''" if "drop (length name - length suffix) name = suffix"
      using that True ne le by (metis last_drop diff_less length_greater_0_conv)
    with True ne le False show ?thesis
      unfolding hasDomainSuffix_def Let_def l suffix_after_dot [OF ne(1) le, simplified] using suffix_after_dot [OF ne(1) le] by auto
  next
    case no: False
    have b: "take (length name - 1) name = butlast name" by (simp add: butlast_conv_take)
    have c: "(name = suffix @ ''.'' \<or> (\<exists>p. name = p @ ''.'' @ (suffix @ ''.''))) \<longleftrightarrow>
        last name = CHR ''.'' \<and> (butlast name = suffix \<or> (\<exists>p. butlast name = p @ ''.'' @ suffix))"
      using ne(2) by (cases name rule: rev_cases) auto
    show ?thesis
    proof (cases "length suffix \<le> length (butlast name)")
      case False
      then have "length name = length suffix" using le by simp
      with no ne False show ?thesis unfolding hasDomainSuffix_def Let_def l c by auto
    next
      case True
      moreover have "0 < length name" "0 < length suffix" using ne by auto
      ultimately have k: "length name - length suffix \<noteq> 0" "length (butlast name) - length suffix = length name - length suffix - 1"
        unfolding length_butlast by linarith+
      let ?B = "butlast name"
      have h: "hasDomainSuffix name suffix \<longleftrightarrow> last name = CHR ''.'' \<and>
          (if length ?B - length suffix = 0 then ?B = suffix
           else ?B ! (length ?B - length suffix - 1) = CHR ''.'' \<and> drop (length ?B - length suffix) ?B = suffix)"
        unfolding hasDomainSuffix_def Let_def l b k(2) using no ne le k(1) by simp
      have e: "length ?B = length suffix \<longleftrightarrow> length ?B - length suffix = 0" using True by linarith
      show ?thesis
        unfolding h if_not_P [OF no] Let_def c suffix_after_dot [OF ne(1) True] e using ne(1) by (cases "length ?B - length suffix = 0") (simp, auto)
    qed
  qed
qed

section \<open>Reading the state file\<close>

definition plain_key :: "workload_key \<Rightarrow> bool" where
  "plain_key k \<longleftrightarrow> CHR ''.'' \<notin> set (wk_Kind k) \<and> CHR ''.'' \<notin> set (wk_Name k) \<and> CHR ''.'' \<notin> set (wk_Namespace k)"

lemma dots_simps [simp]: "dots [] = 0" "dots (c # s) = (if c = CHR ''.'' then Suc (dots s) else dots s)" "dots (s @ t) = dots s + dots t"
  by (simp_all add: dots_def)

lemma dots_0: "dots s = 0 \<longleftrightarrow> CHR ''.'' \<notin> set s"
  by (auto simp: dots_def filter_empty_conv)

lemma length_split_dots: "length (split_byte (CHR ''.'') s) = Suc (dots s)"
  by (induction s) (auto split: list.splits)

text \<open>The text of a key splits into three parts exactly when none of them has a dot, and these are the parts.\<close>

lemma split_key: "plain_key k \<Longrightarrow> split_byte (CHR ''.'') (WorkloadKey_String k) = [wk_Kind k, wk_Name k, wk_Namespace k]"
  by (simp add: plain_key_def WorkloadKey_String_def split_byte_append split_byte_single)

lemma split_key_3: "length (split_byte (CHR ''.'') (WorkloadKey_String k)) = 3 \<longleftrightarrow> plain_key k"
  by (auto simp: length_split_dots WorkloadKey_String_def plain_key_def simp flip: dots_0)

definition readable :: "(string \<times> int) list \<Rightarrow> bool" where
  "readable raw \<longleftrightarrow> (\<forall>(k, v)\<in>set raw. length (split_byte (CHR ''.'') k) = 3)"

lemma three_parts: "length xs = 3 \<longleftrightarrow> (\<exists>a b c. xs = [a, b, c])"
  by (auto simp: length_Suc_conv numeral_3_eq_3)

lemma parse_readable: "(\<exists>f'. AgentStateFile_parse raw f = Inr f') \<longleftrightarrow> readable raw"
proof (induction raw arbitrary: f)
  case (Cons kv raw)
  obtain k v where kv: "kv = (k, v)" by fastforce
  show ?case
  proof (cases "length (split_byte (CHR ''.'') k) = 3")
    case True
    then obtain a b c where "split_byte (CHR ''.'') k = [a, b, c]" unfolding three_parts by blast
    with Cons.IH True show ?thesis by (simp add: kv readable_def)
  next
    case False
    then have "\<exists>e. AgentStateFile_parse (kv # raw) f = Inl e"
      by (auto simp: kv split: list.splits)
    with False show ?thesis by (auto simp: kv readable_def)
  qed
qed (simp add: readable_def)

lemma WorkloadKey_String_inject: "plain_key k \<Longrightarrow> plain_key k' \<Longrightarrow> WorkloadKey_String k = WorkloadKey_String k' \<Longrightarrow> k = k'"
  using split_key [of k] split_key [of k'] by simp

lemma split_parts:
  assumes "split_byte (CHR ''.'') t = [a, b, c]"
  shows "plain_key \<lparr>wk_Name = b, wk_Namespace = c, wk_Kind = a\<rparr>" "WorkloadKey_String \<lparr>wk_Name = b, wk_Namespace = c, wk_Kind = a\<rparr> = t"
proof -
  show "plain_key \<lparr>wk_Name = b, wk_Namespace = c, wk_Kind = a\<rparr>"
    using split_byte_parts [of _ "CHR ''.''" t] assms by (auto simp: plain_key_def)
  show "WorkloadKey_String \<lparr>wk_Name = b, wk_Namespace = c, wk_Kind = a\<rparr> = t"
    using join_split_byte [of "CHR ''.''" t] assms by (simp add: WorkloadKey_String_def)
qed

text \<open>What the reader finds for a key.\<close>

lemma parse_lookup:
  assumes "AgentStateFile_parse raw g = Inr f" and "maps_wf raw"
  shows "map_of f k = (case (if plain_key k then map_of raw (WorkloadKey_String k) else None) of Some v \<Rightarrow> Some v | None \<Rightarrow> map_of g k)"
  using assms
proof (induction raw arbitrary: g)
  case (Cons kv raw)
  obtain t v where kv: "kv = (t, v)" by fastforce
  from Cons.prems(1) have "length (split_byte (CHR ''.'') t) = 3"
    using parse_readable [of "kv # raw" g] by (auto simp: kv readable_def)
  then obtain a b c where abc: "split_byte (CHR ''.'') t = [a, b, c]" unfolding three_parts by blast
  let ?K = "\<lparr>wk_Name = b, wk_Namespace = c, wk_Kind = a\<rparr>"
  note K = split_parts [OF abc]
  have ih: "map_of f k = (case (if plain_key k then map_of raw (WorkloadKey_String k) else None) of Some v \<Rightarrow> Some v | None \<Rightarrow> map_of (AList.update ?K v g) k)"
    using Cons abc by (simp add: kv maps_wf_def)
  show ?case
  proof (cases "k = ?K")
    case True
    have "map_of raw t = None" using Cons.prems(2) by (simp add: kv maps_wf_def map_of_eq_None_iff)
    with ih K True show ?thesis by (simp add: kv)
  next
    case False
    then have "plain_key k \<Longrightarrow> WorkloadKey_String k \<noteq> t" using WorkloadKey_String_inject [OF _ K(1), of k] K(2) by auto
    with ih False show ?thesis by (simp add: kv update_conv' split: option.split)
  qed
qed simp

lemma raw_entries: "fst ` set (AgentStateFile_raw f) = (\<lambda>(k, _). WorkloadKey_String k) ` set f"
proof -
  have "fst ` set (fold (\<lambda>(k, v). AList.update (WorkloadKey_String k) v) f m) = fst ` set m \<union> (\<lambda>(k, _). WorkloadKey_String k) ` set f" for m :: "(string \<times> int) list"
    by (induction f arbitrary: m) (simp_all add: dom_update split_def Un_assoc [symmetric])
  then show ?thesis by (simp add: AgentStateFile_raw_def)
qed

lemma readable_keys: "readable raw \<longleftrightarrow> (\<forall>t\<in>fst ` set raw. length (split_byte (CHR ''.'') t) = 3)"
  by (simp add: readable_def split_def)

lemma readable_raw: "readable (AgentStateFile_raw f) \<longleftrightarrow> (\<forall>k\<in>fst ` set f. plain_key k)"
  unfolding readable_keys raw_entries by (simp add: split_key_3 split_def)

text \<open>The YAML codec keeps the entries of a map, and a file with an entry is not empty.\<close>

definition yaml_law :: "svc_env \<Rightarrow> (string \<times> int) list \<Rightarrow> bool" where
  "yaml_law en raw \<longleftrightarrow> se_marshal en raw \<noteq> []
     \<and> (\<exists>raw'. se_unmarshal en (se_marshal en raw) = Inr raw' \<and> maps_wf raw' \<and> map_of raw' = map_of raw)"

lemma map_of_raw:
  assumes "\<forall>k\<in>fst ` set f. plain_key k" and "maps_wf f" and "plain_key k"
  shows "map_of (AgentStateFile_raw f) (WorkloadKey_String k) = map_of f k"
proof -
  let ?F = "fold (\<lambda>(k, v). AList.update (WorkloadKey_String k) v)"
  have "map_of (?F f m) (WorkloadKey_String k) = (case map_of f k of Some v \<Rightarrow> Some v | None \<Rightarrow> map_of m (WorkloadKey_String k))" for m
    using assms(1,2)
  proof (induction f arbitrary: m)
    case (Cons kv f)
    obtain k0 v where kv: "kv = (k0, v)" by fastforce
    have ih: "map_of (?F f (AList.update (WorkloadKey_String k0) v m)) (WorkloadKey_String k)
        = (case map_of f k of Some v \<Rightarrow> Some v | None \<Rightarrow> map_of (AList.update (WorkloadKey_String k0) v m) (WorkloadKey_String k))"
      using Cons by (simp add: maps_wf_def)
    show ?case
    proof (cases "k0 = k")
      case True
      have "map_of f k0 = None" using Cons.prems(2) by (simp add: kv maps_wf_def map_of_eq_None_iff)
      with ih True show ?thesis by (simp add: kv)
    next
      case False
      then have "WorkloadKey_String k0 \<noteq> WorkloadKey_String k"
        using WorkloadKey_String_inject [OF _ assms(3), of k0] Cons.prems(1) by (auto simp: kv)
      with ih False show ?thesis by (simp add: kv update_conv' split: option.split)
    qed
  qed simp
  then show ?thesis by (simp add: AgentStateFile_raw_def split: option.split)
qed

section \<open>Marks\<close>

lemma map_of_map_key: "map_of (map (\<lambda>(k, x). (k, if k = i then g x else x)) xs) k = map_option (\<lambda>x. if k = i then g x else x) (map_of xs k)"
  by (induction xs) auto

lemma keys_map_key: "map fst (map (\<lambda>(k, x). (k, if k = i then g x else x)) xs) = map fst xs"
  by (simp add: split_def)

lemma change_client_wf:
  assumes "mgr_wf s" and "owned s" and "\<And>c. cl_id (g c) = cl_id c"
  shows "mgr_wf (s\<lparr>ms_clients := map (\<lambda>(k, c). (k, if k = i then g c else c)) (ms_clients s)\<rparr>)"
    "owned (s\<lparr>ms_clients := map (\<lambda>(k, c). (k, if k = i then g c else c)) (ms_clients s)\<rparr>)"
proof -
  let ?cs = "map (\<lambda>(k, c). (k, if k = i then g c else c)) (ms_clients s)"
  have "maps_wf ?cs" using assms(1) unfolding maps_wf_def keys_map_key by (simp add: mgr_wf_def maps_wf_def)
  moreover have "cl_id c = k" if "map_of ?cs k = Some c" for k c
    using that mgr_wf_client_id [OF assms(1), of k] assms(3) unfolding map_of_map_key by (auto split: if_splits)
  ultimately show "mgr_wf (s\<lparr>ms_clients := ?cs\<rparr>)" by (rule mgr_wf_clients [OF assms(1)])
  show "owned (s\<lparr>ms_clients := ?cs\<rparr>)" using assms(2) by (simp add: owned_def icepts_def)
qed

lemma Mark_at_least: "now \<le> snd (Mark now old)"
  by (simp add: Mark_def)

section \<open>A sample service\<close>

text \<open>Its codec knows one file, with the state of one workload.\<close>

definition dotted_key :: workload_key where
  "dotted_key = \<lparr>wk_Name = ''my.app'', wk_Namespace = ''default'', wk_Kind = ''Deployment''\<rparr>"

definition sample_svc :: svc_env where
  "sample_svc =
     \<lparr>se_mgr = sample_env, se_managed = [''default''], se_semver = (\<lambda>_. Inr (2, 20)), se_installID = ''i'', se_excluded = [], se_AgentMaxIdleTime = 5,
      se_ManagerNamespace = ''ambassador'', se_marshal = (\<lambda>_. ''{}''), se_unmarshal = (\<lambda>_. Inr [(''Deployment.my.app.default'', 7)]), se_getWorkload = (\<lambda>_ _. Inl NotFound), se_ServiceIP = None,
      se_serviceNameNs = [], se_serviceNameFQN = [], se_dotClusterDomain = ''.cluster.local.'', se_LookupNetIP = (\<lambda>_. Inl None),
      se_resolver = empty_resolver, se_now = 20\<rparr>"

section \<open>Properties\<close>

text \<open>
  C31. A review changes at most the disposition, the pod and the agent's answers of the intercept that it
  names, and only if the reviewing agent is active and serves the workload of the intercept and the
  intercept waits for an agent: an intercept that another agent has accepted keeps its pod.
\<close>

theorem review_effect:
  assumes "mgr_wf s" and "GetAgent sid s = Some ag" and "icepts s (rv_id rv) = Some (ii, fs)"
  shows "\<exists>s' ii'. ReviewIntercept en sid rv s = Some (None, s') \<and> mgr_wf s' \<and> same_frame s s'
    \<and> (\<forall>k. icepts s' k = (if k = rv_id rv then Some (ii', fs) else icepts s k))
    \<and> (if ii_disposition ii \<in> {NO_AGENT, WAITING} \<and> sp_agent (ii_spec ii) = ai_name (ag_info ag) \<and> sp_namespace (ii_spec ii) = ai_namespace (ag_info ag)
       then ii_disposition ii' = rv_disposition rv \<and> ii_pod_ip ii' = rv_pod_ip rv \<and> ii_pod_name ii' = ai_pod_name (ag_info ag)
         \<and> ii_message ii' = rv_message rv \<and> ii_spec ii' = ii_spec ii \<and> ii_client_session ii' = ii_client_session ii
       else ii' = ii\<lparr>ii_modified_at := se_now en\<rparr>)"
proof -
  let ?f = "reviewed en s (ag_info ag) rv"
  have i: "ii_id (?f x) = ii_id x" for x by (simp add: reviewed_def)
  have act: "\<not> IsInactive (ai_pod_uid (ag_info ag)) (ms_configs s)" using assms(2) by (auto simp: GetAgent_def split: option.splits if_splits)
  from UpdateIntercept_returns [OF assms(1,3) i, of "se_now en"] obtain s' where
    u: "UpdateIntercept (se_now en) (rv_id rv) ?f s = Some (Some ((?f ii)\<lparr>ii_modified_at := se_now en\<rparr>), s')" "same_frame s s'" "mgr_wf s'"
      "\<And>k. icepts s' k = (if k = rv_id rv then Some ((?f ii)\<lparr>ii_modified_at := se_now en\<rparr>, fs) else icepts s k)"
    by metis
  have "ReviewIntercept en sid rv s = Some (None, s')" by (simp add: ReviewIntercept_def assms(2) u(1))
  with u(2-4) act show ?thesis
    by (intro exI [of _ s'] exI [of _ "(?f ii)\<lparr>ii_modified_at := se_now en\<rparr>"]) (auto simp: reviewed_def)
qed

theorem review_effect_witness:
  "\<exists>s'. ReviewIntercept sample_svc ''agent:b'' (plain_review ''c1:web'' AGENT_ERROR [] []) sample_mgr = Some (None, s')
     \<and> map_option (ii_disposition \<circ> fst) (icepts s' ''c1:web'') = Some ACTIVE"
proof -
  let ?ag = "sample_agent_session ''b'' ''10.0.0.2'' 9" and ?rv = "plain_review ''c1:web'' AGENT_ERROR [] []"
  let ?it = "sample_icept ''c1:web'' ''10.0.0.1'' [DeleteIntercept ''c1:web-80'']"
  have a: "GetAgent ''agent:b'' sample_mgr = Some ?ag"
    by (simp add: GetAgent_def sample_mgr_def IsInactive_def mgr_NewState_def NewWatcher_def sample_agent_session_def)
  have i: "icepts sample_mgr (rv_id ?rv) = Some (it_info ?it, it_finalizers ?it)" by (simp add: icepts_sample plain_review_def)
  have d: "ii_disposition (it_info ?it) = ACTIVE" "rv_id ?rv = ''c1:web''" by (simp_all add: sample_icept_def plain_review_def)
  from review_effect [OF sample_mgr_ok(1) a i, of sample_svc] d show ?thesis by auto
qed

text \<open>
  C32. The file with the states of agents can be read exactly if no kind, name or namespace in it has a
  dot, and what is read is then what was written. A single workload with a dot in its name makes the
  file unreadable: from then on no agent's state is updated or found.
\<close>

theorem agent_states_readable_iff:
  assumes "yaml_law en (AgentStateFile_raw f)" and "maps_wf f"
  shows "((\<exists>f'. AgentStateFile_Unmarshal en (se_marshal en (AgentStateFile_raw f)) = Inr f') \<longleftrightarrow> (\<forall>k\<in>fst ` set f. plain_key k))
    \<and> (\<forall>f'. AgentStateFile_Unmarshal en (se_marshal en (AgentStateFile_raw f)) = Inr f' \<longrightarrow> map_of f' = map_of f)
    \<and> ((\<exists>k\<in>fst ` set f. \<not> plain_key k) \<and> ss_agentStateYaml s = se_marshal en (AgentStateFile_raw f) \<longrightarrow>
         (\<forall>k. fst (UpdateLastEngagementTime en k s) \<noteq> None \<and> snd (UpdateLastEngagementTime en k s) = s
           \<and> (se_AgentMaxIdleTime en \<noteq> 0 \<and> active_intercepts k s = 0 \<longrightarrow> fst (removeUnusedAgent en k s) \<noteq> None)))"
proof -
  from assms(1) obtain raw where raw: "se_unmarshal en (se_marshal en (AgentStateFile_raw f)) = Inr raw" "maps_wf raw"
    "map_of raw = map_of (AgentStateFile_raw f)" "se_marshal en (AgentStateFile_raw f) \<noteq> []" by (auto simp: yaml_law_def)
  have keys: "fst ` set raw = fst ` set (AgentStateFile_raw f)" using raw(3) by (metis dom_map_of_conv_image_fst)
  have "readable raw \<longleftrightarrow> readable (AgentStateFile_raw f)" unfolding readable_keys keys ..
  then have rd: "readable raw \<longleftrightarrow> (\<forall>k\<in>fst ` set f. plain_key k)" unfolding readable_raw .
  let ?u = "AgentStateFile_Unmarshal en (se_marshal en (AgentStateFile_raw f))"
  have u: "?u = AgentStateFile_parse raw []" by (simp add: AgentStateFile_Unmarshal_def raw(1))
  have 1: "(\<exists>f'. ?u = Inr f') \<longleftrightarrow> (\<forall>k\<in>fst ` set f. plain_key k)" unfolding u parse_readable rd ..
  have 2: "map_of f' = map_of f" if "?u = Inr f'" for f'
  proof
    fix k
    from that 1 have p: "\<forall>k\<in>fst ` set f. plain_key k" by blast
    from parse_lookup [OF that [unfolded u] raw(2), of k] have l: "map_of f' k = (if plain_key k then map_of raw (WorkloadKey_String k) else None)"
      by (auto split: option.splits if_splits)
    show "map_of f' k = map_of f k"
    proof (cases "plain_key k")
      case False
      then have "map_of f k = None" using p by (auto simp: map_of_eq_None_iff)
      with l False show ?thesis by simp
    qed (use l raw(3) map_of_raw [OF p assms(2), of k] in simp)
  qed
  have 3: "fst (UpdateLastEngagementTime en k s) \<noteq> None \<and> snd (UpdateLastEngagementTime en k s) = s
      \<and> (se_AgentMaxIdleTime en \<noteq> 0 \<and> active_intercepts k s = 0 \<longrightarrow> fst (removeUnusedAgent en k s) \<noteq> None)"
    if "\<exists>k\<in>fst ` set f. \<not> plain_key k" "ss_agentStateYaml s = se_marshal en (AgentStateFile_raw f)" for k
  proof -
    from that(1) 1 obtain e where "?u = Inl e" by (cases ?u) auto
    with that(2) raw(4) show ?thesis by (simp add: UpdateLastEngagementTime_def removeUnusedAgent_def)
  qed
  from 1 2 3 show ?thesis by blast
qed

theorem agent_states_readable_iff_witness:
  "\<not> (\<exists>f'. AgentStateFile_Unmarshal sample_svc (se_marshal sample_svc (AgentStateFile_raw [(dotted_key, 7)])) = Inr f')"
proof -
  have raw: "AgentStateFile_raw [(dotted_key, 7)] = [(''Deployment.my.app.default'', 7)]"
    by (simp add: AgentStateFile_raw_def dotted_key_def WorkloadKey_String_def)
  have y: "yaml_law sample_svc (AgentStateFile_raw [(dotted_key, 7)])" unfolding raw by (simp add: yaml_law_def sample_svc_def maps_wf_def)
  have "\<not> plain_key dotted_key" by (simp add: plain_key_def dotted_key_def)
  with agent_states_readable_iff [OF y] show ?thesis by (simp add: maps_wf_def)
qed



section \<open>Two reconnections\<close>

text \<open>
  The session is looked up before it is restored: when the same client reconnects twice at once, the
  second restoration finds the session and panics.
\<close>

lemma concurrent_reconnect_panics:
  assumes "map_of (ms_clients s) sid = None" and "ci_namespace client \<in> set (se_managed en)" and "validateClient en client = []"
  shows "ReconnectClient en (\<lambda>s. snd (the (ReconnectClient en (\<lambda>s. s) sid client [] [] s))) sid client agents intercepts s = None"
  using assms by (simp add: ReconnectClient_def addClient_def RestoreAgents_def RestoreIntercepts_def)

end
