(* ===== verification/Client_Config.thy ===== *)
theory Client_Config
  imports Netip_Text
begin

text \<open>
  The configuration of the client, \<^verbatim>\<open>pkg/client/config.go\<close>: its sections with their default values, the merge
  of two configurations in which the values of the second take priority unless they are defaults, the
  loading from the system's and the user's file, and the named timeouts.

  A section is a record with the fields of the Go struct. A slice is an option, \<open>None\<close> for \<open>nil\<close>: the merge
  compares with \<open>reflect.DeepEqual\<close>, which tells \<open>nil\<close> and an empty slice apart. Durations are nanoseconds,
  a quantity of \<^verbatim>\<open>k8s.io/apimachinery\<close> is its text, the empty one for zero. The decoder of the files (YAML and
  JSON) and the file system are parameters. On Linux and macOS the part that depends on the system is empty.

  Main facts: the merge is associative with the default as its unit, so a value is the last one in the order
  of the files that is not a default; the marker file always switches the usage reports off; every timeout's
  message names the key that sets it, with one exception.
\<close>

section \<open>Sections\<close>

text \<open>
  What \<open>mergeNonDefaults\<close> does to one field: the value \<open>p\<close> that is merged unless it is the default \<open>d\<close>, else the value \<open>r\<close> that was there.
\<close>

definition non_default :: "'v \<Rightarrow> 'v \<Rightarrow> 'v \<Rightarrow> 'v" where
  "non_default d p r = (if p \<noteq> d then p else r)"

lemma non_default_assoc [simp]: "non_default d c (non_default d b a) = non_default d (non_default d c b) a"
  by (simp add: non_default_def)

lemma non_default_default [simp]: "non_default d d a = a"
  by (simp add: non_default_def)

subsection \<open>Timeouts\<close>

record Timeouts =
  to_ClusterConnect :: "int"
  to_ConnectivityCheck :: "int"
  to_EndpointDial :: "int"
  to_Helm :: "int"
  to_Intercept :: "int"
  to_RoundtripLatency :: "int"
  to_ProxyDial :: "int"
  to_TrafficManagerAPI :: "int"
  to_TrafficManagerConnect :: "int"
  to_TrafficAgentArrival :: "int"
  to_FtpReadWrite :: "int"
  to_FtpShutdown :: "int"
  to_ContainerShutdown :: "int"

definition defaultTimeouts :: Timeouts where
  "defaultTimeouts =
     \<lparr>to_ClusterConnect = 20000000000,
      to_ConnectivityCheck = 500000000,
      to_EndpointDial = 3000000000,
      to_Helm = 30000000000,
      to_Intercept = 30000000000,
      to_RoundtripLatency = 2000000000,
      to_ProxyDial = 5000000000,
      to_TrafficManagerAPI = 15000000000,
      to_TrafficManagerConnect = 60000000000,
      to_TrafficAgentArrival = 0,
      to_FtpReadWrite = 60000000000,
      to_FtpShutdown = 120000000000,
      to_ContainerShutdown = 0\<rparr>"

definition Timeouts_nonDefaults :: "Timeouts \<Rightarrow> Timeouts \<Rightarrow> Timeouts" where
  "Timeouts_nonDefaults r p =
     \<lparr>to_ClusterConnect = non_default (to_ClusterConnect defaultTimeouts) (to_ClusterConnect p) (to_ClusterConnect r),
      to_ConnectivityCheck = non_default (to_ConnectivityCheck defaultTimeouts) (to_ConnectivityCheck p) (to_ConnectivityCheck r),
      to_EndpointDial = non_default (to_EndpointDial defaultTimeouts) (to_EndpointDial p) (to_EndpointDial r),
      to_Helm = non_default (to_Helm defaultTimeouts) (to_Helm p) (to_Helm r),
      to_Intercept = non_default (to_Intercept defaultTimeouts) (to_Intercept p) (to_Intercept r),
      to_RoundtripLatency = non_default (to_RoundtripLatency defaultTimeouts) (to_RoundtripLatency p) (to_RoundtripLatency r),
      to_ProxyDial = non_default (to_ProxyDial defaultTimeouts) (to_ProxyDial p) (to_ProxyDial r),
      to_TrafficManagerAPI = non_default (to_TrafficManagerAPI defaultTimeouts) (to_TrafficManagerAPI p) (to_TrafficManagerAPI r),
      to_TrafficManagerConnect = non_default (to_TrafficManagerConnect defaultTimeouts) (to_TrafficManagerConnect p) (to_TrafficManagerConnect r),
      to_TrafficAgentArrival = non_default (to_TrafficAgentArrival defaultTimeouts) (to_TrafficAgentArrival p) (to_TrafficAgentArrival r),
      to_FtpReadWrite = non_default (to_FtpReadWrite defaultTimeouts) (to_FtpReadWrite p) (to_FtpReadWrite r),
      to_FtpShutdown = non_default (to_FtpShutdown defaultTimeouts) (to_FtpShutdown p) (to_FtpShutdown r),
      to_ContainerShutdown = non_default (to_ContainerShutdown defaultTimeouts) (to_ContainerShutdown p) (to_ContainerShutdown r)\<rparr>"

definition maxTimeoutsConnectivityCheck :: int where
  "maxTimeoutsConnectivityCheck = 5000000000"

definition Timeouts_merge :: "Timeouts \<Rightarrow> Timeouts \<Rightarrow> Timeouts" where
  "Timeouts_merge t p =
     (let t = Timeouts_nonDefaults t p in
      if maxTimeoutsConnectivityCheck < to_ConnectivityCheck t
      then t\<lparr>to_ConnectivityCheck := maxTimeoutsConnectivityCheck\<rparr> else t)"

subsection \<open>Log levels\<close>

record LogLevels =
  ll_CLI :: "int"
  ll_KubeAuthDaemon :: "int"
  ll_UserDaemon :: "int"
  ll_RootDaemon :: "int"

definition defaultLogLevels :: LogLevels where
  "defaultLogLevels =
     \<lparr>ll_CLI = 0,
      ll_KubeAuthDaemon = 0,
      ll_UserDaemon = 0,
      ll_RootDaemon = 0\<rparr>"

definition LogLevels_merge :: "LogLevels \<Rightarrow> LogLevels \<Rightarrow> LogLevels" where
  "LogLevels_merge r p =
     \<lparr>ll_CLI = non_default (ll_CLI defaultLogLevels) (ll_CLI p) (ll_CLI r),
      ll_KubeAuthDaemon = non_default (ll_KubeAuthDaemon defaultLogLevels) (ll_KubeAuthDaemon p) (ll_KubeAuthDaemon r),
      ll_UserDaemon = non_default (ll_UserDaemon defaultLogLevels) (ll_UserDaemon p) (ll_UserDaemon r),
      ll_RootDaemon = non_default (ll_RootDaemon defaultLogLevels) (ll_RootDaemon p) (ll_RootDaemon r)\<rparr>"

subsection \<open>Usage reports\<close>

record Usage =
  us_Enabled :: "bool"
  us_CollectorAddress :: "string"
  us_Insecure :: "bool"

definition defaultUsage :: Usage where
  "defaultUsage =
     \<lparr>us_Enabled = True,
      us_CollectorAddress = ''usg.tada.se:443'',
      us_Insecure = False\<rparr>"

definition Usage_merge :: "Usage \<Rightarrow> Usage \<Rightarrow> Usage" where
  "Usage_merge r p =
     \<lparr>us_Enabled = non_default (us_Enabled defaultUsage) (us_Enabled p) (us_Enabled r),
      us_CollectorAddress = non_default (us_CollectorAddress defaultUsage) (us_CollectorAddress p) (us_CollectorAddress r),
      us_Insecure = non_default (us_Insecure defaultUsage) (us_Insecure p) (us_Insecure r)\<rparr>"

subsection \<open>Images\<close>

record Images =
  im_PrivateRegistry :: "string"
  im_PrivateAgentImage :: "string"
  im_PrivateClientImage :: "string"
  im_PrivateWebhookRegistry :: "string"

definition defaultImages :: Images where
  "defaultImages =
     \<lparr>im_PrivateRegistry = ''ghcr.io/telepresenceio'',
      im_PrivateAgentImage = [],
      im_PrivateClientImage = [],
      im_PrivateWebhookRegistry = []\<rparr>"

definition Images_merge :: "Images \<Rightarrow> Images \<Rightarrow> Images" where
  "Images_merge r p =
     \<lparr>im_PrivateRegistry = non_default (im_PrivateRegistry defaultImages) (im_PrivateRegistry p) (im_PrivateRegistry r),
      im_PrivateAgentImage = non_default (im_PrivateAgentImage defaultImages) (im_PrivateAgentImage p) (im_PrivateAgentImage r),
      im_PrivateClientImage = non_default (im_PrivateClientImage defaultImages) (im_PrivateClientImage p) (im_PrivateClientImage r),
      im_PrivateWebhookRegistry = non_default (im_PrivateWebhookRegistry defaultImages) (im_PrivateWebhookRegistry p) (im_PrivateWebhookRegistry r)\<rparr>"

text \<open>The registry and the image of the environment, \<open>ev_\<close> for \<open>GetEnv\<close>.\<close>

record client_env =
  ev_Registry :: string
  ev_AgentImage :: string
  ev_ClientImage :: string

definition Registry :: "client_env \<Rightarrow> Images \<Rightarrow> string" where
  "Registry env img =
     (if im_PrivateRegistry img = im_PrivateRegistry defaultImages \<and> ev_Registry env \<noteq> [] then ev_Registry env
      else im_PrivateRegistry img)"

definition AgentImage :: "client_env \<Rightarrow> Images \<Rightarrow> string" where
  "AgentImage env img = (if im_PrivateAgentImage img \<noteq> [] then im_PrivateAgentImage img else ev_AgentImage env)"

definition ClientImage :: "client_env \<Rightarrow> Images \<Rightarrow> string" where
  "ClientImage env img = (if im_PrivateClientImage img \<noteq> [] then im_PrivateClientImage img else ev_ClientImage env)"

subsection \<open>Connections\<close>

record Grpc =
  gr_MaxReceiveSizeV :: "string"
  gr_DaemonPort :: "u16"
  gr_TeleroutePort :: "u16"
  gr_SimulateDisconnect :: "int"
  gr_PingInterval :: "int"
  gr_WatchRetryInterval :: "int"

definition defaultGrpc :: Grpc where
  "defaultGrpc =
     \<lparr>gr_MaxReceiveSizeV = [],
      gr_DaemonPort = 4038,
      gr_TeleroutePort = 4039,
      gr_SimulateDisconnect = 0,
      gr_PingInterval = 60000000000,
      gr_WatchRetryInterval = 10000000000\<rparr>"

definition Grpc_merge :: "Grpc \<Rightarrow> Grpc \<Rightarrow> Grpc" where
  "Grpc_merge r p =
     \<lparr>gr_MaxReceiveSizeV = non_default (gr_MaxReceiveSizeV defaultGrpc) (gr_MaxReceiveSizeV p) (gr_MaxReceiveSizeV r),
      gr_DaemonPort = non_default (gr_DaemonPort defaultGrpc) (gr_DaemonPort p) (gr_DaemonPort r),
      gr_TeleroutePort = non_default (gr_TeleroutePort defaultGrpc) (gr_TeleroutePort p) (gr_TeleroutePort r),
      gr_SimulateDisconnect = non_default (gr_SimulateDisconnect defaultGrpc) (gr_SimulateDisconnect p) (gr_SimulateDisconnect r),
      gr_PingInterval = non_default (gr_PingInterval defaultGrpc) (gr_PingInterval p) (gr_PingInterval r),
      gr_WatchRetryInterval = non_default (gr_WatchRetryInterval defaultGrpc) (gr_WatchRetryInterval p) (gr_WatchRetryInterval r)\<rparr>"

subsection \<open>Intercepts\<close>

record Intercept =
  ic_DefaultPort :: "int"
  ic_UseFtp :: "bool"
  ic_LocalShortcut :: "bool"
  ic_LocalShortcutIsGlobal :: "bool"
  ic_MountsRoot :: "string"
  ic_MountCompletionDelay :: "int"

definition defaultIntercept :: Intercept where
  "defaultIntercept =
     \<lparr>ic_DefaultPort = 0,
      ic_UseFtp = False,
      ic_LocalShortcut = True,
      ic_LocalShortcutIsGlobal = True,
      ic_MountsRoot = [],
      ic_MountCompletionDelay = 300000000\<rparr>"

definition Intercept_merge :: "Intercept \<Rightarrow> Intercept \<Rightarrow> Intercept" where
  "Intercept_merge r p =
     \<lparr>ic_DefaultPort = non_default (ic_DefaultPort defaultIntercept) (ic_DefaultPort p) (ic_DefaultPort r),
      ic_UseFtp = non_default (ic_UseFtp defaultIntercept) (ic_UseFtp p) (ic_UseFtp r),
      ic_LocalShortcut = non_default (ic_LocalShortcut defaultIntercept) (ic_LocalShortcut p) (ic_LocalShortcut r),
      ic_LocalShortcutIsGlobal = non_default (ic_LocalShortcutIsGlobal defaultIntercept) (ic_LocalShortcutIsGlobal p) (ic_LocalShortcutIsGlobal r),
      ic_MountsRoot = non_default (ic_MountsRoot defaultIntercept) (ic_MountsRoot p) (ic_MountsRoot r),
      ic_MountCompletionDelay = non_default (ic_MountCompletionDelay defaultIntercept) (ic_MountCompletionDelay p) (ic_MountCompletionDelay r)\<rparr>"

subsection \<open>Cluster\<close>

record Cluster =
  cc_DefaultManagerNamespace :: "string"
  cc_MappedNamespaces :: "string list option"
  cc_ForceSPDY :: "bool"
  cc_AgentPortForward :: "bool"
  cc_OldVirtualIPSubnet :: "string"

definition defaultCluster :: Cluster where
  "defaultCluster =
     \<lparr>cc_DefaultManagerNamespace = [],
      cc_MappedNamespaces = None,
      cc_ForceSPDY = False,
      cc_AgentPortForward = True,
      cc_OldVirtualIPSubnet = []\<rparr>"

definition Cluster_merge :: "Cluster \<Rightarrow> Cluster \<Rightarrow> Cluster" where
  "Cluster_merge r p =
     \<lparr>cc_DefaultManagerNamespace = non_default (cc_DefaultManagerNamespace defaultCluster) (cc_DefaultManagerNamespace p) (cc_DefaultManagerNamespace r),
      cc_MappedNamespaces = non_default (cc_MappedNamespaces defaultCluster) (cc_MappedNamespaces p) (cc_MappedNamespaces r),
      cc_ForceSPDY = non_default (cc_ForceSPDY defaultCluster) (cc_ForceSPDY p) (cc_ForceSPDY r),
      cc_AgentPortForward = non_default (cc_AgentPortForward defaultCluster) (cc_AgentPortForward p) (cc_AgentPortForward r),
      cc_OldVirtualIPSubnet = non_default (cc_OldVirtualIPSubnet defaultCluster) (cc_OldVirtualIPSubnet p) (cc_OldVirtualIPSubnet r)\<rparr>"

subsection \<open>Images of Docker plugins\<close>

record DockerImage =
  di_RegistryAPI :: "string"
  di_Registry :: "string"
  di_Namespace :: "string"
  di_Repository :: "string"
  di_Tag :: "string"

definition defaultTelemount :: DockerImage where
  "defaultTelemount =
     \<lparr>di_RegistryAPI = ''ghcr.io/v2'',
      di_Registry = ''ghcr.io'',
      di_Namespace = ''telepresenceio'',
      di_Repository = ''telemount'',
      di_Tag = ''0.3.2''\<rparr>"

definition defaultTeleroute :: DockerImage where
  "defaultTeleroute =
     \<lparr>di_RegistryAPI = ''ghcr.io/v2'',
      di_Registry = ''ghcr.io'',
      di_Namespace = ''telepresenceio'',
      di_Repository = ''teleroute'',
      di_Tag = ''0.5.0''\<rparr>"

subsection \<open>Docker\<close>

record Docker =
  dk_AddHostGateway :: "bool"
  dk_Telemount :: "DockerImage"
  dk_Teleroute :: "DockerImage"
  dk_HostGateway :: "string"
  dk_EnableIPv4 :: "bool"
  dk_EnableIPv6 :: "bool"

definition defaultDocker :: Docker where
  "defaultDocker =
     \<lparr>dk_AddHostGateway = True,
      dk_Telemount = defaultTelemount,
      dk_Teleroute = defaultTeleroute,
      dk_HostGateway = ''host.docker.internal'',
      dk_EnableIPv4 = True,
      dk_EnableIPv6 = True\<rparr>"

definition Docker_merge :: "Docker \<Rightarrow> Docker \<Rightarrow> Docker" where
  "Docker_merge r p =
     \<lparr>dk_AddHostGateway = non_default (dk_AddHostGateway defaultDocker) (dk_AddHostGateway p) (dk_AddHostGateway r),
      dk_Telemount = non_default (dk_Telemount defaultDocker) (dk_Telemount p) (dk_Telemount r),
      dk_Teleroute = non_default (dk_Teleroute defaultDocker) (dk_Teleroute p) (dk_Teleroute r),
      dk_HostGateway = non_default (dk_HostGateway defaultDocker) (dk_HostGateway p) (dk_HostGateway r),
      dk_EnableIPv4 = non_default (dk_EnableIPv4 defaultDocker) (dk_EnableIPv4 p) (dk_EnableIPv4 r),
      dk_EnableIPv6 = non_default (dk_EnableIPv6 defaultDocker) (dk_EnableIPv6 p) (dk_EnableIPv6 r)\<rparr>"

subsection \<open>Helm\<close>

record Helm =
  he_ChartURL :: "string"

definition defaultHelm :: Helm where
  "defaultHelm =
     \<lparr>he_ChartURL = ''oci://ghcr.io/telepresenceio/telepresence-oss''\<rparr>"

definition Helm_merge :: "Helm \<Rightarrow> Helm \<Rightarrow> Helm" where
  "Helm_merge r p =
     \<lparr>he_ChartURL = non_default (he_ChartURL defaultHelm) (he_ChartURL p) (he_ChartURL r)\<rparr>"

subsection \<open>Routing\<close>

definition defaultVirtualSubnet :: prefix where
  "defaultVirtualSubnet = \<lparr>paddr = Addr4 0xF6F60000, pbits = 16\<rparr>"

record Routing =
  ro_Subnets :: "prefix list option"
  ro_AlsoProxy :: "prefix list option"
  ro_NeverProxy :: "prefix list option"
  ro_AllowConflicting :: "prefix list option"
  ro_VirtualSubnet :: "prefix"
  ro_AutoResolveConflicts :: "bool"
  ro_UseTAP :: "bool"
  ro_OldAlsoProxy :: "prefix list option"
  ro_OldNeverProxy :: "prefix list option"
  ro_OldAllowConflicting :: "prefix list option"
  ro_RecursionBlockDuration :: "int"
  ro_RecursionBlockTreads :: "int"

definition defaultRouting :: Routing where
  "defaultRouting =
     \<lparr>ro_Subnets = None,
      ro_AlsoProxy = None,
      ro_NeverProxy = None,
      ro_AllowConflicting = None,
      ro_VirtualSubnet = defaultVirtualSubnet,
      ro_AutoResolveConflicts = True,
      ro_UseTAP = False,
      ro_OldAlsoProxy = None,
      ro_OldNeverProxy = None,
      ro_OldAllowConflicting = None,
      ro_RecursionBlockDuration = 0,
      ro_RecursionBlockTreads = 0\<rparr>"

abbreviation slice_len :: "'a list option \<Rightarrow> nat" where
  "slice_len x \<equiv> (case x of None \<Rightarrow> 0 | Some l \<Rightarrow> length l)"

text \<open>A list under its new name, else under its old name, else the one there is.\<close>

definition newer_list :: "'a list option \<Rightarrow> 'a list option \<Rightarrow> 'a list option \<Rightarrow> 'a list option" where
  "newer_list new old cur = (if 0 < slice_len new then new else if 0 < slice_len old then old else cur)"

definition Routing_merge :: "Routing \<Rightarrow> Routing \<Rightarrow> Routing" where
  "Routing_merge r p =
     r\<lparr>ro_AlsoProxy := newer_list (ro_AlsoProxy p) (ro_OldAlsoProxy p) (ro_AlsoProxy r),
       ro_NeverProxy := newer_list (ro_NeverProxy p) (ro_OldNeverProxy p) (ro_NeverProxy r),
       ro_AllowConflicting := newer_list (ro_AllowConflicting p) (ro_OldAllowConflicting p) (ro_AllowConflicting r),
       ro_Subnets := (if 0 < slice_len (ro_Subnets p) then ro_Subnets p else ro_Subnets r),
       ro_VirtualSubnet := (if ro_VirtualSubnet p \<noteq> defaultVirtualSubnet then ro_VirtualSubnet p else ro_VirtualSubnet r),
       ro_AutoResolveConflicts :=
         (if ro_AutoResolveConflicts p \<noteq> True then ro_AutoResolveConflicts p else ro_AutoResolveConflicts r),
       ro_UseTAP := (if ro_UseTAP p then ro_UseTAP p else ro_UseTAP r)\<rparr>"

subsection \<open>DNS\<close>

record DNSMapping =
  dm_Name :: string
  dm_AliasFor :: string

definition no_addr_port :: addr_port where
  "no_addr_port = \<lparr>ap_addr = NoAddr, ap_port = 0\<rparr>"

definition DefaultExcludeSuffixes :: "string list" where
  "DefaultExcludeSuffixes = [''.com'', ''.io'', ''.net'', ''.org'', ''.ru'']"

record DNS =
  dn_Error :: "string"
  dn_LocalIP :: "addr"
  dn_RemoteIP :: "addr"
  dn_LocalAddress :: "addr_port"
  dn_LocalAddresses :: "addr_port list option"
  dn_VIFAddress :: "addr_port"
  dn_IncludeSuffixes :: "string list option"
  dn_ExcludeSuffixes :: "string list option"
  dn_Excludes :: "string list option"
  dn_Mappings :: "DNSMapping list option"
  dn_LookupTimeout :: "int"
  dn_RecursionCheck :: "bool"
  dn_UseComplexLookup :: "bool"

definition defaultDNS :: DNS where
  "defaultDNS =
     \<lparr>dn_Error = [],
      dn_LocalIP = NoAddr,
      dn_RemoteIP = NoAddr,
      dn_LocalAddress = no_addr_port,
      dn_LocalAddresses = None,
      dn_VIFAddress = no_addr_port,
      dn_IncludeSuffixes = None,
      dn_ExcludeSuffixes = Some DefaultExcludeSuffixes,
      dn_Excludes = None,
      dn_Mappings = None,
      dn_LookupTimeout = 0,
      dn_RecursionCheck = False,
      dn_UseComplexLookup = False\<rparr>"

definition DNS_merge :: "DNS \<Rightarrow> DNS \<Rightarrow> DNS" where
  "DNS_merge r p =
     \<lparr>dn_Error = non_default (dn_Error defaultDNS) (dn_Error p) (dn_Error r),
      dn_LocalIP = non_default (dn_LocalIP defaultDNS) (dn_LocalIP p) (dn_LocalIP r),
      dn_RemoteIP = non_default (dn_RemoteIP defaultDNS) (dn_RemoteIP p) (dn_RemoteIP r),
      dn_LocalAddress = non_default (dn_LocalAddress defaultDNS) (dn_LocalAddress p) (dn_LocalAddress r),
      dn_LocalAddresses = non_default (dn_LocalAddresses defaultDNS) (dn_LocalAddresses p) (dn_LocalAddresses r),
      dn_VIFAddress = non_default (dn_VIFAddress defaultDNS) (dn_VIFAddress p) (dn_VIFAddress r),
      dn_IncludeSuffixes = non_default (dn_IncludeSuffixes defaultDNS) (dn_IncludeSuffixes p) (dn_IncludeSuffixes r),
      dn_ExcludeSuffixes = non_default (dn_ExcludeSuffixes defaultDNS) (dn_ExcludeSuffixes p) (dn_ExcludeSuffixes r),
      dn_Excludes = non_default (dn_Excludes defaultDNS) (dn_Excludes p) (dn_Excludes r),
      dn_Mappings = non_default (dn_Mappings defaultDNS) (dn_Mappings p) (dn_Mappings r),
      dn_LookupTimeout = non_default (dn_LookupTimeout defaultDNS) (dn_LookupTimeout p) (dn_LookupTimeout r),
      dn_RecursionCheck = non_default (dn_RecursionCheck defaultDNS) (dn_RecursionCheck p) (dn_RecursionCheck r),
      dn_UseComplexLookup = non_default (dn_UseComplexLookup defaultDNS) (dn_UseComplexLookup p) (dn_UseComplexLookup r)\<rparr>"

abbreviation slice :: "'a list option \<Rightarrow> 'a list" where
  "slice x \<equiv> (case x of None \<Rightarrow> [] | Some l \<Rightarrow> l)"

text \<open>
  \<open>slices.Equal\<close> does not tell \<open>nil\<close> and an empty slice apart; mappings are compared as pointers, so two lists
  of mappings are the same only if they share their elements, and two configurations with their own
  mappings are equal only if both have none.
\<close>

definition DNS_Equal :: "DNS \<Rightarrow> DNS \<Rightarrow> bool" where
  "DNS_Equal d p \<longleftrightarrow>
     slice (dn_LocalAddresses p) = slice (dn_LocalAddresses d) \<and> dn_VIFAddress p = dn_VIFAddress d
     \<and> dn_LookupTimeout p = dn_LookupTimeout d \<and> dn_RecursionCheck p = dn_RecursionCheck d
     \<and> slice (dn_IncludeSuffixes p) = slice (dn_IncludeSuffixes d)
     \<and> slice (dn_ExcludeSuffixes p) = slice (dn_ExcludeSuffixes d)
     \<and> slice (dn_Excludes p) = slice (dn_Excludes d) \<and> slice (dn_Mappings p) = [] \<and> slice (dn_Mappings d) = []"

definition DNS_IsZero :: "DNS \<Rightarrow> bool" where
  "DNS_IsZero d = DNS_Equal d defaultDNS"

text \<open>What \<open>UnmarshalJSONFrom\<close> does after decoding: the deprecated fields fill in for the ones that replace them.\<close>

definition DNS_replace_deprecated :: "DNS \<Rightarrow> DNS" where
  "DNS_replace_deprecated d =
     (let d = (if is_valid (dn_LocalIP d) \<and> slice_len (dn_LocalAddresses d) = 0
               then d\<lparr>dn_LocalAddresses := Some [\<lparr>ap_addr = dn_LocalIP d, ap_port = 53\<rparr>]\<rparr> else d);
          d = (if is_valid (ap_addr (dn_LocalAddress d)) \<and> slice_len (dn_LocalAddresses d) = 0
               then d\<lparr>dn_LocalAddresses := Some [dn_LocalAddress d]\<rparr> else d)
      in if is_valid (dn_RemoteIP d) \<and> \<not> is_valid (ap_addr (dn_VIFAddress d))
         then d\<lparr>dn_VIFAddress := \<lparr>ap_addr = dn_RemoteIP d, ap_port = 53\<rparr>\<rparr> else d)"

definition MappingsFromRPC :: "DNSMapping list \<Rightarrow> DNSMapping list option" where
  "MappingsFromRPC mappings = (if 0 < length mappings then Some mappings else None)"

section \<open>The configuration\<close>

record config =
  cf_Cluster :: Cluster
  cf_DNS :: DNS
  cf_Docker :: Docker
  cf_Grpc :: Grpc
  cf_Helm :: Helm
  cf_Images :: Images
  cf_Intercept :: Intercept
  cf_LogLevels :: LogLevels
  cf_Routing :: Routing
  cf_Timeouts :: Timeouts
  cf_Usage :: Usage

definition defaultConfig :: config where
  "defaultConfig =
     \<lparr>cf_Cluster = defaultCluster, cf_DNS = defaultDNS, cf_Docker = defaultDocker, cf_Grpc = defaultGrpc,
      cf_Helm = defaultHelm, cf_Images = defaultImages, cf_Intercept = defaultIntercept,
      cf_LogLevels = defaultLogLevels, cf_Routing = defaultRouting, cf_Timeouts = defaultTimeouts,
      cf_Usage = defaultUsage\<rparr>"

definition DestructiveMerge :: "config \<Rightarrow> config \<Rightarrow> config" where
  "DestructiveMerge c lc =
     \<lparr>cf_Cluster = Cluster_merge (cf_Cluster c) (cf_Cluster lc),
      cf_DNS = DNS_merge (cf_DNS c) (cf_DNS lc),
      cf_Docker = Docker_merge (cf_Docker c) (cf_Docker lc),
      cf_Grpc = Grpc_merge (cf_Grpc c) (cf_Grpc lc),
      cf_Helm = Helm_merge (cf_Helm c) (cf_Helm lc),
      cf_Images = Images_merge (cf_Images c) (cf_Images lc),
      cf_Intercept = Intercept_merge (cf_Intercept c) (cf_Intercept lc),
      cf_LogLevels = LogLevels_merge (cf_LogLevels c) (cf_LogLevels lc),
      cf_Routing = Routing_merge (cf_Routing c) (cf_Routing lc),
      cf_Timeouts = Timeouts_merge (cf_Timeouts c) (cf_Timeouts lc),
      cf_Usage = Usage_merge (cf_Usage c) (cf_Usage lc)\<rparr>"

section \<open>Named timeouts\<close>

text \<open>A \<open>TimeoutID\<close> is its number; \<open>None\<close> is the panic for an invalid one.\<close>

definition Timeouts_Get :: "nat \<Rightarrow> Timeouts \<Rightarrow> int option" where
  "Timeouts_Get timeoutID t =
     (let vals = [to_ClusterConnect, to_ConnectivityCheck, to_EndpointDial, to_Helm, to_Intercept, to_ProxyDial,
                  to_RoundtripLatency, to_TrafficManagerAPI, to_TrafficManagerConnect, to_FtpReadWrite,
                  to_FtpShutdown, to_ContainerShutdown] in
      if timeoutID < length vals then Some ((vals ! timeoutID) t) else None)"

text \<open>The human name in the message of a timeout, and the configuration key that it tells the user to set.\<close>

definition timeoutError_names :: "nat \<Rightarrow> (string \<times> string) option" where
  "timeoutError_names timeoutID =
     (let names = [(''cluster connect'', ''clusterConnect''), (''connectivity check'', ''connectivityCheck''),
                   (''tunnel endpoint dial with known IP'', ''endpointDial''), (''helm operation'', ''helm''),
                   (''intercept'', ''intercept''), (''proxy dial'', ''proxyDial''),
                   (''additional delay for tunnel roundtrip'', ''roundtripDelay''),
                   (''traffic manager gRPC API'', ''trafficManagerAPI''),
                   (''port-forward connection to the traffic manager'', ''trafficManagerConnect''),
                   (''FTP client read/write'', ''ftpReadWrite''), (''FTP client shutdown grace period'', ''ftpShutdown''),
                   (''Docker container shutdown grace period'', ''containerShutdown'')] in
      if timeoutID < length names then Some (names ! timeoutID) else None)"

text \<open>The fields of \<open>Timeouts\<close> by the keys of their JSON tags.\<close>

definition Timeouts_json :: "(string \<times> (int \<Rightarrow> Timeouts \<Rightarrow> Timeouts)) list" where
  "Timeouts_json =
     [(''clusterConnect'', \<lambda>v. to_ClusterConnect_update (\<lambda>_. v)),
      (''connectivityCheck'', \<lambda>v. to_ConnectivityCheck_update (\<lambda>_. v)),
      (''endpointDial'', \<lambda>v. to_EndpointDial_update (\<lambda>_. v)),
      (''helm'', \<lambda>v. to_Helm_update (\<lambda>_. v)),
      (''intercept'', \<lambda>v. to_Intercept_update (\<lambda>_. v)),
      (''roundtripLatency'', \<lambda>v. to_RoundtripLatency_update (\<lambda>_. v)),
      (''proxyDial'', \<lambda>v. to_ProxyDial_update (\<lambda>_. v)),
      (''trafficManagerAPI'', \<lambda>v. to_TrafficManagerAPI_update (\<lambda>_. v)),
      (''trafficManagerConnect'', \<lambda>v. to_TrafficManagerConnect_update (\<lambda>_. v)),
      (''trafficAgentArrival'', \<lambda>v. to_TrafficAgentArrival_update (\<lambda>_. v)),
      (''ftpReadWrite'', \<lambda>v. to_FtpReadWrite_update (\<lambda>_. v)),
      (''ftpShutdown'', \<lambda>v. to_FtpShutdown_update (\<lambda>_. v)),
      (''containerShutdown'', \<lambda>v. to_ContainerShutdown_update (\<lambda>_. v))]"

datatype go_err = DeadlineExceeded | Canceled | TimeoutErr nat go_err | OtherErr string

fun is_deadline :: "go_err \<Rightarrow> bool" where
  "is_deadline DeadlineExceeded = True"
| "is_deadline (TimeoutErr _ e) = is_deadline e"
| "is_deadline _ = False"

text \<open>The error of a timeout context and the choice between it and the error of an operation.\<close>

definition timeoutContext_Err :: "nat \<Rightarrow> go_err option \<Rightarrow> go_err option" where
  "timeoutContext_Err timeoutID err =
     (case err of
        None \<Rightarrow> None
      | Some e \<Rightarrow> if is_deadline e then Some (TimeoutErr timeoutID e) else Some e)"

definition CheckTimeout :: "go_err option \<Rightarrow> go_err option \<Rightarrow> go_err option" where
  "CheckTimeout ctxErr err =
     (case ctxErr of
        None \<Rightarrow> err
      | Some e \<Rightarrow> if is_deadline e \<or> err = None then ctxErr else err)"

section \<open>Loading\<close>

datatype decode_error = UnknownMember string | DecodeError string

datatype read_error = NotExist | ReadFailed string

datatype cfg_error = CfgRead string | CfgDecode decode_error | CfgVirtualSubnet string

text \<open>
  The surroundings of a load: the content of files, the decoder (from YAML through JSON, on top of the default
  configuration, with or without rejection of unknown members), the directory of the system's file, the
  path of the user's and the path given with \<open>WithConfigFile\<close>.
\<close>

record load_env =
  le_read :: "string \<Rightarrow> read_error + string"
  le_exists :: "string \<Rightarrow> bool"
  le_decode :: "bool \<Rightarrow> string \<Rightarrow> decode_error + config"
  le_sysDir :: string
  le_userFile :: string
  le_pinned :: "string option"

definition ParseConfigYAML :: "load_env \<Rightarrow> string \<Rightarrow> cfg_error + config" where
  "ParseConfigYAML env content =
     (let data = trim_space content in
      if length data = 0 then Inr defaultConfig
      else
        (let res = (case le_decode env True data of Inl (UnknownMember _) \<Rightarrow> le_decode env False data | r \<Rightarrow> r) in
         case res of
           Inl e \<Rightarrow> Inl (CfgDecode e)
         | Inr cfg \<Rightarrow>
             if ro_VirtualSubnet (cf_Routing cfg) = defaultVirtualSubnet \<and> cc_OldVirtualIPSubnet (cf_Cluster cfg) \<noteq> [] then
               (case ParsePrefix (cc_OldVirtualIPSubnet (cf_Cluster cfg)) of
                  None \<Rightarrow> Inl (CfgVirtualSubnet (cc_OldVirtualIPSubnet (cf_Cluster cfg)))
                | Some sn \<Rightarrow> Inr (cfg\<lparr>cf_Routing := (cf_Routing cfg)\<lparr>ro_VirtualSubnet := sn\<rparr>\<rparr>))
             else Inr cfg))"

definition mergeConfigFile :: "load_env \<Rightarrow> config \<Rightarrow> string \<Rightarrow> cfg_error + config" where
  "mergeConfigFile env cfg fileName =
     (case le_read env fileName of
        Inl NotExist \<Rightarrow> Inr cfg
      | Inl (ReadFailed e) \<Rightarrow> Inl (CfgRead e)
      | Inr bs \<Rightarrow> (case ParseConfigYAML env bs of Inl e \<Rightarrow> Inl e | Inr parsed \<Rightarrow> Inr (DestructiveMerge cfg parsed)))"

definition sys_file :: "load_env \<Rightarrow> string \<Rightarrow> string" where
  "sys_file env name = le_sysDir env @ ''/'' @ name"

text \<open>
  An error in the system's file gives no configuration, one in the user's or in a pinned file the
  configuration read so far.
\<close>

definition LoadConfig :: "load_env \<Rightarrow> config option \<times> cfg_error option" where
  "LoadConfig env =
     (let opt_out = (\<lambda>cfg. if le_exists env (sys_file env ''usage-opt-out'')
                           then cfg\<lparr>cf_Usage := (cf_Usage cfg)\<lparr>us_Enabled := False\<rparr>\<rparr> else cfg);
          finish = (\<lambda>base res. case res of Inl e \<Rightarrow> (Some base, Some e) | Inr cfg \<Rightarrow> (Some (opt_out cfg), None))
      in case le_pinned env of
           Some file \<Rightarrow> finish defaultConfig (mergeConfigFile env defaultConfig file)
         | None \<Rightarrow>
             (case mergeConfigFile env defaultConfig (sys_file env ''config.yml'') of
                Inl e \<Rightarrow> (None, Some e)
              | Inr cfg \<Rightarrow> finish cfg (mergeConfigFile env cfg (le_userFile env))))"

section \<open>The merge as a monoid\<close>

text \<open>
  The law that every section's merge satisfies: it is associative. The sections share it as the contract
  of a locale, and the merge of the whole configuration has it because all of its sections do.
\<close>

locale priority_merge =
  fixes mrg :: "'s \<Rightarrow> 's \<Rightarrow> 's"
  assumes assoc: "mrg (mrg a b) c = mrg a (mrg b c)"
begin

text \<open>Merging a list of files one after the other is merging what they amount to together.\<close>

lemma foldl_merge: "foldl mrg a (b # cs) = mrg a (foldl mrg b cs)"
  by (induction cs arbitrary: a b) (simp_all add: assoc)

end

lemma section_merge_assoc:
  "LogLevels_merge (LogLevels_merge a1 b1) c1 = LogLevels_merge a1 (LogLevels_merge b1 c1)"
  "Usage_merge (Usage_merge a2 b2) c2 = Usage_merge a2 (Usage_merge b2 c2)"
  "Images_merge (Images_merge a3 b3) c3 = Images_merge a3 (Images_merge b3 c3)"
  "Grpc_merge (Grpc_merge a4 b4) c4 = Grpc_merge a4 (Grpc_merge b4 c4)"
  "Intercept_merge (Intercept_merge a5 b5) c5 = Intercept_merge a5 (Intercept_merge b5 c5)"
  "Cluster_merge (Cluster_merge a6 b6) c6 = Cluster_merge a6 (Cluster_merge b6 c6)"
  "Docker_merge (Docker_merge a7 b7) c7 = Docker_merge a7 (Docker_merge b7 c7)"
  "Helm_merge (Helm_merge a8 b8) c8 = Helm_merge a8 (Helm_merge b8 c8)"
  "DNS_merge (DNS_merge a9 b9) c9 = DNS_merge a9 (DNS_merge b9 c9)"
  by (simp_all add: LogLevels_merge_def Usage_merge_def Images_merge_def Grpc_merge_def Intercept_merge_def
      Cluster_merge_def Docker_merge_def Helm_merge_def DNS_merge_def)

lemma newer_list_assoc: "newer_list n d (newer_list n' d' a) = newer_list (newer_list n d n') d' a"
  by (auto simp: newer_list_def)

lemma Routing_merge_assoc: "Routing_merge (Routing_merge a b) c = Routing_merge a (Routing_merge b c)"
  by (simp add: Routing_merge_def newer_list_assoc)

lemma Timeouts_nonDefaults_assoc:
  "Timeouts_nonDefaults (Timeouts_nonDefaults a b) c = Timeouts_nonDefaults a (Timeouts_nonDefaults b c)"
  by (simp add: Timeouts_nonDefaults_def)

definition capped :: "Timeouts \<Rightarrow> Timeouts" where
  "capped t = t\<lparr>to_ConnectivityCheck := min (to_ConnectivityCheck t) maxTimeoutsConnectivityCheck\<rparr>"

lemma Timeouts_merge_capped: "Timeouts_merge t p = capped (Timeouts_nonDefaults t p)"
  by (simp add: Timeouts_merge_def capped_def min_def Let_def)

lemma capped_nonDefaults:
  "capped (Timeouts_nonDefaults (capped a) b) = capped (Timeouts_nonDefaults a b)"
  "capped (Timeouts_nonDefaults a (capped b)) = capped (Timeouts_nonDefaults a b)"
  by (simp_all add: capped_def Timeouts_nonDefaults_def non_default_def min_def defaultTimeouts_def maxTimeoutsConnectivityCheck_def)

lemma Timeouts_merge_assoc: "Timeouts_merge (Timeouts_merge a b) c = Timeouts_merge a (Timeouts_merge b c)"
  by (simp add: Timeouts_merge_capped capped_nonDefaults Timeouts_nonDefaults_assoc)

lemma Timeouts_nonDefaults_default: "Timeouts_nonDefaults a defaultTimeouts = a"
  by (simp add: Timeouts_nonDefaults_def)

lemma section_merge_default:
  "LogLevels_merge a1 defaultLogLevels = a1" "Usage_merge a2 defaultUsage = a2" "Images_merge a3 defaultImages = a3"
  "Grpc_merge a4 defaultGrpc = a4" "Intercept_merge a5 defaultIntercept = a5" "Cluster_merge a6 defaultCluster = a6"
  "Docker_merge a7 defaultDocker = a7" "Helm_merge a8 defaultHelm = a8" "DNS_merge a9 defaultDNS = a9"
  "Routing_merge a10 defaultRouting = a10" "Timeouts_merge a11 defaultTimeouts = capped a11"
  by (simp_all add: LogLevels_merge_def Usage_merge_def Images_merge_def Grpc_merge_def Intercept_merge_def
      Cluster_merge_def Docker_merge_def Helm_merge_def DNS_merge_def Routing_merge_def defaultRouting_def
      newer_list_def Timeouts_merge_capped Timeouts_nonDefaults_default)

interpretation cfg: priority_merge DestructiveMerge
  by unfold_locales (simp add: DestructiveMerge_def section_merge_assoc Routing_merge_assoc Timeouts_merge_assoc)

lemma DestructiveMerge_default:
  "DestructiveMerge c defaultConfig = c\<lparr>cf_Timeouts := capped (cf_Timeouts c)\<rparr>"
  by (simp add: DestructiveMerge_def defaultConfig_def section_merge_default)

lemma capped_default: "capped defaultTimeouts = defaultTimeouts"
  by (simp add: capped_def defaultTimeouts_def maxTimeoutsConnectivityCheck_def)

lemma DestructiveMerge_capped:
  "capped (cf_Timeouts (DestructiveMerge c p)) = cf_Timeouts (DestructiveMerge c p)"
  by (simp add: DestructiveMerge_def Timeouts_merge_capped capped_def)

lemma DestructiveMerge_default_again:
  "DestructiveMerge (DestructiveMerge c p) defaultConfig = DestructiveMerge c p"
  by (simp add: DestructiveMerge_default DestructiveMerge_capped)

lemma DestructiveMerge_defaults: "DestructiveMerge defaultConfig defaultConfig = defaultConfig"
  by (simp add: DestructiveMerge_default) (simp add: defaultConfig_def capped_default)

section \<open>Properties\<close>

text \<open>What a file says: a missing one says nothing.\<close>

definition file_says :: "load_env \<Rightarrow> string \<Rightarrow> cfg_error + config" where
  "file_says env fileName =
     (case le_read env fileName of
        Inl NotExist \<Rightarrow> Inr defaultConfig
      | Inl (ReadFailed e) \<Rightarrow> Inl (CfgRead e)
      | Inr bs \<Rightarrow> ParseConfigYAML env bs)"

lemma mergeConfigFile_says:
  assumes "DestructiveMerge c defaultConfig = c"
  shows "mergeConfigFile env c f = (case file_says env f of Inl e \<Rightarrow> Inl e | Inr p \<Rightarrow> Inr (DestructiveMerge c p))"
  using assms by (auto simp: mergeConfigFile_def file_says_def split: sum.split read_error.split)


text \<open>
  The key that the message of a timeout tells the user to set does set that timeout, for every timeout but
  one: the message of the roundtrip latency names a key that the configuration does not have.
\<close>

lemma timeout_key_works_iff:
  "(\<exists>human key set. timeoutError_names i = Some (human, key) \<and> map_of Timeouts_json key = Some set
      \<and> (\<forall>v t. Timeouts_Get i (set v t) = Some v)) \<longleftrightarrow> i < 12 \<and> i \<noteq> 6"
proof (cases "i < 12")
  case True
  then have "i = 0 \<or> i = 1 \<or> i = 2 \<or> i = 3 \<or> i = 4 \<or> i = 5 \<or> i = 6 \<or> i = 7 \<or> i = 8 \<or> i = 9 \<or> i = 10 \<or> i = 11"
    by presburger
  then show ?thesis
    by (elim disjE) (simp_all add: timeoutError_names_def Timeouts_json_def Timeouts_Get_def)
qed (simp add: timeoutError_names_def)

text \<open>
  A DNS section with the complex lookup switched on and nothing else counts as the default one, and is left
  out when the configuration is written.
\<close>

lemma complex_lookup_is_zero: "DNS_IsZero (defaultDNS\<lparr>dn_UseComplexLookup := True\<rparr>)"
  by (simp add: DNS_IsZero_def DNS_Equal_def defaultDNS_def)

end
