(* ===== verification/Dns_Server.thy ===== *)
theory Dns_Server
  imports Dns_Proxy Client_Config
begin

text \<open>
  The DNS server of the root daemon, \<^verbatim>\<open>pkg/client/rootd/dns/server.go\<close>: which names are looked up in the cluster
  (\<open>shouldDoClusterLookup\<close>), the cache with its entries that are filled in later, the check for recursion, the
  mappings, and the handler \<open>ServeDNS\<close> with its fallback.

  The cache is a map from keys to addresses of entries, because goroutines hold on to an entry while it is
  filled in, replaced or deleted; an entry is done when its channel \<open>wait\<close> is closed. The records of an entry
  are shared with the reply that is made of them: a lookup returns the address of the entry it answers from,
  and what \<open>ServeDNS\<close> does to the names of its answer it does to that entry. What other goroutines do while one
  waits is a function on the server. The cluster's answers and the pool of fallback connections are
  parameters; \<open>None\<close> is a panic or a wait without end.
\<close>

section \<open>State\<close>

record question =
  q_Name :: string
  q_Qtype :: u16
  q_Qclass :: u16

type_synonym cacheKey = "string \<times> u16"

record cacheEntry =
  ce_created :: int
  ce_answer :: RRs
  ce_rCode :: int
  ce_done :: bool

definition cacheTTL :: int where
  "cacheTTL = 60000000000"

definition expired :: "int \<Rightarrow> cacheEntry \<Rightarrow> bool" where
  "expired now dv \<longleftrightarrow> cacheTTL < now - ce_created dv"

text \<open>The states of the check for recursion, in the order of the constants \<open>recursionXXX\<close> after the initial 0.\<close>

datatype recursion = NotStarted | QueryNotYetReceived | QueryReceived | NotDetected | Detected

record Server =
  sv_DNS :: DNS
  sv_fallbackPool :: bool
  sv_requestCount :: u64
  sv_cache :: "(cacheKey \<times> nat) list"
  sv_entries :: "cacheEntry list"
  sv_recursive :: recursion
  sv_dropSuffixes :: "string list"
  sv_routes :: "string list"
  sv_search :: "string list"
  sv_clusterDomain :: string
  sv_mappingsMap :: "(string \<times> string) list"
  sv_namespaceDomain :: string
  sv_error :: string
  sv_ready :: bool

definition Tel2SubDomain :: string where
  "Tel2SubDomain = ''tel2-search''"

definition tel2SubDomainDot :: string where
  "tel2SubDomainDot = Tel2SubDomain @ ''.''"

definition sanityCheckDot :: string where
  "sanityCheckDot = ''jhfweoitnkgyeta.'' @ Tel2SubDomain @ ''.''"

definition recursionCheck :: string where
  "recursionCheck = ''tel2-recursion-check.''"

definition mappingsMap :: "DNSMapping list \<Rightarrow> (string \<times> string) list" where
  "mappingsMap mappings =
     fold (\<lambda>m mm. let al = (case ParseAddr (dm_AliasFor m) of None \<Rightarrow> dm_AliasFor m @ ''.'' | Some _ \<Rightarrow> dm_AliasFor m) in
                  AList.update (to_lower (dm_Name m @ ''.'')) (to_lower al) mm) mappings []"

definition NewServer :: "DNS \<Rightarrow> string \<Rightarrow> Server" where
  "NewServer config namespace =
     (let config = (if slice_len (dn_ExcludeSuffixes config) = 0
                    then config\<lparr>dn_ExcludeSuffixes := Some DefaultExcludeSuffixes\<rparr> else config);
          config = (if dn_LookupTimeout config \<le> 0 then config\<lparr>dn_LookupTimeout := 4000000000\<rparr> else config)
      in \<lparr>sv_DNS = config, sv_fallbackPool = False, sv_requestCount = 0, sv_cache = [], sv_entries = [],
          sv_recursive = NotStarted, sv_dropSuffixes = [tel2SubDomainDot], sv_routes = [], sv_search = [Tel2SubDomain],
          sv_clusterDomain = ''cluster.local.'', sv_mappingsMap = mappingsMap (slice (dn_Mappings config)),
          sv_namespaceDomain = namespace @ ''.'', sv_error = [], sv_ready = False\<rparr>)"

section \<open>Names for the cluster\<close>

definition excludePrefixes :: "string list" where
  "excludePrefixes =
     [''wpad.'', ''_grpc_config.'', ''lb._dns-sd.'', ''db._dns-sd.'', ''b._dns-sd.'', ''win11-vb.'', ''dc.msdcs.'',
      ''_ldap._tcp.dc._msdcs.'']"

definition isExcluded :: "Server \<Rightarrow> string \<Rightarrow> bool" where
  "isExcluded s name \<longleftrightarrow>
     (let excludes = slice (dn_Excludes (sv_DNS s)) in
      slice_Contains excludes name \<or>
      list_ex (\<lambda>sp. has_suffix name (''.'' @ sp) \<and> slice_Contains excludes (take (length name - length sp - 1) name)) (sv_search s))"

definition isDomainExcluded :: "Server \<Rightarrow> string \<Rightarrow> bool" where
  "isDomainExcluded s name = slice_Contains (slice (dn_ExcludeSuffixes (sv_DNS s))) (''.'' @ name)"

text \<open>The verdict of the suffixes on a name: \<open>Some True\<close> included, \<open>Some False\<close> excluded, \<open>None\<close> neither.\<close>

definition suffixExcluded :: "Server \<Rightarrow> string \<Rightarrow> bool option" where
  "suffixExcluded s n =
     map_option (\<lambda>es. list_ex (\<lambda>is. length es \<le> length is \<and> has_suffix n is) (slice (dn_IncludeSuffixes (sv_DNS s))))
       (find (\<lambda>es. has_suffix n es) (slice (dn_ExcludeSuffixes (sv_DNS s))))"

text \<open>\<open>name\<close> is a name in the domain \<open>sfx\<close>.\<close>

definition in_domain :: "string \<Rightarrow> string \<Rightarrow> bool" where
  "in_domain name sfx \<longleftrightarrow>
     length sfx + 1 < length name \<and> name ! (length name - length sfx - 1) = CHR ''.'' \<and> has_suffix name sfx"

text \<open>The loops over the search path and the routes: the first domain that the name is in decides.\<close>

definition domain_verdict :: "Server \<Rightarrow> string \<Rightarrow> string list \<Rightarrow> bool option" where
  "domain_verdict s name sfxs =
     map_option (\<lambda>sfx. case suffixExcluded s (take (length name - length sfx - 1) name) of Some inc \<Rightarrow> inc | None \<Rightarrow> True)
       (find (in_domain name) sfxs)"

definition shouldDoClusterLookup :: "Server \<Rightarrow> string \<Rightarrow> bool option" where
  "shouldDoClusterLookup s query =
     (if list_ex (\<lambda>pf. has_prefix query pf) excludePrefixes then Some False
      else do {
        name \<leftarrow> but_last query;
        if isExcluded s name then Some False
        else if CHR ''.'' \<notin> set name then Some True
        else (case suffixExcluded s name of
          Some inc \<Rightarrow> Some inc
        | None \<Rightarrow>
            (case domain_verdict s name (sv_search s) of
               Some inc \<Rightarrow> Some inc
             | None \<Rightarrow>
                 (case domain_verdict s name (sv_routes s) of
                    Some inc \<Rightarrow> Some inc
                  | None \<Rightarrow>
                      if has_suffix query (''.'' @ sv_clusterDomain s) then Some True
                      else (case find (\<lambda>sfx. has_suffix name sfx) (slice (dn_IncludeSuffixes (sv_DNS s))) of
                              None \<Rightarrow> Some False
                            | Some sfx \<Rightarrow>
                                if sfx = [] then None
                                else if hd sfx = CHR ''.'' then
                                  (case suffixExcluded s (trim_suffix name sfx) of Some inc \<Rightarrow> Some inc | None \<Rightarrow> Some True)
                                else Some True))))
      })"

section \<open>Lookups in the cluster\<close>

text \<open>
  The answer of the cluster: records, code, an error, and the error of the context at the end. Errors that come
  from a deadline or a cancellation, as errors of the context or as status codes, are \<open>LookEnded\<close>.
\<close>

datatype look_err = LookEnded | LookFailed string

record cluster_answer =
  ca_rrs :: RRs
  ca_rCode :: int
  ca_err :: "look_err option"
  ca_ctxErr :: "go_err option"

definition localHostReply :: "question \<Rightarrow> RRs" where
  "localHostReply q =
     (let hdr = \<lparr>rh_Name = q_Name q, rh_Rrtype = q_Qtype q, rh_Class = q_Qclass q, rh_Ttl = 0\<rparr> in
      if q_Qtype q = TypeA then [\<lparr>rr_hdr = hdr, rr_data = RR_A [127, 0, 0, 1]\<rparr>]
      else if q_Qtype q = TypeAAAA then [\<lparr>rr_hdr = hdr, rr_data = RR_AAAA (replicate 15 0 @ [1])\<rparr>]
      else [])"

definition resolveInCluster :: "(question \<Rightarrow> cluster_answer) \<Rightarrow> Server \<Rightarrow> question \<Rightarrow> (RRs \<times> int \<times> go_err option) option" where
  "resolveInCluster clusterLookup s q =
     (if q_Name q = ''localhost.'' then
        Some (if q_Qtype q = TypeA \<or> q_Qtype q = TypeAAAA then (localHostReply q, RcodeSuccess, None)
              else ([], RcodeNameError, None))
      else do {
        should \<leftarrow> shouldDoClusterLookup s (q_Name q);
        Some (if \<not> should then ([], RcodeNameError, None)
              else (let a = clusterLookup q in
                    case ca_err a of
                      Some LookEnded \<Rightarrow> ([], RcodeNameError, CheckTimeout (ca_ctxErr a) None)
                    | Some (LookFailed e) \<Rightarrow> ([], ca_rCode a, CheckTimeout (ca_ctxErr a) (Some (OtherErr e)))
                    | None \<Rightarrow> (map (\<lambda>r. r\<lparr>rr_hdr := (rr_hdr r)\<lparr>rh_Ttl := dnsTTL\<rparr>\<rparr>) (ca_rrs a), ca_rCode a, None)))
      })"

section \<open>The cache\<close>

definition copyRRs :: "RRs \<Rightarrow> u16 list \<Rightarrow> RRs \<times> RRs" where
  "copyRRs rrs qTypes =
     (filter (\<lambda>r. slice_Contains qTypes (rh_Rrtype (rr_hdr r))) rrs,
      filter (\<lambda>r. \<not> slice_Contains qTypes (rh_Rrtype (rr_hdr r))) rrs)"

abbreviation entry :: "Server \<Rightarrow> nat \<Rightarrow> cacheEntry" where
  "entry s p \<equiv> sv_entries s ! p"

definition set_entry :: "nat \<Rightarrow> (cacheEntry \<Rightarrow> cacheEntry) \<Rightarrow> Server \<Rightarrow> Server" where
  "set_entry p f s = s\<lparr>sv_entries := (sv_entries s)[p := f (entry s p)]\<rparr>"

definition isNameCachedWithSuccess :: "Server \<Rightarrow> question \<Rightarrow> bool" where
  "isNameCachedWithSuccess s q =
     (let names = q_Name q # (if has_suffix (q_Name q) (sv_namespaceDomain s)
                              then [trim_suffix (q_Name q) (sv_namespaceDomain s)] else []);
          cached = (\<lambda>t. list_ex (\<lambda>name. case map_of (sv_cache s) (name, t) of
                      None \<Rightarrow> False
                    | Some p \<Rightarrow> ce_done (entry s p) \<and> ce_rCode (entry s p) = RcodeSuccess) names)
      in if q_Qtype q = TypeAAAA then cached TypeA
         else if q_Qtype q = TypeA then cached TypeAAAA
         else False)"

text \<open>The entry of a key: one that is there and not expired, or a new one that is to be filled in.\<close>

definition cache_begin :: "int \<Rightarrow> cacheKey \<Rightarrow> Server \<Rightarrow> (nat \<times> bool) \<times> Server" where
  "cache_begin now key s =
     (let fresh = ((length (sv_entries s), False),
            s\<lparr>sv_entries := sv_entries s @ [\<lparr>ce_created = now, ce_answer = [], ce_rCode = -1, ce_done = False\<rparr>],
              sv_cache := AList.update key (length (sv_entries s)) (sv_cache s)\<rparr>)
      in case map_of (sv_cache s) key of
           None \<Rightarrow> fresh
         | Some p \<Rightarrow> if expired now (entry s p) then fresh else ((p, True), s))"

text \<open>A record of another type that came with the answer gets an entry of its own.\<close>

definition cache_other :: "int \<Rightarrow> int \<Rightarrow> rr \<Rightarrow> Server \<Rightarrow> Server" where
  "cache_other now rCode r s =
     (let key = (rh_Name (rr_hdr r), rh_Rrtype (rr_hdr r));
          rrs = (if IsEmptyName r then [] else [r])
      in case map_of (sv_cache s) key of
           Some p \<Rightarrow> set_entry p (\<lambda>ce. ce\<lparr>ce_answer := rrs, ce_rCode := rCode\<rparr>) s
         | None \<Rightarrow>
             s\<lparr>sv_entries := sv_entries s @ [\<lparr>ce_created = now, ce_answer = rrs, ce_rCode = rCode, ce_done = True\<rparr>],
               sv_cache := AList.update key (length (sv_entries s)) (sv_cache s)\<rparr>)"

text \<open>
  What follows the answer of the cluster: an error or an unusual code is not cached, and the entry is done at
  the very end, by the deferred calls.
\<close>

definition cache_finish :: "int \<Rightarrow> nat \<Rightarrow> question \<Rightarrow> RRs \<times> int \<times> go_err option \<Rightarrow> Server \<Rightarrow> (RRs \<times> int \<times> go_err option) \<times> Server" where
  "cache_finish now p q res s =
     (let (answer, rCode, err) = res;
          rCode = (case err of Some e \<Rightarrow> if is_deadline e then RcodeNameError else rCode | None \<Rightarrow> rCode);
          known = (rCode \<noteq> RcodeSuccess \<and> isNameCachedWithSuccess s q);
          (rCode, err) = (if known then (RcodeSuccess, None) else (rCode, err));
          qTypes = q_Qtype q # (if q_Qtype q \<noteq> TypeCNAME
                                  \<and> list_ex (\<lambda>r. rh_Rrtype (rr_hdr r) = TypeCNAME) (ce_answer (entry s p))
                                then [TypeCNAME] else []);
          (answer, others) = copyRRs answer qTypes;
          answer = PruneEmptyNames answer;
          s = set_entry p (\<lambda>dv. dv\<lparr>ce_answer := answer, ce_rCode := rCode\<rparr>) s;
          s = (if rCode = RcodeSuccess then fold (cache_other now rCode) others s else s);
          s = (if err \<noteq> None \<or> rCode \<noteq> RcodeSuccess \<and> rCode \<noteq> RcodeNameError
               then s\<lparr>sv_cache := AList.delete (q_Name q, q_Qtype q) (sv_cache s)\<rparr> else s)
      in ((answer, rCode, err), set_entry p (\<lambda>dv. dv\<lparr>ce_done := True\<rparr>) s))"

text \<open>The result of a lookup, with the entry that shares its records.\<close>

record looked_up =
  lu_answer :: RRs
  lu_rCode :: int
  lu_err :: "go_err option"
  lu_entry :: "nat option"

record look_env =
  lk_now :: int
  lk_cluster :: "question \<Rightarrow> cluster_answer"
  lk_others :: "Server \<Rightarrow> Server"
  lk_slow :: "cacheKey \<Rightarrow> bool"

definition resolveThruCache :: "look_env \<Rightarrow> question \<Rightarrow> Server \<Rightarrow> (looked_up \<times> Server) option" where
  "resolveThruCache env q s =
     (let ((p, found), s) = cache_begin (lk_now env) (q_Name q, q_Qtype q) s in
      if found then
        (let s = (if ce_done (entry s p) then s else lk_others env s) in
         if ce_done (entry s p) then
           Some (\<lparr>lu_answer = ce_answer (entry s p), lu_rCode = ce_rCode (entry s p), lu_err = None, lu_entry = Some p\<rparr>, s)
         else None)
      else do {
        res \<leftarrow> resolveInCluster (lk_cluster env) s q;
        let ((answer, rCode, err), s) = cache_finish (lk_now env) p q res (lk_others env s);
        Some (\<lparr>lu_answer = answer, lu_rCode = rCode, lu_err = err, lu_entry = Some p\<rparr>, s)
      })"

text \<open>The records of the answer and the code may be shared with an entry; a reply of its own shares none.\<close>

definition own_reply :: "RRs \<Rightarrow> int \<Rightarrow> looked_up" where
  "own_reply rrs rCode = \<lparr>lu_answer = rrs, lu_rCode = rCode, lu_err = None, lu_entry = None\<rparr>"

definition resolveWithRecursionCheck :: "look_env \<Rightarrow> question \<Rightarrow> Server \<Rightarrow> (looked_up \<times> Server) option" where
  "resolveWithRecursionCheck env q s =
     (if has_prefix (q_Name q) recursionCheck then
        (if sv_recursive s = QueryReceived then Some (own_reply [] RcodeNameError, s\<lparr>sv_recursive := Detected\<rparr>)
         else if sv_recursive s = QueryNotYetReceived then
           (let s = lk_others env (s\<lparr>sv_recursive := QueryReceived\<rparr>);
                s = (if sv_recursive s = QueryReceived then s\<lparr>sv_recursive := NotDetected\<rparr> else s)
            in Some (own_reply (localHostReply q) RcodeSuccess, s))
         else Some (own_reply (localHostReply q) RcodeSuccess, s))
      else if sv_recursive s = Detected
              \<and> list_ex (\<lambda>(key, p). snd key = q_Qtype q \<and> has_prefix (q_Name q) (fst key) \<and> \<not> ce_done (entry s p) \<and> lk_slow env key)
                  (sv_cache s) then
        (let s = lk_others env s in
         Some (own_reply [] (if isNameCachedWithSuccess s q then RcodeSuccess else RcodeNameError), s))
      else resolveThruCache env q s)"

section \<open>Configuration\<close>

definition purgeRecordsFromCache :: "string \<Rightarrow> Server \<Rightarrow> Server" where
  "purgeRecordsFromCache keyName s =
     (let keyName = trim_suffix keyName ''.'' @ ''.'' in
      s\<lparr>sv_cache := fold (\<lambda>qType. AList.delete (keyName, qType)) [TypeA, TypeAAAA] (sv_cache s)\<rparr>)"

definition SetExcludes :: "string list \<Rightarrow> Server \<Rightarrow> Server" where
  "SetExcludes excludes s =
     (let excludes = map to_lower excludes;
          oldExcludes = slice (dn_Excludes (sv_DNS s))
      in fold purgeRecordsFromCache (AppendUnique oldExcludes excludes) (s\<lparr>sv_DNS := (sv_DNS s)\<lparr>dn_Excludes := Some excludes\<rparr>\<rparr>))"

definition SetMappings :: "DNSMapping list \<Rightarrow> Server \<Rightarrow> Server" where
  "SetMappings mappings s =
     (let ml = MappingsFromRPC mappings;
          mm = mappingsMap (slice ml)
      in fold purgeRecordsFromCache (map fst mm) (s\<lparr>sv_DNS := (sv_DNS s)\<lparr>dn_Mappings := ml\<rparr>, sv_mappingsMap := mm\<rparr>))"

text \<open>The message of the traffic manager: exclude and include suffixes and the cluster's domain.\<close>

record manager_dns =
  md_ExcludeSuffixes :: "string list"
  md_IncludeSuffixes :: "string list"
  md_ClusterDomain :: string

definition SetClusterDNS :: "manager_dns option \<Rightarrow> addr_port \<Rightarrow> Server \<Rightarrow> Server" where
  "SetClusterDNS dns vifDNS s =
     (let d = sv_DNS s;
          d = (if \<not> is_valid (ap_addr (dn_VIFAddress d)) then d\<lparr>dn_VIFAddress := vifDNS\<rparr> else d)
      in case dns of
           None \<Rightarrow> s\<lparr>sv_DNS := d\<rparr>
         | Some m \<Rightarrow>
             (let d = (if slice (dn_ExcludeSuffixes d) = DefaultExcludeSuffixes \<and> 0 < length (md_ExcludeSuffixes m)
                       then d\<lparr>dn_ExcludeSuffixes := Some (map to_lower (md_ExcludeSuffixes m))\<rparr> else d);
                  d = (if slice_len (dn_IncludeSuffixes d) = 0
                       then d\<lparr>dn_IncludeSuffixes := Some (map to_lower (md_IncludeSuffixes m))\<rparr> else d)
              in s\<lparr>sv_DNS := d, sv_clusterDomain := to_lower (md_ClusterDomain m)\<rparr>))"

definition flushDNS :: "Server \<Rightarrow> Server" where
  "flushDNS s = s\<lparr>sv_cache := []\<rparr>"

text \<open>
  One turn of the loop over the requested domains and namespace, given the previous request and whether more
  requests wait. The processor is that of Linux, which flushes the cache.
\<close>

definition processSearchPaths_turn ::
    "string list \<times> string \<Rightarrow> bool \<Rightarrow> string list \<times> string \<Rightarrow> Server \<Rightarrow> (string list \<times> string) \<times> Server" where
  "processSearchPaths_turn prevDas waiting das s =
     (if waiting \<or> das = prevDas then (prevDas, s)
      else
        (let routes = fold (\<lambda>domain rs. if domain \<noteq> [] \<and> \<not> isDomainExcluded s domain then List.insert domain rs else rs) (fst das) [];
             routes = (if \<not> isDomainExcluded s ''svc'' then List.insert ''svc'' routes else routes)
         in (das, flushDNS (s\<lparr>sv_routes := routes, sv_search := [Tel2SubDomain, snd das]\<rparr>))))"

section \<open>The check for recursion\<close>

text \<open>
  The check sleeps between its looks at the state; what happens during a sleep is a function on the server,
  with the flag whether the context was done before it. \<open>None\<close> is a check that has not ended with the sleeps
  given.
\<close>

type_synonym sleeps = "(bool \<times> (Server \<Rightarrow> Server)) list"

definition maxRecursionTestRetries :: nat where
  "maxRecursionTestRetries = 10"

fun recursion_retries :: "nat \<Rightarrow> sleeps \<Rightarrow> Server \<Rightarrow> (nat \<times> sleeps \<times> Server) option" where
  "recursion_retries i [] s =
     (if i < maxRecursionTestRetries \<and> sv_recursive s = QueryNotYetReceived then None else Some (i, [], s))"
| "recursion_retries i ((ended, sleep) # ws) s =
     (if \<not> ended \<and> i < maxRecursionTestRetries \<and> sv_recursive s = QueryNotYetReceived
      then recursion_retries (i + 1) ws (sleep s) else Some (i, (ended, sleep) # ws, s))"

fun recursion_await :: "sleeps \<Rightarrow> Server \<Rightarrow> Server option" where
  "recursion_await [] s = (if sv_recursive s = Detected \<or> sv_recursive s = NotDetected then Some s else None)"
| "recursion_await ((ended, sleep) # ws) s =
     (if ended \<or> sv_recursive s = Detected \<or> sv_recursive s = NotDetected then Some s
      else recursion_await ws (sleep s))"

definition performRecursionCheck :: "bool \<Rightarrow> bool \<Rightarrow> sleeps \<Rightarrow> Server \<Rightarrow> Server option" where
  "performRecursionCheck inContainer enabled ws s =
     (if inContainer \<or> \<not> enabled then Some (s\<lparr>sv_ready := True\<rparr>)
      else do {
        (i, ws, s) \<leftarrow> recursion_retries 0 ws (s\<lparr>sv_recursive := QueryNotYetReceived\<rparr>);
        s \<leftarrow> (if i = maxRecursionTestRetries then Some (s\<lparr>sv_error := ''DNS doesn't seem to work properly''\<rparr>)
              else recursion_await ws s);
        Some (s\<lparr>sv_ready := True\<rparr>)
      })"

section \<open>The handler\<close>

record dns_msg =
  dm_Id :: u16
  dm_Question :: "question list"
  dm_Answer :: RRs
  dm_Rcode :: int
  dm_Authoritative :: bool
  dm_RecursionAvailable :: bool

text \<open>\<open>dns.Msg.SetReply\<close> and \<open>SetRcode\<close> on a new message: the identifier and the first question of the request.\<close>

definition SetRcode :: "u16 \<Rightarrow> question \<Rightarrow> int \<Rightarrow> dns_msg" where
  "SetRcode mid q rCode =
     \<lparr>dm_Id = mid, dm_Question = [q], dm_Answer = [], dm_Rcode = rCode, dm_Authoritative = False, dm_RecursionAvailable = False\<rparr>"

datatype pool_error = PoolTimeout | PoolTemporary | PoolError string

definition fallbackExchange :: "(dns_msg \<Rightarrow> pool_error + dns_msg) \<Rightarrow> dns_msg \<Rightarrow> question \<Rightarrow> dns_msg" where
  "fallbackExchange exchange r q =
     (case exchange (r\<lparr>dm_Question := q # tl (dm_Question r)\<rparr>) of
        Inl e \<Rightarrow> SetRcode (dm_Id r) q (case e of PoolTemporary \<Rightarrow> RcodeRefused | _ \<Rightarrow> RcodeServerFailure)
      | Inr poolMsg \<Rightarrow> poolMsg\<lparr>dm_RecursionAvailable := True\<rparr>)"

text \<open>The lookup that the configuration selects in \<open>Run\<close>.\<close>

definition clientLookup :: "bool \<Rightarrow> look_env \<Rightarrow> question \<Rightarrow> Server \<Rightarrow> (looked_up \<times> Server) option" where
  "clientLookup check = (if check then resolveWithRecursionCheck else resolveThruCache)"

text \<open>The result of a mapping, or \<open>None\<close> for \<open>errNoMapping\<close>; the outer option is the lookup's.\<close>

definition resolveMapping :: "bool \<Rightarrow> look_env \<Rightarrow> question \<Rightarrow> Server \<Rightarrow> (looked_up \<times> Server) option option" where
  "resolveMapping check env q s =
     (if q_Qtype q \<notin> {TypeA, TypeAAAA, TypeCNAME} then None
      else (case map_of (sv_mappingsMap s) (q_Name q) of
        None \<Rightarrow> None
      | Some mappingAlias \<Rightarrow>
          Some (case ParseAddr mappingAlias of
            Some (ip, _) \<Rightarrow>
              (let hdr = \<lparr>rh_Name = q_Name q, rh_Rrtype = q_Qtype q, rh_Class = ClassINET, rh_Ttl = dnsTTL\<rparr>;
                   rrs = (if q_Qtype q = TypeA \<and> is4 ip then [\<lparr>rr_hdr = hdr, rr_data = RR_A (as_slice ip)\<rparr>]
                          else if q_Qtype q = TypeAAAA \<and> is6 ip then [\<lparr>rr_hdr = hdr, rr_data = RR_AAAA (as_slice ip)\<rparr>]
                          else [])
               in Some (own_reply rrs RcodeSuccess, s))
          | None \<Rightarrow>
              (let cnameRRs = [\<lparr>rr_hdr = \<lparr>rh_Name = q_Name q, rh_Rrtype = TypeCNAME, rh_Class = ClassINET, rh_Ttl = dnsTTL\<rparr>,
                                rr_data = RR_CNAME mappingAlias\<rparr>]
               in if q_Qtype q = TypeCNAME then Some (own_reply cnameRRs RcodeSuccess, s)
                  else do {
                    (r, s) \<leftarrow> clientLookup check env (q\<lparr>q_Name := mappingAlias\<rparr>) s;
                    Some (if lu_err r = None then (r\<lparr>lu_answer := cnameRRs @ lu_answer r\<rparr>, s) else (r, s))
                  }))))"

text \<open>The name without the first suffix that ends it and leaves a name with a final dot.\<close>

definition drop_suffix :: "string list \<Rightarrow> string \<Rightarrow> string" where
  "drop_suffix dropSuffixes name =
     (case find (\<lambda>sfx. has_suffix name sfx \<and>
                   (let n = take (length name - length sfx) name in 1 < length n \<and> last n = CHR ''.'')) dropSuffixes of
        None \<Rightarrow> name
      | Some sfx \<Rightarrow> take (length name - length sfx) name)"

definition rename_rr :: "string \<Rightarrow> string \<Rightarrow> rr \<Rightarrow> rr" where
  "rename_rr fr tt r = (if rh_Name (rr_hdr r) = fr then r\<lparr>rr_hdr := (rr_hdr r)\<lparr>rh_Name := tt\<rparr>\<rparr> else r)"

text \<open>The deferred restoration of names, in the reply and in the entry whose records the reply shares.\<close>

definition restore_reply :: "string \<Rightarrow> string \<Rightarrow> dns_msg \<Rightarrow> dns_msg" where
  "restore_reply name origName msg =
     msg\<lparr>dm_Question := (case dm_Question msg of
                            [] \<Rightarrow> []
                          | mq # qs \<Rightarrow> (if q_Name mq = name then mq\<lparr>q_Name := origName\<rparr> else mq) # qs),
         dm_Answer := map (rename_rr name origName) (dm_Answer msg)\<rparr>"

definition restore_entry :: "string \<Rightarrow> string \<Rightarrow> nat option \<Rightarrow> Server \<Rightarrow> Server" where
  "restore_entry name origName e s =
     (case e of
        None \<Rightarrow> s
      | Some p \<Rightarrow> set_entry p (\<lambda>ce. ce\<lparr>ce_answer := map (rename_rr name origName) (ce_answer ce)\<rparr>) s)"

text \<open>The lookup of a supported question under its name in lower case and without suffix.\<close>

definition serve_lookup :: "bool \<Rightarrow> look_env \<Rightarrow> question \<Rightarrow> Server \<Rightarrow> (looked_up \<times> Server) option" where
  "serve_lookup check env q s =
     (if q_Qtype q \<in> {TypeA, TypeAAAA, TypeCNAME} then
        (case resolveMapping check env q s of Some r \<Rightarrow> r | None \<Rightarrow> clientLookup check env q s)
      else if q_Qtype q = TypePTR
              \<and> PtrAddress (q_Name q) = Inr (ap_addr (dn_VIFAddress (sv_DNS s)), []) then
        Some (own_reply [\<lparr>rr_hdr = NewHeader (q_Name q) (q_Qtype q), rr_data = RR_PTR (sv_clusterDomain s)\<rparr>] RcodeSuccess, s)
      else clientLookup check env q s)"

definition ServeDNS ::
    "bool \<Rightarrow> look_env \<Rightarrow> (dns_msg \<Rightarrow> pool_error + dns_msg) \<Rightarrow> dns_msg \<Rightarrow> Server \<Rightarrow> (dns_msg \<times> Server) option" where
  "ServeDNS check env exchange r s =
     (case dm_Question r of
        [] \<Rightarrow> None
      | q # _ \<Rightarrow>
          (let s = s\<lparr>sv_requestCount := sv_requestCount s + 1\<rparr>; origName = q_Name q; reply = SetRcode (dm_Id r) in
           if origName = sanityCheckDot then
             Some (if localHostReply q = [] then reply q RcodeNotImplemented
                   else (reply q RcodeSuccess)\<lparr>dm_Answer := localHostReply q, dm_Authoritative := True\<rparr>, s)
           else if \<not> SupportedType (q_Qtype q) then Some (reply q RcodeNotImplemented, s)
           else
             (let name = drop_suffix (sv_dropSuffixes s) (to_lower origName); lq = q\<lparr>q_Name := name\<rparr> in
              if q_Qtype q \<in> {TypeA, TypeAAAA, TypeCNAME} \<and> index_of name tel2SubDomainDot \<noteq> None then
                Some (restore_reply name origName (reply lq RcodeNameError), s)
              else do {
                (res, s) \<leftarrow> serve_lookup check env lq s;
                Some (if lu_err res = None \<and> lu_rCode res = RcodeSuccess then
                        (restore_reply name origName
                           ((reply lq RcodeSuccess)\<lparr>dm_Answer := lu_answer res, dm_Authoritative := True,
                              dm_RecursionAvailable := sv_fallbackPool s\<rparr>),
                         restore_entry name origName (lu_entry res) s)
                      else if \<not> sv_fallbackPool s \<or> has_suffix name (sv_clusterDomain s) \<or> has_suffix origName tel2SubDomainDot then
                        (restore_reply name origName (reply lq (lu_rCode res)), s)
                      else (fallbackExchange exchange r q, s))
              })))"

section \<open>Routes\<close>

lemma in_domain_iff: "in_domain name sfx \<longleftrightarrow> (\<exists>p. p \<noteq> [] \<and> name = p @ CHR ''.'' # sfx)"
proof
  assume d: "in_domain name sfx"
  then obtain r where r: "name = r @ sfx" by (auto simp: in_domain_def has_suffix_iff)
  with d have l: "1 < length r" "r ! (length r - 1) = CHR ''.''" by (auto simp: in_domain_def nth_append split: if_splits)
  then have "r = butlast r @ [CHR ''.'']" by (cases r rule: rev_cases) (auto simp: nth_append)
  moreover have "butlast r \<noteq> []" using l(1) by (auto dest: arg_cong [of _ _ length])
  ultimately have "butlast r \<noteq> [] \<and> name = butlast r @ CHR ''.'' # sfx"
    using r by (metis append.assoc append_Cons append_Nil)
  then show "\<exists>p. p \<noteq> [] \<and> name = p @ CHR ''.'' # sfx" ..
qed (auto simp: in_domain_def nth_append has_suffix_iff)

lemma split_byte_mid: "split_byte c (a @ c # b) = split_byte c a @ split_byte c b"
  by (induction a) (auto split: list.split)

lemma in_domain_unique:
  assumes "in_domain name a" and "in_domain name b" and "CHR ''.'' \<notin> set a" and "CHR ''.'' \<notin> set b"
  shows "a = b"
proof -
  have last: "last (split_byte (CHR ''.'') (p @ CHR ''.'' # c)) = c" if "CHR ''.'' \<notin> set c" for p c :: string
    using that by (simp add: split_byte_mid split_byte_single)
  from assms show ?thesis unfolding in_domain_iff using last by metis
qed

lemma find_unique:
  assumes "set xs = set ys" and "\<And>x y. x \<in> set xs \<Longrightarrow> y \<in> set xs \<Longrightarrow> P x \<Longrightarrow> P y \<Longrightarrow> x = y"
  shows "find P xs = find P ys"
proof (cases "find P xs")
  case None
  then show ?thesis using assms(1) by (metis find_None_iff)
next
  case (Some x)
  then have x: "x \<in> set xs" "P x" by (auto simp: find_Some_iff)
  then obtain y where y: "find P ys = Some y"
    using assms(1) by (cases "find P ys") (auto simp: find_None_iff)
  then have "y \<in> set ys" "P y" by (auto simp: find_Some_iff)
  with x assms have "x = y" by blast
  with Some y show ?thesis by simp
qed

text \<open>
  C37. Whether a name is looked up in the cluster does not depend on the order in which Go iterates over the
  routes, because routes are namespaces and have no dot: a name is in at most one of them.
\<close>

theorem cluster_lookup_any_order:
  assumes "set routes = set (sv_routes s)" and "\<forall>r\<in>set routes. CHR ''.'' \<notin> set r"
  shows "shouldDoClusterLookup (s\<lparr>sv_routes := routes\<rparr>) query = shouldDoClusterLookup s query"
proof -
  have "find (in_domain name) routes = find (in_domain name) (sv_routes s)" for name
    by (rule find_unique) (use assms in_domain_unique in auto)
  moreover have ex: "suffixExcluded (s\<lparr>sv_routes := routes\<rparr>) = suffixExcluded s" "isExcluded (s\<lparr>sv_routes := routes\<rparr>) = isExcluded s"
    by (auto simp: suffixExcluded_def isExcluded_def fun_eq_iff)
  ultimately have dv: "domain_verdict (s\<lparr>sv_routes := routes\<rparr>) name (sv_search s) = domain_verdict s name (sv_search s)"
    "domain_verdict (s\<lparr>sv_routes := routes\<rparr>) name routes = domain_verdict s name (sv_routes s)" for name
    by (simp_all add: domain_verdict_def)
  have sel: "sv_search (s\<lparr>sv_routes := routes\<rparr>) = sv_search s" "sv_routes (s\<lparr>sv_routes := routes\<rparr>) = routes"
    "sv_clusterDomain (s\<lparr>sv_routes := routes\<rparr>) = sv_clusterDomain s" "sv_DNS (s\<lparr>sv_routes := routes\<rparr>) = sv_DNS s"
    by simp_all
  show ?thesis unfolding shouldDoClusterLookup_def sel ex dv ..
qed

definition sample_server :: Server where
  "sample_server = (NewServer defaultDNS ''default'')\<lparr>sv_routes := [''blue'', ''svc''], sv_search := [Tel2SubDomain, ''default'']\<rparr>"

theorem cluster_lookup_any_order_witness:
  "shouldDoClusterLookup (sample_server\<lparr>sv_routes := [''svc'', ''blue'']\<rparr>) ''echo.blue.'' = Some True"
proof -
  have "shouldDoClusterLookup (sample_server\<lparr>sv_routes := [''svc'', ''blue'']\<rparr>) ''echo.blue.'' = shouldDoClusterLookup sample_server ''echo.blue.''"
    by (rule cluster_lookup_any_order) (auto simp: sample_server_def)
  also have "\<dots> = Some True" by code_simp
  finally show ?thesis .
qed

section \<open>The invariant of the cache\<close>

text \<open>
  Every entry belongs to the key it was made for, which \<open>own\<close> records: its records are of the key's type, and
  while it is in the cache and done its code is one of the two that are cached.
\<close>

definition typed :: "u16 \<Rightarrow> RRs \<Rightarrow> bool" where
  "typed t rrs \<longleftrightarrow> list_all (\<lambda>r. rh_Rrtype (rr_hdr r) = t \<and> \<not> IsEmptyName r) rrs"

definition cache_wf :: "cacheKey list \<Rightarrow> Server \<Rightarrow> bool" where
  "cache_wf own s \<longleftrightarrow>
     length own = length (sv_entries s)
     \<and> (\<forall>p<length own. typed (snd (own ! p)) (ce_answer (entry s p)))
     \<and> (\<forall>k p. map_of (sv_cache s) k = Some p \<longrightarrow> p < length own \<and> own ! p = k
          \<and> (ce_done (entry s p) \<longrightarrow> ce_rCode (entry s p) = RcodeSuccess \<or> ce_rCode (entry s p) = RcodeNameError))"

lemma cache_wfD:
  assumes "cache_wf own s" and "map_of (sv_cache s) k = Some p"
  shows "p < length (sv_entries s)" "own ! p = k" "typed (snd k) (ce_answer (entry s p))"
    "ce_done (entry s p) \<Longrightarrow> ce_rCode (entry s p) = RcodeSuccess \<or> ce_rCode (entry s p) = RcodeNameError"
  using assms by (auto simp: cache_wf_def simp del: split_paired_All)

lemma cache_wf_cong:
  "sv_cache s' = sv_cache s \<Longrightarrow> sv_entries s' = sv_entries s \<Longrightarrow> cache_wf own s' = cache_wf own s"
  by (simp add: cache_wf_def)

lemma cache_wf_delete: "cache_wf own s \<Longrightarrow> cache_wf own (s\<lparr>sv_cache := AList.delete k (sv_cache s)\<rparr>)"
  by (auto simp: cache_wf_def split: if_splits simp del: split_paired_All)

lemma cache_wf_flush: "cache_wf own s \<Longrightarrow> cache_wf own (flushDNS s)"
  by (auto simp: cache_wf_def flushDNS_def)

lemma cache_wf_purge: "cache_wf own s \<Longrightarrow> cache_wf own (purgeRecordsFromCache n s)"
  using cache_wf_delete [of own "s\<lparr>sv_cache := AList.delete (trim_suffix n ''.'' @ ''.'', TypeA) (sv_cache s)\<rparr>"]
    cache_wf_delete [of own s]
  by (simp add: purgeRecordsFromCache_def Let_def)

text \<open>A change of one entry that keeps what the invariant says of it.\<close>

lemma cache_wf_set_entry:
  assumes "cache_wf own s" and "p < length own" and "typed (snd (own ! p)) (ce_answer (f (entry s p)))"
    and "map_of (sv_cache s) (own ! p) = Some p \<Longrightarrow> ce_done (f (entry s p))
      \<Longrightarrow> ce_rCode (f (entry s p)) = RcodeSuccess \<or> ce_rCode (f (entry s p)) = RcodeNameError"
  shows "cache_wf own (set_entry p f s)"
  using assms by (auto simp: cache_wf_def set_entry_def nth_list_update simp del: split_paired_All)

lemma cache_wf_insert:
  assumes "cache_wf own s" and "typed (snd k) (ce_answer e)"
    and "ce_done e \<Longrightarrow> ce_rCode e = RcodeSuccess \<or> ce_rCode e = RcodeNameError"
  shows "cache_wf (own @ [k]) (s\<lparr>sv_entries := sv_entries s @ [e], sv_cache := AList.update k (length (sv_entries s)) (sv_cache s)\<rparr>)"
  using assms by (auto simp: cache_wf_def nth_append less_Suc_eq split: if_splits simp del: split_paired_All)

lemma cache_begin_wf:
  assumes "cache_wf own s" and "cache_begin now key s = ((p, found), s')"
  shows "if found then s' = s \<and> map_of (sv_cache s) key = Some p
    else p = length (sv_entries s) \<and> cache_wf (own @ [key]) s' \<and> (own @ [key]) ! p = key \<and> \<not> ce_done (entry s' p)"
proof -
  let ?e = "\<lparr>ce_created = now, ce_answer = [], ce_rCode = -1, ce_done = False\<rparr>"
  let ?fresh = "s\<lparr>sv_entries := sv_entries s @ [?e], sv_cache := AList.update key (length (sv_entries s)) (sv_cache s)\<rparr>"
  have "cache_wf (own @ [key]) ?fresh" by (rule cache_wf_insert) (use assms(1) in \<open>auto simp: typed_def\<close>)
  moreover have "length own = length (sv_entries s)" using assms(1) by (simp add: cache_wf_def)
  ultimately show ?thesis
    using assms(2) by (auto simp: cache_begin_def Let_def nth_append split: option.splits if_splits)
qed

text \<open>The invariant keeps holding when entries are added and is not affected by what else is done.\<close>

definition extends :: "'a list \<Rightarrow> 'a list \<Rightarrow> bool" where
  "extends own own' \<longleftrightarrow> (\<exists>more. own' = own @ more)"

lemma extends_refl [simp]: "extends own own"
  by (simp add: extends_def)

lemma extends_snoc [simp]: "extends own (own @ [k])"
  by (simp add: extends_def)

lemma extends_trans: "extends a b \<Longrightarrow> extends b c \<Longrightarrow> extends a c"
  by (auto simp: extends_def)

lemma extends_nth: "extends own own' \<Longrightarrow> p < length own \<Longrightarrow> p < length own' \<and> own' ! p = own ! p"
  by (auto simp: extends_def nth_append)

lemma cache_other_wf:
  assumes "cache_wf own s"
  shows "\<exists>own'. extends own own' \<and> cache_wf own' (cache_other now RcodeSuccess r s)"
proof (cases "map_of (sv_cache s) (rh_Name (rr_hdr r), rh_Rrtype (rr_hdr r))")
  case None
  have "cache_wf (own @ [(rh_Name (rr_hdr r), rh_Rrtype (rr_hdr r))]) (cache_other now RcodeSuccess r s)"
    unfolding cache_other_def Let_def None option.case
    by (rule cache_wf_insert [OF assms]) (simp_all add: typed_def)
  with extends_snoc show ?thesis by (intro exI conjI)
next
  case (Some p)
  note D = cache_wfD [OF assms Some]
  have "length own = length (sv_entries s)" using assms by (simp add: cache_wf_def)
  then have "cache_wf own (set_entry p (\<lambda>ce. ce\<lparr>ce_answer := (if IsEmptyName r then [] else [r]), ce_rCode := RcodeSuccess\<rparr>) s)"
    using D by (intro cache_wf_set_entry [OF assms]) (auto simp: typed_def)
  then have "cache_wf own (cache_other now RcodeSuccess r s)" using Some by (simp add: cache_other_def)
  with extends_refl show ?thesis by (intro exI conjI)
qed

lemma cache_others_wf:
  "cache_wf own s \<Longrightarrow> \<exists>own'. extends own own' \<and> cache_wf own' (fold (cache_other now RcodeSuccess) rs s)"
proof (induction rs arbitrary: own s)
  case Nil
  with extends_refl show ?case by (simp, intro exI conjI)
next
  case (Cons r rs)
  from cache_other_wf [OF Cons.prems] obtain own1 where "extends own own1" "cache_wf own1 (cache_other now RcodeSuccess r s)"
    by blast
  moreover from Cons.IH [OF this(2)] obtain own2 where
    "extends own1 own2" "cache_wf own2 (fold (cache_other now RcodeSuccess) rs (cache_other now RcodeSuccess r s))"
    by blast
  ultimately show ?case using extends_trans by auto
qed

lemma typed_prune: "typed t (PruneEmptyNames rrs) \<longleftrightarrow> list_all (\<lambda>r. rh_Rrtype (rr_hdr r) = t) (filter (\<lambda>r. \<not> IsEmptyName r) rrs)"
  by (induction rrs) (auto simp: typed_def PruneEmptyNames_def)

lemma no_cname_in_entry:
  "typed t rrs \<Longrightarrow> t \<noteq> TypeCNAME \<Longrightarrow> \<not> list_ex (\<lambda>r. rh_Rrtype (rr_hdr r) = TypeCNAME) rrs"
  by (auto simp: typed_def list_all_iff list_ex_iff)

text \<open>
  The parts of \<open>cache_finish\<close>: the code and the error that count, the records that answer the question, and
  the others.
\<close>

definition settled :: "Server \<Rightarrow> question \<Rightarrow> RRs \<times> int \<times> go_err option \<Rightarrow> int \<times> go_err option" where
  "settled s q res =
     (let (answer, rCode, err) = res;
          rCode = (case err of Some e \<Rightarrow> if is_deadline e then RcodeNameError else rCode | None \<Rightarrow> rCode)
      in if rCode \<noteq> RcodeSuccess \<and> isNameCachedWithSuccess s q then (RcodeSuccess, None) else (rCode, err))"

lemma cache_finish_parts:
  assumes "cache_wf own s" and "p < length own" and "own ! p = (q_Name q, q_Qtype q)" and "settled s q res = (rc, err)"
  defines "ans \<equiv> filter (\<lambda>r. rh_Rrtype (rr_hdr r) = q_Qtype q \<and> \<not> IsEmptyName r) (fst res)"
    and "others \<equiv> filter (\<lambda>r. rh_Rrtype (rr_hdr r) \<noteq> q_Qtype q) (fst res)"
  shows "cache_finish now p q res s =
    (let s1 = set_entry p (\<lambda>dv. dv\<lparr>ce_answer := ans, ce_rCode := rc\<rparr>) s;
         s2 = (if rc = RcodeSuccess then fold (cache_other now rc) others s1 else s1);
         s3 = (if err \<noteq> None \<or> rc \<noteq> RcodeSuccess \<and> rc \<noteq> RcodeNameError
               then s2\<lparr>sv_cache := AList.delete (q_Name q, q_Qtype q) (sv_cache s2)\<rparr> else s2)
     in ((ans, rc, err), set_entry p (\<lambda>dv. dv\<lparr>ce_done := True\<rparr>) s3))"
proof -
  have "typed (q_Qtype q) (ce_answer (entry s p))"
    using assms(1-3) by (auto simp: cache_wf_def dest!: spec [of _ p])
  then have q: "(q_Qtype q # (if q_Qtype q \<noteq> TypeCNAME \<and> list_ex (\<lambda>r. rh_Rrtype (rr_hdr r) = TypeCNAME) (ce_answer (entry s p))
      then [TypeCNAME] else [])) = [q_Qtype q]"
    using no_cname_in_entry by auto
  have c: "PruneEmptyNames (fst (copyRRs (fst res) [q_Qtype q])) = ans" "snd (copyRRs (fst res) [q_Qtype q]) = others"
    by (auto simp: copyRRs_def PruneEmptyNames_def ans_def others_def intro!: filter_cong)
  obtain a rc0 err0 where r: "res = (a, rc0, err0)" by (cases res)
  obtain x1 x2 where copy: "copyRRs a [q_Qtype q] = (x1, x2)" by (cases "copyRRs a [q_Qtype q]")
  have x: "PruneEmptyNames x1 = ans" "x2 = others" using c by (simp_all add: r copy)
  show ?thesis
    using assms(4) unfolding cache_finish_def q r x [symmetric]
    by (simp add: settled_def Let_def copy split del: if_split)
qed

lemma cache_other_keeps:
  assumes "cache_wf own s" and "p < length own" and "rh_Rrtype (rr_hdr r) \<noteq> snd (own ! p)"
  shows "entry (cache_other now rc r s) p = entry s p
    \<and> map_of (sv_cache (cache_other now rc r s)) (own ! p) = map_of (sv_cache s) (own ! p)"
proof (cases "map_of (sv_cache s) (rh_Name (rr_hdr r), rh_Rrtype (rr_hdr r))")
  case None
  moreover have "p < length (sv_entries s)" using assms(1,2) by (simp add: cache_wf_def)
  ultimately show ?thesis using assms(3) by (cases "own ! p") (auto simp: cache_other_def nth_append)
next
  case (Some p')
  have "own ! p' = (rh_Name (rr_hdr r), rh_Rrtype (rr_hdr r))" by (rule cache_wfD [OF assms(1) Some])
  with assms(3) have "p' \<noteq> p" by auto
  with Some show ?thesis by (simp add: cache_other_def set_entry_def)
qed

lemma cache_others_keep:
  assumes "cache_wf own s" and "p < length own" and "\<forall>r\<in>set rs. rh_Rrtype (rr_hdr r) \<noteq> snd (own ! p)"
  shows "entry (fold (cache_other now RcodeSuccess) rs s) p = entry s p
    \<and> map_of (sv_cache (fold (cache_other now RcodeSuccess) rs s)) (own ! p) = map_of (sv_cache s) (own ! p)"
  using assms
proof (induction rs arbitrary: own s)
  case (Cons r rs)
  obtain own1 where e: "extends own own1" and wf: "cache_wf own1 (cache_other now RcodeSuccess r s)"
    using cache_other_wf [OF Cons.prems(1)] by blast
  have p: "p < length own1" "own1 ! p = own ! p" using extends_nth [OF e Cons.prems(2)] by auto
  have "entry (fold (cache_other now RcodeSuccess) rs (cache_other now RcodeSuccess r s)) p = entry (cache_other now RcodeSuccess r s) p
    \<and> map_of (sv_cache (fold (cache_other now RcodeSuccess) rs (cache_other now RcodeSuccess r s))) (own1 ! p)
      = map_of (sv_cache (cache_other now RcodeSuccess r s)) (own1 ! p)"
    by (rule Cons.IH [OF wf p(1)]) (use Cons.prems(3) p(2) in simp)
  then show ?case using cache_other_keeps [OF Cons.prems(1,2)] Cons.prems(3) p(2) by simp
qed simp

text \<open>
  What finishing an entry that is being filled in does: the invariant stays, the answer is of the question's
  type, the entry has the answer and is done, and it stays in the cache exactly if it may be cached.
\<close>

lemma cache_finish_effect:
  assumes wf: "cache_wf own s" and p: "p < length own" "own ! p = (q_Name q, q_Qtype q)" and nd: "\<not> ce_done (entry s p)"
    and fin: "cache_finish now p q res s = ((answer, rc, err), s')"
  shows "\<exists>own'. extends own own' \<and> cache_wf own' s'" and "typed (q_Qtype q) answer"
    and "ce_answer (entry s' p) = answer" "ce_rCode (entry s' p) = rc" "ce_done (entry s' p)"
    and "ce_created (entry s' p) = ce_created (entry s p)"
    and "map_of (sv_cache s') (q_Name q, q_Qtype q) =
      (if err \<noteq> None \<or> rc \<noteq> RcodeSuccess \<and> rc \<noteq> RcodeNameError then None else map_of (sv_cache s) (q_Name q, q_Qtype q))"
proof -
  obtain rc' err' where st: "settled s q res = (rc', err')" by (cases "settled s q res")
  define ans where "ans = filter (\<lambda>r. rh_Rrtype (rr_hdr r) = q_Qtype q \<and> \<not> IsEmptyName r) (fst res)"
  define others where "others = filter (\<lambda>r. rh_Rrtype (rr_hdr r) \<noteq> q_Qtype q) (fst res)"
  define s1 where "s1 = set_entry p (\<lambda>dv. dv\<lparr>ce_answer := ans, ce_rCode := rc'\<rparr>) s"
  define s2 where "s2 = (if rc' = RcodeSuccess then fold (cache_other now rc') others s1 else s1)"
  define bad where "bad = (err' \<noteq> None \<or> rc' \<noteq> RcodeSuccess \<and> rc' \<noteq> RcodeNameError)"
  define s3 where "s3 = (if bad then s2\<lparr>sv_cache := AList.delete (q_Name q, q_Qtype q) (sv_cache s2)\<rparr> else s2)"
  have eq: "cache_finish now p q res s = ((ans, rc', err'), set_entry p (\<lambda>dv. dv\<lparr>ce_done := True\<rparr>) s3)"
    unfolding s3_def bad_def s2_def s1_def ans_def others_def by (simp only: cache_finish_parts [OF wf p st] Let_def)
  have f: "answer = ans" "rc = rc'" "err = err'" "s' = set_entry p (\<lambda>dv. dv\<lparr>ce_done := True\<rparr>) s3"
    using fin eq by simp_all
  have lp: "p < length (sv_entries s)" using wf p(1) by (simp add: cache_wf_def)
  have ty: "typed (q_Qtype q) ans" by (auto simp: ans_def typed_def list_all_iff)
  have wf1: "cache_wf own s1"
    unfolding s1_def using ty nd p by (intro cache_wf_set_entry [OF wf]) auto
  have e1: "entry s1 p = (entry s p)\<lparr>ce_answer := ans, ce_rCode := rc'\<rparr>" "sv_cache s1 = sv_cache s"
    using lp by (simp_all add: s1_def set_entry_def)
  have s2: "entry s2 p = entry s1 p \<and> map_of (sv_cache s2) (own ! p) = map_of (sv_cache s1) (own ! p)"
    using cache_others_keep [OF wf1 p(1), of others now] p(2) by (simp add: s2_def others_def)
  obtain own2 where x2: "extends own own2" and wf2: "cache_wf own2 s2"
  proof (cases "rc' = RcodeSuccess")
    case True
    with cache_others_wf [OF wf1, of now others] that show thesis by (auto simp: s2_def)
  next
    case False
    with wf1 that [OF extends_refl] show thesis by (simp add: s2_def)
  qed
  have p2: "p < length own2" "own2 ! p = (q_Name q, q_Qtype q)" using extends_nth [OF x2 p(1)] p(2) by auto
  have wf3: "cache_wf own2 s3" using wf2 cache_wf_delete [OF wf2] by (simp add: s3_def)
  have e3: "entry s3 p = (entry s p)\<lparr>ce_answer := ans, ce_rCode := rc'\<rparr>"
    using s2 e1 by (simp add: s3_def)
  have m3: "map_of (sv_cache s3) (q_Name q, q_Qtype q) = (if bad then None else map_of (sv_cache s) (q_Name q, q_Qtype q))"
    using s2 e1 p(2) by (simp add: s3_def)
  have "cache_wf own2 s'"
    unfolding f(4) using p2 e3 m3 ty
    by (intro cache_wf_set_entry [OF wf3]) (auto simp: bad_def split: if_splits)
  with x2 show "\<exists>own'. extends own own' \<and> cache_wf own' s'" by (intro exI conjI)
  have l3: "p < length (sv_entries s3)" using wf3 p2 by (simp add: cache_wf_def)
  show "typed (q_Qtype q) answer" "ce_answer (entry s' p) = answer" "ce_rCode (entry s' p) = rc" "ce_done (entry s' p)"
    "ce_created (entry s' p) = ce_created (entry s p)"
    using ty e3 l3 by (simp_all add: f set_entry_def)
  show "map_of (sv_cache s') (q_Name q, q_Qtype q) =
      (if err \<noteq> None \<or> rc \<noteq> RcodeSuccess \<and> rc \<noteq> RcodeNameError then None else map_of (sv_cache s) (q_Name q, q_Qtype q))"
    using m3 by (simp add: f set_entry_def bad_def)
qed

lemma typed_rename: "typed t (map (rename_rr a b) rrs) = typed t rrs"
  by (induction rrs) (auto simp: typed_def rename_rr_def IsEmptyName_def)

lemma restore_entry_wf:
  assumes "cache_wf own s" and "\<And>p. e = Some p \<Longrightarrow> p < length own"
  shows "cache_wf own (restore_entry a b e s)"
proof (cases e)
  case (Some p)
  have "typed (snd (own ! p)) (ce_answer (entry s p))" using assms Some by (auto simp: cache_wf_def)
  moreover have "ce_rCode (entry s p) = RcodeSuccess \<or> ce_rCode (entry s p) = RcodeNameError"
    if "map_of (sv_cache s) (own ! p) = Some p" "ce_done (entry s p)"
    using cache_wfD [OF assms(1) that(1)] that(2) by auto
  ultimately have "cache_wf own (set_entry p (\<lambda>ce. ce\<lparr>ce_answer := map (rename_rr a b) (ce_answer ce)\<rparr>) s)"
    by (intro cache_wf_set_entry [OF assms(1)]) (use assms(2) Some in \<open>auto simp: typed_rename\<close>)
  then show ?thesis by (simp add: restore_entry_def Some)
qed (use assms in \<open>simp add: restore_entry_def\<close>)

section \<open>Interleavings\<close>

text \<open>
  The server with the lookups that are under way: each holds the address of the entry that it will fill in.
  A step is one operation on the server; lookups may begin and finish in any order, with any answer of the
  cluster, and the configuration may change at any time.
\<close>

inductive dns_step :: "Server \<times> (nat \<times> question) list \<Rightarrow> Server \<times> (nat \<times> question) list \<Rightarrow> bool" where
  step_begin: "cache_begin now (q_Name q, q_Qtype q) s = ((p, False), s') \<Longrightarrow> dns_step (s, P) (s', (p, q) # P)"
| step_finish: "dns_step (s, P @ (p, q) # P') (snd (cache_finish now p q res s), P @ P')"
| step_restore: "p < length (sv_entries s) \<Longrightarrow> dns_step (s, P) (restore_entry a b (Some p) s, P)"
| step_purge: "dns_step (s, P) (purgeRecordsFromCache n s, P)"
| step_flush: "dns_step (s, P) (flushDNS s, P)"
| step_configure: "sv_cache s' = sv_cache s \<Longrightarrow> sv_entries s' = sv_entries s \<Longrightarrow> dns_step (s, P) (s', P)"

inductive_cases dns_stepE: "dns_step x y"

abbreviation dns_steps :: "Server \<times> (nat \<times> question) list \<Rightarrow> Server \<times> (nat \<times> question) list \<Rightarrow> bool" where
  "dns_steps \<equiv> dns_step\<^sup>*\<^sup>*"

definition system_wf :: "cacheKey list \<Rightarrow> Server \<times> (nat \<times> question) list \<Rightarrow> bool" where
  "system_wf own x \<longleftrightarrow>
     cache_wf own (fst x) \<and> distinct (map fst (snd x))
     \<and> (\<forall>(p, q)\<in>set (snd x). p < length own \<and> own ! p = (q_Name q, q_Qtype q) \<and> \<not> ce_done (entry (fst x) p))"

lemma system_wf_server:
  assumes "system_wf own (s, P)" and "cache_wf own s'" and "\<And>p. p < length own \<Longrightarrow> ce_done (entry s' p) = ce_done (entry s p)"
  shows "system_wf own (s', P)"
  using assms by (auto simp: system_wf_def)

lemma done_set_entry: "ce_done (f (entry s p)) = ce_done (entry s p) \<Longrightarrow> ce_done (entry (set_entry p f s) i) = ce_done (entry s i)"
  by (cases "p < length (sv_entries s)"; cases "i = p") (auto simp: set_entry_def list_update_beyond not_less)

lemma cache_others_done:
  "i < length (sv_entries s) \<Longrightarrow> ce_done (entry (fold (cache_other now rc) rs s) i) = ce_done (entry s i)"
proof (induction rs arbitrary: s)
  case (Cons r rs)
  have "i < length (sv_entries (cache_other now rc r s)) \<and> ce_done (entry (cache_other now rc r s) i) = ce_done (entry s i)"
    using Cons.prems by (auto simp: cache_other_def Let_def nth_append done_set_entry split: option.split) (auto simp: set_entry_def)
  with Cons.IH show ?case by simp
qed simp

lemma cache_finish_done:
  assumes "cache_wf own s" and "p < length own" and "own ! p = (q_Name q, q_Qtype q)" and "i < length own" and "i \<noteq> p"
  shows "ce_done (entry (snd (cache_finish now p q res s)) i) = ce_done (entry s i)"
proof -
  obtain rc err where st: "settled s q res = (rc, err)" by (cases "settled s q res")
  define s1 where "s1 = set_entry p (\<lambda>dv. dv\<lparr>ce_answer := filter (\<lambda>r. rh_Rrtype (rr_hdr r) = q_Qtype q \<and> \<not> IsEmptyName r) (fst res), ce_rCode := rc\<rparr>) s"
  have d1: "entry s1 i = entry s i" using assms(5) by (simp add: s1_def set_entry_def)
  have "i < length (sv_entries s1)" using assms(1,4) by (simp add: cache_wf_def s1_def set_entry_def)
  note keep = cache_others_done [OF this]
  show ?thesis
    unfolding cache_finish_parts [OF assms(1-3) st] Let_def s1_def [symmetric]
    using assms(5) d1 keep by (simp add: set_entry_def)
qed

lemma system_wf_step:
  assumes "system_wf own x" and "dns_step x y"
  shows "\<exists>own'. extends own own' \<and> system_wf own' y"
  using assms(2,1)
proof (induction rule: dns_step.induct)
  case (step_begin now q s p s' P)
  have wf: "cache_wf own s" and l: "length own = length (sv_entries s)"
    using step_begin.prems by (auto simp: system_wf_def cache_wf_def)
  note B = cache_begin_wf [OF wf step_begin.hyps, unfolded if_False]
  have "entry s' i = entry s i" if "i < length own" for i
    using step_begin.hyps that l by (auto simp: cache_begin_def Let_def nth_append split: option.splits if_splits)
  then have "system_wf (own @ [(q_Name q, q_Qtype q)]) (s', (p, q) # P)"
    using B l step_begin.prems by (auto simp: system_wf_def nth_append)
  with extends_snoc show ?case by (intro exI conjI)
next
  case (step_finish s P p q P' now res)
  have wf: "cache_wf own s" and p: "p < length own" "own ! p = (q_Name q, q_Qtype q)" and nd: "\<not> ce_done (entry s p)"
    and notin: "p \<notin> fst ` set (P @ P')"
    using step_finish.prems by (auto simp: system_wf_def rev_image_eqI)
  obtain a rc err s' where f: "cache_finish now p q res s = ((a, rc, err), s')" by (metis prod.exhaust)
  obtain own' where e: "extends own own'" and wf': "cache_wf own' s'"
    using cache_finish_effect(1) [OF wf p nd f] by blast
  have "ce_done (entry s' i) = ce_done (entry s i)" if "i < length own" "i \<noteq> p" for i
    using cache_finish_done [OF wf p that, of now res] by (simp add: f)
  note dn = this
  have "i < length own' \<and> own' ! i = (q_Name qi, q_Qtype qi) \<and> \<not> ce_done (entry s' i)" if "(i, qi) \<in> set (P @ P')" for i qi
  proof -
    have "(i, qi) \<in> set (P @ (p, q) # P')" using that by auto
    with step_finish.prems have "i < length own" "own ! i = (q_Name qi, q_Qtype qi)" "\<not> ce_done (entry s i)"
      by (auto simp: system_wf_def dest!: bspec)
    moreover have "i \<noteq> p" using that notin by (metis fst_conv imageI)
    ultimately show ?thesis using extends_nth [OF e] dn by simp
  qed
  then have "system_wf own' (s', P @ P')"
    using step_finish.prems wf' by (auto simp: system_wf_def)
  with e show ?case by (auto simp: f)
next
  case (step_restore p s P a b)
  have wf: "cache_wf own s" and p: "p < length own" using step_restore by (auto simp: system_wf_def cache_wf_def)
  have "system_wf own (restore_entry a b (Some p) s, P)"
    by (rule system_wf_server [OF step_restore.prems restore_entry_wf [OF wf]])
      (use p in \<open>auto simp: restore_entry_def done_set_entry\<close>)
  with extends_refl show ?case by (intro exI conjI)
next
  case (step_purge s P n)
  have "system_wf own (purgeRecordsFromCache n s, P)"
    by (rule system_wf_server [OF step_purge.prems])
      (use step_purge.prems cache_wf_purge in \<open>auto simp: system_wf_def purgeRecordsFromCache_def Let_def\<close>)
  with extends_refl show ?case by (intro exI conjI)
next
  case (step_flush s P)
  have "system_wf own (flushDNS s, P)"
    by (rule system_wf_server [OF step_flush.prems])
      (use step_flush.prems cache_wf_flush in \<open>auto simp: system_wf_def flushDNS_def\<close>)
  with extends_refl show ?case by (intro exI conjI)
next
  case (step_configure s' s P)
  have "system_wf own (s', P)"
    using step_configure by (auto simp: system_wf_def cache_wf_def)
  with extends_refl show ?case by (intro exI conjI)
qed

lemma system_wf_steps:
  assumes "dns_steps x y" and "system_wf own x"
  shows "\<exists>own'. extends own own' \<and> system_wf own' y"
  using assms
proof (induction rule: rtranclp_induct)
  case base
  with extends_refl show ?case by (intro exI conjI)
next
  case (step y z)
  then obtain own1 where o1: "extends own own1" "system_wf own1 y" by blast
  with step(2) system_wf_step obtain own2 where "extends own1 own2" "system_wf own2 z" by blast
  with o1 show ?case using extends_trans by blast
qed

lemma system_wf_new: "system_wf [] (NewServer config namespace, [])"
  by (simp add: system_wf_def cache_wf_def NewServer_def Let_def)

text \<open>The operations of the server are sequences of steps.\<close>

lemma resolveThruCache_steps:
  assumes "resolveThruCache env q s = Some (r, s')"
    and "\<And>s1 P1. dns_steps (s, P) (s1, P1) \<Longrightarrow> dns_steps (s1, P1) (lk_others env s1, P1)"
  shows "dns_steps (s, P) (s', P)"
proof -
  obtain p found s1 where b: "cache_begin (lk_now env) (q_Name q, q_Qtype q) s = ((p, found), s1)"
    by (metis prod.exhaust)
  show ?thesis
  proof (cases found)
    case True
    then have "s1 = s" using b by (auto simp: cache_begin_def Let_def split: option.splits if_splits)
    with True assms(1) have "s' = s \<or> s' = lk_others env s" unfolding resolveThruCache_def b by (auto simp: Let_def split: if_splits)
    with assms(2) [OF rtranclp.rtrancl_refl] show ?thesis by auto
  next
    case False
    have "cache_begin (lk_now env) (q_Name q, q_Qtype q) s = ((p, False), s1)" using b False by simp
    note st = r_into_rtranclp [of dns_step, OF step_begin [OF this, of P]]
    obtain res x where "cache_finish (lk_now env) p q res (lk_others env s1) = (x, s')"
      using assms(1) False unfolding resolveThruCache_def b
      by (auto simp: Let_def split: bind_splits prod.splits)
    then have "s' = snd (cache_finish (lk_now env) p q res (lk_others env s1))" by simp
    then have "dns_step (lk_others env s1, (p, q) # P) (s', P)" using step_finish [of _ "[]"] by simp
    with assms(2) [OF st] st show ?thesis by (meson rtranclp.rtrancl_into_rtrancl rtranclp_trans)
  qed
qed

lemma purges_steps: "dns_steps (s, P) (fold purgeRecordsFromCache ns s, P)"
proof (induction ns arbitrary: s)
  case (Cons n ns)
  have "dns_step (s, P) (purgeRecordsFromCache n s, P)" by (rule step_purge)
  with Cons.IH [of "purgeRecordsFromCache n s"] show ?case by (simp add: converse_rtranclp_into_rtranclp)
qed simp

lemma configure_steps:
  "sv_cache s' = sv_cache s \<Longrightarrow> sv_entries s' = sv_entries s \<Longrightarrow> dns_steps (s', P) y \<Longrightarrow> dns_steps (s, P) y"
  using step_configure converse_rtranclp_into_rtranclp by metis

lemma setters_steps:
  "dns_steps (s, P) (SetExcludes es s, P)" "dns_steps (s, P) (SetMappings ms s, P)"
  "dns_steps (s, P) (SetClusterDNS dns vif s, P)" "dns_steps (s, P) (snd (processSearchPaths_turn prev waiting das s), P)"
proof -
  show "dns_steps (s, P) (SetExcludes es s, P)" "dns_steps (s, P) (SetMappings ms s, P)"
    unfolding SetExcludes_def SetMappings_def Let_def
    by (rule configure_steps [OF _ _ purges_steps], simp_all)+
  show "dns_steps (s, P) (SetClusterDNS dns vif s, P)"
    by (rule configure_steps [OF _ _ rtranclp.rtrancl_refl]) (auto simp: SetClusterDNS_def Let_def split: option.split)
  show "dns_steps (s, P) (snd (processSearchPaths_turn prev waiting das s), P)"
    unfolding processSearchPaths_turn_def Let_def
    by (auto intro!: configure_steps [OF _ _ r_into_rtranclp [of dns_step, OF step_flush]])
qed

section \<open>Properties of the cache\<close>

definition sample_question :: question where
  "sample_question = \<lparr>q_Name = ''web.blue.'', q_Qtype = TypeA, q_Qclass = ClassINET\<rparr>"

definition sample_rr :: "string \<Rightarrow> rr" where
  "sample_rr name = \<lparr>rr_hdr = NewHeader name TypeA, rr_data = RR_A [10, 0, 0, 1]\<rparr>"

definition sample_cname :: rr where
  "sample_cname = \<lparr>rr_hdr = NewHeader ''web.blue.'' TypeCNAME, rr_data = RR_CNAME ''www.blue.''\<rparr>"

definition sample_begun :: Server where
  "sample_begun = snd (cache_begin 0 (''web.blue.'', TypeA) (NewServer defaultDNS ''default''))"

text \<open>
  C34. However lookups, purges and changes of the configuration interleave, an entry of the cache has records of
  its key's type only, and once it is done its code is success or that the name does not exist. A lookup
  that is under way will be answered with records of the question's type only, whatever the cluster
  returns: the records for an alias that came with them never get into the answer.
\<close>

theorem cached_answers_typed:
  assumes "dns_steps (NewServer config namespace, []) (s, P)"
  shows "(\<forall>n t p. map_of (sv_cache s) (n, t) = Some p \<longrightarrow>
            typed t (ce_answer (entry s p)) \<and> (ce_done (entry s p) \<longrightarrow> ce_rCode (entry s p) \<in> {RcodeSuccess, RcodeNameError}))
       \<and> (\<forall>p q now res. (p, q) \<in> set P \<longrightarrow> typed (q_Qtype q) (fst (fst (cache_finish now p q res s))))"
proof -
  obtain own where sw: "system_wf own (s, P)" using system_wf_steps [OF assms system_wf_new] by blast
  then have wf: "cache_wf own s" by (simp add: system_wf_def)
  have "typed (q_Qtype q) (fst (fst (cache_finish now p q res s)))" if "(p, q) \<in> set P" for p q now res
  proof -
    have p: "p < length own" "own ! p = (q_Name q, q_Qtype q)" "\<not> ce_done (entry s p)"
      using sw that by (auto simp: system_wf_def dest!: bspec)
    obtain a rc err s' where f: "cache_finish now p q res s = ((a, rc, err), s')" by (metis prod.exhaust)
    show ?thesis using cache_finish_effect(2) [OF wf p f] by (simp add: f)
  qed
  then show ?thesis using cache_wfD [OF wf] by fastforce
qed

theorem cached_answers_typed_witness:
  "typed TypeA (fst (fst (cache_finish 0 0 sample_question ([sample_cname, sample_rr ''www.blue.''], RcodeSuccess, None) sample_begun)))
    \<and> fst (fst (cache_finish 0 0 sample_question ([sample_cname, sample_rr ''www.blue.''], RcodeSuccess, None) sample_begun)) = [sample_rr ''www.blue.'']"
proof -
  have "cache_begin 0 (q_Name sample_question, q_Qtype sample_question) (NewServer defaultDNS ''default'') = ((0, False), sample_begun)"
    by (simp add: sample_begun_def cache_begin_def NewServer_def Let_def sample_question_def)
  then have "dns_steps (NewServer defaultDNS ''default'', []) (sample_begun, [(0, sample_question)])"
    by (rule r_into_rtranclp [of dns_step, OF step_begin])
  from conjunct2 [OF cached_answers_typed [OF this]]
  have "typed (q_Qtype sample_question) (fst (fst (cache_finish 0 0 sample_question ([sample_cname, sample_rr ''www.blue.''], RcodeSuccess, None) sample_begun)))"
    by (metis list.set_intros(1))
  moreover have "fst (fst (cache_finish 0 0 sample_question ([sample_cname, sample_rr ''www.blue.''], RcodeSuccess, None) sample_begun)) = [sample_rr ''www.blue.'']"
    by code_simp
  ultimately show ?thesis by (simp add: sample_question_def)
qed

text \<open>
  C35. A name that the cluster has just resolved, or reported not to exist, is answered from the cache for a
  minute: the same records and code, no question to the cluster, and nothing changes.
\<close>

theorem lookup_then_cached:
  assumes "dns_steps (NewServer config namespace, []) (s, P)"
    and "map_of (sv_cache s) (q_Name q, q_Qtype q) = None" and "lk_others env = id"
    and "resolveThruCache env q s = Some (r, s')"
    and "lu_err r = None" and "lu_rCode r = RcodeSuccess \<or> lu_rCode r = RcodeNameError"
    and "lk_now env' - lk_now env \<le> cacheTTL"
  shows "resolveThruCache env' q s' = Some (r, s')"
proof -
  let ?key = "(q_Name q, q_Qtype q)"
  obtain own where "system_wf own (s, P)" using system_wf_steps [OF assms(1) system_wf_new] by blast
  then have wf: "cache_wf own s" by (simp add: system_wf_def)
  obtain p s1 where b: "cache_begin (lk_now env) ?key s = ((p, False), s1)"
    using assms(2) by (auto simp: cache_begin_def Let_def)
  have s1: "entry s1 p = \<lparr>ce_created = lk_now env, ce_answer = [], ce_rCode = -1, ce_done = False\<rparr>" "map_of (sv_cache s1) ?key = Some p"
    using b assms(2) by (auto simp: cache_begin_def Let_def)
  note B = cache_begin_wf [OF wf b, unfolded if_False]
  then have wf1: "cache_wf (own @ [?key]) s1" and p: "p < length (own @ [?key])" "(own @ [?key]) ! p = ?key"
    using wf by (auto simp: cache_wf_def)
  obtain res answer rc err where f: "cache_finish (lk_now env) p q res s1 = ((answer, rc, err), s')"
    and r: "r = \<lparr>lu_answer = answer, lu_rCode = rc, lu_err = err, lu_entry = Some p\<rparr>"
    using assms(3,4) unfolding resolveThruCache_def b by (auto simp: Let_def split: bind_splits prod.splits)
  note E = cache_finish_effect [OF wf1 p _ f]
  have nd: "\<not> ce_done (entry s1 p)" by (simp add: s1)
  have "map_of (sv_cache s') ?key = Some p" using E(7) [OF nd] assms(5,6) s1(2) by (auto simp: r)
  moreover have "\<not> expired (lk_now env') (entry s' p)" using E(6) [OF nd] assms(7) by (simp add: expired_def s1)
  ultimately have "cache_begin (lk_now env') ?key s' = ((p, True), s')" by (simp add: cache_begin_def)
  then show ?thesis using E(3,4,5) [OF nd] assms(5) by (simp add: resolveThruCache_def r)
qed

definition sample_env :: look_env where
  "sample_env = \<lparr>lk_now = 5, lk_cluster = (\<lambda>q. \<lparr>ca_rrs = [sample_rr (q_Name q)], ca_rCode = RcodeSuccess, ca_err = None, ca_ctxErr = None\<rparr>),
     lk_others = id, lk_slow = (\<lambda>_. False)\<rparr>"

definition silent_env :: look_env where
  "silent_env = sample_env\<lparr>lk_now := 50000000000, lk_cluster := (\<lambda>q. \<lparr>ca_rrs = [], ca_rCode = RcodeServerFailure, ca_err = Some (LookFailed ''gone''), ca_ctxErr = None\<rparr>)\<rparr>"

definition alpha :: question where
  "alpha = \<lparr>q_Name = ''alpha.'', q_Qtype = TypeA, q_Qclass = ClassINET\<rparr>"

definition sample_resolved :: "(looked_up \<times> Server) option" where
  "sample_resolved = resolveThruCache sample_env alpha (NewServer defaultDNS ''default'')"

lemma sample_resolved_is:
  "sample_resolved = Some (the sample_resolved)" "lu_err (fst (the sample_resolved)) = None" "lu_rCode (fst (the sample_resolved)) = RcodeSuccess"
  by code_simp+

theorem lookup_then_cached_witness:
  "resolveThruCache silent_env alpha (snd (the sample_resolved)) = sample_resolved \<and> map rr_data (lu_answer (fst (the sample_resolved))) = [RR_A [10, 0, 0, 1]]"
proof -
  have "resolveThruCache silent_env alpha (snd (the sample_resolved)) = Some (fst (the sample_resolved), snd (the sample_resolved))"
    by (rule lookup_then_cached [where config = defaultDNS and namespace = "''default''" and s = "NewServer defaultDNS ''default''" and P = "[]" and env = sample_env])
      (use sample_resolved_is in \<open>simp_all add: sample_resolved_def silent_env_def sample_env_def cacheTTL_def NewServer_def Let_def\<close>)
  moreover have "map rr_data (lu_answer (fst (the sample_resolved))) = [RR_A [10, 0, 0, 1]]" by code_simp
  ultimately show ?thesis using sample_resolved_is(1) by simp
qed

section \<open>Properties of the handler\<close>

lemma resolveThruCache_hit:
  assumes "map_of (sv_cache s) (q_Name q, q_Qtype q) = Some p" and "\<not> expired (lk_now env) (entry s p)" and "ce_done (entry s p)"
  shows "resolveThruCache env q s =
    Some (\<lparr>lu_answer = ce_answer (entry s p), lu_rCode = ce_rCode (entry s p), lu_err = None, lu_entry = Some p\<rparr>, s)"
  using assms by (simp add: resolveThruCache_def cache_begin_def Let_def)

text \<open>A question of a name, as asked, that the cache can answer.\<close>

definition hit :: "string \<Rightarrow> u16 \<Rightarrow> nat \<Rightarrow> look_env \<Rightarrow> Server \<Rightarrow> bool" where
  "hit name t p env s \<longleftrightarrow>
     t \<in> {TypeA, TypeAAAA, TypeCNAME} \<and> map_of (sv_cache s) (name, t) = Some p \<and> p < length (sv_entries s)
     \<and> \<not> expired (lk_now env) (entry s p) \<and> ce_done (entry s p) \<and> ce_rCode (entry s p) = RcodeSuccess
     \<and> map_of (sv_mappingsMap s) name = None \<and> index_of name tel2SubDomainDot = None"

definition asks :: "string \<Rightarrow> u16 \<Rightarrow> Server \<Rightarrow> question \<Rightarrow> bool" where
  "asks name t s q \<longleftrightarrow>
     q_Qtype q = t \<and> q_Name q \<noteq> sanityCheckDot \<and> drop_suffix (sv_dropSuffixes s) (to_lower (q_Name q)) = name"

lemma ServeDNS_hit:
  assumes "hit name t p env s" and "asks name t s q" and "dm_Question r = q # qs"
  shows "\<exists>m s'. ServeDNS False env exchange r s = Some (m, s')
    \<and> dm_Question m = [q] \<and> dm_Rcode m = RcodeSuccess
    \<and> dm_Answer m = map (rename_rr name (q_Name q)) (ce_answer (entry s p))
    \<and> entry s' p = (entry s p)\<lparr>ce_answer := map (rename_rr name (q_Name q)) (ce_answer (entry s p))\<rparr>
    \<and> sv_cache s' = sv_cache s \<and> sv_dropSuffixes s' = sv_dropSuffixes s \<and> sv_mappingsMap s' = sv_mappingsMap s
    \<and> length (sv_entries s') = length (sv_entries s)"
proof -
  let ?s = "s\<lparr>sv_requestCount := sv_requestCount s + 1\<rparr>" and ?lq = "q\<lparr>q_Name := name\<rparr>"
  have sup: "SupportedType t" using assms(1) by (auto simp: hit_def SupportedType_def)
  have "serve_lookup False env ?lq ?s =
      Some (\<lparr>lu_answer = ce_answer (entry s p), lu_rCode = RcodeSuccess, lu_err = None, lu_entry = Some p\<rparr>, ?s)"
    using assms(1,2) resolveThruCache_hit [of ?s ?lq p env]
    by (auto simp: serve_lookup_def resolveMapping_def clientLookup_def hit_def asks_def)
  then show ?thesis
    using assms sup
    by (simp add: ServeDNS_def hit_def asks_def Let_def restore_reply_def SetRcode_def restore_entry_def set_entry_def)
qed

lemma rename_rr_name: "rh_Name (rr_hdr (rename_rr a b r)) = (if rh_Name (rr_hdr r) = a then b else rh_Name (rr_hdr r))"
  by (simp add: rename_rr_def)


definition ask :: "string \<Rightarrow> dns_msg" where
  "ask name = SetRcode 7 (alpha\<lparr>q_Name := name\<rparr>) 0"

definition no_pool :: "dns_msg \<Rightarrow> pool_error + dns_msg" where
  "no_pool m = Inl PoolTimeout"


section \<open>Excluded names\<close>

lemma purge_lookup:
  "map_of (sv_cache (purgeRecordsFromCache n s)) k =
     (if k \<in> {(trim_suffix n ''.'' @ ''.'', TypeA), (trim_suffix n ''.'' @ ''.'', TypeAAAA)} then None else map_of (sv_cache s) k)"
  by (auto simp: purgeRecordsFromCache_def Let_def)

lemma purges_lookup:
  "map_of (sv_cache (fold purgeRecordsFromCache ns s)) k =
     (if \<exists>n\<in>set ns. k \<in> {(trim_suffix n ''.'' @ ''.'', TypeA), (trim_suffix n ''.'' @ ''.'', TypeAAAA)} then None
      else map_of (sv_cache s) k)"
  by (induction ns arbitrary: s) (auto simp: purge_lookup)

lemma purges_config:
  "sv_DNS (fold purgeRecordsFromCache ns s) = sv_DNS s" "sv_search (fold purgeRecordsFromCache ns s) = sv_search s"
  by (induction ns arbitrary: s) (auto simp: purgeRecordsFromCache_def Let_def)

text \<open>
  A name that is set to be excluded is not looked up in the cluster any more, and its addresses are no
  longer in the cache, in any server.
\<close>

lemma excluded_name_dropped:
  assumes "e \<in> set excludes" and "t \<in> {TypeA, TypeAAAA}"
  shows "map_of (sv_cache (SetExcludes excludes s)) (trim_suffix (to_lower e) ''.'' @ ''.'', t) = None
    \<and> shouldDoClusterLookup (SetExcludes excludes s) (to_lower e @ ''.'') = Some False"
proof
  show "map_of (sv_cache (SetExcludes excludes s)) (trim_suffix (to_lower e) ''.'' @ ''.'', t) = None"
    using assms AppendUnique_set [of "slice (dn_Excludes (sv_DNS s))" "map to_lower excludes"]
    unfolding SetExcludes_def Let_def purges_lookup by auto
  have "isExcluded (SetExcludes excludes s) (to_lower e)"
    using assms(1) by (simp add: isExcluded_def SetExcludes_def purges_config Let_def)
  then show "shouldDoClusterLookup (SetExcludes excludes s) (to_lower e @ ''.'') = Some False"
    by (simp add: shouldDoClusterLookup_def but_last_def)
qed

text \<open>
  The name in a domain of the search path is excluded with it, but stays in the cache: it is answered from there
  until the entry expires.
\<close>

definition searching :: Server where
  "searching = snd (the (resolveThruCache sample_env (alpha\<lparr>q_Name := ''alpha.default.''\<rparr>) sample_server))"

lemma excluded_still_cached:
  "shouldDoClusterLookup (SetExcludes [''alpha''] searching) ''alpha.default.'' = Some False
    \<and> map_option (\<lambda>(r, _). map rr_data (lu_answer r))
        (resolveThruCache silent_env (alpha\<lparr>q_Name := ''alpha.default.''\<rparr>) (SetExcludes [''alpha''] searching)) = Some [RR_A [10, 0, 0, 1]]"
  by code_simp

section \<open>Smaller facts\<close>

text \<open>Of several records of another type for one name only the last is cached.\<close>

lemma other_records_lost:
  assumes "cache_wf own s" and "rr_hdr r1 = rr_hdr r2" and "\<not> IsEmptyName r2"
  shows "\<exists>p. map_of (sv_cache (cache_other now rc r2 (cache_other now rc r1 s))) (rh_Name (rr_hdr r2), rh_Rrtype (rr_hdr r2)) = Some p
    \<and> ce_answer (entry (cache_other now rc r2 (cache_other now rc r1 s)) p) = [r2]"
proof (cases "map_of (sv_cache s) (rh_Name (rr_hdr r2), rh_Rrtype (rr_hdr r2))")
  case None
  then show ?thesis using assms(2,3) by (simp add: cache_other_def Let_def set_entry_def)
next
  case (Some p)
  with cache_wfD(1) [OF assms(1) Some] show ?thesis
    using assms(2,3) by (simp add: cache_other_def Let_def set_entry_def)
qed

text \<open>
  A name that only ends like the cluster's domain is neither looked up in the cluster nor passed to the fallback:
  the first test asks for a dot before the domain, the second does not.
\<close>

lemma lookalike_name_lost:
  "shouldDoClusterLookup sample_server ''mycluster.local.'' = Some False \<and> has_suffix ''mycluster.local.'' (sv_clusterDomain sample_server)"
  by code_simp

text \<open>A second query of the recursion check during the first one is what the check detects.\<close>

lemma recursion_detected:
  assumes "has_prefix (q_Name q) recursionCheck" and "sv_recursive s = QueryNotYetReceived"
    and "lk_others env = (\<lambda>s. snd (the (resolveWithRecursionCheck env2 q s)))"
  shows "map_option (\<lambda>(_, s). sv_recursive s) (resolveWithRecursionCheck env q s) = Some Detected"
  using assms by (simp add: resolveWithRecursionCheck_def own_reply_def)

lemma recursion_not_detected:
  assumes "has_prefix (q_Name q) recursionCheck" and "sv_recursive s = QueryNotYetReceived" and "lk_others env = id"
  shows "map_option (\<lambda>(_, s). sv_recursive s) (resolveWithRecursionCheck env q s) = Some NotDetected"
  using assms by (simp add: resolveWithRecursionCheck_def own_reply_def)

lemma recursion_check_ends_ready:
  "performRecursionCheck inContainer enabled ws s = Some s' \<Longrightarrow> sv_ready s'"
  by (auto simp: performRecursionCheck_def split: if_splits bind_splits)

end
