(* ===== verification/Spec2Isabelle.thy ===== *)
theory Spec2Isabelle
  imports Tunnel_Endpoint Vip Agent_Container Manager_Service Dns_Server
begin

text \<open>
  Verification of Telepresence: the tunnel protocol and the notations it uses.
\<close>

end
